(* ===== verification/Gsbm_Prelude.thy ===== *)
theory Gsbm_Prelude
  imports Main "HOL-Library.Word"
begin

text \<open>
  Shared vocabulary of the development: the machine types, the sentinel errors of the
  package (\<^verbatim>\<open>storage/gsbm/gsbm.go\<close>), the outcome of a fallible Go call, slicing with its
  run-time panic, and the little-endian access of \<^verbatim>\<open>encoding/binary\<close>.
  A Go \<^verbatim>\<open>int\<close> (length, offset, size) is \<^typ>\<open>int\<close>; unsigned wire values keep their width.
\<close>

unbundle bit_operations_syntax

type_synonym byte = "8 word"
type_synonym u16 = "16 word"
type_synonym u32 = "32 word"
type_synonym u64 = "64 word"

text \<open>A Go string is its bytes; \<^verbatim>\<open>int64\<close> is the 64-bit word read with \<^const>\<open>sint\<close>.\<close>

type_synonym gostring = "byte list"
type_synonym i64 = "64 word"

named_theorems reader_defs \<open>unfolding rules of the Reader operations\<close>
named_theorems writer_defs \<open>unfolding rules of the Writer operations\<close>

section \<open>Errors and outcomes\<close>

text \<open>
  The sentinels of \<^verbatim>\<open>gsbm.go\<close> and \<^verbatim>\<open>compress.go\<close>; \<open>ErrForeign\<close> is an error value made
  outside the package (an \<^verbatim>\<open>io\<close> error, a codec's own error).
\<close>

datatype gerr =
    ErrBadMagic | ErrUnsupportedVer | ErrReservedFlags | ErrTruncated | ErrTrailingBytes
  | ErrVarintOverflow | ErrZeroTag | ErrReservedWire | ErrWrongWireType | ErrTagOverflow
  | ErrInvalidMapKey | ErrInvalidPresence | ErrBodyTooLarge | ErrIntegerOverflow
  | ErrAllocTooLarge | ErrBodyLenMismatch | ErrCorruptCompressedBody
  | ErrUnsupportedCompression | ErrGzipTooLarge | ErrInflatedLenMismatch
  | ErrUnreachableCodec | ErrForeign string

text \<open>A call returns a value, returns an error, or panics at run time.\<close>

datatype 'a outcome = Ret 'a | Fail gerr | Panic

fun map_outcome :: "('a \<Rightarrow> 'b) \<Rightarrow> 'a outcome \<Rightarrow> 'b outcome" where
  "map_outcome f (Ret x) = Ret (f x)"
| "map_outcome f (Fail e) = Fail e"
| "map_outcome f Panic = Panic"

lemma map_outcome_Ret_iff [simp]: "map_outcome f x = Ret y \<longleftrightarrow> (\<exists>z. x = Ret z \<and> y = f z)"
  by (cases x) auto

lemma map_outcome_Fail_iff [simp]: "map_outcome f x = Fail e \<longleftrightarrow> x = Fail e"
  by (cases x) auto

lemma map_outcome_Panic_iff [simp]: "map_outcome f x = Panic \<longleftrightarrow> x = Panic"
  by (cases x) auto

section \<open>Slices\<close>

abbreviation len :: "'a list \<Rightarrow> int" where
  "len xs \<equiv> int (length xs)"

text \<open>
  \<open>go_index b i\<close> is \<^verbatim>\<open>b[i]\<close> and \<open>go_slice b lo hi\<close> is \<^verbatim>\<open>b[lo:hi]\<close>; \<open>None\<close> is the run-time
  panic. Go bounds a slice expression by the capacity; the model bounds it by the length,
  so it panics at least where the code does.
\<close>

definition go_index :: "'a list \<Rightarrow> int \<Rightarrow> 'a option" where
  "go_index b i = (if 0 \<le> i \<and> i < len b then Some (b ! nat i) else None)"

definition go_slice :: "'a list \<Rightarrow> int \<Rightarrow> int \<Rightarrow> 'a list option" where
  "go_slice b lo hi =
     (if 0 \<le> lo \<and> lo \<le> hi \<and> hi \<le> len b then Some (take (nat (hi - lo)) (drop (nat lo) b))
      else None)"

lemma go_index_in [simp]: "0 \<le> i \<Longrightarrow> i < len b \<Longrightarrow> go_index b i = Some (b ! nat i)"
  by (simp add: go_index_def)

lemma go_slice_in [simp]:
  "0 \<le> lo \<Longrightarrow> lo \<le> hi \<Longrightarrow> hi \<le> len b \<Longrightarrow>
     go_slice b lo hi = Some (take (nat (hi - lo)) (drop (nat lo) b))"
  by (simp add: go_slice_def)

lemma go_index_SomeD: "go_index b i = Some c \<Longrightarrow> 0 \<le> i \<and> i < len b \<and> c = b ! nat i"
  by (auto simp: go_index_def split: if_splits)

lemma go_slice_SomeD:
  "go_slice b lo hi = Some s \<Longrightarrow>
     0 \<le> lo \<and> lo \<le> hi \<and> hi \<le> len b \<and> s = take (nat (hi - lo)) (drop (nat lo) b)"
  by (auto simp: go_slice_def split: if_splits)

lemma go_slice_length: "go_slice b lo hi = Some s \<Longrightarrow> len s = hi - lo"
  by (auto dest!: go_slice_SomeD)

lemma go_slice_append [simp]:
  assumes "lo = len pre" and "hi = len pre + len s"
  shows "go_slice (pre @ s @ post) lo hi = Some s"
  using assms by (simp add: go_slice_def)

lemma go_slice_whole [simp]: "go_slice b 0 (len b) = Some b"
  by (simp add: go_slice_def)

lemma go_slice_prefix:
  "0 \<le> hi \<Longrightarrow> hi \<le> len b \<Longrightarrow> go_slice b 0 hi = Some (take (nat hi) b)"
  by (simp add: go_slice_def)

lemma go_slice_take:
  "0 \<le> lo \<Longrightarrow> lo \<le> hi \<Longrightarrow> hi \<le> e \<Longrightarrow> e \<le> len b \<Longrightarrow>
     go_slice (take (nat e) b) lo hi = go_slice b lo hi"
  by (simp add: go_slice_def take_drop min_def)

lemma drop_eq_ConsD:
  assumes "drop n b = c # r"
  shows "n < length b" and "b ! n = c" and "drop (Suc n) b = r"
proof -
  show n: "n < length b" using assms by (metis drop_all list.distinct(1) not_le)
  then show "b ! n = c" and "drop (Suc n) b = r"
    using assms by (simp_all flip: Cons_nth_drop_Suc)
qed

section \<open>Little-endian integers\<close>

text \<open>\<open>le_put k w\<close> is the \<open>k\<close>-byte little-endian image of \<open>w\<close>; \<open>le_get\<close> reads one back.\<close>

primrec le_put :: "nat \<Rightarrow> 'a::len word \<Rightarrow> byte list" where
  "le_put 0 w = []"
| "le_put (Suc k) w = ucast w # le_put k (drop_bit 8 w)"

primrec le_get :: "byte list \<Rightarrow> 'a::len word" where
  "le_get [] = 0"
| "le_get (b # bs) = ucast b OR push_bit 8 (le_get bs)"

lemma length_le_put [simp]: "length (le_put k w) = k"
  by (induction k arbitrary: w) auto

lemma le_get_put_take: "le_get (le_put k w) = take_bit (8 * k) w"
proof (induction k arbitrary: w)
  case 0
  then show ?case by simp
next
  case (Suc k)
  have "ucast (ucast w :: byte) OR push_bit 8 (take_bit (8 * k) (drop_bit 8 w)) =
          take_bit (8 * Suc k) w"
    by (rule bit_eqI) (auto simp: bit_simps)
  then show ?case by (simp add: Suc.IH)
qed

lemma le_get_put [simp]: "LENGTH('a) \<le> 8 * k \<Longrightarrow> le_get (le_put k w) = (w :: 'a::len word)"
  by (simp add: le_get_put_take take_bit_word_beyond_length_eq)

section \<open>Converting between \<^verbatim>\<open>int\<close> and \<^verbatim>\<open>uint64\<close>\<close>

lemma unat_u64_of_int: "0 \<le> i \<Longrightarrow> i < 2 ^ 64 \<Longrightarrow> unat (word_of_int i :: u64) = nat i"
  by (simp add: unat_eq_nat_uint uint_word_of_int)

lemma uint_u64_of_int: "0 \<le> i \<Longrightarrow> i < 2 ^ 64 \<Longrightarrow> uint (word_of_int i :: u64) = i"
  by (simp add: uint_word_of_int)

lemma u64_of_int_less_iff:
  "0 \<le> i \<Longrightarrow> i < 2 ^ 64 \<Longrightarrow> (word_of_int i :: u64) < n \<longleftrightarrow> i < uint n"
  by (simp add: word_less_def uint_u64_of_int)

lemma less_u64_of_int_iff:
  "0 \<le> i \<Longrightarrow> i < 2 ^ 64 \<Longrightarrow> n < (word_of_int i :: u64) \<longleftrightarrow> uint n < i"
  by (simp add: word_less_def uint_u64_of_int)

lemma uint_ucast_u32 [simp]: "uint (ucast (w :: u32) :: u64) = uint w"
  using unsigned_less [of w, where ?'a = int]
  by (simp add: unsigned_ucast_eq take_bit_int_eq_self)

end
