(* ===== verification/Varint.thy ===== *)
theory Varint
  imports Gsbm_Prelude
begin

text \<open>
  LEB128 varints: \<^verbatim>\<open>storage/gsbm/varint.go\<close>. \<open>uvarint\<close> names the bytes \<^verbatim>\<open>appendUvarint\<close>
  appends; the decoder is proved to invert it at any offset, to consume between
  \<open>varint_len v\<close> and ten bytes and never to read outside the buffer.
\<close>

section \<open>The code\<close>

definition varint_len :: "u64 \<Rightarrow> int" where
  "varint_len v =
     (if v < push_bit 7 1 then 1
      else if v < push_bit 14 1 then 2
      else if v < push_bit 21 1 then 3
      else if v < push_bit 28 1 then 4
      else if v < push_bit 35 1 then 5
      else if v < push_bit 42 1 then 6
      else if v < push_bit 49 1 then 7
      else if v < push_bit 56 1 then 8
      else if v < push_bit 63 1 then 9
      else 10)"

lemma unat_drop7: "unat (drop_bit 7 (v :: u64)) = unat v div 128"
  unfolding unat_drop_bit_eq by (simp add: drop_bit_eq_div)

lemma drop7_less: "0x80 \<le> v \<Longrightarrow> unat (drop_bit 7 (v :: u64)) < unat v"
  by (simp add: unat_drop7 word_le_nat_alt)

function append_uvarint :: "byte list \<Rightarrow> u64 \<Rightarrow> byte list" where
  "append_uvarint b v =
     (if 0x80 \<le> v then append_uvarint (b @ [ucast v OR 0x80]) (drop_bit 7 v)
      else b @ [ucast v])"
  by pat_completeness auto
termination
  by (relation "measure (\<lambda>(b, v). unat v)") (auto simp: drop7_less)

declare append_uvarint.simps [simp del]

text \<open>\<open>put_uvarint_at b i v\<close> is the loop of \<^verbatim>\<open>putUvarint\<close> at index \<open>i\<close>; \<open>None\<close> is the index panic.\<close>

function put_uvarint_at :: "byte list \<Rightarrow> int \<Rightarrow> u64 \<Rightarrow> (byte list \<times> int) option" where
  "put_uvarint_at b i v =
     (if \<not> (0 \<le> i \<and> i < len b) then None
      else if 0x80 \<le> v then put_uvarint_at (b[nat i := ucast v OR 0x80]) (i + 1) (drop_bit 7 v)
      else Some (b[nat i := ucast v], i + 1))"
  by pat_completeness auto
termination
  by (relation "measure (\<lambda>(b, i, v). unat v)") (auto simp: drop7_less)

declare put_uvarint_at.simps [simp del]

definition put_uvarint :: "byte list \<Rightarrow> u64 \<Rightarrow> (byte list \<times> int) option" where
  "put_uvarint b v = put_uvarint_at b 0 v"

text \<open>\<open>read_uvarint_at b pos i shift v\<close> is the loop of \<^verbatim>\<open>readUvarint\<close> from iteration \<open>i\<close> on.\<close>

function read_uvarint_at ::
  "byte list \<Rightarrow> int \<Rightarrow> nat \<Rightarrow> nat \<Rightarrow> u64 \<Rightarrow> (u64 \<times> int) outcome" where
  "read_uvarint_at b pos i shift v =
     (if 10 \<le> i then Fail ErrVarintOverflow
      else if len b \<le> pos + int i then Fail ErrTruncated
      else case go_index b (pos + int i) of
        None \<Rightarrow> Panic
      | Some c \<Rightarrow>
          if i = 9 \<and> 1 < c then Fail ErrVarintOverflow
          else let v' = v OR push_bit shift (ucast (c AND 0x7f)) in
            if c < 0x80 then Ret (v', int i + 1)
            else read_uvarint_at b pos (Suc i) (shift + 7) v')"
  by pat_completeness auto
termination
  by (relation "measure (\<lambda>(b, pos, i, shift, v). 10 - i)") auto

declare read_uvarint_at.simps [simp del]

definition read_uvarint :: "byte list \<Rightarrow> int \<Rightarrow> (u64 \<times> int) outcome" where
  "read_uvarint b pos = read_uvarint_at b pos 0 0 0"

section \<open>The encoder\<close>

definition uvarint :: "u64 \<Rightarrow> byte list" where
  "uvarint v = append_uvarint [] v"

lemma append_uvarint_prefix: "append_uvarint (a @ b) v = a @ append_uvarint b v"
proof (induction b v arbitrary: a rule: append_uvarint.induct)
  case (1 b v)
  show ?case
    using 1 [of a] by (simp add: append_uvarint.simps [of "a @ b" v] append_uvarint.simps [of b v])
qed

lemma append_uvarint_eq: "append_uvarint b v = b @ uvarint v"
  using append_uvarint_prefix [of b "[]" v] by (simp add: uvarint_def)

lemma uvarint_rec:
  "uvarint v = (if 0x80 \<le> v then (ucast v OR 0x80) # uvarint (drop_bit 7 v) else [ucast v])"
  using append_uvarint_eq [of "[ucast v OR 0x80]" "drop_bit 7 v"]
  by (simp add: uvarint_def append_uvarint.simps [of "[]" v])

lemma uvarint_nonempty [simp]: "uvarint v \<noteq> []"
  by (subst uvarint_rec) simp

lemma varint_len_unat:
  "varint_len v =
     (if unat v < 2 ^ 7 then 1 else if unat v < 2 ^ 14 then 2 else if unat v < 2 ^ 21 then 3
      else if unat v < 2 ^ 28 then 4 else if unat v < 2 ^ 35 then 5 else if unat v < 2 ^ 42 then 6
      else if unat v < 2 ^ 49 then 7 else if unat v < 2 ^ 56 then 8 else if unat v < 2 ^ 63 then 9
      else 10)"
  by (simp add: varint_len_def word_less_nat_alt)

lemma varint_len_rec:
  "varint_len v = (if 0x80 \<le> v then 1 + varint_len (drop_bit 7 v) else 1)"
proof (cases "0x80 \<le> v")
  case True
  have u: "unat v < 2 ^ 64" using unsigned_less [of v] by simp
  have d: "unat v div 128 < 2 ^ k \<longleftrightarrow> unat v < 2 ^ (k + 7)" for k
    by (simp add: div_less_iff_less_mult power_add)
  have "\<not> unat v < 2 ^ 7" using True by (simp add: word_le_nat_alt)
  moreover have "unat v div 128 < 2 ^ 57" using u d [of 57] by simp
  then have "unat v div 128 < 2 ^ 63" by simp
  ultimately show ?thesis
    using True u by (simp only: varint_len_unat unat_drop7 d) simp
next
  case False
  then show ?thesis by (simp add: varint_len_def not_le)
qed

lemma length_uvarint: "len (uvarint v) = varint_len v"
proof (induction v rule: measure_induct_rule [where f = unat])
  case (less v)
  show ?case
  proof (cases "0x80 \<le> v")
    case True
    then show ?thesis
      using less [OF drop7_less [OF True]]
      by (subst uvarint_rec, subst varint_len_rec) simp
  next
    case False
    then show ?thesis by (subst uvarint_rec, subst varint_len_rec) simp
  qed
qed

lemma varint_len_bounds: "1 \<le> varint_len v \<and> varint_len v \<le> 10"
  by (simp add: varint_len_def)

section \<open>Decoding what the encoder wrote\<close>

lemma read_uvarint_at_hit:
  assumes "i < 10" and "0 \<le> pos" and "pos + int i < len b" and "b ! nat (pos + int i) = c"
    and "\<not> (i = 9 \<and> 1 < c)"
  shows "read_uvarint_at b pos i shift v =
     (if c < 0x80 then Ret (v OR push_bit shift (ucast (c AND 0x7f)), int i + 1)
      else read_uvarint_at b pos (Suc i) (shift + 7) (v OR push_bit shift (ucast (c AND 0x7f))))"
  using assms by (subst read_uvarint_at.simps) (auto simp: Let_def)

lemma low7_bits: "ucast ((ucast (v :: u64) OR 0x80 :: byte) AND 0x7f) = take_bit 7 v"
  and low7_bits': "ucast ((ucast (v :: u64) :: byte) AND 0x7f) = take_bit 7 v"
proof -
  have m: "0x7f = (mask 7 :: byte)" by (simp add: mask_eq_exp_minus_1)
  have e: "0x80 = (push_bit 7 1 :: byte)" by simp
  show "ucast ((ucast (v :: u64) OR 0x80 :: byte) AND 0x7f) = take_bit 7 v"
    unfolding m e by (rule bit_eqI) (simp only: bit_simps, auto)
  show "ucast ((ucast (v :: u64) :: byte) AND 0x7f) = take_bit 7 v"
    unfolding m by (rule bit_eqI) (simp only: bit_simps, auto)
qed

lemma take_bit_step:
  "take_bit n (w :: u64) OR push_bit n (take_bit 7 (drop_bit n w)) = take_bit (n + 7) w"
  by (rule bit_eqI) (auto simp: bit_simps)

lemma take_drop_or: "take_bit n (w :: u64) OR push_bit n (drop_bit n w) = w"
proof (rule bit_eqI)
  fix k assume "possible_bit TYPE(u64) k"
  then show "bit (take_bit n w OR push_bit n (drop_bit n w)) k = bit w k"
    by (cases "k < n") (auto simp: bit_simps)
qed

lemma high_byte_ge: "0x80 \<le> (ucast (v :: u64) OR 0x80 :: byte)"
  by (rule le_word_or1)

lemma low_byte_less: "\<not> 0x80 \<le> (v :: u64) \<Longrightarrow> (ucast v :: byte) < 0x80"
  by (simp add: word_less_nat_alt word_le_nat_alt unsigned_ucast_eq take_bit_eq_mod)

text \<open>
  The loop invariant of the decoder on canonical input: after \<open>i\<close> bytes the accumulator holds
  the low \<open>7 * i\<close> bits of \<open>V\<close> and the bytes still to come encode the rest of it.
\<close>

lemma read_uvarint_at_uvarint:
  assumes "i \<le> 9" and "0 \<le> pos" and "v = drop_bit (7 * i) V"
    and "drop (nat pos + i) b = uvarint v @ rest"
  shows "read_uvarint_at b pos i (7 * i) (take_bit (7 * i) V) = Ret (V, int i + len (uvarint v))"
  using assms
proof (induction v arbitrary: i rule: measure_induct_rule [where f = unat])
  case (less v)
  have n: "nat (pos + int i) = nat pos + i" using less.prems(2) by linarith
  have top: "unat v \<le> 1" if "i = 9"
  proof -
    have "unat V < 2 ^ 64" using unsigned_less [of V, where ?'a = nat] by simp
    then have "unat V div 2 ^ 63 \<le> 1" by (simp add: less_mult_imp_div_less)
    with that show ?thesis
      unfolding less.prems(3) unat_drop_bit_eq by (simp add: drop_bit_eq_div)
  qed
  show ?case
  proof (cases "0x80 \<le> v")
    case True
    let ?c = "ucast v OR 0x80 :: byte"
    have i: "i < 9" using True top less.prems(1) by (force simp: word_le_nat_alt)
    have "drop (nat pos + i) b = ?c # uvarint (drop_bit 7 v) @ rest"
      using less.prems(4) True by (simp add: uvarint_rec [of v])
    note d = drop_eq_ConsD [OF this]
    have "read_uvarint_at b pos i (7 * i) (take_bit (7 * i) V) =
        read_uvarint_at b pos (Suc i) (7 * Suc i) (take_bit (7 * Suc i) V)"
      using i less.prems(2,3) d n high_byte_ge [of v] take_bit_step [of "7 * i" V]
      by (subst read_uvarint_at_hit [where c = ?c]) (auto simp: low7_bits not_less add.commute)
    also have "\<dots> = Ret (V, int (Suc i) + len (uvarint (drop_bit 7 v)))"
      using less.IH [OF drop7_less [OF True], of "Suc i"] i less.prems(2,3) d(3)
      by (simp add: add.commute)
    finally show ?thesis using True by (simp add: uvarint_rec [of v])
  next
    case False
    let ?c = "ucast v :: byte"
    have "drop (nat pos + i) b = ?c # rest"
      using less.prems(4) False by (simp add: uvarint_rec [of v])
    note d = drop_eq_ConsD [OF this]
    have v: "take_bit 7 v = v"
      using False
      by (simp add: word_unat_eq_iff unsigned_take_bit_eq take_bit_nat_eq_self word_le_nat_alt)
    have "take_bit (7 * i) V OR push_bit (7 * i) v = V"
      unfolding less.prems(3) by (rule take_drop_or)
    moreover have "\<not> (i = 9 \<and> 1 < ?c)"
      using top by (auto simp: word_less_nat_alt unsigned_ucast_eq take_bit_eq_mod)
    ultimately show ?thesis
      using less.prems(1,2) d n low_byte_less [OF False] False v
      by (subst read_uvarint_at_hit [where c = ?c]) (auto simp: low7_bits' uvarint_rec [of v])
  qed
qed

text \<open>
  The round trip at any offset, with anything after the varint.
\<close>

lemma read_uvarint_uvarint:
  assumes "0 \<le> pos" and "drop (nat pos) b = uvarint v @ rest"
  shows "read_uvarint b pos = Ret (v, varint_len v)"
  using read_uvarint_at_uvarint [of 0 pos v v b rest] assms
  by (simp add: read_uvarint_def length_uvarint)

section \<open>Decoding arbitrary input\<close>

text \<open>\<open>leb_value bs\<close> is the number a group of little-endian 7-bit digits denotes.\<close>

primrec leb_value :: "byte list \<Rightarrow> nat" where
  "leb_value [] = 0"
| "leb_value (c # cs) = unat c mod 128 + 128 * leb_value cs"

lemma leb_value_append:
  "leb_value (xs @ ys) = leb_value xs + 128 ^ length xs * leb_value ys"
  by (induction xs) (auto simp: algebra_simps)

lemma leb_value_bound: "leb_value xs < 128 ^ length xs"
proof (induction xs)
  case (Cons c cs)
  have "unat c mod 128 < 128" by simp
  moreover have "leb_value cs + 1 \<le> 128 ^ length cs" using Cons by simp
  ultimately have "unat c mod 128 + 128 * leb_value cs < 128 * 128 ^ length cs" by linarith
  then show ?case by simp
qed simp

lemma or_push_bit_unat:
  assumes "unat (acc :: u64) < 2 ^ n" and "unat w * 2 ^ n < 2 ^ 64"
  shows "unat (acc OR push_bit n w) = unat acc + unat w * 2 ^ n"
proof -
  have "unat (push_bit n w) = take_bit 64 (push_bit n (unat w))"
    unfolding unsigned_push_bit_eq by simp
  then have p: "unat (push_bit n w) = push_bit n (unat w)"
    using assms(2) by (simp add: push_bit_eq_mult take_bit_nat_eq_self)
  have acc: "unat acc = take_bit n (unat acc)" using assms(1) by (simp add: take_bit_nat_eq_self)
  have "take_bit n (unat acc) AND push_bit n (unat w) = 0"
    by (rule bit_eqI) (auto simp: bit_simps)
  then have "unat acc AND push_bit n (unat w) = 0" using acc by simp
  then have "unat acc OR push_bit n (unat w) = unat acc + push_bit n (unat w)"
    by (simp add: disjunctive_add_eq_or)
  then show ?thesis unfolding unsigned_or_eq p by (simp add: push_bit_eq_mult)
qed

text \<open>
  \<open>varint_group bs\<close>: a non-empty group whose last byte alone has the continuation bit clear.
\<close>

fun varint_group :: "byte list \<Rightarrow> bool" where
  "varint_group [] \<longleftrightarrow> False"
| "varint_group [c] \<longleftrightarrow> c < 0x80"
| "varint_group (c # cs) \<longleftrightarrow> 0x80 \<le> c \<and> varint_group cs"

lemma varint_group_Cons:
  "varint_group (c # cs) \<longleftrightarrow> (if c < 0x80 then cs = [] else varint_group cs)"
  by (cases cs) (auto simp: not_less)

lemma and_7f_unat: "unat ((c :: byte) AND 0x7f) = unat c mod 128"
proof -
  have "c AND 0x7f = take_bit 7 c"
    unfolding take_bit_eq_mask by (simp add: mask_eq_exp_minus_1)
  then have "unat (c AND 0x7f) = take_bit 7 (unat c)" by (simp only: unsigned_take_bit_eq)
  then show ?thesis by (simp add: take_bit_eq_mod)
qed

lemma read_uvarint_at_Ret:
  assumes "read_uvarint_at b pos i (7 * i) acc = Ret (v, n)" and "unat acc < 128 ^ i" and "0 \<le> pos"
  shows "\<exists>bs rest. drop (nat pos + i) b = bs @ rest \<and> varint_group bs \<and> n = int i + len bs \<and>
           n \<le> 10 \<and> unat v = unat acc + 128 ^ i * leb_value bs"
  using assms
proof (induction "10 - i" arbitrary: i acc)
  case 0
  then show ?case by (subst (asm) read_uvarint_at.simps) simp
next
  case (Suc k)
  let ?p = "pos + int i"
  have i: "i < 10" using Suc.hyps(2) by simp
  have inb: "?p < len b"
    using Suc.prems(1) i by (subst (asm) read_uvarint_at.simps) (auto split: if_splits)
  have p: "nat ?p = nat pos + i" using Suc.prems(3) by linarith
  then have "nat pos + i < length b" using inb Suc.prems(3) by linarith
  then have nth: "drop (nat pos + i) b = b ! nat ?p # drop (nat pos + Suc i) b"
    by (simp add: p Cons_nth_drop_Suc)
  let ?c = "b ! nat ?p"
  have top: "\<not> (i = 9 \<and> 1 < ?c)"
    using Suc.prems(1,3) i inb by (subst (asm) read_uvarint_at.simps) (auto split: if_splits)
  let ?acc = "acc OR push_bit (7 * i) (ucast (?c AND 0x7f))"
  have digit: "unat (ucast (?c AND 0x7f) :: u64) = unat ?c mod 128"
    by (simp add: unsigned_ucast_eq and_7f_unat take_bit_nat_eq_self)
  have "(unat ?c mod 128) * 2 ^ (7 * i) < 2 ^ 64"
  proof (cases "i = 9")
    case True
    then show ?thesis using top by (simp add: word_less_nat_alt)
  next
    case False
    then have "(2::nat) ^ (7 * i) \<le> 2 ^ 56" using i by (intro power_increasing) auto
    moreover have "unat ?c mod 128 < 128" by simp
    ultimately have "(unat ?c mod 128) * 2 ^ (7 * i) \<le> 128 * 2 ^ 56" by (intro mult_le_mono) auto
    then show ?thesis by simp
  qed
  then have acc': "unat ?acc = unat acc + (unat ?c mod 128) * 128 ^ i"
    using or_push_bit_unat [of acc "7 * i" "ucast (?c AND 0x7f)"] Suc.prems(2) digit
    by (simp add: power_mult)
  have hit: "read_uvarint_at b pos i (7 * i) acc =
      (if ?c < 0x80 then Ret (?acc, int i + 1) else read_uvarint_at b pos (Suc i) (7 * Suc i) ?acc)"
    using read_uvarint_at_hit [OF i Suc.prems(3) inb refl top] by (simp add: add.commute)
  show ?case
  proof (cases "?c < 0x80")
    case True
    then have "drop (nat pos + i) b = [?c] @ drop (nat pos + Suc i) b \<and> varint_group [?c] \<and>
        n = int i + len [?c] \<and> n \<le> 10 \<and> unat v = unat acc + 128 ^ i * leb_value [?c]"
      using Suc.prems(1) hit nth acc' i by auto
    then show ?thesis by blast
  next
    case False
    have lt: "unat ?acc < 128 ^ Suc i"
    proof -
      have "(unat ?c mod 128) * 128 ^ i \<le> 127 * 128 ^ i" by (intro mult_le_mono1) simp
      then show ?thesis unfolding acc' power_Suc using Suc.prems(2) by linarith
    qed
    have eq: "read_uvarint_at b pos (Suc i) (7 * Suc i) ?acc = Ret (v, n)"
      using hit False Suc.prems(1) by simp
    have "k = 10 - Suc i" using Suc.hyps(2) by simp
    from Suc.hyps(1) [OF this eq lt Suc.prems(3)]
    obtain bs rest where "drop (nat pos + Suc i) b = bs @ rest" "varint_group bs"
        "n = int (Suc i) + len bs" "n \<le> 10" "unat v = unat ?acc + 128 ^ Suc i * leb_value bs"
      by blast
    then have "drop (nat pos + i) b = (?c # bs) @ rest \<and> varint_group (?c # bs) \<and>
        n = int i + len (?c # bs) \<and> n \<le> 10 \<and> unat v = unat acc + 128 ^ i * leb_value (?c # bs)"
      using nth acc' False by (auto simp: varint_group_Cons algebra_simps)
    then show ?thesis by blast
  qed
qed

lemma read_uvarint_Ret:
  assumes "read_uvarint b pos = Ret (v, n)" and "0 \<le> pos"
  obtains bs rest where "drop (nat pos) b = bs @ rest" and "varint_group bs" and "n = len bs"
    and "n \<le> 10" and "unat v = leb_value bs"
  using read_uvarint_at_Ret [of b pos 0 0 v n] assms by (auto simp: read_uvarint_def)

lemma read_uvarint_at_no_panic: "0 \<le> pos \<Longrightarrow> read_uvarint_at b pos i shift v \<noteq> Panic"
proof (induction b pos i shift v rule: read_uvarint_at.induct)
  case (1 b pos i shift v)
  then show ?case
    by (subst read_uvarint_at.simps) (auto simp: Let_def)
qed

lemma read_uvarint_no_panic [simp]: "0 \<le> pos \<Longrightarrow> read_uvarint b pos \<noteq> Panic"
  by (simp add: read_uvarint_def read_uvarint_at_no_panic)

lemma varint_len_le_iff:
  "unat v < 128 ^ k \<Longrightarrow> 1 \<le> k \<Longrightarrow> varint_len v \<le> int k"
proof (induction k arbitrary: v)
  case (Suc k)
  show ?case
  proof (cases "0x80 \<le> v")
    case True
    then have "1 \<le> k" using Suc.prems(1) by (cases k) (auto simp: word_le_nat_alt)
    moreover have "unat (drop_bit 7 v) < 128 ^ k"
      using Suc.prems(1) by (simp add: unat_drop7 less_mult_imp_div_less mult.commute)
    ultimately show ?thesis using Suc.IH [of "drop_bit 7 v"] True by (subst varint_len_rec) simp
  next
    case False
    then show ?thesis by (subst varint_len_rec) simp
  qed
qed simp

lemma read_uvarint_bounds:
  assumes "read_uvarint b pos = Ret (v, n)" and "0 \<le> pos"
  shows "varint_len v \<le> n" and "1 \<le> n" and "n \<le> 10" and "pos + n \<le> len b"
proof -
  obtain bs rest where bs: "drop (nat pos) b = bs @ rest" "varint_group bs" "n = len bs" "n \<le> 10"
      "unat v = leb_value bs"
    using read_uvarint_Ret [OF assms] .
  then have "bs \<noteq> []" by auto
  then show "varint_len v \<le> n"
    using varint_len_le_iff [of v "length bs"] leb_value_bound [of bs] bs by (simp add: Suc_leI)
  show "1 \<le> n" using \<open>bs \<noteq> []\<close> bs by (simp add: Suc_leI)
  show "n \<le> 10" by fact
  have "length bs + length rest = length b - nat pos" using bs by (metis length_append length_drop)
  moreover have "0 < length bs" using \<open>bs \<noteq> []\<close> by simp
  ultimately show "pos + n \<le> len b" using bs(3) assms(2) by linarith
qed

text \<open>One iteration on the bytes from the offset on: the decoder looks at nothing else.\<close>

lemma read_uvarint_at_drop:
  assumes "0 \<le> pos"
  shows "read_uvarint_at b pos i shift v =
     (if 10 \<le> i then Fail ErrVarintOverflow
      else case drop (nat pos + i) b of
        [] \<Rightarrow> Fail ErrTruncated
      | c # _ \<Rightarrow>
          if i = 9 \<and> 1 < c then Fail ErrVarintOverflow
          else if c < 0x80 then Ret (v OR push_bit shift (ucast (c AND 0x7f)), int i + 1)
          else read_uvarint_at b pos (Suc i) (shift + 7) (v OR push_bit shift (ucast (c AND 0x7f))))"
proof (cases "drop (nat pos + i) b")
  case Nil
  then have "len b \<le> pos + int i" using assms by simp
  then show ?thesis using Nil by (subst read_uvarint_at.simps) simp
next
  case (Cons c cs)
  note d = drop_eq_ConsD [OF Cons]
  have n: "nat (pos + int i) = nat pos + i" using assms by simp
  have "pos + int i < len b" using d(1) assms by linarith
  then show ?thesis
    using Cons d(2) n assms by (subst read_uvarint_at.simps) (simp add: Let_def)
qed

lemma read_uvarint_at_shift:
  assumes "0 \<le> pos"
  shows "read_uvarint_at b pos i shift v = read_uvarint_at (drop (nat pos) b) 0 i shift v"
proof (induction "10 - i" arbitrary: i shift v)
  case 0
  then show ?case by (simp add: read_uvarint_at_drop assms)
next
  case (Suc k)
  have IH: "read_uvarint_at b pos (Suc i) sh w = read_uvarint_at (drop (nat pos) b) 0 (Suc i) sh w"
    for sh w using Suc.hyps(1) [of "Suc i"] Suc.hyps(2) by simp
  show ?case
    by (subst read_uvarint_at_drop [OF assms], subst (2) read_uvarint_at_drop)
      (simp_all add: IH add.commute cong: list.case_cong if_cong)
qed

lemma read_uvarint_shift: "0 \<le> pos \<Longrightarrow> read_uvarint b pos = read_uvarint (drop (nat pos) b) 0"
  unfolding read_uvarint_def by (rule read_uvarint_at_shift)

lemma read_uvarint_at_Fail:
  assumes "0 \<le> pos" and "read_uvarint_at b pos i shift v = Fail e"
  shows "e = ErrTruncated \<or> e = ErrVarintOverflow"
  using assms(2)
proof (induction "10 - i" arbitrary: i shift v)
  case 0
  then show ?case by (simp add: read_uvarint_at_drop assms)
next
  case (Suc k)
  show ?case
    using Suc.prems Suc.hyps(1) [of "Suc i"] Suc.hyps(2)
    by (subst (asm) read_uvarint_at_drop [OF assms(1)]) (auto split: if_splits list.splits)
qed

lemma read_uvarint_Fail:
  "0 \<le> pos \<Longrightarrow> read_uvarint b pos = Fail e \<Longrightarrow> e = ErrTruncated \<or> e = ErrVarintOverflow"
  unfolding read_uvarint_def by (rule read_uvarint_at_Fail)

section \<open>Which input is accepted\<close>

lemma varint_group_prefix_unique:
  "varint_group xs \<Longrightarrow> varint_group ys \<Longrightarrow> xs @ r = ys @ r' \<Longrightarrow> xs = ys"
proof (induction xs arbitrary: ys)
  case (Cons c cs)
  then obtain ds where ys: "ys = c # ds" by (cases ys) auto
  then show ?case using Cons by (auto simp: varint_group_Cons split: if_splits)
qed simp

lemma read_uvarint_at_group:
  assumes "0 \<le> pos" and "drop (nat pos + i) b = bs @ rest" and "varint_group bs"
    and "i + length bs \<le> 10" and "i + length bs = 10 \<longrightarrow> last bs \<le> 1"
  shows "\<exists>v n. read_uvarint_at b pos i shift acc = Ret (v, n)"
  using assms(2-)
proof (induction bs arbitrary: i shift acc)
  case (Cons c cs)
  have i: "i < 10" using Cons.prems(3) by simp
  show ?case
  proof (cases "c < 0x80")
    case True
    then have "cs = []" using Cons.prems(2) by (simp add: varint_group_Cons)
    then show ?thesis
      using True Cons.prems(1,4) i by (simp add: read_uvarint_at_drop [OF assms(1)] not_less)
  next
    case False
    then have cs: "varint_group cs" using Cons.prems(2) by (simp add: varint_group_Cons)
    then have "cs \<noteq> []" by auto
    then have "i \<noteq> 9" using Cons.prems(3) by (cases cs) auto
    moreover have "drop (nat pos + Suc i) b = cs @ rest"
      using drop_eq_ConsD(3) [of "nat pos + i" b c "cs @ rest"] Cons.prems(1) by simp
    ultimately show ?thesis
      using Cons.IH [of "Suc i"] Cons.prems cs False i \<open>cs \<noteq> []\<close>
      by (simp add: read_uvarint_at_drop [OF assms(1), of b i])
  qed
qed simp

lemma varint_group_last: "varint_group bs \<Longrightarrow> unat (last bs) < 128"
proof (induction bs)
  case (Cons c cs)
  then show ?case by (auto simp: varint_group_Cons word_less_nat_alt split: if_splits)
qed simp

lemma leb_value_last:
  assumes "varint_group bs"
  shows "128 ^ (length bs - 1) * unat (last bs) \<le> leb_value bs"
proof -
  have "bs \<noteq> []" using assms by auto
  then have "leb_value bs = leb_value (butlast bs) + 128 ^ (length bs - 1) * leb_value [last bs]"
    by (metis append_butlast_last_id leb_value_append length_butlast)
  then show ?thesis using varint_group_last [OF assms] by simp
qed

lemma read_uvarint_accepts:
  assumes "0 \<le> pos" and "drop (nat pos) b = bs @ rest" and "varint_group bs"
    and "length bs \<le> 10" and "leb_value bs < 2 ^ 64"
  shows "read_uvarint b pos = Ret (word_of_nat (leb_value bs), len bs)"
proof -
  have "last bs \<le> 1" if "length bs = 10"
  proof -
    have "128 ^ 9 * unat (last bs) < 2 ^ 64"
      using leb_value_last [OF assms(3)] assms(5) that by simp
    then have "unat (last bs) < 2" by simp
    then show ?thesis by (simp add: word_le_nat_alt)
  qed
  then obtain v n where vn: "read_uvarint b pos = Ret (v, n)"
    using read_uvarint_at_group [of pos 0 b bs rest 0 0] assms by (auto simp: read_uvarint_def)
  obtain bs' rest' where bs': "drop (nat pos) b = bs' @ rest'" "varint_group bs'" "n = len bs'"
      "unat v = leb_value bs'"
    using read_uvarint_Ret [OF vn assms(1)] by metis
  have bs: "bs' = bs" using varint_group_prefix_unique [OF bs'(2) assms(3)] bs'(1) assms(2) by metis
  have "word_of_nat (leb_value bs') = v" unfolding bs'(4) [symmetric] by simp
  then show ?thesis using vn bs'(3) bs by simp
qed

section \<open>The fixed-buffer encoder\<close>

lemma put_uvarint_at_eq:
  assumes "i \<le> length b" and "i + nat (varint_len v) \<le> length b"
  shows "put_uvarint_at b (int i) v =
           Some (take i b @ uvarint v @ drop (i + nat (varint_len v)) b, int i + varint_len v)"
  using assms
proof (induction v arbitrary: i b rule: measure_induct_rule [where f = unat])
  case (less v)
  have "1 \<le> varint_len v" using varint_len_bounds by blast
  then have i: "i < length b" using less.prems by linarith
  show ?case
  proof (cases "0x80 \<le> v")
    case True
    let ?b = "b[i := ucast v OR 0x80]"
    have n: "nat (varint_len v) = Suc (nat (varint_len (drop_bit 7 v)))"
      using True varint_len_bounds [of "drop_bit 7 v"]
      by (subst varint_len_rec) (simp add: nat_add_distrib)
    have "put_uvarint_at b (int i) v = put_uvarint_at ?b (int (Suc i)) (drop_bit 7 v)"
      using i True by (subst put_uvarint_at.simps) (simp add: add.commute)
    then show ?thesis
      using less.IH [OF drop7_less [OF True], of "Suc i" ?b] less.prems n i True
      by (simp add: uvarint_rec [of v] varint_len_rec [of v] take_Suc_conv_app_nth)
  next
    case False
    then show ?thesis
      using i by (subst put_uvarint_at.simps)
        (simp add: uvarint_rec [of v] varint_len_rec [of v] upd_conv_take_nth_drop)
  qed
qed

lemma put_uvarint_eq:
  "varint_len v \<le> len b \<Longrightarrow>
     put_uvarint b v = Some (uvarint v @ drop (nat (varint_len v)) b, varint_len v)"
  using put_uvarint_at_eq [of 0 b v] by (simp add: put_uvarint_def)

section \<open>Properties\<close>

text \<open>
  round trip of \<^verbatim>\<open>appendUvarint\<close> and \<^verbatim>\<open>readUvarint\<close>. For every \<^verbatim>\<open>uint64\<close>, appending it to
  any buffer grows the buffer by exactly \<^verbatim>\<open>varintLen(v)\<close> bytes, between one and ten, and reading
  at the old end, with anything after it, returns the value and that byte count.
\<close>

theorem uvarint_roundtrip:
  "len (append_uvarint pre v) = len pre + varint_len v \<and>
   1 \<le> varint_len v \<and> varint_len v \<le> 10 \<and>
   read_uvarint (append_uvarint pre v @ rest) (len pre) = Ret (v, varint_len v)"
  using varint_len_bounds [of v] read_uvarint_uvarint [of "len pre" "append_uvarint pre v @ rest" v rest]
  by (simp add: append_uvarint_eq length_uvarint)

text \<open>
  C16: \<^verbatim>\<open>readUvarint\<close> on arbitrary input. At any offset it returns \<open>(v, n)\<close> exactly when the
  input continues with one complete 7-bit group sequence of \<open>n\<close> bytes, at most ten, whose value
  \<open>v\<close> fits into 64 bits; any other input is \<^verbatim>\<open>ErrTruncated\<close> or \<^verbatim>\<open>ErrVarintOverflow\<close>, never a panic.
  Overlong groups are accepted, with their value.
\<close>

theorem read_uvarint_correct:
  assumes "0 \<le> pos"
  shows "(read_uvarint b pos = Ret (v, n) \<longleftrightarrow>
           (\<exists>bs rest. drop (nat pos) b = bs @ rest \<and> varint_group bs \<and> n = len bs \<and>
              n \<le> 10 \<and> leb_value bs = unat v)) \<and>
         ((\<exists>y. read_uvarint b pos = Ret y) \<or> read_uvarint b pos = Fail ErrTruncated \<or>
           read_uvarint b pos = Fail ErrVarintOverflow)"
proof
  show "read_uvarint b pos = Ret (v, n) \<longleftrightarrow>
      (\<exists>bs rest. drop (nat pos) b = bs @ rest \<and> varint_group bs \<and> n = len bs \<and>
         n \<le> 10 \<and> leb_value bs = unat v)" (is "?l \<longleftrightarrow> ?r")
  proof
    assume ?l
    from read_uvarint_Ret [OF this assms] show ?r by metis
  next
    assume ?r
    then obtain bs rest where "drop (nat pos) b = bs @ rest" "varint_group bs" "n = len bs"
        "length bs \<le> 10" "leb_value bs = unat v" by auto
    moreover have "unat v < 2 ^ 64" using unsigned_less [of v] by simp
    ultimately show ?l using read_uvarint_accepts [OF assms, of b bs rest] by simp
  qed
  show "(\<exists>y. read_uvarint b pos = Ret y) \<or> read_uvarint b pos = Fail ErrTruncated \<or>
      read_uvarint b pos = Fail ErrVarintOverflow"
    using read_uvarint_Fail [OF assms] read_uvarint_no_panic [OF assms]
    by (cases "read_uvarint b pos") auto
qed

theorem read_uvarint_correct_witness:
  "read_uvarint [9, 0xAC, 0x02] 1 = Ret (300, 2) \<and> read_uvarint [0x80, 0x80] 0 = Fail ErrTruncated"
proof
  have "drop (nat 1) [9, 0xAC, 0x02 :: byte] = [0xAC, 0x02] @ [] \<and> varint_group [0xAC, 0x02] \<and>
      (2::int) = len [0xAC, 0x02 :: byte] \<and> (2::int) \<le> 10 \<and> leb_value [0xAC, 0x02] = unat (300 :: u64)"
    by simp
  then show "read_uvarint [9, 0xAC, 0x02] 1 = Ret (300, 2)"
    using conjunct1 [OF read_uvarint_correct [of 1 "[9, 0xAC, 0x02]" 300 2]] by (metis zero_le_one)
  show "read_uvarint [0x80, 0x80] 0 = Fail ErrTruncated"
    by (simp add: read_uvarint_def read_uvarint_at_drop)
qed

end
