(* ===== verification/Wire.thy ===== *)
theory Wire
  imports Varint
begin

text \<open>
  Wire types, field keys and zigzag integers: \<^verbatim>\<open>storage/gsbm/wire.go\<close>. A \<^verbatim>\<open>WireType\<close> is a
  \<^verbatim>\<open>uint8\<close>, so the reserved codes are values too; \<open>field_key\<close> is the expression
  \<^verbatim>\<open>(uint64(tag) << 3) | uint64(wt)\<close> that \<^verbatim>\<open>WriteTag\<close> and \<^verbatim>\<open>SizeTag\<close> share.
\<close>

type_synonym wire_type = byte

definition WireVarint :: wire_type where [simp]: "WireVarint = 0"
definition WireFixed64 :: wire_type where [simp]: "WireFixed64 = 1"
definition WireLengthDelim :: wire_type where [simp]: "WireLengthDelim = 2"
definition WireFixed32 :: wire_type where [simp]: "WireFixed32 = 3"

definition MaxTag :: u32 where
  "MaxTag = push_bit 29 1 - 1"

definition valid_wire_type :: "wire_type \<Rightarrow> bool" where
  "valid_wire_type wt \<longleftrightarrow> wt \<le> WireFixed32"

definition zigzag_encode64 :: "i64 \<Rightarrow> u64" where
  "zigzag_encode64 v = push_bit 1 v XOR signed_drop_bit 63 v"

definition zigzag_decode64 :: "u64 \<Rightarrow> i64" where
  "zigzag_decode64 u = drop_bit 1 u XOR - (u AND 1)"

definition field_key :: "u32 \<Rightarrow> wire_type \<Rightarrow> u64" where
  "field_key tag wt = push_bit 3 (ucast tag) OR ucast wt"

section \<open>Zigzag\<close>

lemma bit_neg_and_1: "bit (- (u AND 1) :: u64) n \<longleftrightarrow> n < 64 \<and> bit u 0"
proof -
  have "u AND 1 = of_bool (bit u 0)" by (simp add: and_one_eq mod_2_eq_odd bit_0)
  then show ?thesis by (cases "bit u 0") (auto simp: possible_bit_def bit_minus_1_iff)
qed

lemma bit_sign_64: "bit (signed_drop_bit 63 (v :: i64)) n \<longleftrightarrow> n < 64 \<and> bit v 63"
proof (cases "n < 64")
  case True
  then show ?thesis by (cases n) (auto simp: bit_signed_drop_bit_iff)
next
  case False
  then show ?thesis using bit_imp_le_length [of "signed_drop_bit 63 v" n] by auto
qed

lemma bit_zigzag_encode64:
  "bit (zigzag_encode64 v) n \<longleftrightarrow> n < 64 \<and> ((1 \<le> n \<and> bit v (n - 1)) \<noteq> bit v 63)"
  unfolding zigzag_encode64_def
  by (simp only: bit_xor_iff bit_sign_64 bit_push_bit_iff possible_bit_word) auto

lemma bit_zigzag_decode64:
  "bit (zigzag_decode64 u) n \<longleftrightarrow> n < 64 \<and> (bit u (n + 1) \<noteq> bit u 0)"
  using bit_imp_le_length [of u "n + 1"] unfolding zigzag_decode64_def
  by (simp only: bit_xor_iff bit_neg_and_1 bit_drop_bit_eq comp_def add.commute [of 1]) auto

lemma not_bit_64: "\<not> bit (v :: u64) 64"
  using bit_imp_le_length [of v 64] by auto

lemma zigzag_decode_encode [simp]: "zigzag_decode64 (zigzag_encode64 v) = v"
proof (rule bit_word_eqI)
  fix n assume "n < LENGTH(64)"
  then show "bit (zigzag_decode64 (zigzag_encode64 v)) n = bit v n"
    by (cases "n = 63") (auto simp: bit_zigzag_decode64 bit_zigzag_encode64)
qed

lemma zigzag_encode_decode [simp]: "zigzag_encode64 (zigzag_decode64 u) = u"
proof (rule bit_word_eqI)
  fix n assume "n < LENGTH(64)"
  then show "bit (zigzag_encode64 (zigzag_decode64 u)) n = bit u n"
    by (cases n) (auto simp: bit_zigzag_decode64 bit_zigzag_encode64 not_bit_64)
qed

lemma sint_uint_64: "sint (v :: i64) = uint v - (if bit v 63 then 2 ^ 64 else 0)"
proof -
  have "take_bit 64 (uint v) = uint v"
    using unsigned_less [of v, where ?'a = int] by (simp add: take_bit_int_eq_self)
  then show ?thesis by (simp add: sint_uint signed_take_bit_eq_take_bit_minus bit_uint_iff)
qed

lemma uint_not_64: "uint (NOT w :: u64) = 2 ^ 64 - 1 - uint w"
proof -
  have w: "0 \<le> uint w \<and> uint w < 2 ^ 64" using unsigned_less [of w, where ?'a = int] by simp
  have "NOT w = - w - 1" by (simp add: not_eq_complement)
  then have "uint (NOT w) = (- uint w - 1) mod 2 ^ 64" by (simp add: uint_word_ariths mod_simps)
  also have "\<dots> = (2 ^ 64 - 1 - uint w) mod 2 ^ 64"
    using mod_add_self1 [of "2 ^ 64 :: int" "- uint w - 1"] by (simp add: algebra_simps)
  also have "\<dots> = 2 ^ 64 - 1 - uint w"
    using w by (intro mod_pos_pos_trivial) (linarith, linarith)
  finally show ?thesis .
qed

lemma uint_push_bit_1: "uint (push_bit 1 (v :: u64)) = 2 * uint v mod 2 ^ 64"
  by (simp add: uint_word_ariths mult.commute)

text \<open>The map on values: non-negative integers to the even numbers, negative ones to the odd.\<close>

lemma uint_zigzag:
  "uint (zigzag_encode64 v) = (if 0 \<le> sint v then 2 * sint v else - 2 * sint v - 1)"
proof -
  have r: "- (2 ^ 63) \<le> sint v" "sint v < 2 ^ 63" "0 \<le> uint v" "uint v < 2 ^ 64"
    using sint_ge [of v] sint_less [of v] unsigned_less [of v, where ?'a = int] by simp_all
  show ?thesis
  proof (cases "bit v 63")
    case False
    have "signed_drop_bit 63 v = 0"
      by (rule bit_word_eqI) (simp add: bit_sign_64 False)
    then have "uint (zigzag_encode64 v) = 2 * uint v mod 2 ^ 64"
      unfolding zigzag_encode64_def using uint_push_bit_1 [of v] by simp
    also have "\<dots> = 2 * sint v" using r False by (simp add: sint_uint_64)
    finally show ?thesis using r False by (simp add: sint_uint_64)
  next
    case True
    have "signed_drop_bit 63 v = - 1"
      by (rule bit_word_eqI) (simp add: bit_sign_64 True)
    then have "zigzag_encode64 v = NOT (push_bit 1 v)" unfolding zigzag_encode64_def by simp
    then have "uint (zigzag_encode64 v) = 2 ^ 64 - 1 - 2 * uint v mod 2 ^ 64"
      using uint_not_64 uint_push_bit_1 by simp
    moreover have "2 * uint v mod 2 ^ 64 = 2 * uint v - 2 ^ 64"
    proof -
      have "(2 * uint v - 2 ^ 64) mod 2 ^ 64 = 2 * uint v - 2 ^ 64"
        using r True by (intro mod_pos_pos_trivial) (auto simp: sint_uint_64)
      then show ?thesis by simp
    qed
    ultimately show ?thesis using r True by (simp add: sint_uint_64)
  qed
qed

section \<open>Field keys\<close>

lemma MaxTag_unat: "unat MaxTag = 2 ^ 29 - 1"
  by (simp add: MaxTag_def)

lemma valid_wire_type_unat: "valid_wire_type wt \<longleftrightarrow> unat wt \<le> 3"
  by (simp add: valid_wire_type_def word_le_nat_alt)

lemma bit_wire_type: "wt < 8 \<Longrightarrow> bit (wt :: byte) n \<Longrightarrow> n < 3"
proof -
  assume "wt < 8" and b: "bit wt n"
  then have "take_bit 3 (unat wt) = unat wt" by (simp add: word_less_nat_alt take_bit_nat_eq_self)
  moreover have "bit (unat wt) n" using b by (simp add: bit_unsigned_iff)
  ultimately show "n < 3" by (metis bit_take_bit_iff)
qed

lemma field_key_wt:
  assumes "wt < 8"
  shows "ucast (field_key tag wt AND 7) = wt"
proof -
  have m: "(7 :: u64) = mask 3" by (simp add: mask_eq_exp_minus_1)
  show ?thesis
    unfolding m field_key_def using bit_wire_type [OF assms]
    by (intro bit_word_eqI) (auto simp only: bit_simps, auto)
qed

lemma field_key_tag:
  assumes "wt < 8"
  shows "drop_bit 3 (field_key tag wt) = ucast tag"
proof (rule bit_word_eqI)
  fix n assume "n < LENGTH(64)"
  have "bit (field_key tag wt) (3 + n) \<longleftrightarrow> 3 + n < 64 \<and> bit tag n \<or> bit wt (3 + n)"
    unfolding field_key_def using bit_imp_le_length [of wt "3 + n"]
    by (simp only: bit_simps possible_bit_word) auto
  then show "bit (drop_bit 3 (field_key tag wt)) n = bit (ucast tag :: u64) n"
    using bit_wire_type [OF assms, of "3 + n"] bit_imp_le_length [of tag n]
    by (auto simp: bit_drop_bit_eq bit_ucast_iff)
qed

section \<open>Properties\<close>

text \<open>
  \<^verbatim>\<open>zigzagEncode64\<close> and \<^verbatim>\<open>zigzagDecode64\<close> are inverse bijections of the 64-bit words, and the
  encoding sends \<open>0, -1, 1, -2, ...\<close> to \<open>0, 1, 2, 3, ...\<close>: a non-negative \<open>n\<close> to \<open>2 n\<close>, a
  negative one to \<open>- 2 n - 1\<close>, without overflow at either end of the \<^verbatim>\<open>int64\<close> range.
\<close>

theorem zigzag_bijection:
  "zigzag_decode64 (zigzag_encode64 v) = v \<and> zigzag_encode64 (zigzag_decode64 u) = u \<and>
   uint (zigzag_encode64 v) = (if 0 \<le> sint v then 2 * sint v else - 2 * sint v - 1)"
  by (simp add: uint_zigzag)

end
