(* ===== verification/Header.thy ===== *)
theory Header
  imports Wire
begin

text \<open>
  Header constants, the compression-method field of the flags byte and the encode options:
  the declarations of \<^verbatim>\<open>storage/gsbm/gsbm.go\<close> that both directions share.
\<close>

definition Magic :: "byte list" where
  "Magic = [0x47, 0x53, 0x42, 0x4D]"

definition FmtVer2 :: byte where [simp]: "FmtVer2 = 2"
definition HeaderSize :: int where [simp]: "HeaderSize = 12"
definition ExtendedHeaderSize :: int where [simp]: "ExtendedHeaderSize = 16"
definition MaxUint32 :: int where "MaxUint32 = 2 ^ 32 - 1"

section \<open>Compression methods\<close>

type_synonym compression_method = byte

definition CompressionNone :: compression_method where [simp]: "CompressionNone = 0"
definition CompressionZstd :: compression_method where [simp]: "CompressionZstd = 1"
definition CompressionGzip :: compression_method where [simp]: "CompressionGzip = 2"
definition compressionMethodMask :: byte where [simp]: "compressionMethodMask = 0x07"
definition extendedHeaderBit :: byte where [simp]: "extendedHeaderBit = 0x08"
definition defaultCompression :: compression_method where
  [simp]: "defaultCompression = CompressionGzip"

definition compresses :: "compression_method \<Rightarrow> bool" where
  "compresses m \<longleftrightarrow> m \<noteq> CompressionNone"

definition valid_compression_method :: "compression_method \<Rightarrow> bool" where
  "valid_compression_method m \<longleftrightarrow>
     m = CompressionNone \<or> m = CompressionZstd \<or> m = CompressionGzip"

definition header_compression_method :: "byte \<Rightarrow> (compression_method \<times> bool) outcome" where
  "header_compression_method flags =
     (if flags AND NOT (compressionMethodMask OR extendedHeaderBit) \<noteq> 0 then Fail ErrReservedFlags
      else let method = flags AND compressionMethodMask in
        if \<not> valid_compression_method method then Fail ErrReservedFlags
        else let extended = (flags AND extendedHeaderBit \<noteq> 0) in
          if extended \<and> \<not> compresses method then Fail ErrReservedFlags
          else Ret (method, extended))"

record options =
  opt_compress :: bool
  opt_compression :: compression_method

definition options_method :: "options \<Rightarrow> compression_method" where
  "options_method opts =
     (if compresses (opt_compression opts) then opt_compression opts
      else if opt_compress opts then defaultCompression
      else CompressionNone)"

section \<open>The flags rule\<close>

lemma flags_high_nibble: "flags AND NOT (0x07 OR 0x08 :: byte) = 0 \<longleftrightarrow> unat flags < 16"
proof -
  have m: "(0x07 OR 0x08 :: byte) = mask 4" by (simp add: mask_eq_exp_minus_1)
  have "flags AND NOT (mask 4) = 0 \<longleftrightarrow> take_bit 4 flags = flags"
    by (simp add: take_bit_eq_mask bit_eq_iff bit_simps) blast
  also have "\<dots> \<longleftrightarrow> take_bit 4 (unat flags) = unat flags"
    by (simp only: word_unat_eq_iff unsigned_take_bit_eq)
  also have "\<dots> \<longleftrightarrow> unat flags < 16"
    by (simp add: take_bit_nat_eq_self_iff)
  finally show ?thesis unfolding m .
qed

text \<open>Exactly five flags bytes are accepted.\<close>

lemma byte_below_16: 
  assumes "unat (b :: byte) < 16"
  shows "b \<in> {0, 1, 2, 3, 4, 5, 6, 7, 8, 9, 10, 11, 12, 13, 14, 15}"
proof -
  have "unat b \<in> {0, 1, 2, 3, 4, 5, 6, 7, 8, 9, 10, 11, 12, 13, 14, 15}"
    using assms by simp arith
  then show ?thesis by (simp add: word_unat_eq_iff)
qed

lemma header_compression_method_cases:
  "header_compression_method flags =
     (if flags = 0 then Ret (CompressionNone, False)
      else if flags = 1 then Ret (CompressionZstd, False)
      else if flags = 2 then Ret (CompressionGzip, False)
      else if flags = 9 then Ret (CompressionZstd, True)
      else if flags = 10 then Ret (CompressionGzip, True)
      else Fail ErrReservedFlags)"
proof (cases "unat flags < 16")
  case True
  then show ?thesis
    using byte_below_16 [OF True] flags_high_nibble [of flags]
    by (auto simp: header_compression_method_def valid_compression_method_def compresses_def Let_def)
next
  case False
  then have "flags \<notin> {0, 1, 2, 9, 10}" by auto
  then show ?thesis
    using False flags_high_nibble [of flags] by (simp add: header_compression_method_def)
qed

section \<open>Properties\<close>

text \<open>
  The flags rule. Of the 256 flags bytes \<^verbatim>\<open>headerCompressionMethod\<close> accepts exactly five:
  uncompressed, zstd and gzip with the short header, zstd and gzip with the extended header;
  every other byte is \<^verbatim>\<open>ErrReservedFlags\<close>.
\<close>

theorem header_flags_rule:
  "header_compression_method flags =
     (if flags = 0x00 then Ret (CompressionNone, False)
      else if flags = 0x01 then Ret (CompressionZstd, False)
      else if flags = 0x02 then Ret (CompressionGzip, False)
      else if flags = 0x09 then Ret (CompressionZstd, True)
      else if flags = 0x0A then Ret (CompressionGzip, True)
      else Fail ErrReservedFlags)"
  by (rule header_compression_method_cases)

end
