(* ===== verification/Compress.thy ===== *)
theory Compress
  imports Header
begin

text \<open>
  The decompression side of \<^verbatim>\<open>storage/gsbm/compress.go\<close>. The zstd and gzip libraries are not
  part of the repository: a \<open>codec_lib\<close> record gives, for each call the code makes, what the
  library answers. A streaming decoder is the bytes it produces and the error it ends with
  (\<open>None\<close>: a clean end of stream). Every routine also reports how many bytes it reserves
  before a single byte has been inflated.
\<close>

record codec_lib =
  zstd_decode_all :: "u64 \<Rightarrow> byte list \<Rightarrow> byte list outcome"
    \<comment> \<open>\<^verbatim>\<open>DecodeAll(src, nil)\<close> under \<^verbatim>\<open>WithDecoderMaxMemory\<close>\<close>
  zstd_decode_all_cap :: "u64 \<Rightarrow> int \<Rightarrow> byte list \<Rightarrow> byte list outcome"
    \<comment> \<open>the same with \<^verbatim>\<open>WithDecodeAllCapLimit\<close> and a destination of the given capacity\<close>
  zstd_stream :: "u64 \<Rightarrow> byte list \<Rightarrow> (byte list \<times> gerr option) outcome"
    \<comment> \<open>\<^verbatim>\<open>Reset(src)\<close>, then reading to the end\<close>
  gzip_stream :: "byte list \<Rightarrow> (byte list \<times> gerr option) outcome"

definition zstdDecoderOverAllocSlack :: int where "zstdDecoderOverAllocSlack = 16"

text \<open>\<open>max_int\<close> is \<^verbatim>\<open>math.MaxInt\<close> of the platform the package is built for.\<close>

definition decoder_max_decompressed_size :: "int \<Rightarrow> u64" where
  "decoder_max_decompressed_size max_int =
     (let platformIntCap = (word_of_int max_int :: u64) - word_of_int zstdDecoderOverAllocSlack in
      if platformIntCap < word_of_int MaxUint32 then platformIntCap else word_of_int MaxUint32)"

definition unknownInflatedLen :: int where [simp]: "unknownInflatedLen = - 1"
definition maxInflatePresize :: int where "maxInflatePresize = 16 * 2 ^ 20"

definition presize_for :: "int \<Rightarrow> int" where
  "presize_for inflatedLen =
     (if maxInflatePresize < inflatedLen then maxInflatePresize
      else if inflatedLen < 0 then 0
      else inflatedLen)"

text \<open>
  \<^verbatim>\<open>io.LimitReader(r, n)\<close> read to its end: the first \<open>n\<close> bytes, or the stream's own end if it
  comes first.
\<close>

definition read_limited :: "int \<Rightarrow> byte list \<times> gerr option \<Rightarrow> byte list outcome" where
  "read_limited n s =
     (case s of (bs, e) \<Rightarrow>
        if n \<le> len bs then Ret (take (nat n) bs)
        else case e of None \<Rightarrow> Ret bs | Some x \<Rightarrow> Fail x)"

definition decompress_gzip :: "codec_lib \<Rightarrow> int \<Rightarrow> byte list \<Rightarrow> int \<Rightarrow> byte list outcome \<times> int" where
  "decompress_gzip lib max_int src inflatedLen =
     (case gzip_stream lib src of
        Fail e \<Rightarrow> (Fail e, 0)
      | Panic \<Rightarrow> (Panic, 0)
      | Ret s \<Rightarrow>
          if 0 \<le> inflatedLen then
            (case read_limited (inflatedLen + 1) s of
               Ret out \<Rightarrow> if len out \<noteq> inflatedLen then Fail ErrInflatedLenMismatch else Ret out
             | Fail e \<Rightarrow> Fail e
             | Panic \<Rightarrow> Panic,
             presize_for inflatedLen)
          else
            (case read_limited (uint (decoder_max_decompressed_size max_int) + 1) s of
               Ret out \<Rightarrow>
                 if uint (decoder_max_decompressed_size max_int) < len out then Fail ErrGzipTooLarge
                 else Ret out
             | Fail e \<Rightarrow> Fail e
             | Panic \<Rightarrow> Panic,
             0))"

definition decompress_zstd_known ::
  "codec_lib \<Rightarrow> int \<Rightarrow> byte list \<Rightarrow> int \<Rightarrow> byte list outcome \<times> int" where
  "decompress_zstd_known lib max_int src inflatedLen =
     (if inflatedLen \<le> maxInflatePresize then
        (case zstd_decode_all_cap lib (decoder_max_decompressed_size max_int) inflatedLen src of
           Ret out \<Rightarrow> if len out \<noteq> inflatedLen then Fail ErrInflatedLenMismatch else Ret out
         | Fail e \<Rightarrow> Fail e
         | Panic \<Rightarrow> Panic,
         inflatedLen)
      else
        (case zstd_stream lib (decoder_max_decompressed_size max_int) src of
           Fail e \<Rightarrow> (Fail e, 0)
         | Panic \<Rightarrow> (Panic, 0)
         | Ret s \<Rightarrow>
             (case read_limited (inflatedLen + 1) s of
                Ret out \<Rightarrow> if len out \<noteq> inflatedLen then Fail ErrInflatedLenMismatch else Ret out
              | Fail e \<Rightarrow> Fail e
              | Panic \<Rightarrow> Panic,
              maxInflatePresize)))"

definition decompress_body ::
  "codec_lib \<Rightarrow> int \<Rightarrow> compression_method \<Rightarrow> byte list \<Rightarrow> int \<Rightarrow> byte list outcome \<times> int" where
  "decompress_body lib max_int method src inflatedLen =
     (if method = CompressionZstd then
        if 0 \<le> inflatedLen then decompress_zstd_known lib max_int src inflatedLen
        else (zstd_decode_all lib (decoder_max_decompressed_size max_int) src, 0)
      else if method = CompressionGzip then decompress_gzip lib max_int src inflatedLen
      else (Fail ErrUnreachableCodec, 0))"

section \<open>Bounds\<close>

lemma presize_for_bounds: "0 \<le> presize_for n \<and> presize_for n \<le> maxInflatePresize"
  by (simp add: presize_for_def maxInflatePresize_def)

lemma read_limited_length: "read_limited n s = Ret out \<Longrightarrow> 0 \<le> n \<Longrightarrow> len out \<le> n"
  by (auto simp: read_limited_def split: prod.splits if_splits option.splits)

lemma read_limited_all: "len bs < n \<Longrightarrow> read_limited n (bs, None) = Ret bs"
  by (simp add: read_limited_def)

text \<open>The speculative reservation is bounded whatever the header declares.\<close>

lemma decompress_body_reserve:
  "snd (decompress_body lib max_int method src inflatedLen) \<le> maxInflatePresize"
  using presize_for_bounds [of inflatedLen]
  by (auto simp: decompress_body_def decompress_zstd_known_def decompress_gzip_def
      maxInflatePresize_def split: outcome.splits)

text \<open>With a declared length, nothing but exactly that many bytes comes out.\<close>

lemma decompress_body_exact:
  assumes "fst (decompress_body lib max_int method src n) = Ret out" and "0 \<le> n"
  shows "len out = n"
  using assms
  by (auto simp: decompress_body_def decompress_zstd_known_def decompress_gzip_def
      split: outcome.splits if_splits)

text \<open>
  The cap leaves room below \<^verbatim>\<open>math.MaxInt\<close> for the slack the zstd library adds to its output
  buffer, on 32-bit and on 64-bit builds.
\<close>

lemma decoder_max_uint:
  assumes "2 ^ 31 - 1 \<le> max_int" and "max_int < 2 ^ 63"
  shows "uint (decoder_max_decompressed_size max_int) =
           min (max_int - zstdDecoderOverAllocSlack) MaxUint32"
proof -
  have "(word_of_int max_int :: u64) - word_of_int zstdDecoderOverAllocSlack =
          word_of_int (max_int - zstdDecoderOverAllocSlack)" by simp
  moreover have "uint (word_of_int (max_int - zstdDecoderOverAllocSlack) :: u64) =
      max_int - zstdDecoderOverAllocSlack"
    using assms by (intro uint_u64_of_int) (auto simp: zstdDecoderOverAllocSlack_def)
  moreover have "uint (word_of_int MaxUint32 :: u64) = MaxUint32"
    by (simp add: MaxUint32_def)
  ultimately show ?thesis
    by (simp only: decoder_max_decompressed_size_def Let_def word_less_def min_def) auto
qed

section \<open>Properties\<close>


text \<open>A codec library whose streams are stored, used to evaluate the model.\<close>

definition stored_lib :: codec_lib where
  "stored_lib =
     \<lparr>zstd_decode_all = (\<lambda>m src. if uint m < len src then Fail ErrTruncated else Ret src),
      zstd_decode_all_cap = (\<lambda>m c src. if c < len src then Fail ErrTruncated else Ret src),
      zstd_stream = (\<lambda>m src. Ret (src, None)),
      gzip_stream = (\<lambda>src. Ret (src, None))\<rparr>"


text \<open>
  The decompression cap. On every platform whose \<^verbatim>\<open>int\<close> has 32 or 64 bits the cap is the
  smaller of the 32-bit body limit and \<^verbatim>\<open>math.MaxInt\<close> less the slack the zstd library adds to its
  output buffer, so the cap plus the slack is still a valid \<^verbatim>\<open>int\<close>.
\<close>

theorem decoder_cap_fits_int:
  assumes "2 ^ 31 - 1 \<le> max_int" and "max_int < 2 ^ 63"
  shows "uint (decoder_max_decompressed_size max_int) = min (max_int - 16) (2 ^ 32 - 1) \<and>
         uint (decoder_max_decompressed_size max_int) + zstdDecoderOverAllocSlack \<le> max_int"
  using decoder_max_uint [OF assms] by (simp add: zstdDecoderOverAllocSlack_def MaxUint32_def)

theorem decoder_cap_fits_int_witness:
  "uint (decoder_max_decompressed_size (2 ^ 31 - 1)) = 2147483631 \<and>
   uint (decoder_max_decompressed_size (2 ^ 63 - 1)) = 4294967295"
  using decoder_cap_fits_int [of "2 ^ 31 - 1"] decoder_cap_fits_int [of "2 ^ 63 - 1"]
  by simp

end
