(* ===== verification/Reader.thy ===== *)
theory Reader
  imports Compress
begin

text \<open>
  \<^verbatim>\<open>storage/gsbm/reader.go\<close> and \<^verbatim>\<open>ReadPresenceByte\<close> of \<^verbatim>\<open>presence.go\<close>. The state is the struct
  \<^verbatim>\<open>Reader\<close>; the allocator is a parameter type, \<open>None\<close> being the heap path. An operation maps
  the reader to its outcome and the reader after it, whatever the outcome.
\<close>

record 'al reader =
  rd_buf :: "byte list"
  rd_pos :: int
  rd_end :: int
  rd_err :: "gerr option"
  rd_alloc :: "'al option"

type_synonym ('al, 'a) reading = "'al reader \<Rightarrow> 'a outcome \<times> 'al reader"

section \<open>Construction and plumbing\<close>

definition new_reader :: "byte list \<Rightarrow> 'al reader" where
  "new_reader src =
     \<lparr>rd_buf = src, rd_pos = 0, rd_end = len src, rd_err = None, rd_alloc = None\<rparr>"

definition rd_set_allocator :: "'al option \<Rightarrow> 'al reader \<Rightarrow> 'al reader" where
  "rd_set_allocator a r = r\<lparr>rd_alloc := a\<rparr>"

definition rd_reset :: "byte list \<Rightarrow> 'al reader \<Rightarrow> 'al reader" where
  "rd_reset src r = r\<lparr>rd_buf := src, rd_pos := 0, rd_end := len src, rd_err := None\<rparr>"

definition rd_borrow_source :: "'al reader \<Rightarrow> byte list" where
  "rd_borrow_source r = rd_buf r"

definition rd_has_more :: "'al reader \<Rightarrow> bool" where
  "rd_has_more r \<longleftrightarrow> rd_err r = None \<and> rd_pos r < rd_end r"

definition rd_set_err :: "gerr \<Rightarrow> 'al reader \<Rightarrow> 'al reader" where
  "rd_set_err e r = (if rd_err r = None then r\<lparr>rd_err := Some e\<rparr> else r)"

text \<open>\<^verbatim>\<open>r.setErr(e); return zero, r.err\<close>: the error returned is the first one recorded.\<close>

definition rd_fail :: "gerr \<Rightarrow> ('al, 'a) reading" where
  "rd_fail e r = (let r' = rd_set_err e r in (Fail (the (rd_err r')), r'))"

text \<open>\<^verbatim>\<open>if r.err != nil { return zero, r.err }\<close> in front of an operation.\<close>

definition rd_guard :: "('al, 'a) reading \<Rightarrow> ('al, 'a) reading" where
  "rd_guard f r = (case rd_err r of Some e \<Rightarrow> (Fail e, r) | None \<Rightarrow> f r)"

text \<open>\<^verbatim>\<open>x, err := f(r); if err != nil { return err }\<close> followed by the rest.\<close>

definition rd_bind :: "('al, 'a) reading \<Rightarrow> ('a \<Rightarrow> ('al, 'b) reading) \<Rightarrow> ('al, 'b) reading" where
  "rd_bind f g r =
     (case f r of (Ret x, r') \<Rightarrow> g x r' | (Fail e, r') \<Rightarrow> (Fail e, r') | (Panic, r') \<Rightarrow> (Panic, r'))"

definition rd_return :: "'a \<Rightarrow> ('al, 'a) reading" where
  "rd_return x r = (Ret x, r)"

section \<open>Primitive reads\<close>

definition rd_read_uvarint :: "('al, u64) reading" where
  "rd_read_uvarint r =
     (case go_slice (rd_buf r) 0 (rd_end r) of
        None \<Rightarrow> (Panic, r)
      | Some b \<Rightarrow>
          (case read_uvarint b (rd_pos r) of
             Ret (v, n) \<Rightarrow> (Ret v, r\<lparr>rd_pos := rd_pos r + n\<rparr>)
           | Fail e \<Rightarrow> (Fail e, rd_set_err e r)
           | Panic \<Rightarrow> (Panic, r)))"

text \<open>
  \<open>rd_take_fixed n\<close> is the body of \<^verbatim>\<open>ReadFixed32\<close> and \<^verbatim>\<open>ReadFixed64\<close> behind the error check:
  the room test, the slice and the advance.
\<close>

definition rd_take_fixed :: "int \<Rightarrow> ('al, byte list) reading" where
  "rd_take_fixed n r =
     (if rd_end r - rd_pos r < n then rd_fail ErrTruncated r
      else case go_slice (rd_buf r) (rd_pos r) (rd_pos r + n) of
        None \<Rightarrow> (Panic, r)
      | Some b \<Rightarrow> (Ret b, r\<lparr>rd_pos := rd_pos r + n\<rparr>))"

definition rd_ReadUvarint :: "('al, u64) reading" where
  "rd_ReadUvarint = rd_guard rd_read_uvarint"

definition rd_ReadVarint :: "('al, i64) reading" where
  "rd_ReadVarint = rd_guard (rd_bind rd_read_uvarint (\<lambda>v. rd_return (zigzag_decode64 v)))"

definition rd_ReadBool :: "('al, bool) reading" where
  "rd_ReadBool = rd_guard (rd_bind rd_read_uvarint (\<lambda>v. rd_return (v \<noteq> 0)))"

definition rd_ReadFixed32 :: "('al, u32) reading" where
  "rd_ReadFixed32 = rd_guard (rd_bind (rd_take_fixed 4) (\<lambda>b. rd_return (le_get b)))"

definition rd_ReadFixed64 :: "('al, u64) reading" where
  "rd_ReadFixed64 = rd_guard (rd_bind (rd_take_fixed 8) (\<lambda>b. rd_return (le_get b)))"

text \<open>Floats are their IEEE 754 bits: \<^verbatim>\<open>math.Float32frombits\<close> is the identity of the model.\<close>

definition rd_ReadFloat32 :: "('al, u32) reading" where
  "rd_ReadFloat32 = rd_ReadFixed32"

definition rd_ReadFloat64 :: "('al, u64) reading" where
  "rd_ReadFloat64 = rd_ReadFixed64"

text \<open>The conversions \<^verbatim>\<open>uint64(i)\<close> and \<^verbatim>\<open>int(v)\<close> of a 64-bit platform.\<close>

definition go_uint64 :: "int \<Rightarrow> u64" where
  "go_uint64 i = word_of_int i"

lemma go_uint64_uint [simp]: "go_uint64 (uint v) = v"
  by (simp add: go_uint64_def)

definition go_int :: "u64 \<Rightarrow> int" where
  "go_int v = sint v"

text \<open>
  The shared tail of \<^verbatim>\<open>readLenBytes\<close>, \<^verbatim>\<open>BeginLengthDelim\<close> and the length-delimited arm of
  \<^verbatim>\<open>SkipField\<close>: the length prefix, and its check against the bytes the region has left.
\<close>

definition rd_bounded_len :: "('al, u64) reading" where
  "rd_bounded_len =
     rd_bind rd_read_uvarint
       (\<lambda>n r. if go_uint64 (rd_end r - rd_pos r) < n then rd_fail ErrTruncated r else (Ret n, r))"

definition rd_readLenBytes :: "('al, byte list) reading" where
  "rd_readLenBytes =
     rd_bind rd_bounded_len
       (\<lambda>n r. case go_slice (rd_buf r) (rd_pos r) (rd_pos r + go_int n) of
          None \<Rightarrow> (Panic, r)
        | Some out \<Rightarrow> (Ret out, r\<lparr>rd_pos := rd_pos r + go_int n\<rparr>))"

definition rd_ReadBytes :: "('al, byte list) reading" where
  "rd_ReadBytes = rd_readLenBytes"

text \<open>
  \<open>acq\<close> is the method \<^verbatim>\<open>AcquireString\<close> of the installed allocator, which may change the
  allocator's own state.
\<close>

definition rd_AcquireString ::
  "('al \<Rightarrow> byte list \<Rightarrow> gostring \<times> 'al) \<Rightarrow> byte list \<Rightarrow> 'al reader \<Rightarrow> gostring \<times> 'al reader" where
  "rd_AcquireString acq b r =
     (case rd_alloc r of
        None \<Rightarrow> (b, r)
      | Some a \<Rightarrow> (case acq a b of (s, a') \<Rightarrow> (s, r\<lparr>rd_alloc := Some a'\<rparr>)))"

definition rd_ReadString ::
  "('al \<Rightarrow> byte list \<Rightarrow> gostring \<times> 'al) \<Rightarrow> ('al, gostring) reading" where
  "rd_ReadString acq =
     rd_bind rd_readLenBytes (\<lambda>b r. case rd_AcquireString acq b r of (s, r') \<Rightarrow> (Ret s, r'))"

definition rd_ReadLength :: "('al, int) reading" where
  "rd_ReadLength =
     rd_bind rd_read_uvarint
       (\<lambda>v r. if go_uint64 (rd_end r - rd_pos r) < v then rd_fail ErrTruncated r
              else (Ret (go_int v), r))"

section \<open>Tags, regions, skipping\<close>

definition rd_ReadTag :: "('al, u32 \<times> wire_type) reading" where
  "rd_ReadTag =
     rd_guard (rd_bind rd_read_uvarint
       (\<lambda>v r. let wt = ucast (v AND 7) :: wire_type; tagU = drop_bit 3 v in
          if tagU = 0 then rd_fail ErrZeroTag r
          else if ucast MaxTag < tagU then rd_fail ErrTagOverflow r
          else if \<not> valid_wire_type wt then rd_fail ErrReservedWire r
          else (Ret (ucast tagU, wt), r)))"

definition rd_BeginLengthDelim :: "('al, int) reading" where
  "rd_BeginLengthDelim =
     rd_bind rd_bounded_len
       (\<lambda>n r. (Ret (rd_end r), r\<lparr>rd_end := rd_pos r + go_int n\<rparr>))"

definition rd_EndLengthDelim :: "int \<Rightarrow> ('al, unit) reading" where
  "rd_EndLengthDelim savedEnd =
     rd_guard (\<lambda>r. if rd_pos r \<noteq> rd_end r then rd_fail ErrTrailingBytes r
                   else (Ret (), r\<lparr>rd_end := savedEnd\<rparr>))"

definition rd_SkipField :: "wire_type \<Rightarrow> ('al, unit) reading" where
  "rd_SkipField wt =
     rd_guard
       (if wt = WireVarint then rd_bind rd_read_uvarint (\<lambda>_. rd_return ())
        else if wt = WireFixed64 then
          (\<lambda>r. if rd_end r - rd_pos r < 8 then rd_fail ErrTruncated r
               else (Ret (), r\<lparr>rd_pos := rd_pos r + 8\<rparr>))
        else if wt = WireFixed32 then
          (\<lambda>r. if rd_end r - rd_pos r < 4 then rd_fail ErrTruncated r
               else (Ret (), r\<lparr>rd_pos := rd_pos r + 4\<rparr>))
        else if wt = WireLengthDelim then
          rd_bind rd_bounded_len (\<lambda>n r. (Ret (), r\<lparr>rd_pos := rd_pos r + go_int n\<rparr>))
        else rd_fail ErrReservedWire)"

section \<open>Presence bytes\<close>

definition PresenceNil :: byte where [simp]: "PresenceNil = 0x00"
definition PresenceNonZero :: byte where [simp]: "PresenceNonZero = 0x01"
definition PresenceZero :: byte where [simp]: "PresenceZero = 0x03"
definition presenceReservedMask :: byte where [simp]: "presenceReservedMask = 0xFC"

definition rd_ReadPresenceByte :: "bool \<Rightarrow> ('al, byte) reading" where
  "rd_ReadPresenceByte allowZeroElide =
     rd_guard (\<lambda>r.
       if rd_end r - rd_pos r < 1 then rd_fail ErrTruncated r
       else case go_index (rd_buf r) (rd_pos r) of
         None \<Rightarrow> (Panic, r)
       | Some b \<Rightarrow>
           let r' = r\<lparr>rd_pos := rd_pos r + 1\<rparr> in
           if b AND presenceReservedMask \<noteq> 0 then rd_fail ErrInvalidPresence r'
           else if b = PresenceNil \<or> b = PresenceNonZero then (Ret b, r')
           else if b = PresenceZero then
             (if \<not> allowZeroElide then rd_fail ErrInvalidPresence r' else (Ret PresenceZero, r'))
           else rd_fail ErrInvalidPresence r')"

section \<open>The blob header\<close>

text \<open>
  The body step of \<^verbatim>\<open>ReadHeader\<close>, with the position just past the header: a compressed body is
  inflated and replaces the buffer.
\<close>

definition rd_inflate_body ::
  "codec_lib \<Rightarrow> int \<Rightarrow> compression_method \<Rightarrow> int \<Rightarrow> 'a \<Rightarrow> ('al, 'a) reading" where
  "rd_inflate_body lib max_int method inflatedLen x r =
     (if compresses method then
        (case go_slice (rd_buf r) (rd_pos r) (rd_end r) of
           None \<Rightarrow> (Panic, r)
         | Some body \<Rightarrow>
             (case fst (decompress_body lib max_int method body inflatedLen) of
                Ret out \<Rightarrow> (Ret x, r\<lparr>rd_buf := out, rd_pos := 0, rd_end := len out\<rparr>)
              | Fail e \<Rightarrow> rd_fail ErrCorruptCompressedBody r
              | Panic \<Rightarrow> (Panic, r)))
      else (Ret x, r))"

definition rd_ReadHeader :: "codec_lib \<Rightarrow> int \<Rightarrow> ('al, byte \<times> u16 \<times> u32) reading" where
  "rd_ReadHeader lib max_int =
     rd_guard (\<lambda>r.
       if rd_end r - rd_pos r < HeaderSize then rd_fail ErrTruncated r
       else case go_slice (rd_buf r) (rd_pos r) (rd_pos r + 12) of
         None \<Rightarrow> (Panic, r)
       | Some h \<Rightarrow>
           if take 4 h \<noteq> Magic then rd_fail ErrBadMagic r
           else if h ! 4 \<noteq> FmtVer2 then rd_fail ErrUnsupportedVer r
           else let flags = h ! 5 in
           case header_compression_method flags of
             Panic \<Rightarrow> (Panic, r)
           | Fail e \<Rightarrow> rd_fail e r
           | Ret (method, extended) \<Rightarrow>
               let headerLen = (if extended then ExtendedHeaderSize else HeaderSize) in
               if extended \<and> rd_end r - rd_pos r < ExtendedHeaderSize then rd_fail ErrTruncated r
               else let schemaHint = le_get (take 2 (drop 6 h)) :: u16;
                        bodyLen = le_get (take 4 (drop 8 h)) :: u32;
                        il = (if extended then go_slice (rd_buf r) (rd_pos r + 12) (rd_pos r + 16)
                              else Some []) in
               case il of
                 None \<Rightarrow> (Panic, r)
               | Some ib \<Rightarrow>
                   if extended \<and>
                      decoder_max_decompressed_size max_int < ucast (le_get ib :: u32)
                   then rd_fail ErrCorruptCompressedBody r
                   else let inflatedLen = (if extended then uint (le_get ib :: u32)
                                           else unknownInflatedLen) in
                   if (ucast bodyLen :: u64) \<noteq> go_uint64 (rd_end r - rd_pos r - headerLen)
                   then rd_fail ErrBodyLenMismatch r
                   else rd_inflate_body lib max_int method inflatedLen (flags, schemaHint, bodyLen)
                          (r\<lparr>rd_pos := rd_pos r + headerLen\<rparr>))"

end
