(* ===== verification/Writer.thy ===== *)
theory Writer
  imports Reader
begin

text \<open>
  \<^verbatim>\<open>storage/gsbm/writer.go\<close>, \<^verbatim>\<open>sizing.go\<close> and the presence writers of \<^verbatim>\<open>presence.go\<close>. One struct
  serves three modes, as in the code: appending to a buffer, counting bytes (\<open>w_size_only\<close>) and
  streaming to an \<^verbatim>\<open>io.Writer\<close> (\<open>w_target\<close>). The target is not part of the repository: a \<open>sink\<close>
  is the chunks it has accepted and a function that answers the next \<^verbatim>\<open>Write\<close> from them.
\<close>

record sink =
  sink_log :: "byte list list"
  sink_answer :: "byte list list \<Rightarrow> byte list \<Rightarrow> gerr option"

record scratch_entry =
  se_values :: "byte list list"
  se_strings :: "gostring list"
  se_strings_idx :: nat
  se_values_idx :: nat

record writer =
  w_buf :: "byte list"
  w_err :: "gerr option"
  w_size_only :: bool
  w_size_acc :: int
  w_scratch :: "u64 \<rightharpoonup> scratch_entry"
  w_record_regions :: bool
  w_recorded :: "int list"
  w_stack :: "nat list"
  w_target :: "sink option"
  w_stream_sizes :: "int list"
  w_stream_idx :: nat
  w_threshold :: int

definition reservedLenBytes :: int where [simp]: "reservedLenBytes = 5"

section \<open>Construction\<close>

definition zero_writer :: writer where
  "zero_writer =
     \<lparr>w_buf = [], w_err = None, w_size_only = False, w_size_acc = 0, w_scratch = Map.empty,
      w_record_regions = False, w_recorded = [], w_stack = [], w_target = None,
      w_stream_sizes = [], w_stream_idx = 0, w_threshold = 0\<rparr>"

definition new_writer :: "byte list \<Rightarrow> writer" where
  "new_writer b = zero_writer\<lparr>w_buf := b\<rparr>"

definition new_counting_writer :: writer where
  "new_counting_writer = zero_writer\<lparr>w_size_only := True\<rparr>"

definition new_recording_size_writer :: writer where
  "new_recording_size_writer = zero_writer\<lparr>w_size_only := True, w_record_regions := True\<rparr>"

definition new_streaming_writer :: "sink \<Rightarrow> int list \<Rightarrow> int \<Rightarrow> writer" where
  "new_streaming_writer target sizes threshold =
     zero_writer\<lparr>w_target := Some target, w_stream_sizes := sizes, w_threshold := threshold\<rparr>"

definition wr_set_err :: "gerr \<Rightarrow> writer \<Rightarrow> writer" where
  "wr_set_err e w = (if w_err w = None then w\<lparr>w_err := Some e\<rparr> else w)"

text \<open>\<^verbatim>\<open>Reset\<close> keeps the mode and does not touch the region recording or the stream state.\<close>

definition wr_reset :: "writer \<Rightarrow> writer" where
  "wr_reset w = w\<lparr>w_buf := [], w_err := None, w_size_acc := 0, w_scratch := Map.empty\<rparr>"

section \<open>Flushing\<close>

text \<open>
  \<^verbatim>\<open>w.streamTarget.Write(w.buf)\<close> with what follows it at each of its call sites: the error is
  recorded, or the buffer is emptied.
\<close>

definition wr_flush_buf :: "sink \<Rightarrow> writer \<Rightarrow> gerr option \<times> writer" where
  "wr_flush_buf s w =
     (case sink_answer s (sink_log s) (w_buf w) of
        Some e \<Rightarrow> (Some e, wr_set_err e w)
      | None \<Rightarrow>
          (None, w\<lparr>w_target := Some (s\<lparr>sink_log := sink_log s @ [w_buf w]\<rparr>), w_buf := []\<rparr>))"

definition wr_after_write :: "writer \<Rightarrow> writer" where
  "wr_after_write w =
     (case w_target w of
        None \<Rightarrow> w
      | Some s \<Rightarrow>
          if w_err w \<noteq> None \<or> len (w_buf w) < w_threshold w then w else snd (wr_flush_buf s w))"

definition wr_flush_all :: "writer \<Rightarrow> gerr option \<times> writer" where
  "wr_flush_all w =
     (if w_err w \<noteq> None then (w_err w, w)
      else case w_target w of
        None \<Rightarrow> (None, w)
      | Some s \<Rightarrow> if w_buf w = [] then (None, w) else wr_flush_buf s w)"

text \<open>
  The loop of \<^verbatim>\<open>writeChunked\<close>, entered with a positive threshold and a target; each turn moves
  at least one byte.
\<close>

function wr_chunk_loop :: "byte list \<Rightarrow> writer \<Rightarrow> writer" where
  "wr_chunk_loop s w =
     (if s = [] \<or> w_threshold w \<le> 0 then w
      else case w_target w of
        None \<Rightarrow> w
      | Some t \<Rightarrow>
          let avail = w_threshold w - len (w_buf w) in
          if avail \<le> 0 then
            (case wr_flush_buf t w of
               (Some e, w') \<Rightarrow> w'
             | (None, w') \<Rightarrow>
                 let n = nat (min (len s) (w_threshold w)) in
                 wr_chunk_loop (drop n s) (w'\<lparr>w_buf := w_buf w' @ take n s\<rparr>))
          else
            let n = nat (min (len s) avail) in
            wr_chunk_loop (drop n s) (w\<lparr>w_buf := w_buf w @ take n s\<rparr>))"
  by pat_completeness auto
termination
  by (relation "measure (\<lambda>(s, w). length s)") auto

declare wr_chunk_loop.simps [simp del]

definition wr_write_chunked :: "gostring \<Rightarrow> writer \<Rightarrow> writer" where
  "wr_write_chunked s w =
     (if w_threshold w \<le> 0 then wr_after_write (w\<lparr>w_buf := w_buf w @ s\<rparr>)
      else
        let w' = wr_chunk_loop s w in
        if w_err w' \<noteq> None then w' else wr_after_write w')"

definition wr_write_chunked_bytes :: "byte list \<Rightarrow> writer \<Rightarrow> writer" where
  "wr_write_chunked_bytes p w =
     (if w_threshold w \<le> 0 then wr_after_write (w\<lparr>w_buf := w_buf w @ p\<rparr>)
      else
        let w' = wr_chunk_loop p w in
        if w_err w' \<noteq> None then w' else wr_after_write w')"

section \<open>Header\<close>

definition wr_WriteHeader :: "byte \<Rightarrow> u16 \<Rightarrow> u32 \<Rightarrow> writer \<Rightarrow> writer" where
  "wr_WriteHeader flags schemaHint bodyLen w =
     (if w_err w \<noteq> None then w
      else if w_size_only w then w\<lparr>w_size_acc := w_size_acc w + HeaderSize\<rparr>
      else w\<lparr>w_buf := w_buf w @ Magic @ [FmtVer2, flags] @ le_put 2 schemaHint @ le_put 4 bodyLen\<rparr>)"

definition wr_FinalizeBodyLen :: "writer \<Rightarrow> writer" where
  "wr_FinalizeBodyLen w =
     (if w_err w \<noteq> None \<or> w_size_only w \<or> len (w_buf w) < HeaderSize then w
      else
        let bodyLen = len (w_buf w) - HeaderSize in
        if word_of_int MaxUint32 < go_uint64 bodyLen then wr_set_err ErrBodyTooLarge w
        else w\<lparr>w_buf := take 8 (w_buf w) @ le_put 4 (word_of_int bodyLen :: u32) @ drop 12 (w_buf w)\<rparr>)"

section \<open>Primitive writes\<close>

text \<open>
  The common shape of a primitive write: nothing after an error, \<open>n\<close> more bytes counted in
  size mode, \<open>bs\<close> appended otherwise and \<^verbatim>\<open>afterWrite\<close> called.
\<close>

definition wr_emit :: "int \<Rightarrow> byte list \<Rightarrow> writer \<Rightarrow> writer" where
  "wr_emit n bs w =
     (if w_err w \<noteq> None then w
      else if w_size_only w then w\<lparr>w_size_acc := w_size_acc w + n\<rparr>
      else wr_after_write (w\<lparr>w_buf := w_buf w @ bs\<rparr>))"

definition wr_WriteTag :: "u32 \<Rightarrow> wire_type \<Rightarrow> writer \<Rightarrow> writer" where
  "wr_WriteTag tag wt w =
     (if w_err w \<noteq> None then w
      else if tag = 0 then wr_set_err ErrZeroTag w
      else if MaxTag < tag then wr_set_err ErrTagOverflow w
      else if \<not> valid_wire_type wt then wr_set_err ErrReservedWire w
      else if w_size_only w then
        w\<lparr>w_size_acc := w_size_acc w + varint_len (field_key tag wt)\<rparr>
      else wr_after_write (w\<lparr>w_buf := append_uvarint (w_buf w) (field_key tag wt)\<rparr>))"

definition wr_WriteUvarint :: "u64 \<Rightarrow> writer \<Rightarrow> writer" where
  "wr_WriteUvarint v w =
     (if w_err w \<noteq> None then w
      else if w_size_only w then w\<lparr>w_size_acc := w_size_acc w + varint_len v\<rparr>
      else wr_after_write (w\<lparr>w_buf := append_uvarint (w_buf w) v\<rparr>))"

text \<open>\<open>None\<close> is the explicit \<^verbatim>\<open>panic\<close> on a negative length, raised before the error check.\<close>

definition wr_WriteLength :: "int \<Rightarrow> writer \<Rightarrow> writer option" where
  "wr_WriteLength n w =
     (if n < 0 then None
      else if w_err w \<noteq> None then Some w
      else if w_size_only w then
        Some (w\<lparr>w_size_acc := w_size_acc w + varint_len (go_uint64 n)\<rparr>)
      else Some (wr_after_write (w\<lparr>w_buf := append_uvarint (w_buf w) (go_uint64 n)\<rparr>)))"

definition wr_WriteVarint :: "i64 \<Rightarrow> writer \<Rightarrow> writer" where
  "wr_WriteVarint v w =
     (if w_err w \<noteq> None then w
      else if w_size_only w then w\<lparr>w_size_acc := w_size_acc w + varint_len (zigzag_encode64 v)\<rparr>
      else wr_after_write (w\<lparr>w_buf := append_uvarint (w_buf w) (zigzag_encode64 v)\<rparr>))"

definition wr_WriteBool :: "bool \<Rightarrow> writer \<Rightarrow> writer" where
  "wr_WriteBool b w = wr_emit 1 [if b then 1 else 0] w"

definition wr_WriteFixed32 :: "u32 \<Rightarrow> writer \<Rightarrow> writer" where
  "wr_WriteFixed32 v w = wr_emit 4 (le_put 4 v) w"

definition wr_WriteFixed64 :: "u64 \<Rightarrow> writer \<Rightarrow> writer" where
  "wr_WriteFixed64 v w = wr_emit 8 (le_put 8 v) w"

definition wr_WriteFloat32 :: "u32 \<Rightarrow> writer \<Rightarrow> writer" where
  "wr_WriteFloat32 = wr_WriteFixed32"

definition wr_WriteFloat64 :: "u64 \<Rightarrow> writer \<Rightarrow> writer" where
  "wr_WriteFloat64 = wr_WriteFixed64"

definition wr_WriteString :: "gostring \<Rightarrow> writer \<Rightarrow> writer" where
  "wr_WriteString s w =
     (if w_err w \<noteq> None then w
      else if w_size_only w then
        w\<lparr>w_size_acc := w_size_acc w + (varint_len (go_uint64 (len s)) + len s)\<rparr>
      else
        let w' = w\<lparr>w_buf := append_uvarint (w_buf w) (go_uint64 (len s))\<rparr> in
        if w_target w' \<noteq> None then wr_write_chunked s w'
        else wr_after_write (w'\<lparr>w_buf := w_buf w' @ s\<rparr>))"

definition wr_WriteBytes :: "byte list \<Rightarrow> writer \<Rightarrow> writer" where
  "wr_WriteBytes p w =
     (if w_err w \<noteq> None then w
      else if w_size_only w then
        w\<lparr>w_size_acc := w_size_acc w + (varint_len (go_uint64 (len p)) + len p)\<rparr>
      else
        let w' = w\<lparr>w_buf := append_uvarint (w_buf w) (go_uint64 (len p))\<rparr> in
        if w_target w' \<noteq> None then wr_write_chunked_bytes p w'
        else wr_after_write (w'\<lparr>w_buf := w_buf w' @ p\<rparr>))"

text \<open>The presence writers do not call \<^verbatim>\<open>afterWrite\<close>.\<close>

definition wr_presence :: "byte \<Rightarrow> writer \<Rightarrow> writer" where
  "wr_presence b w =
     (if w_err w \<noteq> None then w
      else if w_size_only w then w\<lparr>w_size_acc := w_size_acc w + 1\<rparr>
      else w\<lparr>w_buf := w_buf w @ [b]\<rparr>)"

definition wr_WritePresenceNil :: "writer \<Rightarrow> writer" where
  "wr_WritePresenceNil = wr_presence PresenceNil"

definition wr_WritePresenceNonZero :: "writer \<Rightarrow> writer" where
  "wr_WritePresenceNonZero = wr_presence PresenceNonZero"

definition wr_WritePresenceZero :: "writer \<Rightarrow> writer" where
  "wr_WritePresenceZero = wr_presence PresenceZero"

section \<open>Length-delimited regions\<close>

definition wr_BeginLengthDelim :: "writer \<Rightarrow> int \<times> writer" where
  "wr_BeginLengthDelim w =
     (if w_err w \<noteq> None then (0, w)
      else if w_size_only w then
        (w_size_acc w,
         if w_record_regions w then
           w\<lparr>w_recorded := w_recorded w @ [0], w_stack := w_stack w @ [length (w_recorded w)]\<rparr>
         else w)
      else if w_target w \<noteq> None then
        (if length (w_stream_sizes w) \<le> w_stream_idx w then (0, wr_set_err ErrTruncated w)
         else
           (0, wr_after_write
                 (w\<lparr>w_stream_idx := w_stream_idx w + 1,
                    w_buf := append_uvarint (w_buf w)
                               (go_uint64 (w_stream_sizes w ! w_stream_idx w))\<rparr>)))
      else (len (w_buf w), w\<lparr>w_buf := w_buf w @ [0, 0, 0, 0, 0]\<rparr>))"

text \<open>
  \<open>go_copy b dst src\<close> is \<^verbatim>\<open>copy(b[dst:], b[src:])\<close> for \<open>dst \<le> src\<close>; \<open>go_splice b i n s\<close> puts \<open>s\<close>, of
  length \<open>n\<close>, at \<open>b[i:i+n]\<close>.
\<close>

definition go_copy :: "byte list \<Rightarrow> int \<Rightarrow> int \<Rightarrow> byte list option" where
  "go_copy b dst src =
     (if 0 \<le> dst \<and> dst \<le> src \<and> src \<le> len b then
        Some (take (nat dst) b @ drop (nat src) b @ drop (nat (dst + (len b - src))) b)
      else None)"

definition go_splice :: "byte list \<Rightarrow> int \<Rightarrow> byte list \<Rightarrow> byte list" where
  "go_splice b i s = take (nat i) b @ s @ drop (nat i + length s) b"

definition wr_patch_length :: "int \<Rightarrow> int \<Rightarrow> u64 \<Rightarrow> writer \<Rightarrow> writer option" where
  "wr_patch_length marker n bodyLen w =
     (case go_slice (w_buf w) marker (marker + n) of
        None \<Rightarrow> None
      | Some slot \<Rightarrow>
          (case put_uvarint slot bodyLen of
             None \<Rightarrow> None
           | Some (slot', _) \<Rightarrow> Some (w\<lparr>w_buf := go_splice (w_buf w) marker slot'\<rparr>)))"

definition wr_EndLengthDelim :: "int \<Rightarrow> writer \<Rightarrow> writer option" where
  "wr_EndLengthDelim marker w =
     (if w_err w \<noteq> None then Some w
      else if w_size_only w then
        (let bodyLen = w_size_acc w - marker in
         if bodyLen < 0 then Some (wr_set_err ErrTruncated w)
         else if w_record_regions w \<and> w_stack w = [] then Some (wr_set_err ErrTruncated w)
         else
           let w' = (if w_record_regions w then
                       w\<lparr>w_stack := butlast (w_stack w),
                         w_recorded := (w_recorded w)[last (w_stack w) := bodyLen]\<rparr>
                     else w) in
           Some (w'\<lparr>w_size_acc := w_size_acc w' + varint_len (go_uint64 bodyLen)\<rparr>))
      else if w_target w \<noteq> None then Some w
      else
        let bodyLen = len (w_buf w) - marker - reservedLenBytes in
        if bodyLen < 0 then Some (wr_set_err ErrTruncated w)
        else
          let n = varint_len (go_uint64 bodyLen) in
          if reservedLenBytes < n then Some (wr_set_err ErrBodyTooLarge w)
          else if n < reservedLenBytes then
            (case go_copy (w_buf w) (marker + n) (marker + reservedLenBytes) of
               None \<Rightarrow> None
             | Some b \<Rightarrow>
                 wr_patch_length marker n (go_uint64 bodyLen)
                   (w\<lparr>w_buf := take (nat (len b - (reservedLenBytes - n))) b\<rparr>))
          else wr_patch_length marker n (go_uint64 bodyLen) w)"

section \<open>Cached writes\<close>

text \<open>
  \<open>gen\<close> is the materialisation callback. It may read and change state outside the Writer, of
  type \<open>'g\<close>, so running it a second time may give another result.
\<close>

definition empty_entry :: scratch_entry where
  "empty_entry = \<lparr>se_values = [], se_strings = [], se_strings_idx = 0, se_values_idx = 0\<rparr>"

definition wr_entry_for :: "u64 \<Rightarrow> writer \<Rightarrow> scratch_entry" where
  "wr_entry_for callsite w =
     (case w_scratch w callsite of None \<Rightarrow> empty_entry | Some e \<Rightarrow> e)"

definition wr_put_entry :: "u64 \<Rightarrow> scratch_entry \<Rightarrow> writer \<Rightarrow> writer" where
  "wr_put_entry callsite e w = w\<lparr>w_scratch := (w_scratch w)(callsite \<mapsto> e)\<rparr>"

definition wr_WriteCachedString ::
  "u64 \<Rightarrow> ('g \<Rightarrow> gostring \<times> 'g) \<Rightarrow> writer \<times> 'g \<Rightarrow> writer \<times> 'g" where
  "wr_WriteCachedString callsite gen wg =
     (case wg of (w, g) \<Rightarrow>
        if w_err w \<noteq> None then (w, g)
        else
          let e = wr_entry_for callsite w in
          if se_strings_idx e < length (se_strings e) then
            (wr_WriteString (se_strings e ! se_strings_idx e)
               (wr_put_entry callsite (e\<lparr>se_strings_idx := se_strings_idx e + 1\<rparr>) w), g)
          else
            case gen g of (s, g') \<Rightarrow>
              (wr_WriteString s
                 (wr_put_entry callsite
                    (e\<lparr>se_strings := se_strings e @ [s], se_strings_idx := se_strings_idx e + 1\<rparr>) w),
               g'))"

definition wr_WriteCachedBytes ::
  "u64 \<Rightarrow> ('g \<Rightarrow> byte list \<times> 'g) \<Rightarrow> writer \<times> 'g \<Rightarrow> writer \<times> 'g" where
  "wr_WriteCachedBytes callsite gen wg =
     (case wg of (w, g) \<Rightarrow>
        if w_err w \<noteq> None then (w, g)
        else
          let e = wr_entry_for callsite w in
          if se_values_idx e < length (se_values e) then
            (wr_WriteBytes (se_values e ! se_values_idx e)
               (wr_put_entry callsite (e\<lparr>se_values_idx := se_values_idx e + 1\<rparr>) w), g)
          else
            case gen g of (b, g') \<Rightarrow>
              (wr_WriteBytes b
                 (wr_put_entry callsite
                    (e\<lparr>se_values := se_values e @ [b], se_values_idx := se_values_idx e + 1\<rparr>) w),
               g'))"

definition wr_WriteCachedAppendBytes ::
  "u64 \<Rightarrow> ('g \<Rightarrow> (gerr + byte list) \<times> 'g) \<Rightarrow> writer \<times> 'g \<Rightarrow> writer \<times> 'g" where
  "wr_WriteCachedAppendBytes callsite appendFn wg =
     (case wg of (w, g) \<Rightarrow>
        if w_err w \<noteq> None then (w, g)
        else
          let e = wr_entry_for callsite w in
          if se_values_idx e < length (se_values e) then
            (wr_WriteBytes (se_values e ! se_values_idx e)
               (wr_put_entry callsite (e\<lparr>se_values_idx := se_values_idx e + 1\<rparr>) w), g)
          else
            case appendFn g of
              (Inl x, g') \<Rightarrow> (wr_set_err x (wr_put_entry callsite e w), g')
            | (Inr b, g') \<Rightarrow>
                (wr_WriteBytes b
                   (wr_put_entry callsite
                      (e\<lparr>se_values := se_values e @ [b], se_values_idx := se_values_idx e + 1\<rparr>) w),
                 g'))"

definition rewind_entry :: "scratch_entry \<Rightarrow> scratch_entry" where
  "rewind_entry e = e\<lparr>se_strings_idx := 0, se_values_idx := 0\<rparr>"

definition wr_adopt_scratch :: "writer \<Rightarrow> writer option \<Rightarrow> writer \<times> writer option" where
  "wr_adopt_scratch w other =
     (case other of
        None \<Rightarrow> (w, None)
      | Some v \<Rightarrow>
          (w\<lparr>w_scratch := map_option rewind_entry \<circ> w_scratch v\<rparr>,
           Some (v\<lparr>w_scratch := Map.empty\<rparr>)))"

end
