(* ===== verification/Writer_Spec.thy ===== *)
theory Writer_Spec
  imports Writer
begin

text \<open>
  What the Writer promises. A \<^verbatim>\<open>MarshalGSBM\<close> body is the tree of Writer calls it makes (\<open>wop\<close>):
  primitive writes, regions bracketed by Begin/End, and cached writes with their callbacks.
  \<open>wr_execs\<close> runs it on a Writer of any mode. \<open>resolves\<close> is the mode-independent meaning of the
  cached writes, and \<open>enc_items\<close> the bytes the result denotes; every mode is proved against them.
\<close>

section \<open>Programs of Writer calls\<close>

text \<open>\<open>PLength n\<close> is \<^verbatim>\<open>WriteLength\<close> with a non-negative argument, as the \<^verbatim>\<open>uint64\<close> it is converted to.\<close>

datatype prim =
    PTag u32 wire_type | PUvarint u64 | PVarint i64 | PBool bool | PFixed32 u32 | PFixed64 u64
  | PString gostring | PBytes "byte list" | PLength u64
  | PPresenceNil | PPresenceNonZero | PPresenceZero

datatype 'g wop =
    Prim prim
  | Region "'g wop list"
  | CachedString u64 "'g \<Rightarrow> gostring \<times> 'g"
  | CachedBytes u64 "'g \<Rightarrow> byte list \<times> 'g"
  | CachedAppend u64 "'g \<Rightarrow> (gerr + byte list) \<times> 'g"

fun wr_prim :: "prim \<Rightarrow> writer \<Rightarrow> writer option" where
  "wr_prim (PTag t wt) w = Some (wr_WriteTag t wt w)"
| "wr_prim (PUvarint v) w = Some (wr_WriteUvarint v w)"
| "wr_prim (PVarint v) w = Some (wr_WriteVarint v w)"
| "wr_prim (PBool b) w = Some (wr_WriteBool b w)"
| "wr_prim (PFixed32 v) w = Some (wr_WriteFixed32 v w)"
| "wr_prim (PFixed64 v) w = Some (wr_WriteFixed64 v w)"
| "wr_prim (PString s) w = Some (wr_WriteString s w)"
| "wr_prim (PBytes s) w = Some (wr_WriteBytes s w)"
| "wr_prim (PLength n) w = wr_WriteLength (uint n) w"
| "wr_prim PPresenceNil w = Some (wr_WritePresenceNil w)"
| "wr_prim PPresenceNonZero w = Some (wr_WritePresenceNonZero w)"
| "wr_prim PPresenceZero w = Some (wr_WritePresenceZero w)"

fun wr_exec :: "'g wop \<Rightarrow> writer \<times> 'g \<Rightarrow> (writer \<times> 'g) option"
  and wr_execs :: "'g wop list \<Rightarrow> writer \<times> 'g \<Rightarrow> (writer \<times> 'g) option" where
  "wr_exec (Prim p) (w, g) = map_option (\<lambda>w'. (w', g)) (wr_prim p w)"
| "wr_exec (Region ops) (w, g) =
     (case wr_BeginLengthDelim w of (marker, w1) \<Rightarrow>
        (case wr_execs ops (w1, g) of
           None \<Rightarrow> None
         | Some (w2, g2) \<Rightarrow> map_option (\<lambda>w'. (w', g2)) (wr_EndLengthDelim marker w2)))"
| "wr_exec (CachedString c gen) (w, g) = Some (wr_WriteCachedString c gen (w, g))"
| "wr_exec (CachedBytes c gen) (w, g) = Some (wr_WriteCachedBytes c gen (w, g))"
| "wr_exec (CachedAppend c f) (w, g) = Some (wr_WriteCachedAppendBytes c f (w, g))"
| "wr_execs [] wg = Some wg"
| "wr_execs (op # ops) wg = (case wr_exec op wg of None \<Rightarrow> None | Some wg' \<Rightarrow> wr_execs ops wg')"

section \<open>Their meaning\<close>

datatype item = Item prim | Group "item list"

definition prim_err :: "prim \<Rightarrow> gerr option" where
  "prim_err p =
     (case p of
        PTag t wt \<Rightarrow>
          if t = 0 then Some ErrZeroTag
          else if MaxTag < t then Some ErrTagOverflow
          else if \<not> valid_wire_type wt then Some ErrReservedWire
          else None
      | _ \<Rightarrow> None)"

fun prim_bytes :: "prim \<Rightarrow> byte list" where
  "prim_bytes (PTag t wt) = uvarint (field_key t wt)"
| "prim_bytes (PUvarint v) = uvarint v"
| "prim_bytes (PVarint v) = uvarint (zigzag_encode64 v)"
| "prim_bytes (PBool b) = [if b then 1 else 0]"
| "prim_bytes (PFixed32 v) = le_put 4 v"
| "prim_bytes (PFixed64 v) = le_put 8 v"
| "prim_bytes (PString s) = uvarint (go_uint64 (len s)) @ s"
| "prim_bytes (PBytes s) = uvarint (go_uint64 (len s)) @ s"
| "prim_bytes (PLength n) = uvarint n"
| "prim_bytes PPresenceNil = [0]"
| "prim_bytes PPresenceNonZero = [1]"
| "prim_bytes PPresenceZero = [3]"

fun enc_item :: "item \<Rightarrow> byte list" and enc_items :: "item list \<Rightarrow> byte list" where
  "enc_item (Item p) = prim_bytes p"
| "enc_item (Group xs) = uvarint (go_uint64 (len (enc_items xs))) @ enc_items xs"
| "enc_items [] = []"
| "enc_items (x # xs) = enc_item x @ enc_items xs"

text \<open>Body sizes of the regions in the order \<^verbatim>\<open>BeginLengthDelim\<close> is called.\<close>

fun region_sizes1 :: "item \<Rightarrow> int list" and region_sizes :: "item list \<Rightarrow> int list" where
  "region_sizes1 (Item p) = []"
| "region_sizes1 (Group xs) = len (enc_items xs) # region_sizes xs"
| "region_sizes [] = []"
| "region_sizes (x # xs) = region_sizes1 x @ region_sizes xs"

text \<open>
  \<open>resolve\<close> runs the callbacks against the cache, hit or miss, and collects the items; the first
  invalid tag or failing callback ends it.
\<close>

type_synonym scratch = "u64 \<rightharpoonup> scratch_entry"

definition sc_entry :: "scratch \<Rightarrow> u64 \<Rightarrow> scratch_entry" where
  "sc_entry sc c = (case sc c of None \<Rightarrow> empty_entry | Some e \<Rightarrow> e)"

fun resolve :: "'g wop \<Rightarrow> scratch \<times> 'g \<Rightarrow> item outcome \<times> scratch \<times> 'g"
  and resolves :: "'g wop list \<Rightarrow> scratch \<times> 'g \<Rightarrow> item list outcome \<times> scratch \<times> 'g" where
  "resolve (Prim p) sg = (case prim_err p of None \<Rightarrow> Ret (Item p) | Some e \<Rightarrow> Fail e, sg)"
| "resolve (Region ops) sg = (case resolves ops sg of (r, sg') \<Rightarrow> (map_outcome Group r, sg'))"
| "resolve (CachedString c gen) (sc, g) =
     (let e = sc_entry sc c; i = se_strings_idx e in
      if i < length (se_strings e) then
        (Ret (Item (PString (se_strings e ! i))), sc(c \<mapsto> e\<lparr>se_strings_idx := i + 1\<rparr>), g)
      else case gen g of (s, g') \<Rightarrow>
        (Ret (Item (PString s)),
         sc(c \<mapsto> e\<lparr>se_strings := se_strings e @ [s], se_strings_idx := i + 1\<rparr>), g'))"
| "resolve (CachedBytes c gen) (sc, g) =
     (let e = sc_entry sc c; i = se_values_idx e in
      if i < length (se_values e) then
        (Ret (Item (PBytes (se_values e ! i))), sc(c \<mapsto> e\<lparr>se_values_idx := i + 1\<rparr>), g)
      else case gen g of (b, g') \<Rightarrow>
        (Ret (Item (PBytes b)),
         sc(c \<mapsto> e\<lparr>se_values := se_values e @ [b], se_values_idx := i + 1\<rparr>), g'))"
| "resolve (CachedAppend c f) (sc, g) =
     (let e = sc_entry sc c; i = se_values_idx e in
      if i < length (se_values e) then
        (Ret (Item (PBytes (se_values e ! i))), sc(c \<mapsto> e\<lparr>se_values_idx := i + 1\<rparr>), g)
      else case f g of
        (Inl x, g') \<Rightarrow> (Fail x, sc(c \<mapsto> e), g')
      | (Inr b, g') \<Rightarrow>
          (Ret (Item (PBytes b)),
           sc(c \<mapsto> e\<lparr>se_values := se_values e @ [b], se_values_idx := i + 1\<rparr>), g'))"
| "resolves [] sg = (Ret [], sg)"
| "resolves (op # ops) sg =
     (case resolve op sg of
        (Fail e, sg') \<Rightarrow> (Fail e, sg')
      | (Panic, sg') \<Rightarrow> (Panic, sg')
      | (Ret x, sg') \<Rightarrow> (case resolves ops sg' of (r, sg'') \<Rightarrow> (map_outcome ((#) x) r, sg'')))"

lemma resolve_no_panic: "fst (resolve op sg) \<noteq> Panic"
  and resolves_no_panic: "fst (resolves ops sg) \<noteq> Panic"
  by (induction op sg and ops sg rule: resolve_resolves.induct)
    (auto simp: Let_def split: option.splits prod.splits sum.splits outcome.splits)

section \<open>After an error nothing happens\<close>

lemma wr_prim_err: "w_err w \<noteq> None \<Longrightarrow> wr_prim p w = Some w"
  by (cases p)
    (auto simp: wr_WriteTag_def wr_WriteUvarint_def wr_WriteVarint_def wr_WriteBool_def wr_emit_def
      wr_WriteFixed32_def wr_WriteFixed64_def wr_WriteString_def wr_WriteBytes_def wr_WriteLength_def
      wr_WritePresenceNil_def wr_WritePresenceNonZero_def wr_WritePresenceZero_def wr_presence_def)

lemma wr_exec_err: "w_err w \<noteq> None \<Longrightarrow> wr_exec op (w, g) = Some (w, g)"
  and wr_execs_err: "w_err w \<noteq> None \<Longrightarrow> wr_execs ops (w, g) = Some (w, g)"
proof (induction op "(w, g)" and ops "(w, g)" arbitrary: w g and w g rule: wr_exec_wr_execs.induct)
  case (2 ops w g)
  then show ?case by (simp add: wr_BeginLengthDelim_def wr_EndLengthDelim_def)
qed (auto simp: wr_prim_err wr_WriteCachedString_def wr_WriteCachedBytes_def
    wr_WriteCachedAppendBytes_def)

lemma wr_prim_tag_err:
  "w_err w = None \<Longrightarrow> prim_err p = Some e \<Longrightarrow> \<exists>w'. wr_prim p w = Some w' \<and> w_err w' = Some e"
  by (cases p) (auto simp: prim_err_def wr_WriteTag_def wr_set_err_def split: if_splits)

section \<open>The scratch is only used by the cached writes\<close>

lemma wr_scratch_flush [simp]: "w_scratch (snd (wr_flush_buf s w)) = w_scratch w"
  by (auto simp: wr_flush_buf_def wr_set_err_def split: option.splits)

lemma wr_flush_scratch: "wr_flush_buf s w = (r, w') \<Longrightarrow> w_scratch w' = w_scratch w"
  using wr_scratch_flush [of s w] by simp

lemma wr_scratch_after [simp]: "w_scratch (wr_after_write w) = w_scratch w"
  by (auto simp: wr_after_write_def split: option.splits)

lemma wr_scratch_chunk_loop [simp]: "w_scratch (wr_chunk_loop s w) = w_scratch w"
proof (induction s arbitrary: w rule: length_induct)
  case (1 s)
  have drop: "0 < n \<Longrightarrow> s \<noteq> [] \<Longrightarrow> length (drop n s) < length s" for n by (cases s) auto
  show ?case
  proof (cases "s = [] \<or> w_threshold w \<le> 0 \<or> w_target w = None")
    case True
    then show ?thesis by (subst wr_chunk_loop.simps) auto
  next
    case False
    then obtain t where t: "w_target w = Some t" by auto
    have n: "0 < nat (min (len s) k)" if "0 < k" for k using False that by (cases s) auto
    show ?thesis
      using 1 False t n drop
      by (subst wr_chunk_loop.simps)
        (auto simp: Let_def dest: wr_flush_scratch split: option.splits prod.splits)
  qed
qed

lemma wr_prim_scratch: "wr_prim p w = Some w' \<Longrightarrow> w_scratch w' = w_scratch w"
  by (cases p)
    (auto simp: wr_WriteTag_def wr_WriteUvarint_def wr_WriteVarint_def wr_WriteBool_def wr_emit_def
      wr_WriteFixed32_def wr_WriteFixed64_def wr_WriteString_def wr_WriteBytes_def wr_WriteLength_def
      wr_WritePresenceNil_def wr_WritePresenceNonZero_def wr_WritePresenceZero_def wr_presence_def
      wr_set_err_def wr_write_chunked_def wr_write_chunked_bytes_def Let_def split: if_splits)

lemma wr_Begin_scratch [simp]: "w_scratch (snd (wr_BeginLengthDelim w)) = w_scratch w"
  by (auto simp: wr_BeginLengthDelim_def wr_set_err_def)

lemma wr_patch_scratch: "wr_patch_length m n b w = Some w' \<Longrightarrow> w_scratch w' = w_scratch w"
  by (auto simp: wr_patch_length_def split: option.splits)

lemma wr_End_scratch: "wr_EndLengthDelim m w = Some w' \<Longrightarrow> w_scratch w' = w_scratch w"
  by (auto simp: wr_EndLengthDelim_def wr_set_err_def Let_def split: if_splits option.splits
      dest!: wr_patch_scratch)

section \<open>The contract of a mode\<close>

text \<open>
  What running a program needs from the mode the Writer is in: \<open>emits w xs w'\<close> says that \<open>w'\<close> is
  \<open>w\<close> with the items \<open>xs\<close> written, or stopped by an error of the mode; \<open>adm w xs\<close> that \<open>w\<close> can take
  them.
\<close>

locale writer_mode =
  fixes ok :: "writer \<Rightarrow> bool"
    and adm :: "writer \<Rightarrow> item list \<Rightarrow> bool"
    and emits :: "writer \<Rightarrow> item list \<Rightarrow> writer \<Rightarrow> bool"
  assumes ok_err: "ok w \<Longrightarrow> w_err w = None"
    and ok_scratch: "ok (w\<lparr>w_scratch := sc\<rparr>) \<longleftrightarrow> ok w"
    and adm_scratch: "adm (w\<lparr>w_scratch := sc\<rparr>) xs \<longleftrightarrow> adm w xs"
    and emits_scratch: "emits w xs w' \<Longrightarrow> emits (w\<lparr>w_scratch := sc\<rparr>) xs (w'\<lparr>w_scratch := sc'\<rparr>)"
    and emits_ok: "ok w \<Longrightarrow> emits w xs w' \<Longrightarrow> w_err w' = None \<Longrightarrow> ok w'"
    and nil: "ok w \<Longrightarrow> emits w [] w"
    and seq: "emits w xs w1 \<Longrightarrow> emits w1 ys w2 \<Longrightarrow> w_err w1 = None \<Longrightarrow> emits w (xs @ ys) w2"
    and halt: "ok w \<Longrightarrow> emits w xs w1 \<Longrightarrow> w_err w1 \<noteq> None \<Longrightarrow> emits w (xs @ ys) w1"
    and adm_front: "adm w (xs @ ys) \<Longrightarrow> adm w xs"
    and adm_back: "adm w (xs @ ys) \<Longrightarrow> emits w xs w1 \<Longrightarrow> w_err w1 = None \<Longrightarrow> adm w1 ys"
    and prim: "ok w \<Longrightarrow> adm w [Item p] \<Longrightarrow> prim_err p = None \<Longrightarrow>
      \<exists>w'. wr_prim p w = Some w' \<and> emits w [Item p] w'"
    and begin_adm: "ok w \<Longrightarrow> adm w [Group xs] \<Longrightarrow> wr_BeginLengthDelim w = (m, w1) \<Longrightarrow>
      w_err w1 = None \<Longrightarrow> ok w1 \<and> adm w1 xs"
    and begin_halt: "ok w \<Longrightarrow> adm w [Group xs] \<Longrightarrow> wr_BeginLengthDelim w = (m, w1) \<Longrightarrow>
      w_err w1 \<noteq> None \<Longrightarrow> emits w [Group xs] w1"
    and region: "ok w \<Longrightarrow> adm w [Group xs] \<Longrightarrow> wr_BeginLengthDelim w = (m, w1) \<Longrightarrow>
      w_err w1 = None \<Longrightarrow> emits w1 xs w2 \<Longrightarrow>
      \<exists>w3. wr_EndLengthDelim m w2 = Some w3 \<and> emits w [Group xs] w3"
begin

text \<open>A run ends in \<open>(w', g1)\<close>: the items are written and cache and world are those of \<open>resolve\<close>.\<close>

definition run_ok ::
  "writer \<Rightarrow> item list \<Rightarrow> scratch \<times> 'g \<Rightarrow> (writer \<times> 'g) option \<Rightarrow> bool" where
  "run_ok w xs sg res \<longleftrightarrow>
     (\<exists>w' g1. res = Some (w', g1) \<and> emits w xs w' \<and>
        (w_err w' = None \<longrightarrow> ok w' \<and> (w_scratch w', g1) = sg))"

lemma run_okI:
  assumes "ok w" and "res = Some (w', g1)" and "emits w xs w'" and "(w_scratch w', g1) = sg"
  shows "run_ok w xs sg res"
  using assms emits_ok unfolding run_ok_def by blast

lemma cached_ok:
  assumes "ok w" and "adm w [Item p]" and "prim_err p = None" and "wr_prim p = (\<lambda>w. Some (f w))"
  shows "run_ok w [Item p] (sc, g) (Some (f (w\<lparr>w_scratch := sc\<rparr>), g))"
proof -
  let ?w = "w\<lparr>w_scratch := sc\<rparr>"
  obtain w' where w': "wr_prim p ?w = Some w'" "emits ?w [Item p] w'"
    using prim [of ?w p] assms(1-3) by (auto simp: ok_scratch adm_scratch)
  have sc: "w_scratch w' = sc" using wr_prim_scratch [OF w'(1)] by simp
  have "emits w [Item p] w'"
    using emits_scratch [OF w'(2), of "w_scratch w" sc] sc by (cases w') simp
  then show ?thesis
    using w'(1) sc assms(1,4) by (intro run_okI [where w' = w' and ?g1.0 = g]) auto
qed

lemma string_ok:
  assumes "ok w" and "adm w [Item (PString s)]"
  shows "run_ok w [Item (PString s)] (sc, g) (Some (wr_WriteString s (w\<lparr>w_scratch := sc\<rparr>), g))"
  using cached_ok [OF assms, of "wr_WriteString s"] by (simp add: prim_err_def fun_eq_iff)

lemma bytes_ok:
  assumes "ok w" and "adm w [Item (PBytes s)]"
  shows "run_ok w [Item (PBytes s)] (sc, g) (Some (wr_WriteBytes s (w\<lparr>w_scratch := sc\<rparr>), g))"
  using cached_ok [OF assms, of "wr_WriteBytes s"] by (simp add: prim_err_def fun_eq_iff)

lemma exec_ok:
    "resolve op (w_scratch w, g) = (Ret x, sg) \<Longrightarrow> ok w \<Longrightarrow> adm w [x] \<Longrightarrow>
       run_ok w [x] sg (wr_exec op (w, g))"
  and execs_ok:
    "resolves ops (w_scratch w, g) = (Ret xs, sg) \<Longrightarrow> ok w \<Longrightarrow> adm w xs \<Longrightarrow>
       run_ok w xs sg (wr_execs ops (w, g))"
proof (induction op "(w, g)" and ops "(w, g)" arbitrary: w g x sg and w g xs sg
    rule: wr_exec_wr_execs.induct)
  case (1 p w g)
  then have e: "prim_err p = None" "x = Item p" "sg = (w_scratch w, g)"
    by (auto split: option.splits)
  obtain w' where w': "wr_prim p w = Some w'" "emits w [Item p] w'"
    using prim 1(2,3) e by blast
  then show ?case
    using wr_prim_scratch [OF w'(1)] e 1(2) by (intro run_okI [where w' = w']) auto
next
  case (2 ops w g)
  obtain xs where xs: "resolves ops (w_scratch w, g) = (Ret xs, sg)" "x = Group xs"
    using 2(2) by (auto split: prod.splits)
  obtain m w1 where b: "wr_BeginLengthDelim w = (m, w1)" by (cases "wr_BeginLengthDelim w")
  have s1: "w_scratch w1 = w_scratch w" using wr_Begin_scratch [of w] b by simp
  show ?case
  proof (cases "w_err w1")
    case (Some e)
    then show ?thesis
      using begin_halt [OF 2(3) _ b] 2(4) xs
      by (simp add: run_ok_def b wr_execs_err wr_EndLengthDelim_def)
  next
    case None
    have "ok w1" "adm w1 xs" using begin_adm [OF 2(3) _ b None] 2(4) xs(2) by auto
    then obtain w2 g2 where w2: "wr_execs ops (w1, g) = Some (w2, g2)" "emits w1 xs w2"
        "w_err w2 = None \<longrightarrow> (w_scratch w2, g2) = sg"
      using 2(1) [OF b [symmetric], of xs sg] xs(1) s1 by (auto simp: run_ok_def)
    obtain w3 where w3: "wr_EndLengthDelim m w2 = Some w3" "emits w [Group xs] w3"
      using region [OF 2(3) _ b None w2(2)] 2(4) xs(2) by blast
    have "w_err w3 = None \<Longrightarrow> w_err w2 = None"
      using w3(1) by (cases "w_err w2") (auto simp: wr_EndLengthDelim_def)
    then show ?thesis
      using w2 w3 wr_End_scratch [OF w3(1)] emits_ok [OF 2(3) w3(2)]
      by (auto simp: run_ok_def b xs(2))
  qed
next
  case (3 c gen w g)
  have e: "wr_entry_for c w = sc_entry (w_scratch w) c" by (simp add: wr_entry_for_def sc_entry_def)
  show ?case
    using 3 ok_err [of w]
    by (auto simp: wr_WriteCachedString_def Let_def e wr_put_entry_def intro!: string_ok
        split: if_splits prod.splits)
next
  case (4 c gen w g)
  have e: "wr_entry_for c w = sc_entry (w_scratch w) c" by (simp add: wr_entry_for_def sc_entry_def)
  show ?case
    using 4 ok_err [of w]
    by (auto simp: wr_WriteCachedBytes_def Let_def e wr_put_entry_def intro!: bytes_ok
        split: if_splits prod.splits)
next
  case (5 c f w g)
  have e: "wr_entry_for c w = sc_entry (w_scratch w) c" by (simp add: wr_entry_for_def sc_entry_def)
  show ?case
    using 5 ok_err [of w]
    by (auto simp: wr_WriteCachedAppendBytes_def Let_def e wr_put_entry_def intro!: bytes_ok
        split: if_splits prod.splits sum.splits)
next
  case (6 w g)
  then show ?case using nil by (intro run_okI [where w' = w]) auto
next
  case (7 op ops w g)
  obtain x sc1 g1 where x: "resolve op (w_scratch w, g) = (Ret x, sc1, g1)"
    using 7(3) by (auto split: prod.splits outcome.splits)
  obtain ys where ys: "resolves ops (sc1, g1) = (Ret ys, sg)" "xs = x # ys"
    using 7(3) x by (auto split: prod.splits)
  have adm: "adm w ([x] @ ys)" using 7(5) ys(2) by simp
  obtain w1 h1 where w1: "wr_exec op (w, g) = Some (w1, h1)" "emits w [x] w1"
      "w_err w1 = None \<longrightarrow> ok w1 \<and> w_scratch w1 = sc1 \<and> h1 = g1"
    using 7(1) [OF x 7(4) adm_front [OF adm]] by (auto simp: run_ok_def)
  show ?case
  proof (cases "w_err w1")
    case (Some e)
    then show ?thesis
      using halt [OF 7(4) w1(2)] w1(1) ys(2) by (auto simp: run_ok_def wr_execs_err)
  next
    case None
    have "run_ok w1 ys sg (wr_execs ops (w1, h1))"
      using 7(2) [of w1 h1 ys sg] w1 None ys adm_back [OF adm w1(2) None] by auto
    then show ?thesis
      using seq [OF w1(2) _ None] w1(1) ys(2) by (auto simp: run_ok_def)
  qed
qed

end

end
