(* ===== verification/Writer_Modes.thy ===== *)
theory Writer_Modes
  imports Writer_Spec
begin

text \<open>
  The three modes of the Writer meet the contract \<^theory_text>\<open>writer_mode\<close>: size mode adds the lengths and
  records the region sizes, buffered mode appends the bytes (shifting each region over its
  reserved slot when it closes), streaming mode sends them to the target with the lengths taken
  from the recorded sizes.
\<close>

lemma enc_items_append: "enc_items (xs @ ys) = enc_items xs @ enc_items ys"
  by (induction xs) auto

lemma region_sizes_append: "region_sizes (xs @ ys) = region_sizes xs @ region_sizes ys"
  by (induction xs) auto

lemma ex_scratch [simp]: "\<exists>sc. w = w\<lparr>w_scratch := sc\<rparr>" for w :: writer
  by (rule exI [of _ "w_scratch w"]) (cases w, simp)

lemmas wr_prim_defs =
  wr_WriteTag_def wr_WriteUvarint_def wr_WriteVarint_def wr_WriteBool_def wr_emit_def
  wr_WriteFixed32_def wr_WriteFixed64_def wr_WriteString_def wr_WriteBytes_def wr_WriteLength_def
  wr_WritePresenceNil_def wr_WritePresenceNonZero_def wr_WritePresenceZero_def wr_presence_def

section \<open>Size mode\<close>

definition sz_ok :: "writer \<Rightarrow> bool" where
  "sz_ok w \<longleftrightarrow> w_err w = None \<and> w_size_only w"

definition sz_emits :: "writer \<Rightarrow> item list \<Rightarrow> writer \<Rightarrow> bool" where
  "sz_emits w xs w' \<longleftrightarrow>
     (\<exists>sc. w' = w\<lparr>w_size_acc := w_size_acc w + len (enc_items xs),
        w_recorded := (if w_record_regions w then w_recorded w @ region_sizes xs else w_recorded w),
        w_scratch := sc\<rparr>)"

lemma sz_prim:
  assumes "sz_ok w" and "prim_err p = None"
  shows "wr_prim p w = Some (w\<lparr>w_size_acc := w_size_acc w + len (prim_bytes p)\<rparr>)"
  using assms
  by (cases p)
    (auto simp: sz_ok_def prim_err_def wr_prim_defs length_uvarint split: if_splits)

interpretation sz: writer_mode sz_ok "\<lambda>w xs. True" sz_emits
proof unfold_locales
  fix w p assume "sz_ok w" and "prim_err p = None"
  then show "\<exists>w'. wr_prim p w = Some w' \<and> sz_emits w [Item p] w'"
    by (cases w) (simp add: sz_prim sz_emits_def)
next
  fix w xs m w1 w2
  assume w: "sz_ok w" and b: "wr_BeginLengthDelim w = (m, w1)" and e: "sz_emits w1 xs w2"
  then obtain sc where "w2 = w1\<lparr>w_size_acc := w_size_acc w1 + len (enc_items xs),
      w_recorded := (if w_record_regions w1 then w_recorded w1 @ region_sizes xs else w_recorded w1),
      w_scratch := sc\<rparr>"
    unfolding sz_emits_def by blast
  note w2 = this
  show "\<exists>w3. wr_EndLengthDelim m w2 = Some w3 \<and> sz_emits w [Group xs] w3"
  proof (cases "w_record_regions w")
    case True
    then have "w2 = w\<lparr>w_size_acc := w_size_acc w + len (enc_items xs),
        w_recorded := w_recorded w @ 0 # region_sizes xs,
        w_stack := w_stack w @ [length (w_recorded w)], w_scratch := sc\<rparr>"
      and "m = w_size_acc w"
      using w b w2 by (auto simp: sz_ok_def wr_BeginLengthDelim_def)
    then have "wr_EndLengthDelim m w2 =
        Some (w\<lparr>w_size_acc := w_size_acc w + len (enc_items [Group xs]),
          w_recorded := w_recorded w @ region_sizes [Group xs], w_stack := w_stack w, w_scratch := sc\<rparr>)"
      using w True by (simp add: wr_EndLengthDelim_def sz_ok_def Let_def length_uvarint)
    then show ?thesis using True by (cases w) (simp add: sz_emits_def)
  next
    case False
    then have "w2 = w\<lparr>w_size_acc := w_size_acc w + len (enc_items xs), w_scratch := sc\<rparr>"
      and "m = w_size_acc w"
      using w b w2 by (cases w; auto simp: sz_ok_def wr_BeginLengthDelim_def)+
    then have "wr_EndLengthDelim m w2 =
        Some (w\<lparr>w_size_acc := w_size_acc w + len (enc_items [Group xs]), w_scratch := sc\<rparr>)"
      using w False by (simp add: wr_EndLengthDelim_def sz_ok_def Let_def length_uvarint)
    then show ?thesis using False by (cases w) (simp add: sz_emits_def)
  qed
qed (auto simp: sz_ok_def sz_emits_def wr_BeginLengthDelim_def enc_items_append
    region_sizes_append add.assoc split: if_splits)

section \<open>Buffered mode\<close>

definition rl_ok :: "writer \<Rightarrow> bool" where
  "rl_ok w \<longleftrightarrow> w_err w = None \<and> \<not> w_size_only w \<and> w_target w = None"

text \<open>Region bodies a five-byte length can describe.\<close>

definition small_regions :: "item list \<Rightarrow> bool" where
  "small_regions xs \<longleftrightarrow> (\<forall>n\<in>set (region_sizes xs). n < 2 ^ 35)"

definition rl_emits :: "writer \<Rightarrow> item list \<Rightarrow> writer \<Rightarrow> bool" where
  "rl_emits w xs w' \<longleftrightarrow> (\<exists>sc. w' = w\<lparr>w_buf := w_buf w @ enc_items xs, w_scratch := sc\<rparr>)"

lemma rl_prim:
  assumes "rl_ok w" and "prim_err p = None"
  shows "wr_prim p w = Some (w\<lparr>w_buf := w_buf w @ prim_bytes p\<rparr>)"
  using assms
  by (cases p)
    (auto simp: rl_ok_def prim_err_def wr_prim_defs append_uvarint_eq wr_after_write_def Let_def
      split: if_splits)

lemma wr_patch_length_eq:
  assumes "w_buf w = pre @ slot @ body" and "len slot = varint_len v" and "m = len pre"
  shows "wr_patch_length m (varint_len v) v w = Some (w\<lparr>w_buf := pre @ uvarint v @ body\<rparr>)"
proof -
  have "go_slice (w_buf w) m (m + varint_len v) = Some slot"
    using assms by simp
  moreover have "put_uvarint slot v = Some (uvarint v, varint_len v)"
    using put_uvarint_eq [of v slot] assms(2) by simp
  moreover have "length (uvarint v) = length slot"
    using length_uvarint [of v] assms(2) by linarith
  ultimately show ?thesis
    using assms(1,3) by (simp add: wr_patch_length_def go_splice_def)
qed

lemma body_len_width:
  assumes "0 \<le> k" and "k < 2 ^ 35"
  shows "varint_len (go_uint64 k) \<le> 5"
proof -
  have "unat (go_uint64 k) < 128 ^ 5"
    using assms by (simp add: go_uint64_def unat_u64_of_int nat_less_iff)
  then show ?thesis using varint_len_le_iff [of "go_uint64 k" 5] by simp
qed

text \<open>Closing a region: the five reserved bytes become the canonical length.\<close>

lemma rl_End:
  assumes w: "rl_ok w" and buf: "w_buf w = pre @ [0, 0, 0, 0, 0] @ body" and m: "m = len pre"
    and small: "len body < 2 ^ 35"
  shows "wr_EndLengthDelim m w =
           Some (w\<lparr>w_buf := pre @ uvarint (go_uint64 (len body)) @ body\<rparr>)"
proof -
  let ?v = "go_uint64 (len body)" and ?n = "varint_len (go_uint64 (len body))"
  have n: "1 \<le> ?n" "?n \<le> 5" using varint_len_bounds body_len_width [of "len body"] small by auto
  have bl: "len (w_buf w) - m - reservedLenBytes = len body" using buf m by simp
  show ?thesis
  proof (cases "?n < 5")
    case True
    let ?z = "replicate (nat ?n) (0 :: byte)" and ?y = "replicate (5 - nat ?n) (0 :: byte)"
    have z: "[0, 0, 0, 0, 0] = ?z @ ?y"
      using True n by (simp flip: replicate_add add: numeral_eq_Suc)
    have nn: "nat (int (length pre) + ?n) = length pre + nat ?n" using n by linarith
    obtain junk where c: "go_copy (w_buf w) (m + ?n) (m + reservedLenBytes) = Some (pre @ ?z @ body @ junk)"
      "len junk = 5 - ?n"
    proof -
      have "nat (m + 5) = length pre + 5" using m by simp
      then have "go_copy (w_buf w) (m + ?n) (m + reservedLenBytes) =
          Some (pre @ ?z @ body @ drop (nat (m + ?n + len body)) (w_buf w))"
        using n m True nn unfolding buf z
        by (simp add: go_copy_def)
      moreover have "len (drop (nat (m + ?n + len body)) (w_buf w)) = 5 - ?n"
        using n m buf by simp
      ultimately show thesis using that by blast
    qed
    have "take (nat (len (pre @ ?z @ body @ junk) - (reservedLenBytes - ?n))) (pre @ ?z @ body @ junk) =
        pre @ ?z @ body"
      using c(2) n by (simp add: nat_add_distrib)
    then show ?thesis
      using w True n c(1) bl wr_patch_length_eq [of "w\<lparr>w_buf := pre @ ?z @ body\<rparr>" pre ?z body ?v m] m
      by (simp add: wr_EndLengthDelim_def rl_ok_def Let_def)
  next
    case False
    then have "?n = 5" using n by simp
    then show ?thesis
      using w bl wr_patch_length_eq [OF buf _ m, of ?v]
      by (simp add: wr_EndLengthDelim_def rl_ok_def Let_def)
  qed
qed

interpretation rl: writer_mode rl_ok "\<lambda>w. small_regions" rl_emits
proof unfold_locales
  fix w p assume "rl_ok w" and "prim_err p = None"
  then show "\<exists>w'. wr_prim p w = Some w' \<and> rl_emits w [Item p] w'"
    by (cases w) (simp add: rl_prim rl_emits_def)
next
  fix w xs m w1 w2
  assume w: "rl_ok w" and small: "small_regions [Group xs]"
    and b: "wr_BeginLengthDelim w = (m, w1)" and e: "rl_emits w1 xs w2"
  obtain sc where w2: "w2 = w\<lparr>w_buf := w_buf w @ [0, 0, 0, 0, 0] @ enc_items xs, w_scratch := sc\<rparr>"
    and m: "m = len (w_buf w)"
    using w b e by (auto simp: rl_ok_def rl_emits_def wr_BeginLengthDelim_def)
  have "rl_ok w2" using w w2 by (simp add: rl_ok_def)
  moreover have "len (enc_items xs) < 2 ^ 35" using small by (simp add: small_regions_def)
  ultimately show "\<exists>w3. wr_EndLengthDelim m w2 = Some w3 \<and> rl_emits w [Group xs] w3"
    using rl_End [of w2 "w_buf w" "enc_items xs" m] m w2
    by (cases w) (auto simp: rl_emits_def)
qed (auto simp: rl_ok_def rl_emits_def wr_BeginLengthDelim_def enc_items_append
    region_sizes_append small_regions_def)

section \<open>Streaming mode\<close>

definition st_ok :: "writer \<Rightarrow> bool" where
  "st_ok w \<longleftrightarrow> w_err w = None \<and> \<not> w_size_only w \<and> w_target w \<noteq> None"

definition st_adm :: "writer \<Rightarrow> item list \<Rightarrow> bool" where
  "st_adm w xs \<longleftrightarrow> (\<exists>rest. drop (w_stream_idx w) (w_stream_sizes w) = region_sizes xs @ rest)"

definition st_answer :: "writer \<Rightarrow> byte list list \<Rightarrow> byte list \<Rightarrow> gerr option" where
  "st_answer w = (case w_target w of None \<Rightarrow> \<lambda>_ _. None | Some t \<Rightarrow> sink_answer t)"

text \<open>Everything streamed so far: what the target accepted, then what is still buffered.\<close>

definition st_out :: "writer \<Rightarrow> byte list" where
  "st_out w = (case w_target w of None \<Rightarrow> [] | Some t \<Rightarrow> concat (sink_log t)) @ w_buf w"

text \<open>The fields streaming never changes.\<close>

definition st_frame :: "writer \<Rightarrow> writer \<Rightarrow> bool" where
  "st_frame w w' \<longleftrightarrow>
     w_target w' \<noteq> None \<and> st_answer w' = st_answer w \<and> w_size_only w' = w_size_only w \<and>
     w_stream_sizes w' = w_stream_sizes w \<and> w_threshold w' = w_threshold w"

text \<open>\<open>bs\<close> has gone out, or the target answered with the error now recorded.\<close>

definition st_sends :: "writer \<Rightarrow> byte list \<Rightarrow> writer \<Rightarrow> bool" where
  "st_sends w bs w' \<longleftrightarrow>
     st_frame w w' \<and>
     (if w_err w' = None then w_stream_idx w' = w_stream_idx w \<and> st_out w' = st_out w @ bs
      else \<exists>log c. st_answer w log c = w_err w')"

definition st_emits :: "writer \<Rightarrow> item list \<Rightarrow> writer \<Rightarrow> bool" where
  "st_emits w xs w' \<longleftrightarrow>
     st_frame w w' \<and>
     (if w_err w' = None then
        w_stream_idx w' = w_stream_idx w + length (region_sizes xs) \<and>
        st_out w' = st_out w @ enc_items xs
      else \<exists>log c. st_answer w log c = w_err w')"

lemma st_sends_seq:
  "st_sends w a w1 \<Longrightarrow> w_err w1 = None \<Longrightarrow> st_sends w1 b w2 \<Longrightarrow> st_sends w (a @ b) w2"
  by (auto simp: st_sends_def st_frame_def)

lemma st_sends_append:
  "st_ok w \<Longrightarrow> st_sends w bs (w\<lparr>w_buf := w_buf w @ bs\<rparr>) \<and> st_ok (w\<lparr>w_buf := w_buf w @ bs\<rparr>)"
  by (auto simp: st_sends_def st_frame_def st_ok_def st_out_def st_answer_def)

lemma st_flush:
  assumes "st_ok w" and "w_target w = Some t" and "wr_flush_buf t w = (r, w')"
  shows "st_sends w [] w'" and "r = w_err w'" and "r = None \<Longrightarrow> st_ok w' \<and> w_buf w' = []"
  using assms
  by (auto simp: wr_flush_buf_def st_ok_def st_sends_def st_frame_def st_out_def st_answer_def
      wr_set_err_def split: option.splits) blast+

lemma st_after: "st_ok w \<Longrightarrow> st_sends w [] (wr_after_write w)"
  using st_flush(1) [of w "the (w_target w)" "fst (wr_flush_buf (the (w_target w)) w)"]
  by (auto simp: wr_after_write_def st_ok_def st_sends_def st_frame_def split: option.splits)

lemma st_write:
  assumes "st_ok w"
  shows "st_sends w bs (wr_after_write (w\<lparr>w_buf := w_buf w @ bs\<rparr>))"
proof -
  let ?w = "w\<lparr>w_buf := w_buf w @ bs\<rparr>"
  have "st_sends w bs ?w" "st_ok ?w" using st_sends_append [OF assms] by auto
  then show ?thesis using st_sends_seq [OF _ _ st_after, of w bs ?w] by (simp add: st_ok_def)
qed

text \<open>The chunking loop sends its argument, whatever the threshold.\<close>

lemma st_chunk_loop:
  "st_ok w \<Longrightarrow> 0 < w_threshold w \<Longrightarrow> st_sends w s (wr_chunk_loop s w)"
proof (induction s arbitrary: w rule: length_induct)
  case (1 s)
  have step: "st_sends w s (wr_chunk_loop (drop n s) (v\<lparr>w_buf := w_buf v @ take n s\<rparr>))"
    if v: "st_ok v" "st_sends w [] v" "w_threshold v = w_threshold w" and n: "0 < n" "s \<noteq> []" for n v
  proof -
    let ?v = "v\<lparr>w_buf := w_buf v @ take n s\<rparr>"
    have a: "st_sends v (take n s) ?v" "st_ok ?v" using st_sends_append [OF v(1)] by auto
    have "length (drop n s) < length s" using n by (cases s) auto
    then have "st_sends ?v (drop n s) (wr_chunk_loop (drop n s) ?v)"
      using 1(1) a(2) v(3) 1(3) by simp
    from st_sends_seq [OF a(1) _ this]
    have "st_sends v s (wr_chunk_loop (drop n s) ?v)" using a(2) by (simp add: st_ok_def)
    from st_sends_seq [OF v(2) _ this] show ?thesis using v(1) by (simp add: st_ok_def)
  qed
  have self: "st_sends w [] w" using 1(2) by (auto simp: st_sends_def st_frame_def st_ok_def)
  show ?case
  proof (cases "s = []")
    case True
    then show ?thesis using self by (subst wr_chunk_loop.simps) simp
  next
    case False
    obtain t where t: "w_target w = Some t" using 1(2) by (auto simp: st_ok_def)
    obtain r w' where f: "wr_flush_buf t w = (r, w')" by (cases "wr_flush_buf t w")
    note fl = st_flush [OF 1(2) t f]
    have n: "0 < nat (min (len s) k)" if "0 < k" for k using False that by (cases s) auto
    show ?thesis
    proof (cases "w_threshold w - len (w_buf w) \<le> 0")
      case True
      show ?thesis
      proof (cases r)
        case None
        have "w_threshold w' = w_threshold w" using fl(1) by (simp add: st_sends_def st_frame_def)
        then have "st_sends w s (wr_chunk_loop (drop (nat (min (len s) (w_threshold w))) s)
            (w'\<lparr>w_buf := w_buf w' @ take (nat (min (len s) (w_threshold w))) s\<rparr>))"
          using step [OF _ fl(1) _ n False] fl(3) None 1(3) by simp
        then show ?thesis
          using True None False 1(3) by (subst wr_chunk_loop.simps) (simp add: t f Let_def)
      next
        case (Some e)
        then have "st_sends w s w'" using fl(1,2) by (auto simp: st_sends_def)
        then show ?thesis
          using True Some False 1(3) by (subst wr_chunk_loop.simps) (simp add: t f Let_def)
      qed
    next
      case room: False
      have "st_sends w s (wr_chunk_loop (drop (nat (min (len s) (w_threshold w - len (w_buf w)))) s)
          (w\<lparr>w_buf := w_buf w @ take (nat (min (len s) (w_threshold w - len (w_buf w)))) s\<rparr>))"
        using step [OF 1(2) self refl n False] room by simp
      then show ?thesis
        using room False 1(3) by (subst wr_chunk_loop.simps) (simp add: t Let_def)
    qed
  qed
qed

lemma st_after_seq:
  assumes "st_sends w bs w1" and "w_err w1 = None" and "\<not> w_size_only w"
  shows "st_sends w bs (wr_after_write w1)"
proof -
  have "st_ok w1" using assms by (simp add: st_ok_def st_sends_def st_frame_def)
  from st_sends_seq [OF assms(1,2) st_after [OF this]] show ?thesis by simp
qed

lemma st_chunked:
  assumes "st_ok w"
  shows "st_sends w s (wr_write_chunked s w)"
proof (cases "w_threshold w \<le> 0")
  case True
  then show ?thesis using st_write [OF assms] by (simp add: wr_write_chunked_def)
next
  case False
  then have "st_sends w s (wr_chunk_loop s w)" using st_chunk_loop [OF assms] by simp
  then show ?thesis
    using False st_after_seq [of w s "wr_chunk_loop s w"] assms
    by (simp add: wr_write_chunked_def Let_def st_ok_def)
qed

lemma st_chunked_bytes: "st_ok w \<Longrightarrow> st_sends w s (wr_write_chunked_bytes s w)"
  using st_chunked [of w s] by (simp add: wr_write_chunked_def wr_write_chunked_bytes_def)

lemma st_len_prefix:
  assumes "st_ok w" and "\<And>w. st_ok w \<Longrightarrow> st_sends w s (f w)"
  shows "st_sends w (bs @ s) (f (w\<lparr>w_buf := w_buf w @ bs\<rparr>))"
proof -
  let ?w = "w\<lparr>w_buf := w_buf w @ bs\<rparr>"
  have "st_sends w bs ?w" "st_ok ?w" using st_sends_append [OF assms(1)] by auto
  then show ?thesis using st_sends_seq [of w bs ?w s] assms(2) by (simp add: st_ok_def)
qed

lemma st_prim:
  assumes w: "st_ok w" and "prim_err p = None"
  shows "\<exists>w'. wr_prim p w = Some w' \<and> st_sends w (prim_bytes p) w'"
proof -
  have m: "w_err w = None" "\<not> w_size_only w" "w_target w \<noteq> None" using w by (auto simp: st_ok_def)
  note defs = wr_prim_defs append_uvarint_eq Let_def
  show ?thesis
  proof (cases p)
    case (PString s)
    then show ?thesis using st_len_prefix [OF w st_chunked] m by (simp add: defs)
  next
    case (PBytes s)
    then show ?thesis using st_len_prefix [OF w st_chunked_bytes] m by (simp add: defs)
  next
    case (PTag t wt)
    then show ?thesis
      using assms(2) st_write [OF w] m by (simp add: defs prim_err_def split: if_splits)
  next
    case PPresenceNil
    then show ?thesis using st_sends_append [OF w] m by (simp add: defs)
  next
    case PPresenceNonZero
    then show ?thesis using st_sends_append [OF w] m by (simp add: defs)
  next
    case PPresenceZero
    then show ?thesis using st_sends_append [OF w] m by (simp add: defs)
  qed (use st_write [OF w] m in \<open>simp_all add: defs\<close>)
qed

lemma st_emits_sends: "st_emits w [Item p] w' \<longleftrightarrow> st_sends w (prim_bytes p) w'"
  by (simp add: st_emits_def st_sends_def)

lemma st_Begin:
  assumes "st_ok w" and "st_adm w [Group xs]" and "wr_BeginLengthDelim w = (m, w1)"
  shows "st_frame w w1"
    and "w_err w1 = None \<Longrightarrow> st_ok w1 \<and> st_adm w1 xs \<and> w_stream_idx w1 = w_stream_idx w + 1 \<and>
           st_out w1 = st_out w @ uvarint (go_uint64 (len (enc_items xs)))"
    and "w_err w1 \<noteq> None \<Longrightarrow> st_emits w [Group xs] w1"
proof -
  obtain rest where rest: "drop (w_stream_idx w) (w_stream_sizes w) =
      len (enc_items xs) # region_sizes xs @ rest"
    using assms(2) by (auto simp: st_adm_def)
  note d = drop_eq_ConsD [OF this]
  let ?bs = "uvarint (go_uint64 (len (enc_items xs)))"
  let ?v = "w\<lparr>w_stream_idx := w_stream_idx w + 1\<rparr>"
  have v: "st_ok ?v" using assms(1) by (simp add: st_ok_def)
  have w1: "w1 = wr_after_write (?v\<lparr>w_buf := w_buf ?v @ ?bs\<rparr>)"
    using assms(1,3) d by (auto simp: wr_BeginLengthDelim_def st_ok_def append_uvarint_eq)
  have sends: "st_sends ?v ?bs w1" unfolding w1 by (rule st_write [OF v])
  then show frame: "st_frame w w1" by (simp add: st_sends_def st_frame_def st_answer_def)
  show "st_emits w [Group xs] w1" if "w_err w1 \<noteq> None"
    using sends that frame by (auto simp: st_sends_def st_emits_def st_answer_def)
  show "st_ok w1 \<and> st_adm w1 xs \<and> w_stream_idx w1 = w_stream_idx w + 1 \<and>
      st_out w1 = st_out w @ ?bs" if "w_err w1 = None"
    using sends that assms(1) d(3)
    by (auto simp: st_sends_def st_frame_def st_ok_def st_adm_def st_out_def)
qed

interpretation st: writer_mode st_ok st_adm st_emits
proof unfold_locales
  fix w xs m w1
  assume w: "st_ok w" and a: "st_adm w [Group xs]" and b: "wr_BeginLengthDelim w = (m, w1)"
  show "w_err w1 = None \<Longrightarrow> st_ok w1 \<and> st_adm w1 xs"
    using st_Begin(2) [OF w a b] by simp
  show "w_err w1 \<noteq> None \<Longrightarrow> st_emits w [Group xs] w1"
    using st_Begin(3) [OF w a b] .
  fix w2 assume n: "w_err w1 = None" and e: "st_emits w1 xs w2"
  have "wr_EndLengthDelim m w2 = Some w2"
    using e w st_Begin(1) [OF w a b]
    by (auto simp: wr_EndLengthDelim_def st_emits_def st_frame_def st_ok_def)
  moreover have "st_emits w [Group xs] w2"
    using e st_Begin(1,2) [OF w a b] n
    by (auto simp: st_emits_def st_frame_def)
  ultimately show "\<exists>w3. wr_EndLengthDelim m w2 = Some w3 \<and> st_emits w [Group xs] w3" by blast
next
  fix w p assume "st_ok w" and "prim_err p = None"
  then show "\<exists>w'. wr_prim p w = Some w' \<and> st_emits w [Item p] w'"
    using st_prim by (simp add: st_emits_sends)
next
  fix w xs ys assume "st_adm w (xs @ ys)"
  then show "st_adm w xs" by (auto simp: st_adm_def region_sizes_append)
  fix w1 assume "st_emits w xs w1" "w_err w1 = None"
  then have "drop (w_stream_idx w1) (w_stream_sizes w1) =
      drop (length (region_sizes xs)) (drop (w_stream_idx w) (w_stream_sizes w))"
    by (simp add: st_emits_def st_frame_def add.commute)
  moreover obtain rest where "drop (w_stream_idx w) (w_stream_sizes w) =
      region_sizes xs @ region_sizes ys @ rest"
    using \<open>st_adm w (xs @ ys)\<close> by (auto simp: st_adm_def region_sizes_append)
  ultimately show "st_adm w1 ys" by (simp only: st_adm_def append_eq_conv_conj) auto
qed (auto simp: st_ok_def st_adm_def st_emits_def st_frame_def st_out_def st_answer_def
    enc_items_append region_sizes_append split: if_splits)

section \<open>Properties\<close>

lemma varint_len_ge: "128 ^ k \<le> unat v \<Longrightarrow> int k < varint_len v"
proof (induction k arbitrary: v)
  case 0
  then show ?case using varint_len_bounds [of v] by simp
next
  case (Suc k)
  have "(128 :: nat) * 1 \<le> 128 * 128 ^ k" by (intro mult_le_mono2) simp
  then have "128 \<le> unat v" using Suc.prems unfolding power_Suc by linarith
  then have v: "0x80 \<le> v" by (simp add: word_le_nat_alt)
  moreover have "128 ^ k \<le> unat (drop_bit 7 v)"
    using Suc.prems by (simp add: unat_drop7 less_eq_div_iff_mult_less_eq mult.commute)
  ultimately show ?case using Suc.IH by (subst varint_len_rec) simp
qed

text \<open>
  closing a region in buffered mode. \<^verbatim>\<open>EndLengthDelim\<close> on the marker of its \<^verbatim>\<open>BeginLengthDelim\<close>
  replaces the five reserved bytes by the canonical length of the body, moves the body up behind
  it and leaves everything before the marker as it was; a body of \<open>2 ^ 35\<close> bytes or more, whose
  length would not fit into the slot, is \<^verbatim>\<open>ErrBodyTooLarge\<close> with the buffer untouched.
\<close>

theorem end_region_backpatch:
  assumes "w_err w = None" and "\<not> w_size_only w" and "w_target w = None"
    and "w_buf w = pre @ [0, 0, 0, 0, 0] @ body" and "len body < 2 ^ 63"
  shows "wr_EndLengthDelim (len pre) w =
           Some (if len body < 2 ^ 35
                 then w\<lparr>w_buf := pre @ uvarint (go_uint64 (len body)) @ body\<rparr>
                 else w\<lparr>w_err := Some ErrBodyTooLarge\<rparr>)"
proof (cases "len body < 2 ^ 35")
  case True
  then show ?thesis using rl_End [of w pre body] assms by (simp add: rl_ok_def)
next
  case False
  have "unat (go_uint64 (len body)) = length body"
    unfolding go_uint64_def using unat_u64_of_int [of "len body"] assms(5) by simp
  then have "5 < varint_len (go_uint64 (len body))"
    using varint_len_ge [of 5 "go_uint64 (len body)"] False by simp
  then show ?thesis
    using assms False by (simp add: wr_EndLengthDelim_def wr_set_err_def Let_def)
qed

theorem end_region_backpatch_witness:
  "wr_EndLengthDelim 1 (new_writer [9, 0, 0, 0, 0, 0, 4, 5]) = Some (new_writer [9, 2, 4, 5])"
proof -
  have "uvarint (go_uint64 (len [4, 5 :: byte])) = [2]"
    by (subst uvarint_rec) (simp add: go_uint64_def word_le_nat_alt)
  then show ?thesis
    using end_region_backpatch [of "new_writer [9, 0, 0, 0, 0, 0, 4, 5]" "[9]" "[4, 5]"]
    by (simp add: new_writer_def zero_writer_def)
qed

text \<open>
  C11: the Writer over a caller's buffer. A program that resolves to items with regions below
  \<open>2 ^ 35\<close> bytes never panics, sets no error, keeps what was in the buffer and appends exactly the
  bytes of the items, every region with its canonical length.
\<close>

theorem buffered_mode_exact:
  assumes "resolves v (Map.empty, g) = (Ret xs, sc, g')" and "small_regions xs"
  shows "\<exists>w'. wr_execs v (new_writer b, g) = Some (w', g') \<and> w_err w' = None \<and>
           w_buf w' = b @ enc_items xs"
proof -
  have ok: "rl_ok (new_writer b)" by (simp add: rl_ok_def new_writer_def zero_writer_def)
  have "resolves v (w_scratch (new_writer b), g) = (Ret xs, sc, g')"
    using assms(1) by (simp add: new_writer_def zero_writer_def)
  from rl.execs_ok [OF this ok assms(2)] show ?thesis
    by (auto simp: rl.run_ok_def rl_emits_def new_writer_def zero_writer_def)
qed

theorem buffered_mode_exact_witness:
  "\<exists>w'. wr_execs [Prim (PTag 2 WireLengthDelim), Region [Prim (PBool True), Region []]]
          (new_writer [7], ()) = Some (w', ()) \<and> w_err w' = None \<and> w_buf w' = [7, 18, 2, 1, 0]"
proof -
  let ?v = "[Prim (PTag 2 WireLengthDelim), Region [Prim (PBool True), Region []]]"
  let ?xs = "[Item (PTag 2 2), Group [Item (PBool True), Group []]]"
  have r: "resolves ?v (Map.empty, ()) = (Ret ?xs, Map.empty, ())"
    by (simp add: prim_err_def MaxTag_def valid_wire_type_def word_less_nat_alt)
  have u: "uvarint 18 = [18]" "uvarint (go_uint64 0) = [0]" "uvarint (go_uint64 2) = [2]"
    by (subst uvarint_rec, simp add: go_uint64_def word_le_nat_alt)+
  have e: "enc_items ?xs = [18, 2, 1, 0]" using u by (simp add: field_key_def)
  have "small_regions ?xs" using u by (simp add: small_regions_def)
  from buffered_mode_exact [OF r this, of "[7]"] show ?thesis unfolding e by simp
qed

text \<open>
  \<^verbatim>\<open>WriteLength\<close> and \<^verbatim>\<open>BeginLengthDelim\<close>/\<^verbatim>\<open>EndLengthDelim\<close> produce the same bytes. Writing the length
  of a body and then the body denotes the same bytes as the region around that body, so the two
  forms of the generated code are interchangeable on the wire; a negative length panics in every
  mode.
\<close>

theorem write_length_same_wire:
  "enc_items (Item (PLength (go_uint64 (len (enc_items xs)))) # xs) = enc_items [Group xs] \<and>
   wr_WriteLength (- 1) w = None"
  by (simp add: wr_WriteLength_def)

end
