(* ===== verification/Sizing.thy ===== *)
theory Sizing
  imports Writer_Modes
begin

text \<open>
  \<^verbatim>\<open>storage/gsbm/sizing.go\<close>: the analytic size of each write, which generated \<^verbatim>\<open>SizeGSBM\<close> bodies add
  up, against the bytes the writes denote. A pointer is an option, a float its IEEE bits.
\<close>

definition SizeTag :: "u32 \<Rightarrow> wire_type \<Rightarrow> int" where
  "SizeTag tag wt = varint_len (field_key tag wt)"

definition SizeUvarint :: "u64 \<Rightarrow> int" where "SizeUvarint v = varint_len v"
definition SizeVarint :: "i64 \<Rightarrow> int" where "SizeVarint v = varint_len (zigzag_encode64 v)"
definition SizeBool :: int where "SizeBool = 1"
definition SizeFixed32 :: int where "SizeFixed32 = 4"
definition SizeFixed64 :: int where "SizeFixed64 = 8"

definition SizeString :: "gostring \<Rightarrow> int" where
  "SizeString s = varint_len (go_uint64 (len s)) + len s"

definition SizeBytes :: "byte list \<Rightarrow> int" where
  "SizeBytes p = varint_len (go_uint64 (len p)) + len p"

definition SizeLengthDelim :: "int \<Rightarrow> int" where
  "SizeLengthDelim bodyLen = varint_len (go_uint64 bodyLen) + bodyLen"

section \<open>Nullable fields\<close>

definition SizeNullableString :: "gostring option \<Rightarrow> int" where
  "SizeNullableString p =
     (case p of
        None \<Rightarrow> SizeLengthDelim 1
      | Some s \<Rightarrow> if s = [] then SizeLengthDelim 1 else SizeLengthDelim (1 + SizeString s))"

definition SizeNullableBytes :: "byte list option \<Rightarrow> int" where
  "SizeNullableBytes p =
     (case p of
        None \<Rightarrow> SizeLengthDelim 1
      | Some s \<Rightarrow> if len s = 0 then SizeLengthDelim 1 else SizeLengthDelim (1 + SizeBytes s))"

definition SizeNullableBool :: "bool option \<Rightarrow> int" where
  "SizeNullableBool p =
     (case p of
        None \<Rightarrow> SizeLengthDelim 1
      | Some b \<Rightarrow> if \<not> b then SizeLengthDelim 1 else SizeLengthDelim (1 + SizeBool))"

definition SizeNullableInt64 :: "i64 option \<Rightarrow> int" where
  "SizeNullableInt64 p =
     (case p of
        None \<Rightarrow> SizeLengthDelim 1
      | Some v \<Rightarrow> if v = 0 then SizeLengthDelim 1 else SizeLengthDelim (1 + SizeVarint v))"

definition SizeNullableUint64 :: "u64 option \<Rightarrow> int" where
  "SizeNullableUint64 p =
     (case p of
        None \<Rightarrow> SizeLengthDelim 1
      | Some v \<Rightarrow> if v = 0 then SizeLengthDelim 1 else SizeLengthDelim (1 + SizeUvarint v))"

text \<open>\<^verbatim>\<open>*p == 0\<close> on a float holds of both zeros.\<close>

definition float32_eq_0 :: "u32 \<Rightarrow> bool" where
  "float32_eq_0 f \<longleftrightarrow> f = 0 \<or> f = 0x80000000"

definition float64_eq_0 :: "u64 \<Rightarrow> bool" where
  "float64_eq_0 f \<longleftrightarrow> f = 0 \<or> f = 0x8000000000000000"

definition SizeNullableFloat32 :: "u32 option \<Rightarrow> int" where
  "SizeNullableFloat32 p =
     (case p of
        None \<Rightarrow> SizeLengthDelim 1
      | Some f \<Rightarrow> if float32_eq_0 f then SizeLengthDelim 1 else SizeLengthDelim (1 + SizeFixed32))"

definition SizeNullableFloat64 :: "u64 option \<Rightarrow> int" where
  "SizeNullableFloat64 p =
     (case p of
        None \<Rightarrow> SizeLengthDelim 1
      | Some f \<Rightarrow> if float64_eq_0 f then SizeLengthDelim 1 else SizeLengthDelim (1 + SizeFixed64))"

section \<open>Against the bytes\<close>

text \<open>
  The wire form of a nullable field: a region with the presence byte and, unless the value is nil
  or elided as zero, the value.
\<close>

definition nullable_item :: "('a \<Rightarrow> bool) \<Rightarrow> ('a \<Rightarrow> prim) \<Rightarrow> 'a option \<Rightarrow> item" where
  "nullable_item is_zero val p =
     (case p of
        None \<Rightarrow> Group [Item PPresenceNil]
      | Some v \<Rightarrow>
          if is_zero v then Group [Item PPresenceZero]
          else Group [Item PPresenceNonZero, Item (val v)])"

lemma SizeLengthDelim_enc: "SizeLengthDelim (len (enc_items xs)) = len (enc_item (Group xs))"
  by (simp add: SizeLengthDelim_def length_uvarint)

lemma nullable_size:
  assumes "\<And>v. \<not> is_zero v \<Longrightarrow> bytes_of v = len (prim_bytes (val v))"
  shows "(case p of
            None \<Rightarrow> SizeLengthDelim 1
          | Some v \<Rightarrow> if is_zero v then SizeLengthDelim 1 else SizeLengthDelim (1 + bytes_of v)) =
         len (enc_item (nullable_item is_zero val p))"
  using SizeLengthDelim_enc [of "[Item PPresenceNil]"] SizeLengthDelim_enc [of "[Item PPresenceZero]"]
    SizeLengthDelim_enc [of "[Item PPresenceNonZero, Item (val (the p))]"]
  by (cases p) (auto simp: nullable_item_def assms)

lemmas prim_sizes =
  SizeTag_def SizeUvarint_def SizeVarint_def SizeBool_def SizeFixed32_def SizeFixed64_def
  SizeString_def SizeBytes_def

section \<open>Properties\<close>

text \<open>
  the sizing helpers are the byte counts of their writes. For every value, each primitive
  helper equals the number of bytes the matching Writer call emits, and \<^verbatim>\<open>SizeLengthDelim\<close> of a body
  equals the size of the region around it, so a \<^verbatim>\<open>SizeGSBM\<close> that adds them up equals the size pass.
\<close>

theorem sizing_matches_writes:
  "SizeTag t wt = len (enc_item (Item (PTag t wt))) \<and>
   SizeUvarint v = len (enc_item (Item (PUvarint v))) \<and>
   SizeVarint i = len (enc_item (Item (PVarint i))) \<and>
   SizeBool = len (enc_item (Item (PBool b))) \<and>
   SizeFixed32 = len (enc_item (Item (PFixed32 f))) \<and>
   SizeFixed64 = len (enc_item (Item (PFixed64 d))) \<and>
   SizeString s = len (enc_item (Item (PString s))) \<and>
   SizeBytes p = len (enc_item (Item (PBytes p))) \<and>
   SizeLengthDelim (len (enc_items xs)) = len (enc_item (Group xs))"
  by (simp add: prim_sizes SizeLengthDelim_def length_uvarint)


end
