(* ===== verification/Reader_Spec.thy ===== *)
theory Reader_Spec
  imports Reader
begin

text \<open>
  What the Reader promises. \<open>rd_wf\<close> is the well-formedness invariant; \<open>rd_rest\<close> abstracts a
  reader to the unread bytes of its region; \<open>rd_refines f p\<close> says that operation \<open>f\<close> is the list
  parser \<open>p\<close> on those bytes, never panics and only moves the read position forward. The
  parsers are the abstract specification; the refinement is closed under sequencing.
\<close>

section \<open>The invariant\<close>

definition rd_wf :: "'al reader \<Rightarrow> bool" where
  "rd_wf r \<longleftrightarrow>
     0 \<le> rd_pos r \<and> rd_pos r \<le> rd_end r \<and> rd_end r \<le> len (rd_buf r) \<and> len (rd_buf r) < 2 ^ 63"

definition rd_rest :: "'al reader \<Rightarrow> byte list" where
  "rd_rest r = take (nat (rd_end r - rd_pos r)) (drop (nat (rd_pos r)) (rd_buf r))"

text \<open>\<open>rd_adv r r'\<close>: same buffer and region, the position moved forward within the region.\<close>

definition rd_adv :: "'al reader \<Rightarrow> 'al reader \<Rightarrow> bool" where
  "rd_adv r r' \<longleftrightarrow>
     rd_buf r' = rd_buf r \<and> rd_end r' = rd_end r \<and> rd_pos r \<le> rd_pos r' \<and> rd_pos r' \<le> rd_end r"

lemma rd_adv_refl [simp]: "rd_wf r \<Longrightarrow> rd_adv r r"
  by (simp add: rd_adv_def rd_wf_def)

lemma rd_adv_trans: "rd_adv r s \<Longrightarrow> rd_adv s t \<Longrightarrow> rd_adv r t"
  by (auto simp: rd_adv_def)

lemma rd_adv_wf: "rd_wf r \<Longrightarrow> rd_adv r r' \<Longrightarrow> rd_wf r'"
  by (auto simp: rd_adv_def rd_wf_def)

lemma new_reader_wf: "len src < 2 ^ 63 \<Longrightarrow> rd_wf (new_reader src)"
  by (simp add: rd_wf_def new_reader_def)

lemma new_reader_rest [simp]: "rd_rest (new_reader src) = src"
  by (simp add: rd_rest_def new_reader_def)

lemma new_reader_simps [simp]:
  "rd_buf (new_reader src) = src" "rd_pos (new_reader src) = 0" "rd_end (new_reader src) = len src"
  "rd_err (new_reader src) = None" "rd_alloc (new_reader src) = None"
  by (simp_all add: new_reader_def)

lemma length_rd_rest: "rd_wf r \<Longrightarrow> len (rd_rest r) = rd_end r - rd_pos r"
  by (auto simp: rd_rest_def rd_wf_def)

lemma rd_wf_room:
  "rd_wf r \<Longrightarrow> 0 \<le> rd_end r - rd_pos r \<and> rd_end r - rd_pos r < 2 ^ 63"
  by (auto simp: rd_wf_def)

lemma rd_slice_rest:
  assumes "rd_wf r" and "0 \<le> n" and "n \<le> len (rd_rest r)"
  shows "go_slice (rd_buf r) (rd_pos r) (rd_pos r + n) = Some (take (nat n) (rd_rest r))"
proof -
  have "n \<le> rd_end r - rd_pos r" using assms length_rd_rest by metis
  then show ?thesis
    using assms(1,2) by (simp add: rd_wf_def go_slice_def rd_rest_def min_def)
qed

lemma rd_rest_advance:
  assumes "rd_wf r" and "0 \<le> n" and "n \<le> len (rd_rest r)"
  shows "rd_rest (r\<lparr>rd_pos := rd_pos r + n\<rparr>) = drop (nat n) (rd_rest r)"
    and "rd_adv r (r\<lparr>rd_pos := rd_pos r + n\<rparr>)"
proof -
  have n: "n \<le> rd_end r - rd_pos r" using assms length_rd_rest by metis
  have "nat (rd_end r - (rd_pos r + n)) = nat (rd_end r - rd_pos r) - nat n"
    and "nat (rd_pos r + n) = nat (rd_pos r) + nat n"
    using n assms(1,2) by (auto simp: rd_wf_def)
  then show "rd_rest (r\<lparr>rd_pos := rd_pos r + n\<rparr>) = drop (nat n) (rd_rest r)"
    by (simp add: rd_rest_def drop_take add.commute)
  show "rd_adv r (r\<lparr>rd_pos := rd_pos r + n\<rparr>)" using n assms(2) by (simp add: rd_adv_def)
qed

lemma rd_region_rest:
  assumes "rd_wf r"
  shows "go_slice (rd_buf r) 0 (rd_end r) = Some (take (nat (rd_end r)) (rd_buf r))"
    and "drop (nat (rd_pos r)) (take (nat (rd_end r)) (rd_buf r)) = rd_rest r"
  using assms by (auto simp: rd_wf_def go_slice_def rd_rest_def drop_take nat_diff_distrib)

section \<open>Parsers\<close>

text \<open>A parser maps the unread bytes to a value and the bytes after it, or to an error.\<close>

type_synonym 'a parser = "byte list \<Rightarrow> ('a \<times> byte list) outcome"

definition p_return :: "'a \<Rightarrow> 'a parser" where
  "p_return x bs = Ret (x, bs)"

definition p_fail :: "gerr \<Rightarrow> 'a parser" where
  "p_fail e bs = Fail e"

definition p_bind :: "'a parser \<Rightarrow> ('a \<Rightarrow> 'b parser) \<Rightarrow> 'b parser" where
  "p_bind p q bs = (case p bs of Ret (x, bs') \<Rightarrow> q x bs' | Fail e \<Rightarrow> Fail e | Panic \<Rightarrow> Panic)"

definition p_uvarint :: "u64 parser" where
  "p_uvarint bs = map_outcome (\<lambda>(v, n). (v, drop (nat n) bs)) (read_uvarint bs 0)"

definition p_take :: "int \<Rightarrow> byte list parser" where
  "p_take n bs = (if len bs < n then Fail ErrTruncated else Ret (take (nat n) bs, drop (nat n) bs))"

text \<open>A length prefix that must fit into what is left.\<close>

definition p_bounded_len :: "int parser" where
  "p_bounded_len =
     p_bind p_uvarint (\<lambda>n bs. if len bs < uint n then Fail ErrTruncated else Ret (uint n, bs))"

definition p_len_bytes :: "byte list parser" where
  "p_len_bytes = p_bind p_bounded_len p_take"

definition p_tag :: "(u32 \<times> wire_type) parser" where
  "p_tag =
     p_bind p_uvarint (\<lambda>v. 
       if uint v div 8 = 0 then p_fail ErrZeroTag
       else if 2 ^ 29 - 1 < uint v div 8 then p_fail ErrTagOverflow
       else if 3 < uint v mod 8 then p_fail ErrReservedWire
       else p_return (word_of_int (uint v div 8), word_of_int (uint v mod 8)))"

definition p_presence :: "bool \<Rightarrow> byte parser" where
  "p_presence allow =
     p_bind (p_take 1) (\<lambda>b.
       if b = [0] \<or> b = [1] \<or> b = [3] \<and> allow then p_return (hd b) else p_fail ErrInvalidPresence)"

definition p_skip :: "wire_type \<Rightarrow> unit parser" where
  "p_skip wt =
     (if wt = 0 then p_bind p_uvarint (\<lambda>_. p_return ())
      else if wt = 1 then p_bind (p_take 8) (\<lambda>_. p_return ())
      else if wt = 3 then p_bind (p_take 4) (\<lambda>_. p_return ())
      else if wt = 2 then p_bind p_len_bytes (\<lambda>_. p_return ())
      else p_fail ErrReservedWire)"

section \<open>Refinement\<close>

text \<open>One run of \<open>f\<close> from \<open>r\<close> against the parser's answer on the unread bytes.\<close>

definition rd_sim ::
  "'a outcome \<times> 'al reader \<Rightarrow> ('a \<times> byte list) outcome \<Rightarrow> 'al reader \<Rightarrow> bool" where
  "rd_sim res ans r =
     (case ans of
        Ret (x, bs) \<Rightarrow>
          fst res = Ret x \<and> rd_adv r (snd res) \<and> rd_err (snd res) = None \<and> rd_rest (snd res) = bs
      | Fail e \<Rightarrow> fst res = Fail e \<and> rd_adv r (snd res) \<and> rd_err (snd res) = Some e
      | Panic \<Rightarrow> False)"

definition rd_refines :: "('al, 'a) reading \<Rightarrow> 'a parser \<Rightarrow> bool" where
  "rd_refines f p \<longleftrightarrow>
     (\<forall>r. rd_wf r \<longrightarrow> rd_err r = None \<longrightarrow> rd_sim (f r) (p (rd_rest r)) r)"

lemma rd_refinesI:
  "(\<And>r. rd_wf r \<Longrightarrow> rd_err r = None \<Longrightarrow> rd_sim (f r) (p (rd_rest r)) r) \<Longrightarrow> rd_refines f p"
  by (simp add: rd_refines_def)

lemma rd_refinesD:
  "rd_refines f p \<Longrightarrow> rd_wf r \<Longrightarrow> rd_err r = None \<Longrightarrow> rd_sim (f r) (p (rd_rest r)) r"
  by (simp add: rd_refines_def)

lemma rd_sim_Ret [simp]:
  "rd_sim res (Ret (x, bs)) r \<longleftrightarrow>
     fst res = Ret x \<and> rd_adv r (snd res) \<and> rd_err (snd res) = None \<and> rd_rest (snd res) = bs"
  "rd_sim res (Fail e) r \<longleftrightarrow>
     fst res = Fail e \<and> rd_adv r (snd res) \<and> rd_err (snd res) = Some e"
  "\<not> rd_sim res Panic r"
  by (simp_all add: rd_sim_def)

lemma rd_sim_adv: "rd_sim res ans s \<Longrightarrow> rd_adv r s \<Longrightarrow> rd_sim res ans r"
  by (auto simp: rd_sim_def split: outcome.splits intro: rd_adv_trans)

lemma rd_refines_return [simp]: "rd_refines (rd_return x) (p_return x)"
  by (rule rd_refinesI) (simp add: rd_return_def p_return_def)

lemma rd_refines_fail [simp]: "rd_refines (rd_fail e) (p_fail e)"
  by (rule rd_refinesI) (auto simp: rd_fail_def p_fail_def rd_set_err_def rd_adv_def rd_wf_def)

lemma rd_sim_fail: "rd_wf r \<Longrightarrow> rd_err r = None \<Longrightarrow> rd_sim (rd_fail e r) (Fail e) r"
  by (simp add: rd_fail_def rd_set_err_def rd_adv_def rd_wf_def)

lemma rd_refines_guard: "rd_refines f p \<Longrightarrow> rd_refines (rd_guard f) p"
  by (auto simp: rd_guard_def intro!: rd_refinesI dest: rd_refinesD)

lemma rd_refines_bind:
  assumes f: "rd_refines f p" and g: "\<And>x. rd_refines (g x) (q x)"
  shows "rd_refines (rd_bind f g) (p_bind p q)"
proof (rule rd_refinesI)
  fix r :: "'a reader" assume r: "rd_wf r" "rd_err r = None"
  note sim = rd_refinesD [OF f r]
  obtain res s where fr: "f r = (res, s)" by (cases "f r")
  show "rd_sim (rd_bind f g r) (p_bind p q (rd_rest r)) r"
  proof (cases "p (rd_rest r)")
    case (Ret y)
    obtain x bs where y: "y = (x, bs)" by (cases y)
    have s: "res = Ret x" "rd_adv r s" "rd_err s = None" "rd_rest s = bs"
      using sim by (simp_all add: fr Ret y)
    have "rd_sim (g x s) (q x (rd_rest s)) s"
      using rd_refinesD [OF g] rd_adv_wf [OF r(1) s(2)] s(3) by blast
    then show ?thesis
      using rd_sim_adv [OF _ s(2)] by (simp add: rd_bind_def p_bind_def fr Ret y s)
  next
    case (Fail e)
    then show ?thesis using sim by (simp add: rd_bind_def p_bind_def fr)
  next
    case Panic
    then show ?thesis using sim by simp
  qed
qed

section \<open>Each operation refines its parser\<close>

lemma rd_refines_uvarint [simp]: "rd_refines rd_read_uvarint p_uvarint"
proof (rule rd_refinesI)
  fix r :: "'a reader" assume r: "rd_wf r" "rd_err r = None"
  let ?b = "take (nat (rd_end r)) (rd_buf r)"
  have pos: "0 \<le> rd_pos r" using r by (simp add: rd_wf_def)
  have rest: "read_uvarint ?b (rd_pos r) = read_uvarint (rd_rest r) 0"
    using read_uvarint_shift [OF pos, of ?b] rd_region_rest(2) [OF r(1)] by simp
  show "rd_sim (rd_read_uvarint r) (p_uvarint (rd_rest r)) r"
  proof (cases "read_uvarint (rd_rest r) 0")
    case (Ret y)
    obtain v n where y: "y = (v, n)" by (cases y)
    note b = read_uvarint_bounds [OF Ret [unfolded y]]
    show ?thesis
      using rd_rest_advance [OF r(1), of n] b r
      by (simp add: rd_read_uvarint_def p_uvarint_def rd_region_rest(1) rest Ret y)
  next
    case (Fail e)
    then show ?thesis
      using r by (simp add: rd_read_uvarint_def p_uvarint_def rd_region_rest(1) rest rd_set_err_def
          rd_adv_def rd_wf_def)
  next
    case Panic
    then show ?thesis by simp
  qed
qed

lemma rd_take_fixed_refines: "0 \<le> n \<Longrightarrow> rd_refines (rd_take_fixed n) (p_take n)"
  by (rule rd_refinesI)
    (auto simp: rd_take_fixed_def p_take_def length_rd_rest [symmetric] rd_slice_rest rd_rest_advance
      rd_fail_def rd_set_err_def not_less, auto simp: rd_adv_def rd_wf_def)

lemma rd_room_less:
  assumes "rd_wf r"
  shows "go_uint64 (rd_end r - rd_pos r) < n \<longleftrightarrow> len (rd_rest r) < uint n"
  unfolding go_uint64_def length_rd_rest [OF assms]
  using rd_wf_room [OF assms] by (intro u64_of_int_less_iff) simp_all

lemma go_int_small: "uint n < 2 ^ 63 \<Longrightarrow> go_int n = uint n"
  using sint_uint_64 [of n] sint_ge [of n] sint_less [of n] uint_ge_0 [of n]
  by (auto simp: go_int_def split: if_splits)

lemma len_rd_rest_small: "rd_wf r \<Longrightarrow> len (rd_rest r) < 2 ^ 63"
  using rd_wf_room [of r] by (simp add: length_rd_rest)

text \<open>What follows a checked length prefix sees a length that fits.\<close>

lemma rd_refines_bounded:
  assumes "\<And>n r. rd_wf r \<Longrightarrow> rd_err r = None \<Longrightarrow> uint n \<le> len (rd_rest r) \<Longrightarrow>
             rd_sim (g n r) (q (uint n) (rd_rest r)) r"
  shows "rd_refines (rd_bind rd_bounded_len g) (p_bind p_bounded_len q)"
proof -
  have "rd_refines
     (rd_bind rd_read_uvarint
        (\<lambda>n r. if go_uint64 (rd_end r - rd_pos r) < n then rd_fail ErrTruncated r else g n r))
     (p_bind p_uvarint
        (\<lambda>n bs. if len bs < uint n then Fail ErrTruncated else q (uint n) bs))"
  proof (rule rd_refines_bind [OF rd_refines_uvarint], rule rd_refinesI)
    fix n and r :: "'a reader" assume r: "rd_wf r" "rd_err r = None"
    show "rd_sim (if go_uint64 (rd_end r - rd_pos r) < n then rd_fail ErrTruncated r else g n r)
            (if len (rd_rest r) < uint n then Fail ErrTruncated else q (uint n) (rd_rest r)) r"
      using assms [OF r, of n]
      by (auto simp only: rd_room_less [OF r(1)] not_less rd_sim_fail r split: if_split)
  qed
  moreover have "rd_bind rd_bounded_len g = rd_bind rd_read_uvarint
        (\<lambda>n r. if go_uint64 (rd_end r - rd_pos r) < n then rd_fail ErrTruncated r else g n r)"
    by (rule ext) (auto simp: rd_bind_def rd_bounded_len_def rd_fail_def Let_def
        split: prod.splits outcome.splits)
  moreover have "p_bind p_bounded_len q = p_bind p_uvarint
        (\<lambda>n bs. if len bs < uint n then Fail ErrTruncated else q (uint n) bs)"
    by (rule ext) (auto simp: p_bind_def p_bounded_len_def split: prod.splits outcome.splits)
  ultimately show ?thesis by simp
qed

lemma rd_readLenBytes_refines: "rd_refines rd_readLenBytes p_len_bytes"
  unfolding rd_readLenBytes_def p_len_bytes_def
proof (rule rd_refines_bounded)
  fix n :: u64 and r :: "'a reader"
  assume r: "rd_wf r" "rd_err r = None" and n: "uint n \<le> len (rd_rest r)"
  have i: "go_int n = uint n"
    using n len_rd_rest_small [OF r(1)] by (intro go_int_small) linarith
  show "rd_sim
      (case go_slice (rd_buf r) (rd_pos r) (rd_pos r + go_int n) of None \<Rightarrow> (Panic, r)
       | Some out \<Rightarrow> (Ret out, r\<lparr>rd_pos := rd_pos r + go_int n\<rparr>))
      (p_take (uint n) (rd_rest r)) r"
    using n r rd_rest_advance [OF r(1), of "uint n"] rd_slice_rest [OF r(1), of "uint n"]
    by (simp add: i p_take_def)
qed

lemma p_bind_return_assoc: "p_bind (p_bind p q) t = p_bind p (\<lambda>x. p_bind (q x) t)"
  by (rule ext) (auto simp: p_bind_def split: outcome.splits prod.splits)

lemma rd_refines_map:
  assumes "rd_refines f p"
  shows "rd_refines (rd_bind f (\<lambda>x. rd_return (h x))) (p_bind p (\<lambda>x. p_return (h x)))"
  by (rule rd_refines_bind [OF assms]) simp

lemma rd_ReadUvarint_refines: "rd_refines rd_ReadUvarint p_uvarint"
  unfolding rd_ReadUvarint_def by (intro rd_refines_guard) simp

lemma rd_ReadVarint_refines:
  "rd_refines rd_ReadVarint (p_bind p_uvarint (\<lambda>v. p_return (zigzag_decode64 v)))"
  unfolding rd_ReadVarint_def by (intro rd_refines_guard rd_refines_map) simp

lemma rd_ReadBool_refines:
  "rd_refines rd_ReadBool (p_bind p_uvarint (\<lambda>v. p_return (v \<noteq> 0)))"
  unfolding rd_ReadBool_def by (intro rd_refines_guard rd_refines_map) simp

lemma rd_ReadFixed32_refines:
  "rd_refines rd_ReadFixed32 (p_bind (p_take 4) (\<lambda>b. p_return (le_get b)))"
  unfolding rd_ReadFixed32_def by (intro rd_refines_guard rd_refines_map rd_take_fixed_refines) simp

lemma rd_ReadFixed64_refines:
  "rd_refines rd_ReadFixed64 (p_bind (p_take 8) (\<lambda>b. p_return (le_get b)))"
  unfolding rd_ReadFixed64_def by (intro rd_refines_guard rd_refines_map rd_take_fixed_refines) simp

lemma rd_ReadLength_refines: "rd_refines rd_ReadLength p_bounded_len"
proof -
  have "rd_ReadLength = rd_bind rd_bounded_len (\<lambda>n r. (Ret (go_int n), r))"
    by (rule ext) (auto simp: rd_ReadLength_def rd_bind_def rd_bounded_len_def rd_fail_def Let_def
        split: prod.splits outcome.splits)
  moreover have "p_bounded_len = p_bind p_bounded_len p_return"
    by (rule ext) (auto simp: p_bind_def p_return_def split: outcome.splits prod.splits)
  moreover have "rd_refines (rd_bind rd_bounded_len (\<lambda>n r :: 'a reader. (Ret (go_int n), r)))
      (p_bind p_bounded_len p_return)"
  proof (rule rd_refines_bounded)
    fix n :: u64 and r :: "'a reader"
    assume r: "rd_wf r" "rd_err r = None" and n: "uint n \<le> len (rd_rest r)"
    have i: "go_int n = uint n"
      using n len_rd_rest_small [OF r(1)] by (intro go_int_small) linarith
    show "rd_sim (Ret (go_int n), r) (p_return (uint n) (rd_rest r)) r"
      using r by (simp add: i p_return_def)
  qed
  ultimately show ?thesis by metis
qed

text \<open>The wire type and tag of a key, as arithmetic on its value.\<close>

lemma uint_key_tag: "uint (drop_bit 3 (v :: u64)) = uint v div 8"
  unfolding uint_nat unat_drop_bit_eq by (simp add: drop_bit_eq_div zdiv_int)

lemma uint_key_wt: "uint ((v :: u64) AND 7) = uint v mod 8"
proof -
  have "v AND 7 = take_bit 3 v" unfolding take_bit_eq_mask by (simp add: mask_eq_exp_minus_1)
  then have "uint (v AND 7) = take_bit 3 (uint v)" by (simp only: unsigned_take_bit_eq)
  then show ?thesis by (simp add: take_bit_eq_mod)
qed

lemma key_tag_zero: "drop_bit 3 v = 0 \<longleftrightarrow> uint (v :: u64) div 8 = 0"
  and key_tag_over: "ucast MaxTag < drop_bit 3 v \<longleftrightarrow> 2 ^ 29 - 1 < uint v div 8"
proof -
  show "drop_bit 3 v = 0 \<longleftrightarrow> uint (v :: u64) div 8 = 0"
    by (metis uint_0_iff uint_key_tag)
  show "ucast MaxTag < drop_bit 3 v \<longleftrightarrow> 2 ^ 29 - 1 < uint v div 8"
    unfolding word_less_def uint_key_tag by (simp add: MaxTag_def)
qed

lemma key_tag_value: "ucast (drop_bit 3 (v :: u64)) = (word_of_int (uint v div 8) :: u32)"
  by (metis uint_key_tag ucast_eq)

lemma key_wt_value: "ucast ((v :: u64) AND 7) = (word_of_int (uint v mod 8) :: byte)"
  by (metis uint_key_wt ucast_eq)

lemma key_wt_valid: "valid_wire_type (ucast ((v :: u64) AND 7)) \<longleftrightarrow> \<not> 3 < uint v mod 8"
  by (simp add: key_wt_value valid_wire_type_def word_le_def uint_word_of_int not_less)

lemma rd_ReadTag_refines: "rd_refines rd_ReadTag p_tag"
  unfolding rd_ReadTag_def p_tag_def
proof (intro rd_refines_guard rd_refines_bind [OF rd_refines_uvarint] rd_refinesI)
  fix v :: u64 and r :: "'a reader" assume r: "rd_wf r" "rd_err r = None"
  show "rd_sim
      (let wt = ucast (v AND 7) :: wire_type; tagU = drop_bit 3 v in
         if tagU = 0 then rd_fail ErrZeroTag r
         else if ucast MaxTag < tagU then rd_fail ErrTagOverflow r
         else if \<not> valid_wire_type wt then rd_fail ErrReservedWire r
         else (Ret (ucast tagU :: u32, wt), r))
      ((if uint v div 8 = 0 then p_fail ErrZeroTag
        else if 2 ^ 29 - 1 < uint v div 8 then p_fail ErrTagOverflow
        else if 3 < uint v mod 8 then p_fail ErrReservedWire
        else p_return (word_of_int (uint v div 8), word_of_int (uint v mod 8))) (rd_rest r)) r"
    unfolding Let_def key_tag_zero key_tag_over key_wt_valid
    unfolding key_tag_value key_wt_value
    using r by (auto simp only: p_fail_def p_return_def rd_sim_fail rd_sim_Ret(1) rd_adv_refl
        fst_conv snd_conv simp_thms split: if_split)
qed

text \<open>Skipping: fixed-width arms move the position without slicing.\<close>

lemma rd_advance_refines:
  assumes "0 \<le> n"
  shows "rd_refines
           (\<lambda>r. if rd_end r - rd_pos r < n then rd_fail ErrTruncated r
                else (Ret (), r\<lparr>rd_pos := rd_pos r + n\<rparr>))
           (p_bind (p_take n) (\<lambda>_. p_return ()))"
proof (rule rd_refinesI)
  fix r :: "'a reader" assume r: "rd_wf r" "rd_err r = None"
  show "rd_sim (if rd_end r - rd_pos r < n then rd_fail ErrTruncated r
                else (Ret (), r\<lparr>rd_pos := rd_pos r + n\<rparr>))
          (p_bind (p_take n) (\<lambda>_. p_return ()) (rd_rest r)) r"
    using rd_rest_advance [OF r(1) assms] r
    by (simp add: p_bind_def p_take_def p_return_def length_rd_rest rd_sim_fail del: rd_sim_Ret(2))
qed

lemma rd_skip_len_refines:
  "rd_refines (rd_bind rd_bounded_len (\<lambda>n r. (Ret (), r\<lparr>rd_pos := rd_pos r + go_int n\<rparr>)))
     (p_bind p_len_bytes (\<lambda>_. p_return ()))"
  unfolding p_len_bytes_def p_bind_return_assoc
proof (rule rd_refines_bounded)
  fix n :: u64 and r :: "'a reader"
  assume r: "rd_wf r" "rd_err r = None" and n: "uint n \<le> len (rd_rest r)"
  have i: "go_int n = uint n"
    using n len_rd_rest_small [OF r(1)] by (intro go_int_small) linarith
  show "rd_sim (Ret (), r\<lparr>rd_pos := rd_pos r + go_int n\<rparr>)
          (p_bind (p_take (uint n)) (\<lambda>_. p_return ()) (rd_rest r)) r"
    using rd_rest_advance [OF r(1), of "uint n"] n r
    by (simp add: i p_bind_def p_take_def p_return_def)
qed

lemma rd_SkipField_refines: "rd_refines (rd_SkipField wt) (p_skip wt)"
  unfolding rd_SkipField_def p_skip_def
  by (rule rd_refines_guard)
    (simp add: rd_refines_bind rd_advance_refines rd_skip_len_refines)

lemma presence_mask: "b AND 0xFC = 0 \<longleftrightarrow> b = 0 \<or> b = 1 \<or> b = 2 \<or> b = (3 :: byte)"
proof -
  have "NOT (mask 2) = (0xFC :: byte)" by (simp add: mask_eq_exp_minus_1)
  then have "b AND 0xFC = 0 \<longleftrightarrow> b AND NOT (mask 2) = 0" by simp
  also have "\<dots> \<longleftrightarrow> take_bit 2 b = b"
    by (simp add: take_bit_eq_mask bit_eq_iff bit_simps) blast
  also have "\<dots> \<longleftrightarrow> take_bit 2 (unat b) = unat b"
    by (simp only: word_unat_eq_iff unsigned_take_bit_eq)
  also have "\<dots> \<longleftrightarrow> unat b < 4" by (simp add: take_bit_nat_eq_self_iff)
  also have "\<dots> \<longleftrightarrow> unat b = 0 \<or> unat b = 1 \<or> unat b = 2 \<or> unat b = 3" by arith
  also have "\<dots> \<longleftrightarrow> b = 0 \<or> b = 1 \<or> b = 2 \<or> b = 3" by (simp add: word_unat_eq_iff)
  finally show ?thesis .
qed

lemma rd_ReadPresenceByte_refines: "rd_refines (rd_ReadPresenceByte allow) (p_presence allow)"
  unfolding rd_ReadPresenceByte_def
proof (rule rd_refines_guard, rule rd_refinesI)
  fix r :: "'a reader" assume r: "rd_wf r" "rd_err r = None"
  show "rd_sim
      (if rd_end r - rd_pos r < 1 then rd_fail ErrTruncated r
       else case go_index (rd_buf r) (rd_pos r) of None \<Rightarrow> (Panic, r)
         | Some b \<Rightarrow>
             let r' = r\<lparr>rd_pos := rd_pos r + 1\<rparr> in
             if b AND presenceReservedMask \<noteq> 0 then rd_fail ErrInvalidPresence r'
             else if b = PresenceNil \<or> b = PresenceNonZero then (Ret b, r')
             else if b = PresenceZero then
               (if \<not> allow then rd_fail ErrInvalidPresence r' else (Ret PresenceZero, r'))
             else rd_fail ErrInvalidPresence r')
      (p_presence allow (rd_rest r)) r"
  proof (cases "rd_end r - rd_pos r < 1")
    case True
    then show ?thesis
      using r
      by (simp add: p_presence_def p_bind_def p_take_def length_rd_rest rd_sim_fail
          del: rd_sim_Ret(2))
  next
    case False
    let ?r = "r\<lparr>rd_pos := rd_pos r + 1\<rparr>" and ?b = "rd_buf r ! nat (rd_pos r)"
    have one: "1 \<le> len (rd_rest r)" using False r by (simp add: length_rd_rest)
    note adv = rd_rest_advance [OF r(1) _ one]
    have wf: "rd_wf ?r" "rd_err ?r = None" using rd_adv_wf [OF r(1) adv(2)] r by auto
    have idx: "go_index (rd_buf r) (rd_pos r) = Some ?b"
      using False r by (intro go_index_in) (auto simp: rd_wf_def)
    have b: "take (Suc 0) (rd_rest r) = [?b]"
    proof -
      have "nat (rd_pos r) < length (rd_buf r)" using False r(1) by (auto simp: rd_wf_def)
      then show ?thesis
        using False by (simp add: rd_rest_def flip: Cons_nth_drop_Suc)
    qed
    have fail: "rd_sim (rd_fail ErrInvalidPresence ?r) (Fail ErrInvalidPresence) r"
      using rd_sim_adv [OF rd_sim_fail [OF wf] adv(2)] by simp
    show ?thesis
      using False fail adv r one
      by (auto simp: idx Let_def presence_mask p_presence_def p_bind_def p_take_def b p_fail_def
          p_return_def simp del: rd_sim_Ret(2) split: if_splits)
  qed
qed

section \<open>Properties\<close>

text \<open>
  C12: every primitive read is its list parser. From any well-formed reader without an error, each
  operation returns what the parser says of the unread bytes of the current region, leaves
  exactly the bytes the parser leaves, never panics, and on failure returns and records the
  parser's error; it never looks or moves past the end of the region.
\<close>

theorem reader_refines_parsers:
  "rd_refines rd_ReadUvarint p_uvarint \<and>
   rd_refines rd_ReadVarint (p_bind p_uvarint (\<lambda>v. p_return (zigzag_decode64 v))) \<and>
   rd_refines rd_ReadBool (p_bind p_uvarint (\<lambda>v. p_return (v \<noteq> 0))) \<and>
   rd_refines rd_ReadFixed32 (p_bind (p_take 4) (\<lambda>b. p_return (le_get b))) \<and>
   rd_refines rd_ReadFixed64 (p_bind (p_take 8) (\<lambda>b. p_return (le_get b))) \<and>
   rd_refines rd_ReadBytes p_len_bytes \<and> rd_refines rd_ReadLength p_bounded_len"
  by (simp add: rd_ReadUvarint_refines rd_ReadVarint_refines rd_ReadBool_refines
      rd_ReadFixed32_refines rd_ReadFixed64_refines rd_ReadBytes_def rd_readLenBytes_refines
      rd_ReadLength_refines)

text \<open>
  C13: \<^verbatim>\<open>ReadTag\<close> accepts exactly the keys with a tag between 1 and \<open>2 ^ 29 - 1\<close> and one of the
  four wire types, and reports the first violated rule otherwise; \<^verbatim>\<open>SkipField\<close> moves past exactly
  one value of the given wire type, refusing the reserved ones; \<^verbatim>\<open>ReadPresenceByte\<close> accepts nil,
  present and, only where the field allows it, present-and-zero.
\<close>

theorem tag_skip_presence_refine:
  "rd_refines rd_ReadTag p_tag \<and> rd_refines (rd_SkipField wt) (p_skip wt) \<and>
   rd_refines (rd_ReadPresenceByte allow) (p_presence allow)"
  by (simp add: rd_ReadTag_refines rd_SkipField_refines rd_ReadPresenceByte_refines)

end
