(* ===== verification/Reader_Header.thy ===== *)
theory Reader_Header
  imports Reader_Spec
begin

text \<open>
  \<^verbatim>\<open>ReadHeader\<close> against its specification \<open>hdr_parse\<close>: a function of the unread bytes alone
  that lists the checks in the order the format document gives them and yields the header
  fields with the body, inflated where the flags say so.
\<close>

definition hdr_size :: "byte \<Rightarrow> int" where
  "hdr_size flags = (if flags = 9 \<or> flags = 10 then 16 else 12)"

definition hdr_inflated :: "byte list \<Rightarrow> int" where
  "hdr_inflated bs =
     (if hdr_size (bs ! 5) = 16 then uint (le_get (take 4 (drop 12 bs)) :: u32) else - 1)"

definition hdr_body ::
  "codec_lib \<Rightarrow> int \<Rightarrow> byte \<Rightarrow> byte list \<Rightarrow> int \<Rightarrow> byte list outcome" where
  "hdr_body lib max_int flags body n =
     (if flags = 0 then Ret body
      else case fst (decompress_body lib max_int (flags AND 7) body n) of
        Ret out \<Rightarrow> Ret out | Fail e \<Rightarrow> Fail ErrCorruptCompressedBody | Panic \<Rightarrow> Panic)"

definition hdr_parse :: "codec_lib \<Rightarrow> int \<Rightarrow> (byte \<times> u16 \<times> u32) parser" where
  "hdr_parse lib max_int bs =
     (if len bs < 12 then Fail ErrTruncated
      else if take 4 bs \<noteq> Magic then Fail ErrBadMagic
      else if bs ! 4 \<noteq> 2 then Fail ErrUnsupportedVer
      else if bs ! 5 \<notin> {0, 1, 2, 9, 10} then Fail ErrReservedFlags
      else if len bs < hdr_size (bs ! 5) then Fail ErrTruncated
      else if uint (decoder_max_decompressed_size max_int) < hdr_inflated bs
      then Fail ErrCorruptCompressedBody
      else let bodyLen = le_get (take 4 (drop 8 bs)) :: u32 in
      if uint bodyLen \<noteq> len bs - hdr_size (bs ! 5) then Fail ErrBodyLenMismatch
      else map_outcome (\<lambda>body. ((bs ! 5, le_get (take 2 (drop 6 bs)), bodyLen), body))
             (hdr_body lib max_int (bs ! 5) (drop (nat (hdr_size (bs ! 5))) bs) (hdr_inflated bs)))"

text \<open>
  What the code relies on the zstd library for: under a memory limit, \<^verbatim>\<open>DecodeAll\<close> returns at
  most that many bytes. The libraries report errors, they do not panic.
\<close>

definition codec_lib_ok :: "codec_lib \<Rightarrow> bool" where
  "codec_lib_ok lib \<longleftrightarrow>
     (\<forall>m src. zstd_decode_all lib m src \<noteq> Panic \<and>
        (\<forall>out. zstd_decode_all lib m src = Ret out \<longrightarrow> len out \<le> uint m)) \<and>
     (\<forall>m n src. zstd_decode_all_cap lib m n src \<noteq> Panic) \<and>
     (\<forall>m src. zstd_stream lib m src \<noteq> Panic) \<and> (\<forall>src. gzip_stream lib src \<noteq> Panic)"

lemma read_limited_no_panic [simp]: "read_limited n s \<noteq> Panic"
  by (auto simp: read_limited_def split: prod.splits option.splits)

lemma decompress_body_no_panic:
  "codec_lib_ok lib \<Longrightarrow> fst (decompress_body lib max_int m src n) \<noteq> Panic"
  by (auto simp: codec_lib_ok_def decompress_body_def decompress_zstd_known_def
      decompress_gzip_def split: outcome.splits)

lemma decompress_body_cap:
  assumes "codec_lib_ok lib" and "fst (decompress_body lib max_int m src n) = Ret out"
    and "n \<le> uint (decoder_max_decompressed_size max_int)"
  shows "len out \<le> uint (decoder_max_decompressed_size max_int)"
proof (cases "0 \<le> n")
  case True
  then show ?thesis using decompress_body_exact [OF assms(2)] assms(3) by simp
next
  case False
  then show ?thesis
    using assms(1,2)
    by (auto simp: codec_lib_ok_def decompress_body_def decompress_gzip_def
        split: outcome.splits if_splits)
qed

lemma rd_slice_range:
  assumes "rd_wf r" and "0 \<le> a" and "a \<le> b" and "b \<le> len (rd_rest r)"
  shows "go_slice (rd_buf r) (rd_pos r + a) (rd_pos r + b) =
           Some (take (nat (b - a)) (drop (nat a) (rd_rest r)))"
proof -
  have "b \<le> rd_end r - rd_pos r" using assms length_rd_rest by metis
  moreover have "nat (rd_pos r + a) = nat (rd_pos r) + nat a"
    using assms by (simp add: rd_wf_def nat_add_distrib)
  moreover have "nat (b - a) \<le> nat (rd_end r - rd_pos r) - nat a" using calculation assms by linarith
  ultimately show ?thesis
    using assms(1-3) by (simp add: rd_wf_def go_slice_def rd_rest_def drop_take min_def add.commute)
qed

definition hdr_sim ::
  "'a outcome \<times> 'al reader \<Rightarrow> ('a \<times> byte list) outcome \<Rightarrow> bool" where
  "hdr_sim res ans \<longleftrightarrow>
     (case ans of
        Ret (x, bs) \<Rightarrow>
          fst res = Ret x \<and> rd_wf (snd res) \<and> rd_err (snd res) = None \<and> rd_rest (snd res) = bs
      | Fail e \<Rightarrow> fst res = Fail e \<and> rd_wf (snd res) \<and> rd_err (snd res) = Some e
      | Panic \<Rightarrow> False)"

lemma hdr_sim_fail [simp]:
  "rd_wf r \<Longrightarrow> rd_err r = None \<Longrightarrow> hdr_sim (rd_fail e r) (Fail e)"
  by (simp add: hdr_sim_def rd_fail_def rd_set_err_def rd_wf_def)

lemma hdr_sim_Ret [simp]:
  "hdr_sim (Ret x, s) (Ret (x', bs)) \<longleftrightarrow> x = x' \<and> rd_wf s \<and> rd_err s = None \<and> rd_rest s = bs"
  by (auto simp: hdr_sim_def)

lemma header_method_cases:
  "flags \<notin> {0, 1, 2, 9, 10} \<Longrightarrow> header_compression_method flags = Fail ErrReservedFlags"
  "flags \<in> {0, 1, 2, 9, 10} \<Longrightarrow>
     header_compression_method flags = Ret (flags AND 7, hdr_size flags = 16)"
  "flags \<in> {0, 1, 2, 9, 10} \<Longrightarrow> compresses (flags AND 7) \<longleftrightarrow> flags \<noteq> 0"
  by (auto simp: header_compression_method_cases hdr_size_def compresses_def)

lemma body_len_eq:
  assumes "0 \<le> k" and "k < 2 ^ 63"
  shows "(ucast (w :: u32) :: u64) = go_uint64 k \<longleftrightarrow> uint w = k"
proof -
  have k: "uint (go_uint64 k) = k" using assms by (simp add: go_uint64_def uint_u64_of_int)
  show ?thesis by (simp add: word_uint_eq_iff [where ?'a = 64] k)
qed

lemma cap_less:
  "decoder_max_decompressed_size m < ucast (w :: u32) \<longleftrightarrow>
     uint (decoder_max_decompressed_size m) < uint w"
  by (simp add: word_less_def)

lemma decoder_max_nonneg: "\<not> uint (decoder_max_decompressed_size m) < - 1"
  using uint_ge_0 [of "decoder_max_decompressed_size m"] by linarith

text \<open>The body step, from the reader just past the header.\<close>

lemma rd_ReadHeader_body:
  assumes "rd_wf r" and "rd_err r = None" and "codec_lib_ok lib"
    and "n \<le> uint (decoder_max_decompressed_size max_int)"
    and "uint (decoder_max_decompressed_size max_int) < 2 ^ 63" and "flags \<in> {0, 1, 2, 9, 10}"
  shows "hdr_sim (rd_inflate_body lib max_int (flags AND 7) n x r)
     (map_outcome (\<lambda>body. (x, body)) (hdr_body lib max_int flags (rd_rest r) n))"
proof (cases "flags = 0")
  case True
  then show ?thesis using assms(1,2) by (simp add: rd_inflate_body_def hdr_body_def compresses_def)
next
  case False
  have body: "go_slice (rd_buf r) (rd_pos r) (rd_end r) = Some (rd_rest r)"
    using rd_slice_range [OF assms(1), of 0 "len (rd_rest r)"] length_rd_rest [OF assms(1)]
    by simp
  show ?thesis
  proof (cases "fst (decompress_body lib max_int (flags AND 7) (rd_rest r) n)")
    case (Ret out)
    have "len out < 2 ^ 63" using decompress_body_cap [OF assms(3) Ret assms(4)] assms(5) by simp
    then have "rd_wf (r\<lparr>rd_buf := out, rd_pos := 0, rd_end := len out\<rparr>)"
      and "rd_rest (r\<lparr>rd_buf := out, rd_pos := 0, rd_end := len out\<rparr>) = out"
      by (simp_all add: rd_wf_def rd_rest_def)
    then show ?thesis
      using False assms(2,6) by (simp add: rd_inflate_body_def hdr_body_def header_method_cases body Ret)
  next
    case (Fail e)
    then show ?thesis
      using False assms(1,2,6) by (simp add: rd_inflate_body_def hdr_body_def header_method_cases body)
  next
    case Panic
    then show ?thesis using decompress_body_no_panic [OF assms(3)] by metis
  qed
qed

text \<open>\<^verbatim>\<open>ReadHeader\<close> implements \<open>hdr_parse\<close>.\<close>

lemma rd_ReadHeader_sim:
  assumes r: "rd_wf r" "rd_err r = None" and lib: "codec_lib_ok lib"
    and M: "2 ^ 31 - 1 \<le> max_int" "max_int < 2 ^ 63"
  shows "hdr_sim (rd_ReadHeader lib max_int r) (hdr_parse lib max_int (rd_rest r))"
proof -
  let ?bs = "rd_rest r" and ?cap = "uint (decoder_max_decompressed_size max_int)"
  have cap: "?cap < 2 ^ 63" using decoder_max_uint [OF M] by (simp add: MaxUint32_def)
  have room: "rd_end r - rd_pos r = len ?bs" using length_rd_rest [OF r(1)] by simp
  have slice: "12 \<le> len ?bs \<Longrightarrow> go_slice (rd_buf r) (rd_pos r) (rd_pos r + 12) = Some (take 12 ?bs)"
    using rd_slice_range [OF r(1), of 0 12] by simp
  have t: "take 4 (take 12 ?bs) = take 4 ?bs" "take 12 ?bs ! 4 = ?bs ! 4" "take 12 ?bs ! 5 = ?bs ! 5"
    "take 2 (drop 6 (take 12 ?bs)) = take 2 (drop 6 ?bs)"
    "take 4 (drop 8 (take 12 ?bs)) = take 4 (drop 8 ?bs)"
    by (simp_all add: drop_take)
  note d = rd_ReadHeader_def rd_guard_def hdr_parse_def
  consider (short) "len ?bs < 12"
    | (magic) "12 \<le> len ?bs" "take 4 ?bs \<noteq> Magic"
    | (ver) "12 \<le> len ?bs" "take 4 ?bs = Magic" "?bs ! 4 \<noteq> 2"
    | (flags) "12 \<le> len ?bs" "take 4 ?bs = Magic" "?bs ! 4 = 2" "?bs ! 5 \<notin> {0, 1, 2, 9, 10}"
    | (ok) "12 \<le> len ?bs" "take 4 ?bs = Magic" "?bs ! 4 = 2" "?bs ! 5 \<in> {0, 1, 2, 9, 10}"
    by linarith
  then show ?thesis
  proof cases
    case short
    then show ?thesis using r by (simp add: d room)
  next
    case magic
    then show ?thesis using r by (simp add: d room slice t)
  next
    case ver
    then show ?thesis using r by (simp add: d room slice t)
  next
    case flags
    then have "header_compression_method (?bs ! 5) = Fail ErrReservedFlags"
      using header_method_cases(1) by blast
    then show ?thesis using r flags by (simp add: d room slice t)
  next
    case ok
    define flags where "flags = ?bs ! 5"
    define hl where "hl = hdr_size flags"
    have fl: "flags \<in> {0, 1, 2, 9, 10}" using ok by (simp add: flags_def)
    note m = header_method_cases(2) [OF fl, folded hl_def]
    have hl: "hl = 12 \<or> hl = 16" by (auto simp: hl_def hdr_size_def)
    show ?thesis
    proof (cases "len ?bs < hl")
      case True
      then have "hl = 16" using hl ok by auto
      then show ?thesis
        using ok r True m by (simp add: d room slice t flags_def hl_def)
    next
      case False
      let ?ib = "if hl = 16 then take 4 (drop 12 ?bs) else []"
      let ?n = "if hl = 16 then uint (le_get ?ib :: u32) else - 1"
      have il: "(if hl = 16 then go_slice (rd_buf r) (rd_pos r + 12) (rd_pos r + 16) else Some []) = Some ?ib"
        using rd_slice_range [OF r(1), of 12 16] False by auto
      have n: "hdr_inflated ?bs = ?n" by (simp add: hdr_inflated_def hl_def flags_def)
      let ?bl = "le_get (take 4 (drop 8 ?bs)) :: u32"
      let ?x = "(flags, le_get (take 2 (drop 6 ?bs)) :: u16, ?bl)"
      let ?r = "r\<lparr>rd_pos := rd_pos r + hl\<rparr>"
      have adv: "rd_rest ?r = drop (nat hl) ?bs" "rd_wf ?r" "rd_err ?r = None"
        using rd_rest_advance [OF r(1), of hl] rd_adv_wf [OF r(1)] False hl r(2) by auto
      have bl: "(ucast ?bl :: u64) = go_uint64 (len ?bs - hl) \<longleftrightarrow> uint ?bl = len ?bs - hl"
        using False hl len_rd_rest_small [OF r(1)] by (intro body_len_eq) auto
      note common = ok(1-3) r m False flags_def [symmetric] hl_def [symmetric] n room slice t bl
      consider (cap) "?cap < ?n" | (mis) "\<not> ?cap < ?n" "uint ?bl \<noteq> len ?bs - hl"
        | (body) "\<not> ?cap < ?n" "uint ?bl = len ?bs - hl" by blast
      then show ?thesis
      proof cases
        case cap
        then have "hl = 16" using decoder_max_nonneg by (auto split: if_splits)
        then show ?thesis using cap common il fl by (simp add: d cap_less Let_def)
      next
        case mis
        then show ?thesis
          using hl common il fl by (cases "hl = 16") (simp_all add: d cap_less Let_def)
      next
        case body
        note b = rd_ReadHeader_body [OF adv(2,3) lib _ _ fl, of ?n max_int ?x]
        show ?thesis
          using b body hl common il fl adv(1) cap
          by (cases "hl = 16") (simp_all add: d cap_less Let_def)
      qed
    qed
  qed
qed

section \<open>Properties\<close>

text \<open>
  C6: \<^verbatim>\<open>ReadHeader\<close> on arbitrary bytes. From any well-formed reader without an error it does what
  \<open>hdr_parse\<close> says of the unread bytes: the checks for length, magic, version, flags, inflated
  size and body length in that order, each with its own error recorded, and on success the three
  header fields with the reader positioned on the (inflated) body. It never panics.
\<close>

theorem ReadHeader_correct:
  assumes "rd_wf r" and "rd_err r = None" and "codec_lib_ok lib"
    and "2 ^ 31 - 1 \<le> max_int" and "max_int < 2 ^ 63"
  shows "hdr_sim (rd_ReadHeader lib max_int r) (hdr_parse lib max_int (rd_rest r))"
  by (rule rd_ReadHeader_sim [OF assms])

lemma stored_lib_ok: "codec_lib_ok stored_lib"
  by (auto simp: codec_lib_ok_def stored_lib_def)

theorem ReadHeader_correct_witness:
  "fst (rd_ReadHeader stored_lib (2 ^ 63 - 1)
          (new_reader (Magic @ [2, 2, 7, 0, 3, 0, 0, 0, 10, 20, 30]) :: unit reader)) =
     Ret (2, 7, 3)"
proof -
  let ?bs = "Magic @ [2, 2, 7, 0, 3, 0, 0, 0, 10, 20, 30]"
  have "hdr_parse stored_lib (2 ^ 63 - 1) ?bs = Ret ((2, 7, 3), [10, 20, 30])"
    using decoder_max_uint [of "2 ^ 63 - 1"]
    by (simp add: hdr_parse_def Magic_def hdr_size_def hdr_inflated_def hdr_body_def Let_def
        decompress_body_def decompress_gzip_def stored_lib_def read_limited_def MaxUint32_def
        zstdDecoderOverAllocSlack_def)
  then show ?thesis
    using ReadHeader_correct [of "new_reader ?bs :: unit reader" stored_lib "2 ^ 63 - 1"]
    by (simp add: new_reader_wf stored_lib_ok Magic_def hdr_sim_def)
qed

end
