(* ===== verification/Stream_Reader.thy ===== *)
theory Stream_Reader
  imports Reader_Header
begin

text \<open>
  \<^verbatim>\<open>NewReaderFrom\<close> and \<^verbatim>\<open>NewReaderFromN\<close> of \<^verbatim>\<open>reader.go\<close>. The source, an \<^verbatim>\<open>io.Reader\<close>, is the pieces
  its \<^verbatim>\<open>Read\<close> calls would deliver and the error it ends with (\<open>None\<close>: end of file). Besides the
  outcome and the source left behind, the model returns the size of the \<^verbatim>\<open>make\<close> for the blob.
\<close>

record source =
  src_pieces :: "byte list list"
  src_error :: "gerr option"

text \<open>\<^verbatim>\<open>io.ReadFull\<close>: read pieces until \<open>n\<close> bytes are there or the source ends.\<close>

fun read_pieces :: "nat \<Rightarrow> byte list list \<Rightarrow> byte list \<times> byte list list" where
  "read_pieces n [] = ([], [])"
| "read_pieces n (c # cs) =
     (if n \<le> length c then (take n c, drop n c # cs)
      else case read_pieces (n - length c) cs of (b, rest) \<Rightarrow> (c @ b, rest))"

text \<open>The error branch at each call site: end of file becomes \<^verbatim>\<open>ErrTruncated\<close>.\<close>

definition read_full :: "int \<Rightarrow> source \<Rightarrow> byte list outcome \<times> source" where
  "read_full n src =
     (case read_pieces (nat n) (src_pieces src) of (b, rest) \<Rightarrow>
        (if len b < n
         then Fail (case src_error src of None \<Rightarrow> ErrTruncated | Some e \<Rightarrow> e)
         else Ret b,
         src\<lparr>src_pieces := rest\<rparr>))"

text \<open>The \<^verbatim>\<open>make\<close> of the blob behind the header \<open>hdr\<close>, and the read that fills its body.\<close>

definition read_blob ::
  "byte list \<Rightarrow> int \<Rightarrow> int \<Rightarrow> source \<Rightarrow> 'al reader outcome \<times> source \<times> int" where
  "read_blob hdr headerLen bodyLen src =
     (let made = headerLen + bodyLen in
      if 0 < bodyLen then
        (case read_full bodyLen src of
           (Fail e, src) \<Rightarrow> (Fail e, src, made)
         | (Panic, src) \<Rightarrow> (Panic, src, made)
         | (Ret body, src) \<Rightarrow> (Ret (new_reader (hdr @ body)), src, made))
      else (Ret (new_reader hdr), src, made))"

definition new_reader_from_n ::
  "int \<Rightarrow> source \<Rightarrow> int \<Rightarrow> 'al reader outcome \<times> source \<times> int" where
  "new_reader_from_n max_int src maxBodyLen =
     (case read_full HeaderSize src of
        (Fail e, src) \<Rightarrow> (Fail e, src, 0)
      | (Panic, src) \<Rightarrow> (Panic, src, 0)
      | (Ret base, src) \<Rightarrow>
          if take 4 base \<noteq> Magic then (Fail ErrBadMagic, src, 0)
          else if base ! 4 \<noteq> FmtVer2 then (Fail ErrUnsupportedVer, src, 0)
          else case header_compression_method (base ! 5) of
            Fail e \<Rightarrow> (Fail e, src, 0)
          | Panic \<Rightarrow> (Panic, src, 0)
          | Ret (_, extended) \<Rightarrow>
              let headerLen = (if extended then ExtendedHeaderSize else HeaderSize) in
              (case (if extended then read_full (ExtendedHeaderSize - HeaderSize) src
                     else (Ret [], src)) of
                 (Fail e, src) \<Rightarrow> (Fail e, src, 0)
               | (Panic, src) \<Rightarrow> (Panic, src, 0)
               | (Ret ext, src) \<Rightarrow>
                   let bodyLen = le_get (take 4 (drop 8 base)) :: u32 in
                   if max_int - headerLen < uint bodyLen then (Fail ErrAllocTooLarge, src, 0)
                   else if 0 \<le> maxBodyLen \<and> maxBodyLen < uint bodyLen
                   then (Fail ErrAllocTooLarge, src, 0)
                   else read_blob (base @ ext) headerLen (uint bodyLen) src))"

definition new_reader_from :: "int \<Rightarrow> source \<Rightarrow> 'al reader outcome \<times> source \<times> int" where
  "new_reader_from max_int src = new_reader_from_n max_int src (- 1)"

section \<open>Reading pieces\<close>

lemma read_pieces_eq:
  "fst (read_pieces n cs) = take n (concat cs) \<and> concat (snd (read_pieces n cs)) = drop n (concat cs)"
  by (induction n cs rule: read_pieces.induct) (auto split: prod.splits)

text \<open>The bytes a source still has.\<close>

definition src_bytes :: "source \<Rightarrow> byte list" where
  "src_bytes src = concat (src_pieces src)"

definition src_fail :: "source \<Rightarrow> gerr" where
  "src_fail src = (case src_error src of None \<Rightarrow> ErrTruncated | Some e \<Rightarrow> e)"

lemma read_full_cases:
  assumes "0 \<le> n"
  obtains (short) s where "len (src_bytes src) < n" and "read_full n src = (Fail (src_fail src), s)"
    | (full) s where "n \<le> len (src_bytes src)"
      and "read_full n src = (Ret (take (nat n) (src_bytes src)), s)"
      and "src_bytes s = drop (nat n) (src_bytes src)" and "src_fail s = src_fail src"
proof -
  obtain b rest where b: "read_pieces (nat n) (src_pieces src) = (b, rest)"
    by (cases "read_pieces (nat n) (src_pieces src)")
  have e: "b = take (nat n) (src_bytes src)" "concat rest = drop (nat n) (src_bytes src)"
    using read_pieces_eq [of "nat n" "src_pieces src"] b by (simp_all add: src_bytes_def)
  show thesis
  proof (cases "len (src_bytes src) < n")
    case True
    then show thesis using short b e by (simp add: read_full_def src_fail_def)
  next
    case False
    then show thesis
      using full [of "src\<lparr>src_pieces := rest\<rparr>"] b e assms
      by (simp add: read_full_def src_bytes_def src_fail_def min_def nat_le_iff)
  qed
qed

section \<open>The specification\<close>

text \<open>
  What the constructor does with the bytes \<open>d\<close> a source supplies, however they arrive in pieces:
  the blob it takes from the front.
\<close>

definition stream_spec :: "int \<Rightarrow> int \<Rightarrow> gerr \<Rightarrow> byte list \<Rightarrow> byte list outcome" where
  "stream_spec max_int maxBodyLen e d =
     (if len d < 12 then Fail e
      else if take 4 d \<noteq> Magic then Fail ErrBadMagic
      else if d ! 4 \<noteq> 2 then Fail ErrUnsupportedVer
      else if d ! 5 \<notin> {0, 1, 2, 9, 10} then Fail ErrReservedFlags
      else if len d < hdr_size (d ! 5) then Fail e
      else
        let hl = hdr_size (d ! 5); n = uint (le_get (take 4 (drop 8 d)) :: u32) in
        if max_int - hl < n \<or> 0 \<le> maxBodyLen \<and> maxBodyLen < n then Fail ErrAllocTooLarge
        else if len d < hl + n then Fail e
        else Ret (take (nat (hl + n)) d))"

text \<open>\<open>stream_ok\<close>: the constructor's answer, and the source and allocation that go with it.\<close>

definition stream_ok ::
  "'al reader outcome \<times> source \<times> int \<Rightarrow> int \<Rightarrow> source \<Rightarrow> byte list outcome \<Rightarrow> bool" where
  "stream_ok res maxBodyLen src ans \<longleftrightarrow>
     fst res = map_outcome new_reader ans \<and> 0 \<le> snd (snd res) \<and>
     (0 \<le> maxBodyLen \<longrightarrow> snd (snd res) \<le> maxBodyLen + 16) \<and>
     (\<forall>blob. ans = Ret blob \<longrightarrow>
        snd (snd res) = len blob \<and> src_bytes src = blob @ src_bytes (fst (snd res)))"

lemma stream_ok_Fail [simp]:
  "stream_ok (Fail e, s, 0) m src (Fail e') \<longleftrightarrow> e = e'"
  by (auto simp: stream_ok_def)

lemma hdr_size_cases: "hdr_size f = 12 \<or> hdr_size f = 16"
  by (simp add: hdr_size_def)

lemma new_reader_from_body:
  assumes d: "src_bytes src = pre @ src_bytes s" and e: "src_fail s = src_fail src"
    and pre: "len pre = hl" "hl \<le> 16" "0 \<le> n" and m: "0 \<le> maxBodyLen \<longrightarrow> n \<le> maxBodyLen"
  shows "stream_ok (read_blob pre hl n s)
     maxBodyLen src
     (if len (src_bytes src) < hl + n then Fail (src_fail src)
      else Ret (take (nat (hl + n)) (src_bytes src)))"
proof (cases "n = 0")
  case True
  then show ?thesis using d pre m by (auto simp: stream_ok_def read_blob_def)
next
  case False
  have l: "len (src_bytes src) = hl + len (src_bytes s)" using d pre(1) by simp
  have t: "take (nat (hl + n)) (src_bytes src) = pre @ take (nat n) (src_bytes s)"
    using d pre(1,3) by (auto simp: nat_add_distrib)
  consider (short) s' where "len (src_bytes s) < n" "read_full n s = (Fail (src_fail s), s')"
    | (full) s' where "n \<le> len (src_bytes s)" "read_full n s = (Ret (take (nat n) (src_bytes s)), s')"
        "src_bytes s' = drop (nat n) (src_bytes s)"
    using read_full_cases [OF pre(3), of s] by metis
  then show ?thesis
  proof cases
    case (short s')
    then show ?thesis using False e l pre m by (auto simp: stream_ok_def read_blob_def)
  next
    case (full s')
    have "src_bytes src = (pre @ take (nat n) (src_bytes s)) @ src_bytes s'"
      using d full(3) by simp
    then show ?thesis
      using False full l t pre m by (auto simp: stream_ok_def read_blob_def)
  qed
qed

lemma new_reader_from_n_base:
  assumes "12 \<le> len (src_bytes src)"
    and "read_full 12 src = (Ret (take (nat 12) (src_bytes src)), s)"
    and "src_bytes s = drop (nat 12) (src_bytes src)" and "src_fail s = src_fail src"
  shows "stream_ok (new_reader_from_n max_int src maxBodyLen) maxBodyLen src
           (stream_spec max_int maxBodyLen (src_fail src) (src_bytes src))"
proof -
  let ?d = "src_bytes src"
  define base where "base = take 12 ?d"
  have base: "take 4 base = take 4 ?d" "base ! 4 = ?d ! 4" "base ! 5 = ?d ! 5"
      "take 4 (drop 8 base) = take 4 (drop 8 ?d)" "len base = 12"
    using assms(1) by (simp_all add: base_def drop_take)
  have r: "read_full 12 src = (Ret base, s)" using assms(2) by (simp add: base_def)
  have d: "?d = base @ src_bytes s" using assms(3) by (simp add: base_def)
  consider (bad) "take 4 ?d \<noteq> Magic" | (ver) "take 4 ?d = Magic" "?d ! 4 \<noteq> 2"
    | (flags) "take 4 ?d = Magic" "?d ! 4 = 2" "?d ! 5 \<notin> {0, 1, 2, 9, 10}"
    | (ok) "take 4 ?d = Magic" "?d ! 4 = 2" "?d ! 5 \<in> {0, 1, 2, 9, 10}" by blast
  then show ?thesis
  proof cases
    case bad
    then show ?thesis using assms(1) r base by (simp add: new_reader_from_n_def stream_spec_def)
  next
    case ver
    then show ?thesis using assms(1) r base by (simp add: new_reader_from_n_def stream_spec_def)
  next
    case flags
    then show ?thesis
      using assms(1) r base header_method_cases(1) [OF flags(3)]
      by (simp add: new_reader_from_n_def stream_spec_def)
  next
    case ok
    note m = header_method_cases(2) [OF ok(3)]
    show ?thesis
    proof (cases "hdr_size (?d ! 5) = 16")
      case True
      consider (short) t where "len (src_bytes s) < 4" "read_full 4 s = (Fail (src_fail s), t)"
        | (full) t where "4 \<le> len (src_bytes s)"
            "read_full 4 s = (Ret (take (nat 4) (src_bytes s)), t)"
            "src_bytes t = drop (nat 4) (src_bytes s)" "src_fail t = src_fail s"
        using read_full_cases [of 4 s] by (metis zero_le_numeral)
      then show ?thesis
      proof cases
        case (short t)
        have "len ?d < 16" using short(1) d base(5) by simp
        then show ?thesis
          using ok True m assms(1,4) r base short by (simp add: new_reader_from_n_def stream_spec_def)
      next
        case (full t)
        let ?pre = "base @ take 4 (src_bytes s)"
        have pre: "?d = ?pre @ src_bytes t" "src_fail t = src_fail src" "len ?pre = 16"
          using d full base(5) assms(4) by simp_all
        have len: "\<not> len ?d < 16" using pre(1,3) by simp
        note b = new_reader_from_body [OF pre _ uint_ge_0, of maxBodyLen "le_get (take 4 (drop 8 ?d)) :: u32"]
        show ?thesis
          using b ok True m assms(1) r base full len
          by (cases "0 \<le> maxBodyLen \<and> maxBodyLen < uint (le_get (take 4 (drop 8 ?d)) :: u32)") (auto simp: new_reader_from_n_def stream_spec_def Let_def)
      qed
    next
      case False
      then have hl: "hdr_size (?d ! 5) = 12" using hdr_size_cases by blast
      note b = new_reader_from_body [OF d assms(4) base(5) _ uint_ge_0, of maxBodyLen
          "le_get (take 4 (drop 8 ?d)) :: u32"]
      show ?thesis
        using b ok hl m assms(1) r base
        by (cases "0 \<le> maxBodyLen \<and> maxBodyLen < uint (le_get (take 4 (drop 8 ?d)) :: u32)") (auto simp: new_reader_from_n_def stream_spec_def Let_def)
    qed
  qed
qed

lemma new_reader_from_n_sim:
  "stream_ok (new_reader_from_n max_int src maxBodyLen) maxBodyLen src
     (stream_spec max_int maxBodyLen (src_fail src) (src_bytes src))"
proof -
  consider (short) s where "len (src_bytes src) < 12" "read_full 12 src = (Fail (src_fail src), s)"
    | (full) s where "12 \<le> len (src_bytes src)"
        "read_full 12 src = (Ret (take (nat 12) (src_bytes src)), s)"
        "src_bytes s = drop (nat 12) (src_bytes src)" "src_fail s = src_fail src"
    using read_full_cases [of 12 src] by (metis zero_le_numeral)
  then show ?thesis
  proof cases
    case (short s)
    then show ?thesis by (simp add: new_reader_from_n_def stream_spec_def)
  next
    case (full s)
    then show ?thesis by (rule new_reader_from_n_base)
  qed
qed

section \<open>Properties\<close>

text \<open>
  C24: the \<^verbatim>\<open>io.Reader\<close> constructors. Whatever pieces a source delivers its bytes in, the result is a
  function of the bytes alone: a Reader on exactly the header and the declared body, with the
  rest of the source unread, or the first violated check. Nothing is allocated before the header
  checks and the size limits have passed, and with a limit \<open>maxBodyLen\<close> the one allocation is at
  most 16 bytes larger than it.
\<close>

theorem stream_reader_correct:
  "stream_ok (new_reader_from_n max_int src maxBodyLen) maxBodyLen src
     (stream_spec max_int maxBodyLen (src_fail src) (src_bytes src))"
  by (rule new_reader_from_n_sim)

end
