(* ===== verification/Writer_Cache.thy ===== *)
theory Writer_Cache
  imports Writer_Modes "HOL-Library.Sublist"
begin

text \<open>
  The materialisation cache across the two passes of an encode. A size pass starts with an empty
  cache and runs every callback once (\<open>resolves_fresh\<close>); the write pass, on the same cache with
  rewound cursors, yields the same items and runs no callback at all (\<open>resolves_replay\<close>),
  whatever the callbacks would return now.
\<close>

abbreviation sc_strings :: "scratch \<Rightarrow> u64 \<Rightarrow> gostring list" where
  "sc_strings sc c \<equiv> se_strings (sc_entry sc c)"

abbreviation sc_values :: "scratch \<Rightarrow> u64 \<Rightarrow> byte list list" where
  "sc_values sc c \<equiv> se_values (sc_entry sc c)"

text \<open>\<open>sc_at sc sc'\<close>: the cursors of \<open>sc'\<close> stand where the lanes of \<open>sc\<close> end.\<close>

definition sc_at :: "scratch \<Rightarrow> scratch \<Rightarrow> bool" where
  "sc_at sc sc' \<longleftrightarrow>
     (\<forall>c. se_strings_idx (sc_entry sc' c) = length (sc_strings sc c) \<and>
          se_values_idx (sc_entry sc' c) = length (sc_values sc c))"

definition sc_ext :: "scratch \<Rightarrow> scratch \<Rightarrow> bool" where
  "sc_ext sc sc' \<longleftrightarrow>
     (\<forall>c. prefix (sc_strings sc c) (sc_strings sc' c) \<and> prefix (sc_values sc c) (sc_values sc' c))"

definition sc_same :: "scratch \<Rightarrow> scratch \<Rightarrow> bool" where
  "sc_same sc sc' \<longleftrightarrow>
     (\<forall>c. sc_strings sc c = sc_strings sc' c \<and> sc_values sc c = sc_values sc' c)"

lemma sc_entry_upd [simp]: "sc_entry (sc(c \<mapsto> e)) d = (if d = c then e else sc_entry sc d)"
  by (simp add: sc_entry_def)

lemma sc_atD:
  "sc_at sc sc' \<Longrightarrow> se_strings_idx (sc_entry sc' c) = length (sc_strings sc c)"
  "sc_at sc sc' \<Longrightarrow> se_values_idx (sc_entry sc' c) = length (sc_values sc c)"
  by (simp_all add: sc_at_def)

lemma sc_ext_refl [simp]: "sc_ext sc sc"
  by (simp add: sc_ext_def)

lemma sc_ext_trans: "sc_ext a b \<Longrightarrow> sc_ext b c \<Longrightarrow> sc_ext a c"
  by (meson sc_ext_def prefix_order.trans)

lemma resolve_fresh:
    "resolve op (sc, g) = (Ret x, sc', g') \<Longrightarrow> sc_at sc sc \<Longrightarrow> sc_at sc' sc' \<and> sc_ext sc sc'"
  and resolves_fresh:
    "resolves ops (sc, g) = (Ret xs, sc', g') \<Longrightarrow> sc_at sc sc \<Longrightarrow> sc_at sc' sc' \<and> sc_ext sc sc'"
proof (induction op "(sc, g)" and ops "(sc, g)" arbitrary: sc g x sc' g' and sc g xs sc' g'
    rule: resolve_resolves.induct)
  case (3 c gen sc g)
  then show ?case
    using sc_atD [OF 3(2), of c]
    by (auto simp: Let_def sc_at_def sc_ext_def split: if_splits prod.splits)
next
  case (4 c gen sc g)
  then show ?case
    using sc_atD [OF 4(2), of c]
    by (auto simp: Let_def sc_at_def sc_ext_def split: if_splits prod.splits)
next
  case (5 c f sc g)
  then show ?case
    using sc_atD [OF 5(2), of c]
    by (auto simp: Let_def sc_at_def sc_ext_def split: if_splits prod.splits sum.splits)
next
  case (7 op ops sc g)
  obtain x sc1 g1 ys where x: "resolve op (sc, g) = (Ret x, sc1, g1)"
      "resolves ops (sc1, g1) = (Ret ys, sc', g')"
    using 7(3) by (auto split: prod.splits outcome.splits)
  then show ?case using 7(1) [OF x(1) 7(4)] 7(2) [OF x(1) [symmetric] refl x(2)] sc_ext_trans by blast
qed (auto split: option.splits prod.splits)

lemma nth_prefix: "prefix xs ys \<Longrightarrow> i < length xs \<Longrightarrow> ys ! i = xs ! i"
  by (auto simp: prefix_def nth_append)

lemma prefix_snocD: "prefix (xs @ [x]) ys \<Longrightarrow> length xs < length ys \<and> ys ! length xs = x"
  by (auto simp: prefix_def nth_append)

lemma sc_same_ext: "sc_ext sc a \<Longrightarrow> sc_same a b \<Longrightarrow> sc_ext sc b"
  by (simp add: sc_ext_def sc_same_def)

lemma sc_same_trans: "sc_same a b \<Longrightarrow> sc_same b c \<Longrightarrow> sc_same a c"
  by (simp add: sc_same_def)

lemma resolve_replay:
    "resolve op (sc, g) = (Ret x, sc', g') \<Longrightarrow> sc_at sc sc \<Longrightarrow> sc_at sc t \<Longrightarrow> sc_ext sc' t \<Longrightarrow>
       \<exists>t'. resolve op (t, h) = (Ret x, t', h) \<and> sc_same t t' \<and> sc_at sc' t'"
  and resolves_replay:
    "resolves ops (sc, g) = (Ret xs, sc', g') \<Longrightarrow> sc_at sc sc \<Longrightarrow> sc_at sc t \<Longrightarrow> sc_ext sc' t \<Longrightarrow>
       \<exists>t'. resolves ops (t, h) = (Ret xs, t', h) \<and> sc_same t t' \<and> sc_at sc' t'"
proof (induction op "(sc, g)" and ops "(sc, g)" arbitrary: sc g x sc' g' t and sc g xs sc' g' t
    rule: resolve_resolves.induct)
  case (1 p sc g)
  then show ?case by (auto simp: sc_same_def split: option.splits)
next
  case (2 ops sc g)
  obtain xs where xs: "resolves ops (sc, g) = (Ret xs, sc', g')" "x = Group xs"
    using 2(2) by (auto split: prod.splits)
  obtain t' where "resolves ops (t, h) = (Ret xs, t', h)" "sc_same t t'" "sc_at sc' t'"
    using 2(1) [OF xs(1) 2(3-5)] by blast
  then show ?case using xs(2) by auto
next
  case (3 c gen sc g)
  obtain s g1 where gen: "gen g = (s, g1)" by (cases "gen g")
  have "prefix (sc_strings sc c @ [s]) (sc_strings t c)"
    using 3 gen sc_atD [OF 3(2), of c] by (auto simp: Let_def sc_ext_def dest: spec [of _ c])
  from prefix_snocD [OF this] show ?case
    using 3 gen sc_atD [OF 3(2), of c] sc_atD [OF 3(3), of c]
    by (auto simp: Let_def sc_at_def sc_same_def)
next
  case (4 c gen sc g)
  obtain s g1 where gen: "gen g = (s, g1)" by (cases "gen g")
  have "prefix (sc_values sc c @ [s]) (sc_values t c)"
    using 4 gen sc_atD [OF 4(2), of c] by (auto simp: Let_def sc_ext_def dest: spec [of _ c])
  from prefix_snocD [OF this] show ?case
    using 4 gen sc_atD [OF 4(2), of c] sc_atD [OF 4(3), of c]
    by (auto simp: Let_def sc_at_def sc_same_def)
next
  case (5 c f sc g)
  obtain s g1 where gen: "f g = (Inr s, g1)"
    using 5(1) sc_atD [OF 5(2), of c] by (auto simp: Let_def split: prod.splits sum.splits)
  have "prefix (sc_values sc c @ [s]) (sc_values t c)"
    using 5 gen sc_atD [OF 5(2), of c] by (auto simp: Let_def sc_ext_def dest: spec [of _ c])
  from prefix_snocD [OF this] show ?case
    using 5 gen sc_atD [OF 5(2), of c] sc_atD [OF 5(3), of c]
    by (auto simp: Let_def sc_at_def sc_same_def)
next
  case (6 sc g)
  then show ?case by (auto simp: sc_same_def)
next
  case (7 op ops sc g)
  obtain x sc1 g1 ys where x: "resolve op (sc, g) = (Ret x, sc1, g1)"
      "resolves ops (sc1, g1) = (Ret ys, sc', g')" "xs = x # ys"
    using 7(3) by (auto split: prod.splits outcome.splits)
  have f: "sc_at sc1 sc1" "sc_ext sc1 sc'"
    using resolve_fresh [OF x(1) 7(4)] resolves_fresh [OF x(2)] by auto
  obtain t1 where t1: "resolve op (t, h) = (Ret x, t1, h)" "sc_same t t1" "sc_at sc1 t1"
    using 7(1) [OF x(1) 7(4,5) sc_ext_trans [OF f(2) 7(6)]] by blast
  obtain t' where "resolves ops (t1, h) = (Ret ys, t', h)" "sc_same t1 t'" "sc_at sc' t'"
    using 7(2) [OF x(1) [symmetric] refl x(2) f(1) t1(3) sc_same_ext [OF 7(6) t1(2)]] by blast
  then show ?case using t1 x(3) sc_same_trans by fastforce
qed

text \<open>The hand-off: the second pass on the adopted cache.\<close>

lemma sc_at_empty [simp]: "sc_at Map.empty Map.empty"
  by (simp add: sc_at_def sc_entry_def empty_entry_def)

lemma sc_entry_rewind:
  "sc_entry (map_option rewind_entry \<circ> sc) c = rewind_entry (sc_entry sc c)"
  by (simp add: sc_entry_def rewind_entry_def empty_entry_def split: option.splits)

lemma adopted_replay:
  assumes "resolves ops (Map.empty, g) = (Ret xs, sc, g')"
  shows "\<exists>t. resolves ops (map_option rewind_entry \<circ> sc, h) = (Ret xs, t, h)"
proof -
  let ?t = "map_option rewind_entry \<circ> sc"
  have "sc_at Map.empty ?t" "sc_ext sc ?t"
    by (simp_all add: sc_at_def sc_ext_def sc_entry_rewind rewind_entry_def sc_entry_def [of Map.empty]
        empty_entry_def)
  then show ?thesis using resolves_replay [OF assms sc_at_empty, of ?t h] by blast
qed

end
