(* ===== verification/Marshal.thy ===== *)
theory Marshal
  imports Writer_Cache Reader_Header
begin

text \<open>
  The encode entry points of \<^verbatim>\<open>storage/gsbm/gsbm.go\<close>. A \<^verbatim>\<open>Marshaler\<close> is the program of Writer calls
  its \<^verbatim>\<open>MarshalGSBM\<close> makes, run twice per encode; it returns the Writer's error. The encoder side
  of the compression libraries is a parameter, \<open>enc_lib\<close>: how an encoder that has accepted some
  chunks answers the next \<^verbatim>\<open>Write\<close>, and what \<^verbatim>\<open>Close\<close> makes of them.
\<close>

record enc_lib =
  enc_answer :: "compression_method \<Rightarrow> byte list list \<Rightarrow> byte list \<Rightarrow> gerr option"
  enc_close :: "compression_method \<Rightarrow> byte list list \<Rightarrow> gerr + byte list"

definition streamFlushThreshold :: int where
  "streamFlushThreshold = 8 * 1024"

section \<open>Uncompressed\<close>

definition marshal_uncompressed :: "'g wop list \<Rightarrow> u16 \<Rightarrow> 'g \<Rightarrow> byte list outcome \<times> 'g" where
  "marshal_uncompressed v schemaHint g =
     (case wr_execs v (new_counting_writer, g) of
        None \<Rightarrow> (Panic, g)
      | Some (sw, g1) \<Rightarrow>
          (case w_err sw of
             Some e \<Rightarrow> (Fail e, g1)
           | None \<Rightarrow>
               let bodyLen = w_size_acc sw in
               if bodyLen < 0 \<or> MaxUint32 < bodyLen then (Fail ErrBodyTooLarge, g1)
               else
                 let bw = fst (wr_adopt_scratch (new_writer []) (Some sw));
                     bw = wr_WriteHeader 0 schemaHint (word_of_int bodyLen) bw in
                 (case wr_execs v (bw, g1) of
                    None \<Rightarrow> (Panic, g1)
                  | Some (bw, g2) \<Rightarrow>
                      (case w_err bw of
                         Some e \<Rightarrow> (Fail e, g2)
                       | None \<Rightarrow> (Ret (w_buf bw), g2)))))"

definition marshal :: "'g wop list \<Rightarrow> u16 \<Rightarrow> 'g \<Rightarrow> byte list outcome \<times> 'g" where
  "marshal v schemaHint g = marshal_uncompressed v schemaHint g"

section \<open>Compressed\<close>

text \<open>One \<^verbatim>\<open>Write\<close> on the caller's \<^verbatim>\<open>io.Writer\<close>.\<close>

definition sink_write :: "sink \<Rightarrow> byte list \<Rightarrow> gerr option \<times> sink" where
  "sink_write s b =
     (case sink_answer s (sink_log s) b of
        Some e \<Rightarrow> (Some e, s)
      | None \<Rightarrow> (None, s\<lparr>sink_log := sink_log s @ [b]\<rparr>))"

definition ext_header :: "compression_method \<Rightarrow> u16 \<Rightarrow> int \<Rightarrow> int \<Rightarrow> byte list" where
  "ext_header method schemaHint compLen rawLen =
     Magic @ [FmtVer2, method OR extendedHeaderBit] @ le_put 2 schemaHint @
     le_put 4 (word_of_int compLen :: u32) @ le_put 4 (word_of_int rawLen :: u32)"

text \<open>
  The encoder borrowed from the pool goes back to it only after a clean \<^verbatim>\<open>Close\<close>: the Boolean
  result is \<^verbatim>\<open>encUsable\<close>, which the deferred \<^verbatim>\<open>putCompressor\<close> reads.
\<close>

definition write_compressed_blob ::
  "compression_method \<Rightarrow> u16 \<Rightarrow> byte list \<Rightarrow> int \<Rightarrow> sink \<Rightarrow> unit outcome \<times> sink" where
  "write_compressed_blob method schemaHint compressed rawLen w =
     (if MaxUint32 < len compressed then (Fail ErrBodyTooLarge, w)
      else case sink_write w (ext_header method schemaHint (len compressed) rawLen) of
        (Some e, w') \<Rightarrow> (Fail e, w')
      | (None, w') \<Rightarrow>
          (case sink_write w' compressed of
             (Some e, w'') \<Rightarrow> (Fail e, w'')
           | (None, w'') \<Rightarrow> (Ret (), w'')))"

definition marshal_compressed_streaming ::
  "enc_lib \<Rightarrow> 'g wop list \<Rightarrow> u16 \<Rightarrow> compression_method \<Rightarrow> sink \<times> 'g \<Rightarrow>
     (unit outcome \<times> bool) \<times> sink \<times> 'g" where
  "marshal_compressed_streaming el v schemaHint method wg =
     (case wg of (w, g) \<Rightarrow>
      case wr_execs v (new_recording_size_writer, g) of
        None \<Rightarrow> ((Panic, False), w, g)
      | Some (sw, g1) \<Rightarrow>
          (case w_err sw of
             Some e \<Rightarrow> ((Fail e, False), w, g1)
           | None \<Rightarrow>
               let rawLen = w_size_acc sw in
               if rawLen < 0 \<or> MaxUint32 < rawLen then ((Fail ErrBodyTooLarge, False), w, g1)
               else if method \<noteq> CompressionZstd \<and> method \<noteq> CompressionGzip
               then ((Panic, False), w, g1)
               else
                 let enc = \<lparr>sink_log = [], sink_answer = enc_answer el method\<rparr>;
                     bw = new_streaming_writer enc (w_recorded sw) streamFlushThreshold;
                     bw = fst (wr_adopt_scratch bw (Some sw)) in
                 (case wr_execs v (bw, g1) of
                    None \<Rightarrow> ((Panic, False), w, g1)
                  | Some (bw, g2) \<Rightarrow>
                      (case w_err bw of
                         Some e \<Rightarrow> ((Fail e, False), w, g2)
                       | None \<Rightarrow>
                           (case wr_flush_all bw of
                              (Some e, bw) \<Rightarrow> ((Fail e, False), w, g2)
                            | (None, bw) \<Rightarrow>
                                (case enc_close el method (sink_log (the (w_target bw))) of
                                   Inl e \<Rightarrow> ((Fail e, False), w, g2)
                                 | Inr compressed \<Rightarrow>
                                     (case write_compressed_blob method schemaHint compressed rawLen w of
                                        (res, w') \<Rightarrow> ((res, True), w', g2))))))))"

text \<open>\<^verbatim>\<open>bytes.Buffer\<close> accepts every write.\<close>

definition buffer_sink :: sink where
  "buffer_sink = \<lparr>sink_log = [], sink_answer = (\<lambda>_ _. None)\<rparr>"

definition marshal_compressed ::
  "enc_lib \<Rightarrow> 'g wop list \<Rightarrow> u16 \<Rightarrow> compression_method \<Rightarrow> 'g \<Rightarrow> byte list outcome \<times> 'g" where
  "marshal_compressed el v schemaHint method g =
     (case marshal_compressed_streaming el v schemaHint method (buffer_sink, g) of
        ((Ret _, _), buf, g') \<Rightarrow> (Ret (concat (sink_log buf)), g')
      | ((Fail e, _), _, g') \<Rightarrow> (Fail e, g')
      | ((Panic, _), _, g') \<Rightarrow> (Panic, g'))"

definition marshal_with_options ::
  "enc_lib \<Rightarrow> 'g wop list \<Rightarrow> u16 \<Rightarrow> options \<Rightarrow> 'g \<Rightarrow> byte list outcome \<times> 'g" where
  "marshal_with_options el v schemaHint opts g =
     (let method = options_method opts in
      if \<not> valid_compression_method method then (Fail ErrUnsupportedCompression, g)
      else if \<not> compresses method then marshal_uncompressed v schemaHint g
      else marshal_compressed el v schemaHint method g)"

definition marshal_to_writer ::
  "enc_lib \<Rightarrow> 'g wop list \<Rightarrow> u16 \<Rightarrow> options \<Rightarrow> sink \<times> 'g \<Rightarrow> unit outcome \<times> sink \<times> 'g" where
  "marshal_to_writer el v schemaHint opts wg =
     (case wg of (w, g) \<Rightarrow>
      let method = options_method opts in
      if \<not> valid_compression_method method then (Fail ErrUnsupportedCompression, w, g)
      else if \<not> compresses method then
        (case marshal_uncompressed v schemaHint g of
           (Ret blob, g') \<Rightarrow>
             (case sink_write w blob of
                (Some e, w') \<Rightarrow> (Fail e, w', g')
              | (None, w') \<Rightarrow> (Ret (), w', g'))
         | (Fail e, g') \<Rightarrow> (Fail e, w, g')
         | (Panic, g') \<Rightarrow> (Panic, w, g'))
      else case marshal_compressed_streaming el v schemaHint method (w, g) of
        ((res, _), w', g') \<Rightarrow> (res, w', g'))"

section \<open>The size pass\<close>

text \<open>A mode that takes everything and never fails by itself also reports the first error.\<close>

locale total_mode = writer_mode +
  assumes adm_all: "adm w xs"
    and no_halt: "ok w \<Longrightarrow> emits w xs w' \<Longrightarrow> w_err w' = None"
    and begin_ok: "ok w \<Longrightarrow> w_err (snd (wr_BeginLengthDelim w)) = None"
begin

lemma exec_fail:
    "resolve op (w_scratch w, g) = (Fail e, sc, g') \<Longrightarrow> ok w \<Longrightarrow>
       \<exists>w'. wr_exec op (w, g) = Some (w', g') \<and> w_err w' = Some e"
  and execs_fail:
    "resolves ops (w_scratch w, g) = (Fail e, sc, g') \<Longrightarrow> ok w \<Longrightarrow>
       \<exists>w'. wr_execs ops (w, g) = Some (w', g') \<and> w_err w' = Some e"
proof (induction op "(w, g)" and ops "(w, g)" arbitrary: w g sc g' and w g sc g'
    rule: wr_exec_wr_execs.induct)
  case (1 p w g)
  then show ?case
    using wr_prim_tag_err [of w p e] ok_err [of w] by (auto split: option.splits)
next
  case (2 ops w g)
  obtain m w1 where b: "wr_BeginLengthDelim w = (m, w1)" by (cases "wr_BeginLengthDelim w")
  have w1: "ok w1" "w_scratch w1 = w_scratch w"
    using begin_adm [OF 2(3) adm_all b] begin_ok [OF 2(3)] wr_Begin_scratch [of w] b by auto
  then obtain w2 where "wr_execs ops (w1, g) = Some (w2, g')" "w_err w2 = Some e"
    using 2(1) [OF b [symmetric], of sc g'] 2(2) by (auto split: prod.splits)
  then show ?case by (simp add: b wr_EndLengthDelim_def)
next
  case (5 c f w g)
  have e: "wr_entry_for c w = sc_entry (w_scratch w) c" by (simp add: wr_entry_for_def sc_entry_def)
  show ?case
    using 5 ok_err [of w]
    by (auto simp: wr_WriteCachedAppendBytes_def Let_def e wr_put_entry_def wr_set_err_def
        split: if_splits prod.splits sum.splits)
next
  case (7 op ops w g)
  show ?case
  proof (cases "fst (resolve op (w_scratch w, g))")
    case (Fail x)
    then obtain w1 where "wr_exec op (w, g) = Some (w1, g')" "w_err w1 = Some e"
      using 7(1) [of sc g'] 7(3,4) by (auto split: prod.splits outcome.splits)
    then show ?thesis by (simp add: wr_execs_err)
  next
    case (Ret x)
    then obtain sc1 g1 where x: "resolve op (w_scratch w, g) = (Ret x, sc1, g1)"
      by (cases "resolve op (w_scratch w, g)") auto
    then have r: "resolves ops (sc1, g1) = (Fail e, sc, g')"
      using 7(3) by (auto split: prod.splits)
    obtain w1 h1 where w1: "wr_exec op (w, g) = Some (w1, h1)" "emits w [x] w1"
        "w_err w1 = None \<longrightarrow> ok w1 \<and> w_scratch w1 = sc1 \<and> h1 = g1"
      using exec_ok [OF x 7(4) adm_all] by (auto simp: run_ok_def)
    then show ?thesis using 7(2) [of w1 h1 sc g'] no_halt [OF 7(4) w1(2)] r by auto
  next
    case Panic
    then show ?thesis using resolve_no_panic by metis
  qed
qed (auto simp: Let_def split: if_splits prod.splits)

end

interpretation szt: total_mode sz_ok "\<lambda>w xs. True" sz_emits
  by unfold_locales (auto simp: sz_emits_def sz_ok_def wr_BeginLengthDelim_def)

end
