(* ===== verification/Marshal_Spec.thy ===== *)
theory Marshal_Spec
  imports Marshal
begin

text \<open>
  What the encode entry points produce, as a function of what the program of Writer calls
  resolves to: the plain blob, the compressed blob for a given way of cutting the body into
  chunks, and the first error otherwise.
\<close>

section \<open>The size pass\<close>

lemma size_pass:
  assumes "sz_ok w" and "w_scratch w = Map.empty"
  shows "\<exists>w'. wr_execs v (w, g) = Some (w', snd (snd (resolves v (Map.empty, g)))) \<and>
    (case resolves v (Map.empty, g) of
       (Ret xs, sc, _) \<Rightarrow>
         w_err w' = None \<and> w_size_acc w' = w_size_acc w + len (enc_items xs) \<and> w_scratch w' = sc \<and>
         (w_record_regions w \<longrightarrow> w_recorded w' = w_recorded w @ region_sizes xs)
     | (Fail e, _, _) \<Rightarrow> w_err w' = Some e
     | (Panic, _, _) \<Rightarrow> False)"
proof -
  obtain r sc g' where res: "resolves v (w_scratch w, g) = (r, sc, g')"
    by (cases "resolves v (w_scratch w, g)") auto
  show ?thesis
  proof (cases r)
    case (Ret xs)
    then obtain w' g1 where w': "wr_execs v (w, g) = Some (w', g1)" "sz_emits w xs w'"
        "w_err w' = None \<longrightarrow> w_scratch w' = sc \<and> g1 = g'"
      using sz.execs_ok [of v w g xs "(sc, g')"] assms res by (auto simp: sz.run_ok_def)
    then have "w_err w' = None" using assms(1) by (auto simp: sz_emits_def sz_ok_def)
    then show ?thesis using w' res Ret assms by (auto simp: sz_emits_def)
  next
    case (Fail e)
    then show ?thesis using szt.execs_fail [of v w g e sc g'] assms res by auto
  next
    case Panic
    then show ?thesis using res resolves_no_panic [of v "(w_scratch w, g)"] by simp
  qed
qed

lemma sz_ok_new [simp]: "sz_ok new_counting_writer" "sz_ok new_recording_size_writer"
  by (simp_all add: sz_ok_def new_counting_writer_def new_recording_size_writer_def zero_writer_def)

lemma new_size_writer_simps [simp]:
  "w_scratch new_counting_writer = Map.empty" "w_size_acc new_counting_writer = 0"
  "w_scratch new_recording_size_writer = Map.empty" "w_size_acc new_recording_size_writer = 0"
  "w_record_regions new_recording_size_writer" "w_recorded new_recording_size_writer = []"
  by (simp_all add: new_counting_writer_def new_recording_size_writer_def zero_writer_def)

lemma region_size_le:
    "n \<in> set (region_sizes1 x) \<Longrightarrow> n \<le> len (enc_item x)"
  and region_sizes_le: "n \<in> set (region_sizes xs) \<Longrightarrow> n \<le> len (enc_items xs)"
  by (induction x and xs rule: region_sizes1_region_sizes.induct) auto

lemma small_regions_of_total: "len (enc_items xs) \<le> MaxUint32 \<Longrightarrow> small_regions xs"
  using region_sizes_le [of _ xs] by (force simp: small_regions_def MaxUint32_def)

section \<open>Uncompressed\<close>

definition blob_header :: "byte \<Rightarrow> u16 \<Rightarrow> int \<Rightarrow> byte list" where
  "blob_header flags hint n =
     Magic @ [2, flags] @ le_put 2 hint @ le_put 4 (word_of_int n :: u32)"

text \<open>What \<^verbatim>\<open>Marshal\<close> must return.\<close>

definition marshal_spec :: "'g wop list \<Rightarrow> u16 \<Rightarrow> 'g \<Rightarrow> byte list outcome \<times> 'g" where
  "marshal_spec v hint g =
     (case resolves v (Map.empty, g) of
        (Ret xs, _, g') \<Rightarrow>
          (if MaxUint32 < len (enc_items xs) then Fail ErrBodyTooLarge
           else Ret (blob_header 0 hint (len (enc_items xs)) @ enc_items xs), g')
      | (Fail e, _, g') \<Rightarrow> (Fail e, g')
      | (Panic, _, g') \<Rightarrow> (Panic, g'))"

lemma real_pass:
  assumes "resolves v (Map.empty, g) = (Ret xs, sc, g')" and "w_scratch sw = sc"
    and "len (enc_items xs) \<le> MaxUint32"
    and "bw = wr_WriteHeader 0 hint n (fst (wr_adopt_scratch (new_writer []) (Some sw)))"
  shows "\<exists>w'. wr_execs v (bw, h) = Some (w', h) \<and> w_err w' = None \<and>
           w_buf w' = Magic @ [2, 0] @ le_put 2 hint @ le_put 4 n @ enc_items xs"
proof -
  have bw: "bw = zero_writer\<lparr>w_buf := Magic @ [2, 0] @ le_put 2 hint @ le_put 4 n,
      w_scratch := map_option rewind_entry \<circ> sc\<rparr>"
    using assms(2,4) by (simp add: wr_adopt_scratch_def wr_WriteHeader_def new_writer_def zero_writer_def)
  then have ok: "rl_ok bw" by (simp add: rl_ok_def zero_writer_def)
  obtain t where t: "resolves v (w_scratch bw, h) = (Ret xs, t, h)"
    using adopted_replay [OF assms(1)] by (auto simp: bw)
  obtain w' g1 where w': "wr_execs v (bw, h) = Some (w', g1)" "rl_emits bw xs w'"
      "w_err w' = None \<longrightarrow> g1 = h"
    using rl.execs_ok [OF t ok small_regions_of_total [OF assms(3)]] by (auto simp: rl.run_ok_def)
  then show ?thesis using ok bw by (auto simp: rl_emits_def rl_ok_def)
qed

lemma marshal_uncompressed_eq: "marshal_uncompressed v hint g = marshal_spec v hint g"
proof -
  obtain r sc g' where res: "resolves v (Map.empty, g) = (r, sc, g')"
    by (cases "resolves v (Map.empty, g)") auto
  obtain sw where sw: "wr_execs v (new_counting_writer, g) = Some (sw, g')"
    and c: "case r of
       Ret xs \<Rightarrow> w_err sw = None \<and> w_size_acc sw = len (enc_items xs) \<and> w_scratch sw = sc
     | Fail e \<Rightarrow> w_err sw = Some e
     | Panic \<Rightarrow> False"
    using size_pass [of new_counting_writer v g] res by (cases r) auto
  show ?thesis
  proof (cases r)
    case (Ret xs)
    show ?thesis
    proof (cases "MaxUint32 < len (enc_items xs)")
      case True
      then show ?thesis
        using c Ret by (simp add: marshal_uncompressed_def marshal_spec_def sw res Let_def)
    next
      case False
      have "w_scratch sw = sc" using c Ret by simp
      from real_pass [OF res [unfolded Ret] this _ refl, of hint "word_of_int (len (enc_items xs))" g']
      show ?thesis
        using c Ret False
        by (auto simp: marshal_uncompressed_def marshal_spec_def sw res Let_def blob_header_def)
    qed
  next
    case (Fail e)
    then show ?thesis using c by (simp add: marshal_uncompressed_def marshal_spec_def sw res)
  next
    case Panic
    then show ?thesis using c by simp
  qed
qed

section \<open>Compressed\<close>

text \<open>
  What the streaming encode must do for one way \<open>chunks\<close> of cutting the body: close the encoder,
  check the compressed length, write the extended header and the compressed body.
\<close>

definition compressed_spec ::
  "enc_lib \<Rightarrow> u16 \<Rightarrow> compression_method \<Rightarrow> byte list list \<Rightarrow> sink \<Rightarrow>
     (unit outcome \<times> bool) \<times> sink" where
  "compressed_spec el hint method chunks w =
     (case enc_close el method chunks of
        Inl e \<Rightarrow> ((Fail e, False), w)
      | Inr c \<Rightarrow>
          (case write_compressed_blob method hint c (len (concat chunks)) w of
             (res, w') \<Rightarrow> ((res, True), w')))"

text \<open>The write pass of the streaming encode, up to and including \<^verbatim>\<open>flushAll\<close>.\<close>

lemma stream_pass:
  assumes "resolves v (Map.empty, g) = (Ret xs, sc, g')" and "w_scratch sw = sc"
    and "w_recorded sw = region_sizes xs"
    and "bw = fst (wr_adopt_scratch
           (new_streaming_writer \<lparr>sink_log = [], sink_answer = ans\<rparr> (w_recorded sw) thr) (Some sw))"
  obtains w' h' where "wr_execs v (bw, h) = Some (w', h')"
    and "(\<exists>w'' chunks. w_err w' = None \<and> h' = h \<and> wr_flush_all w' = (None, w'') \<and>
            sink_log (the (w_target w'')) = chunks \<and> concat chunks = enc_items xs) \<or>
         (\<exists>e log c. ans log c = Some e \<and>
            (w_err w' = Some e \<or> w_err w' = None \<and> h' = h \<and> fst (wr_flush_all w') = Some e))"
proof -
  have bw: "bw = zero_writer\<lparr>w_target := Some \<lparr>sink_log = [], sink_answer = ans\<rparr>,
      w_stream_sizes := region_sizes xs, w_threshold := thr,
      w_scratch := map_option rewind_entry \<circ> sc\<rparr>"
    using assms(2-4) by (simp add: wr_adopt_scratch_def new_streaming_writer_def)
  have ok: "st_ok bw" and adm: "st_adm bw xs"
    by (simp_all add: bw st_ok_def st_adm_def zero_writer_def)
  obtain t where t: "resolves v (w_scratch bw, h) = (Ret xs, t, h)"
    using adopted_replay [OF assms(1)] by (auto simp: bw)
  obtain w' h' where w': "wr_execs v (bw, h) = Some (w', h')" "st_emits bw xs w'"
      "w_err w' = None \<longrightarrow> st_ok w' \<and> h' = h"
    using st.execs_ok [OF t ok adm] by (auto simp: st.run_ok_def)
  have ans: "st_answer bw = ans" by (simp add: bw st_answer_def)
  show thesis
  proof (cases "w_err w'")
    case (Some e)
    then have "\<exists>log c. ans log c = Some e" using w'(2) ans by (simp add: st_emits_def)
    then show thesis using that [OF w'(1)] Some by auto
  next
    case None
    then have out: "st_ok w'" "h' = h" "st_out w' = enc_items xs" "st_answer w' = ans"
      using w'(2,3) ans by (auto simp: st_emits_def st_frame_def bw st_out_def zero_writer_def)
    obtain tt where tt: "w_target w' = Some tt" using out(1) by (auto simp: st_ok_def)
    show thesis
    proof (cases "w_buf w' = []")
      case True
      have f: "wr_flush_all w' = (None, w')"
        using True None by (simp add: wr_flush_all_def tt)
      have "concat (sink_log (the (w_target w'))) = enc_items xs"
        using out(3) True by (simp add: st_out_def tt)
      then show thesis using that [OF w'(1)] None out(2) f by blast
    next
      case False
      obtain r w'' where f: "wr_flush_buf tt w' = (r, w'')" by (cases "wr_flush_buf tt w'")
      have fa: "wr_flush_all w' = (r, w'')" using False None by (simp add: wr_flush_all_def tt f)
      note fl = st_flush [OF out(1) tt f]
      show thesis
      proof (cases r)
        case None
        then have w'': "st_ok w''" "w_buf w'' = []" "w_err w'' = None" using fl(2,3) by auto
        then obtain t2 where t2: "w_target w'' = Some t2" by (auto simp: st_ok_def)
        have "concat (sink_log (the (w_target w''))) = enc_items xs"
          using fl(1) w'' out(3) t2 by (simp add: st_sends_def st_out_def)
        then show thesis using that [OF w'(1)] \<open>w_err w' = None\<close> out(2) fa None by blast
      next
        case (Some e)
        then have "\<exists>log c. ans log c = Some e" using fl(1,2) out(4) by (simp add: st_sends_def)
        then show thesis using that [OF w'(1)] \<open>w_err w' = None\<close> out(2) fa Some by auto
      qed
    qed
  qed
qed

lemma recording_pass:
  assumes "resolves v (Map.empty, g) = (r, sc, g')"
  obtains sw where "wr_execs v (new_recording_size_writer, g) = Some (sw, g')"
    and "case r of
       Ret xs \<Rightarrow> w_err sw = None \<and> w_size_acc sw = len (enc_items xs) \<and> w_scratch sw = sc \<and>
         w_recorded sw = region_sizes xs
     | Fail e \<Rightarrow> w_err sw = Some e
     | Panic \<Rightarrow> False"
  using size_pass [of new_recording_size_writer v g] assms by (cases r) auto

lemma streaming_eq:
  assumes res: "resolves v (Map.empty, g) = (Ret xs, sc, g')"
    and len: "len (enc_items xs) \<le> MaxUint32"
    and m: "method = CompressionZstd \<or> method = CompressionGzip"
  shows "(\<exists>chunks. concat chunks = enc_items xs \<and>
            marshal_compressed_streaming el v hint method (w, g) =
              (case compressed_spec el hint method chunks w of (r, w') \<Rightarrow> (r, w', g'))) \<or>
         (\<exists>e log c h. enc_answer el method log c = Some e \<and>
            marshal_compressed_streaming el v hint method (w, g) = ((Fail e, False), w, h))"
proof -
  obtain sw where sw: "wr_execs v (new_recording_size_writer, g) = Some (sw, g')"
    and c: "w_err sw = None" "w_size_acc sw = len (enc_items xs)" "w_scratch sw = sc"
      "w_recorded sw = region_sizes xs"
    using recording_pass [OF res] by auto
  let ?enc = "\<lparr>sink_log = [], sink_answer = enc_answer el method\<rparr>"
  let ?bw = "fst (wr_adopt_scratch
    (new_streaming_writer ?enc (w_recorded sw) streamFlushThreshold) (Some sw))"
  obtain w' h' where w': "wr_execs v (?bw, g') = Some (w', h')"
    and out: "(\<exists>w'' chunks. w_err w' = None \<and> h' = g' \<and> wr_flush_all w' = (None, w'') \<and>
            sink_log (the (w_target w'')) = chunks \<and> concat chunks = enc_items xs) \<or>
         (\<exists>e log c. enc_answer el method log c = Some e \<and>
            (w_err w' = Some e \<or> w_err w' = None \<and> h' = g' \<and> fst (wr_flush_all w') = Some e))"
    using stream_pass [OF res c(3,4) refl] by metis
  have eq: "marshal_compressed_streaming el v hint method (w, g) =
      (case w_err w' of
         Some e \<Rightarrow> ((Fail e, False), w, h')
       | None \<Rightarrow>
           (case wr_flush_all w' of
              (Some e, bw) \<Rightarrow> ((Fail e, False), w, h')
            | (None, bw) \<Rightarrow>
                (case enc_close el method (sink_log (the (w_target bw))) of
                   Inl e \<Rightarrow> ((Fail e, False), w, h')
                 | Inr compressed \<Rightarrow>
                     (case write_compressed_blob method hint compressed (len (enc_items xs)) w of
                        (res, w') \<Rightarrow> ((res, True), w', h')))))"
    using m len c w' by (auto simp: marshal_compressed_streaming_def sw Let_def)
  from out show ?thesis
  proof
    assume "\<exists>w'' chunks. w_err w' = None \<and> h' = g' \<and> wr_flush_all w' = (None, w'') \<and>
            sink_log (the (w_target w'')) = chunks \<and> concat chunks = enc_items xs"
    then obtain w'' chunks where ch: "w_err w' = None" "h' = g'" "wr_flush_all w' = (None, w'')"
        "sink_log (the (w_target w'')) = chunks" "concat chunks = enc_items xs" by blast
    then have "marshal_compressed_streaming el v hint method (w, g) =
        (case compressed_spec el hint method chunks w of (r, w') \<Rightarrow> (r, w', g'))"
      by (simp add: eq compressed_spec_def split: sum.splits prod.splits)
    then show ?thesis using ch(5) by blast
  next
    assume "\<exists>e log c. enc_answer el method log c = Some e \<and>
        (w_err w' = Some e \<or> w_err w' = None \<and> h' = g' \<and> fst (wr_flush_all w') = Some e)"
    then obtain e log c where e: "enc_answer el method log c = Some e"
        "w_err w' = Some e \<or> w_err w' = None \<and> fst (wr_flush_all w') = Some e" by blast
    then have "marshal_compressed_streaming el v hint method (w, g) = ((Fail e, False), w, h')"
      by (cases "wr_flush_all w'") (auto simp: eq)
    then show ?thesis using e(1) by blast
  qed
qed

lemma streaming_early:
  assumes "resolves v (Map.empty, g) = (r, sc, g')"
    and "\<And>xs. r = Ret xs \<Longrightarrow> MaxUint32 < len (enc_items xs)"
  shows "marshal_compressed_streaming el v hint method (w, g) =
    ((case r of Fail e \<Rightarrow> Fail e | _ \<Rightarrow> Fail ErrBodyTooLarge, False), w, g')"
proof -
  obtain sw where sw: "wr_execs v (new_recording_size_writer, g) = Some (sw, g')"
    "case r of
       Ret xs \<Rightarrow> w_err sw = None \<and> w_size_acc sw = len (enc_items xs) \<and> w_scratch sw = sc \<and>
         w_recorded sw = region_sizes xs
     | Fail e \<Rightarrow> w_err sw = Some e
     | Panic \<Rightarrow> False"
    using recording_pass [OF assms(1)] .
  then show ?thesis
    using assms(2) by (cases r) (auto simp: marshal_compressed_streaming_def Let_def)
qed

section \<open>Properties\<close>

text \<open>
  C5: \<^verbatim>\<open>Marshal\<close>. For every program of Writer calls and every state of the world its callbacks
  read, the two passes together return the first error the program runs into, or
  \<^verbatim>\<open>ErrBodyTooLarge\<close> above 32 bits, or exactly the header with the body's length followed by the
  body; every callback is run exactly once, in program order, the write pass running none.
\<close>

theorem marshal_correct: "marshal v hint g = marshal_spec v hint g"
  unfolding marshal_def by (rule marshal_uncompressed_eq)

text \<open>
  C9: the size pass. On a recording size-mode Writer a program never panics; it ends with the
  first error, or with \<^verbatim>\<open>Size()\<close> equal to the number of bytes the program denotes, no bytes
  buffered, and the body size of every region recorded in the order the regions were opened.
\<close>

theorem size_mode_exact:
  "\<exists>w'. wr_execs v (new_recording_size_writer, g) =
          Some (w', snd (snd (resolves v (Map.empty, g)))) \<and>
     (case fst (resolves v (Map.empty, g)) of
        Ret xs \<Rightarrow>
          w_err w' = None \<and> w_size_acc w' = len (enc_items xs) \<and> w_recorded w' = region_sizes xs
      | Fail e \<Rightarrow> w_err w' = Some e
      | Panic \<Rightarrow> False)"
  using size_pass [of new_recording_size_writer v g]
  by (cases "resolves v (Map.empty, g)"; cases "fst (resolves v (Map.empty, g))") auto

text \<open>
  C10: the hand-off between the passes. With the cache adopted from a size pass, the write pass
  produces the bytes the size pass measured whatever the callbacks would return by now (\<open>h\<close> is any
  state of the world), and leaves that state untouched: no callback runs a second time.
\<close>

theorem write_pass_replays:
  assumes "resolves v (Map.empty, g) = (Ret xs, sc, g')" and "w_scratch sw = sc"
    and "len (enc_items xs) \<le> MaxUint32"
  shows "\<exists>w'. wr_execs v (wr_WriteHeader 0 hint n (fst (wr_adopt_scratch (new_writer []) (Some sw))), h) =
             Some (w', h) \<and> w_err w' = None \<and>
           w_buf w' = Magic @ [2, 0] @ le_put 2 hint @ le_put 4 n @ enc_items xs"
  by (rule real_pass [OF assms refl])

text \<open>A callback that counts its own calls, cached at one callsite visited twice.\<close>

definition counting_program :: "nat wop list" where
  "counting_program =
     [CachedString 7 (\<lambda>n. (replicate n 65, Suc n)), CachedString 7 (\<lambda>n. (replicate n 66, Suc n))]"

theorem write_pass_replays_witness:
  "\<exists>w'. wr_execs counting_program
          (wr_WriteHeader 0 5 3 (fst (wr_adopt_scratch (new_writer [])
             (Some (zero_writer\<lparr>w_scratch := [7 \<mapsto> \<lparr>se_values = [], se_strings = [[], [66]],
                se_strings_idx = 2, se_values_idx = 0\<rparr>]\<rparr>)))), 40) = Some (w', 40) \<and>
        w_err w' = None \<and>
        w_buf w' = [0x47, 0x53, 0x42, 0x4D, 2, 0] @ le_put 2 (5 :: u16) @ le_put 4 (3 :: u32) @ [0, 1, 66]"
proof -
  let ?e = "\<lparr>se_values = [], se_strings = [[], [66]], se_strings_idx = 2, se_values_idx = 0\<rparr>"
  let ?sw = "zero_writer\<lparr>w_scratch := [7 \<mapsto> ?e]\<rparr>"
  have r: "resolves counting_program (Map.empty, 0) =
      (Ret [Item (PString []), Item (PString [66])], [7 \<mapsto> ?e], 2)"
    by (simp add: counting_program_def sc_entry_def empty_entry_def Let_def numeral_2_eq_2)
  have u: "uvarint (go_uint64 0) = [0]" "uvarint (go_uint64 1) = [1]"
    by (subst uvarint_rec, simp add: go_uint64_def word_le_nat_alt)+
  then have e: "enc_items [Item (PString []), Item (PString [66])] = [0, 1, 66]" by simp
  have "\<exists>w'. wr_execs counting_program
      (wr_WriteHeader 0 5 3 (fst (wr_adopt_scratch (new_writer []) (Some ?sw))), 40) = Some (w', 40) \<and>
      w_err w' = None \<and> w_buf w' = Magic @ [2, 0] @ le_put 2 (5 :: u16) @ le_put 4 (3 :: u32) @ [0, 1, 66]"
    using write_pass_replays [OF r, of ?sw 5 3 40] unfolding e by (simp add: MaxUint32_def)
  then show ?thesis by (simp add: Magic_def)
qed


text \<open>An encoder that stores what it is fed.\<close>

definition stored_enc :: enc_lib where
  "stored_enc =
     \<lparr>enc_answer = (\<lambda>_ _ _. None), enc_close = (\<lambda>_ chunks. Inr (concat chunks))\<rparr>"


text \<open>
  \<^verbatim>\<open>MarshalToWriter\<close> and \<^verbatim>\<open>MarshalWithOptions\<close> agree. Into a target that accepts every write
  they produce the same bytes or the same error, for every program, every option value (the
  unsupported codecs included) and every codec library.
\<close>

theorem to_writer_eq_with_options:
  "(case marshal_to_writer el v hint opts (buffer_sink, g) of
      (res, w, g') \<Rightarrow> (map_outcome (\<lambda>_. concat (sink_log w)) res, g')) =
   marshal_with_options el v hint opts g"
  by (auto simp: marshal_to_writer_def marshal_with_options_def marshal_compressed_def Let_def
      sink_write_def buffer_sink_def split: prod.splits outcome.splits)

end
