(* ===== verification/Reader_Safety.thy ===== *)
theory Reader_Safety
  imports Reader_Spec
begin

text \<open>
  The Reader as a state machine. A decoder drives it with the operations of \<open>rop\<close> and keeps
  the ends \<^verbatim>\<open>BeginLengthDelim\<close> returned on a stack (in Go: in the local variables of the nested
  decode calls). No sequence of operations, on any input and after any error, leaves the
  invariant or panics.
\<close>

section \<open>Total operations\<close>

text \<open>
  \<open>rd_total f\<close>: from any well-formed reader, with or without a recorded error, \<open>f\<close> returns, only
  advances, and never replaces the recorded error.
\<close>

definition rd_safe :: "'a outcome \<times> 'al reader \<Rightarrow> 'al reader \<Rightarrow> bool" where
  "rd_safe res r \<longleftrightarrow>
     fst res \<noteq> Panic \<and> rd_adv r (snd res) \<and> (rd_err r \<noteq> None \<longrightarrow> rd_err (snd res) = rd_err r) \<and>
     ((\<exists>e. fst res = Fail e) \<longrightarrow> rd_err (snd res) \<noteq> None)"

definition rd_total :: "('al, 'a) reading \<Rightarrow> bool" where
  "rd_total f \<longleftrightarrow> (\<forall>r. rd_wf r \<longrightarrow> rd_safe (f r) r)"

lemma rd_totalI: "(\<And>r. rd_wf r \<Longrightarrow> rd_safe (f r) r) \<Longrightarrow> rd_total f"
  by (simp add: rd_total_def)

lemma rd_totalD: "rd_total f \<Longrightarrow> rd_wf r \<Longrightarrow> rd_safe (f r) r"
  by (simp add: rd_total_def)

lemma rd_set_err_simps [simp]:
  "rd_pos (rd_set_err e r) = rd_pos r" "rd_end (rd_set_err e r) = rd_end r"
  "rd_buf (rd_set_err e r) = rd_buf r" "rd_alloc (rd_set_err e r) = rd_alloc r"
  "rd_err (rd_set_err e r) = (case rd_err r of None \<Rightarrow> Some e | Some x \<Rightarrow> Some x)"
  by (auto simp: rd_set_err_def)

lemma rd_safe_fail [simp]: "rd_wf r \<Longrightarrow> rd_safe (rd_fail e r) r"
  by (auto simp: rd_safe_def rd_fail_def rd_adv_def rd_wf_def split: option.splits)

lemma rd_safe_Ret [simp]:
  "rd_safe (Ret x, s) r \<longleftrightarrow> rd_adv r s \<and> (rd_err r \<noteq> None \<longrightarrow> rd_err s = rd_err r)"
  by (simp add: rd_safe_def)

lemma rd_safe_trans: "rd_safe res s \<Longrightarrow> rd_safe (Ret x, s) r \<Longrightarrow> rd_safe res r"
  by (auto simp: rd_safe_def intro: rd_adv_trans)

lemma rd_total_fail [simp]: "rd_total (rd_fail e)"
  by (simp add: rd_totalI)

lemma rd_total_return [simp]: "rd_total (rd_return x)"
  by (rule rd_totalI) (simp add: rd_return_def)

lemma rd_total_guard: "rd_total f \<Longrightarrow> rd_total (rd_guard f)"
  by (rule rd_totalI) (auto simp: rd_guard_def rd_total_def rd_safe_def split: option.splits)

lemma rd_total_bind:
  assumes f: "rd_total f" and g: "\<And>x r. rd_wf r \<Longrightarrow> rd_safe (g x r) r"
  shows "rd_total (rd_bind f g)"
proof (rule rd_totalI)
  fix r :: "'a reader" assume r: "rd_wf r"
  obtain res s where fr: "f r = (res, s)" by (cases "f r")
  have s: "rd_safe (res, s) r" using rd_totalD [OF f r] fr by simp
  show "rd_safe (rd_bind f g r) r"
  proof (cases res)
    case (Ret x)
    have "rd_wf s" using s rd_adv_wf [OF r] by (simp add: Ret)
    then show ?thesis using rd_safe_trans [OF g] s by (simp add: rd_bind_def fr Ret)
  next
    case (Fail e)
    then show ?thesis using s by (simp add: rd_bind_def fr rd_safe_def)
  next
    case Panic
    then show ?thesis using s by (simp add: rd_safe_def)
  qed
qed

lemma rd_total_uvarint [simp]: "rd_total rd_read_uvarint"
proof (rule rd_totalI)
  fix r :: "'a reader" assume r: "rd_wf r"
  let ?b = "take (nat (rd_end r)) (rd_buf r)"
  have pos: "0 \<le> rd_pos r" using r by (simp add: rd_wf_def)
  show "rd_safe (rd_read_uvarint r) r"
  proof (cases "read_uvarint ?b (rd_pos r)")
    case (Ret y)
    obtain v n where y: "y = (v, n)" by (cases y)
    note b = read_uvarint_bounds [OF Ret [unfolded y] pos]
    have "len ?b = rd_end r" using r by (auto simp: rd_wf_def min_def)
    then show ?thesis
      using b r by (simp add: rd_read_uvarint_def rd_region_rest(1) Ret y rd_adv_def)
  next
    case (Fail e)
    then show ?thesis
      using r by (auto simp: rd_read_uvarint_def rd_region_rest(1) rd_safe_def rd_adv_def rd_wf_def
          split: option.splits)
  next
    case Panic
    then show ?thesis using pos by simp
  qed
qed

lemma rd_total_take_fixed: "0 \<le> n \<Longrightarrow> rd_total (rd_take_fixed n)"
  by (rule rd_totalI)
    (auto simp: rd_take_fixed_def rd_slice_rest length_rd_rest not_less intro!: rd_rest_advance(2))

lemma rd_total_bounded:
  assumes "\<And>n r. rd_wf r \<Longrightarrow> 0 \<le> go_int n \<Longrightarrow> go_int n \<le> len (rd_rest r) \<Longrightarrow> rd_safe (g n r) r"
  shows "rd_total (rd_bind rd_bounded_len g)"
proof -
  have "rd_total (rd_bind rd_read_uvarint
        (\<lambda>n r. if go_uint64 (rd_end r - rd_pos r) < n then rd_fail ErrTruncated r else g n r))"
  proof (rule rd_total_bind [OF rd_total_uvarint])
    fix n :: u64 and r :: "'a reader" assume r: "rd_wf r"
    show "rd_safe (if go_uint64 (rd_end r - rd_pos r) < n then rd_fail ErrTruncated r else g n r) r"
      using assms [OF r, of n] len_rd_rest_small [OF r] go_int_small [of n] r
      by (auto simp: rd_room_less not_less)
  qed
  moreover have "rd_bind rd_bounded_len g = rd_bind rd_read_uvarint
        (\<lambda>n r. if go_uint64 (rd_end r - rd_pos r) < n then rd_fail ErrTruncated r else g n r)"
    by (rule ext) (auto simp: rd_bind_def rd_bounded_len_def rd_fail_def Let_def
        split: prod.splits outcome.splits)
  ultimately show ?thesis by simp
qed

lemma rd_total_bounded_len [simp]: "rd_total rd_bounded_len"
proof -
  have "rd_total (rd_bind rd_bounded_len (\<lambda>n r :: 'a reader. (Ret n, r)))"
    by (rule rd_total_bounded) simp
  moreover have "rd_bind rd_bounded_len (\<lambda>n r :: 'a reader. (Ret n, r)) = rd_bounded_len"
    by (rule ext) (auto simp: rd_bind_def split: prod.splits outcome.splits)
  ultimately show ?thesis by metis
qed

section \<open>Every operation is total\<close>

lemma rd_total_map: "rd_total f \<Longrightarrow> rd_total (rd_bind f (\<lambda>x. rd_return (h x)))"
  by (rule rd_total_bind) (auto simp: rd_return_def)

lemma rd_total_advance:
  assumes "0 \<le> n"
  shows "rd_total (\<lambda>r. if rd_end r - rd_pos r < n then rd_fail ErrTruncated r
                       else (Ret x, r\<lparr>rd_pos := rd_pos r + n\<rparr>))"
  using assms by (intro rd_totalI) (auto simp: rd_adv_def)

lemma rd_total_ReadUvarint: "rd_total rd_ReadUvarint"
  and rd_total_ReadVarint: "rd_total rd_ReadVarint"
  and rd_total_ReadBool: "rd_total rd_ReadBool"
  and rd_total_ReadFixed32: "rd_total rd_ReadFixed32"
  and rd_total_ReadFixed64: "rd_total rd_ReadFixed64"
  unfolding rd_ReadUvarint_def rd_ReadVarint_def rd_ReadBool_def rd_ReadFixed32_def
    rd_ReadFixed64_def
  by (intro rd_total_guard rd_total_map rd_total_take_fixed rd_total_uvarint; simp)+

lemma rd_total_readLenBytes: "rd_total rd_readLenBytes"
  unfolding rd_readLenBytes_def
  by (rule rd_total_bounded) (simp add: rd_slice_rest rd_rest_advance(2))

lemma rd_safe_AcquireString:
  "rd_wf r \<Longrightarrow> rd_safe (case rd_AcquireString acq b r of (s, r') \<Rightarrow> (Ret s, r')) r"
  by (auto simp: rd_AcquireString_def rd_adv_def rd_wf_def split: option.splits prod.splits)

lemma rd_total_ReadString: "rd_total (rd_ReadString acq)"
  unfolding rd_ReadString_def
  by (rule rd_total_bind [OF rd_total_readLenBytes]) (rule rd_safe_AcquireString)

lemma rd_total_ReadLength: "rd_total rd_ReadLength"
  unfolding rd_ReadLength_def by (rule rd_total_bind) simp_all

lemma rd_total_ReadTag: "rd_total rd_ReadTag"
  unfolding rd_ReadTag_def by (intro rd_total_guard rd_total_bind) (simp_all add: Let_def)

lemma rd_total_SkipField: "rd_total (rd_SkipField wt)"
proof -
  have "rd_total (rd_bind rd_bounded_len (\<lambda>n r :: 'a reader. (Ret (), r\<lparr>rd_pos := rd_pos r + go_int n\<rparr>)))"
    by (rule rd_total_bounded) (simp add: rd_rest_advance(2))
  then show ?thesis
    unfolding rd_SkipField_def
    by (intro rd_total_guard) (simp add: rd_total_advance rd_total_map)
qed

lemma rd_total_ReadPresenceByte: "rd_total (rd_ReadPresenceByte allow)"
  unfolding rd_ReadPresenceByte_def
proof (rule rd_total_guard, rule rd_totalI)
  fix r :: "'a reader" assume r: "rd_wf r"
  let ?r = "r\<lparr>rd_pos := rd_pos r + 1\<rparr>"
  show "rd_safe
      (if rd_end r - rd_pos r < 1 then rd_fail ErrTruncated r
       else case go_index (rd_buf r) (rd_pos r) of None \<Rightarrow> (Panic, r)
         | Some b \<Rightarrow>
             let r' = r\<lparr>rd_pos := rd_pos r + 1\<rparr> in
             if b AND presenceReservedMask \<noteq> 0 then rd_fail ErrInvalidPresence r'
             else if b = PresenceNil \<or> b = PresenceNonZero then (Ret b, r')
             else if b = PresenceZero then
               (if \<not> allow then rd_fail ErrInvalidPresence r' else (Ret PresenceZero, r'))
             else rd_fail ErrInvalidPresence r') r"
  proof (cases "rd_end r - rd_pos r < 1")
    case False
    have adv: "rd_safe (Ret (), ?r) r" using False r by (simp add: rd_adv_def)
    then have wf: "rd_wf ?r" using rd_adv_wf [OF r] by simp
    have fail: "rd_safe (rd_fail ErrInvalidPresence ?r :: byte outcome \<times> 'a reader) r"
      using rd_safe_trans [OF rd_safe_fail [OF wf] adv] .
    have idx: "go_index (rd_buf r) (rd_pos r) = Some (rd_buf r ! nat (rd_pos r))"
      using False r by (intro go_index_in) (auto simp: rd_wf_def)
    show ?thesis using False fail adv by (simp add: idx Let_def)
  qed (simp add: r)
qed

section \<open>Regions\<close>

text \<open>
  \<^verbatim>\<open>BeginLengthDelim\<close> narrows the region to the declared body and hands back the old end;
  \<^verbatim>\<open>EndLengthDelim\<close> with that end restores it, and only at the end of the body.
\<close>

lemma rd_Begin_cases:
  assumes "rd_wf r"
  obtains (opened) n s where "rd_BeginLengthDelim r = (Ret (rd_end r), s)" and "rd_wf s"
      and "rd_buf s = rd_buf r" and "rd_pos r \<le> rd_pos s" and "rd_end s \<le> rd_end r"
      and "rd_err s = rd_err r"
    | (failed) e s where "rd_BeginLengthDelim r = (Fail e, s)" and "rd_adv r s"
      and "rd_err s \<noteq> None"
proof -
  have safe: "rd_safe (rd_bounded_len r) r" using rd_totalD [OF rd_total_bounded_len assms] .
  obtain res s where b: "rd_bounded_len r = (res, s)" by (cases "rd_bounded_len r")
  show thesis
  proof (cases res)
    case (Ret n)
    have adv: "rd_adv r s" using safe by (simp add: b Ret)
    then have s: "rd_wf s" using rd_adv_wf assms by blast
    have "rd_read_uvarint r = (Ret n, s) \<and> \<not> go_uint64 (rd_end s - rd_pos s) < n"
      using b Ret by (auto simp: rd_bounded_len_def rd_bind_def rd_fail_def Let_def
          split: prod.splits outcome.splits if_splits)
    then have "uint n \<le> len (rd_rest s)" and err: "rd_err s = rd_err r"
      using s by (auto simp: rd_room_less not_less rd_read_uvarint_def
          split: option.splits outcome.splits)
    then have "0 \<le> go_int n" "go_int n \<le> rd_end s - rd_pos s"
      using len_rd_rest_small [OF s] go_int_small [of n] s by (auto simp: length_rd_rest)
    then show thesis
      using adv s b Ret err opened [of "s\<lparr>rd_end := rd_pos s + go_int n\<rparr>"]
      by (simp add: rd_BeginLengthDelim_def rd_bind_def rd_adv_def rd_wf_def)
  next
    case (Fail e)
    then show thesis
      using safe b failed by (simp add: rd_BeginLengthDelim_def rd_bind_def rd_safe_def)
  next
    case Panic
    then show thesis using safe b by (simp add: rd_safe_def)
  qed
qed

lemma rd_End_cases:
  "rd_EndLengthDelim e r =
     (case rd_err r of Some x \<Rightarrow> (Fail x, r)
      | None \<Rightarrow> if rd_pos r \<noteq> rd_end r then (Fail ErrTrailingBytes, r\<lparr>rd_err := Some ErrTrailingBytes\<rparr>)
                else (Ret (), r\<lparr>rd_end := e\<rparr>))"
  by (auto simp: rd_EndLengthDelim_def rd_guard_def rd_fail_def rd_set_err_def split: option.splits)

section \<open>The state machine\<close>

datatype rop =
    RUvarint | RVarint | RBool | RFixed32 | RFixed64 | RBytes | RString | RLength | RTag
  | RPresence bool | RSkip wire_type

type_synonym 'al acquire = "'al \<Rightarrow> byte list \<Rightarrow> gostring \<times> 'al"

definition forget :: "'a outcome \<times> 'al reader \<Rightarrow> unit outcome \<times> 'al reader" where
  "forget res = (map_outcome (\<lambda>_. ()) (fst res), snd res)"

fun rd_prim :: "'al acquire \<Rightarrow> rop \<Rightarrow> ('al, unit) reading" where
  "rd_prim acq RUvarint r = forget (rd_ReadUvarint r)"
| "rd_prim acq RVarint r = forget (rd_ReadVarint r)"
| "rd_prim acq RBool r = forget (rd_ReadBool r)"
| "rd_prim acq RFixed32 r = forget (rd_ReadFixed32 r)"
| "rd_prim acq RFixed64 r = forget (rd_ReadFixed64 r)"
| "rd_prim acq RBytes r = forget (rd_ReadBytes r)"
| "rd_prim acq RString r = forget (rd_ReadString acq r)"
| "rd_prim acq RLength r = forget (rd_ReadLength r)"
| "rd_prim acq RTag r = forget (rd_ReadTag r)"
| "rd_prim acq (RPresence allow) r = forget (rd_ReadPresenceByte allow r)"
| "rd_prim acq (RSkip wt) r = forget (rd_SkipField wt r)"

type_synonym 'al rd_state = "'al reader \<times> int list"

inductive rd_step :: "'al acquire \<Rightarrow> 'al rd_state \<Rightarrow> unit outcome \<Rightarrow> 'al rd_state \<Rightarrow> bool"
  for acq :: "'al acquire" where
  prim: "rd_prim acq op r = (res, r') \<Longrightarrow> rd_step acq (r, ends) res (r', ends)"
| begin_ok: "rd_BeginLengthDelim r = (Ret saved, r') \<Longrightarrow>
     rd_step acq (r, ends) (Ret ()) (r', saved # ends)"
| begin_fail: "rd_BeginLengthDelim r = (res, r') \<Longrightarrow> (\<And>saved. res \<noteq> Ret saved) \<Longrightarrow>
     rd_step acq (r, ends) (map_outcome (\<lambda>_. ()) res) (r', ends)"
| end_ok: "rd_EndLengthDelim saved r = (Ret (), r') \<Longrightarrow>
     rd_step acq (r, saved # ends) (Ret ()) (r', ends)"
| end_fail: "rd_EndLengthDelim saved r = (res, r') \<Longrightarrow> res \<noteq> Ret () \<Longrightarrow>
     rd_step acq (r, saved # ends) res (r', saved # ends)"

inductive rd_reach :: "'al acquire \<Rightarrow> 'al reader \<Rightarrow> 'al rd_state \<Rightarrow> bool"
  for acq :: "'al acquire" and r0 :: "'al reader" where
  start: "rd_reach acq r0 (r0, [])"
| step: "rd_reach acq r0 st \<Longrightarrow> rd_step acq st res st' \<Longrightarrow> rd_reach acq r0 st'"

inductive_cases rd_stepE: "rd_step acq (r, ends) res st'"

text \<open>The saved ends grow outwards from the current region and stay inside the buffer.\<close>

fun ends_ok :: "int \<Rightarrow> int list \<Rightarrow> int \<Rightarrow> bool" where
  "ends_ok e [] cap \<longleftrightarrow> e \<le> cap"
| "ends_ok e (s # ends) cap \<longleftrightarrow> e \<le> s \<and> ends_ok s ends cap"

definition rd_inv :: "byte list \<Rightarrow> 'al rd_state \<Rightarrow> bool" where
  "rd_inv b st \<longleftrightarrow>
     rd_wf (fst st) \<and> rd_buf (fst st) = b \<and> ends_ok (rd_end (fst st)) (snd st) (len b)"

lemma ends_ok_mono: "ends_ok e ends cap \<Longrightarrow> e' \<le> e \<Longrightarrow> ends_ok e' ends cap"
  by (cases ends) auto

lemma ends_ok_top: "ends_ok e ends cap \<Longrightarrow> e \<le> cap"
  by (induction e ends cap rule: ends_ok.induct) auto

lemma rd_safe_forget [simp]: "rd_safe (forget res) r \<longleftrightarrow> rd_safe res r"
  by (cases res) (auto simp: rd_safe_def forget_def)

lemma rd_prim_safe: "rd_wf r \<Longrightarrow> rd_safe (rd_prim acq op r) r"
  by (cases op)
    (auto simp: rd_ReadBytes_def intro!: rd_totalD [of _ r] rd_total_ReadUvarint
      rd_total_ReadVarint rd_total_ReadBool rd_total_ReadFixed32 rd_total_ReadFixed64
      rd_total_readLenBytes rd_total_ReadString rd_total_ReadLength rd_total_ReadTag
      rd_total_ReadPresenceByte rd_total_SkipField)

lemma rd_step_inv:
  assumes "rd_step acq st res st'" and "rd_inv b st"
  shows "res \<noteq> Panic \<and> rd_inv b st' \<and>
    (rd_err (fst st) \<noteq> None \<longrightarrow> rd_err (fst st') = rd_err (fst st)) \<and>
    rd_pos (fst st) \<le> rd_pos (fst st')"
  using assms
proof (induction rule: rd_step.induct)
  case (prim op r res r' ends)
  then have "rd_safe (res, r') r" using rd_prim_safe [of r acq op] by (simp add: rd_inv_def)
  then show ?case
    using prim rd_adv_wf [of r r'] by (auto simp: rd_inv_def rd_safe_def rd_adv_def)
next
  case (begin_ok r saved r' ends)
  then have "rd_wf r" by (simp add: rd_inv_def)
  then show ?case
    by (rule rd_Begin_cases) (use begin_ok in \<open>auto simp: rd_inv_def\<close>)
next
  case (begin_fail r res r' ends)
  then have wf: "rd_wf r" by (simp add: rd_inv_def)
  have "rd_safe (rd_bounded_len r) r" using rd_totalD [OF rd_total_bounded_len wf] .
  then have "rd_safe (res, r') r"
    using begin_fail(1,2)
    by (auto simp: rd_BeginLengthDelim_def rd_bind_def rd_safe_def split: prod.splits outcome.splits)
  then show ?case
    using begin_fail rd_adv_wf [of r r'] by (auto simp: rd_inv_def rd_safe_def rd_adv_def)
next
  case (end_ok saved r r' ends)
  then show ?case
    using ends_ok_top [of saved ends "len b"]
    by (auto simp: rd_End_cases rd_inv_def rd_wf_def split: option.splits if_splits)
next
  case (end_fail saved r res r' ends)
  then show ?case
    by (auto simp: rd_End_cases rd_inv_def rd_wf_def split: option.splits if_splits)
qed

lemma rd_inv_start: "rd_wf r \<Longrightarrow> rd_inv (rd_buf r) (r, [])"
  by (simp add: rd_inv_def rd_wf_def)

lemma rd_reach_inv: "rd_reach acq r0 st \<Longrightarrow> rd_wf r0 \<Longrightarrow> rd_inv (rd_buf r0) st"
  by (induction rule: rd_reach.induct) (auto simp: rd_inv_start dest: rd_step_inv)

lemma rd_Begin_region:
  assumes r: "rd_wf r" "rd_err r = None" and p: "p_bounded_len (rd_rest r) = Ret (n, bs)"
  obtains s where "rd_BeginLengthDelim r = (Ret (rd_end r), s)" and "rd_wf s"
    and "rd_rest s = take (nat n) bs" and "rd_err s = None" and "rd_end s = rd_pos s + n"
    and "rd_end r - rd_end s = len bs - n" and "rd_buf s = rd_buf r" and "0 \<le> n"
    and "drop (nat (rd_end s)) (take (nat (rd_end r)) (rd_buf r)) = drop (nat n) bs"
proof -
  let ?g = "\<lambda>n r :: 'a reader. (Ret (go_int n), r)"
  have "rd_refines (rd_bind rd_bounded_len ?g) (p_bind p_bounded_len p_return)"
  proof (rule rd_refines_bounded)
    fix n :: u64 and r :: "'a reader"
    assume r: "rd_wf r" "rd_err r = None" and n: "uint n \<le> len (rd_rest r)"
    have "go_int n = uint n"
      using n len_rd_rest_small [OF r(1)] by (intro go_int_small) linarith
    then show "rd_sim (?g n r) (p_return (uint n) (rd_rest r)) r" using r by (simp add: p_return_def)
  qed
  from rd_refinesD [OF this r]
  have sim: "rd_sim (rd_bind rd_bounded_len ?g r) (Ret (n, bs)) r"
    using p by (simp add: p_bind_def p_return_def)
  obtain k t where t: "rd_bounded_len r = (Ret k, t)" "go_int k = n" "rd_adv r t" "rd_err t = None"
      "rd_rest t = bs"
    using sim by (auto simp: rd_bind_def split: prod.splits outcome.splits)
  have wf: "rd_wf t" using rd_adv_wf [OF r(1) t(3)] .
  have n: "0 \<le> n" "n \<le> len bs"
  proof -
    obtain m where "n = uint (m :: u64)" "\<not> len bs < uint m"
      using p by (auto simp: p_bounded_len_def p_bind_def split: outcome.splits prod.splits if_splits)
    then show "0 \<le> n" "n \<le> len bs" by simp_all
  qed
  have room: "len bs = rd_end t - rd_pos t" using length_rd_rest [OF wf] t(5) by simp
  let ?s = "t\<lparr>rd_end := rd_pos t + n\<rparr>"
  have b: "rd_BeginLengthDelim r = (Ret (rd_end r), ?s)"
    using t by (simp add: rd_BeginLengthDelim_def rd_bind_def rd_adv_def)
  have s: "rd_wf ?s" using wf n room by (simp add: rd_wf_def)
  have bs: "bs = take (nat (rd_end t - rd_pos t)) (drop (nat (rd_pos t)) (rd_buf t))"
    using t(5) by (simp add: rd_rest_def)
  have "nat n \<le> nat (rd_end t - rd_pos t)" using n room by simp
  then have "rd_rest ?s = take (nat n) bs"
    unfolding bs by (simp add: rd_rest_def min_def)
  moreover have "drop (nat (rd_pos t + n)) (take (nat (rd_end r)) (rd_buf r)) = drop (nat n) bs"
  proof -
    have "nat (rd_pos t + n) = nat n + nat (rd_pos t)"
      using n wf by (simp add: rd_wf_def nat_add_distrib)
    then have "drop (nat (rd_pos t + n)) (take (nat (rd_end r)) (rd_buf r)) =
        drop (nat n) (drop (nat (rd_pos t)) (take (nat (rd_end t)) (rd_buf t)))"
      using t(3) by (simp add: rd_adv_def)
    also have "\<dots> = drop (nat n) bs" using rd_region_rest(2) [OF wf] t(5) by simp
    finally show ?thesis .
  qed
  ultimately show thesis
    using that [of ?s] b s t n room by (simp add: rd_adv_def)
qed

section \<open>Properties\<close>

text \<open>
  C7: memory safety and progress of any decoder. Start from a reader on any source below
  \<open>2 ^ 63\<close> bytes, run any sequence of operations and nested regions, with errors in between: the
  position stays within the current region, the region within its parents and the buffer, the
  buffer is never changed, and no operation panics.
\<close>

theorem reader_reachable_safe:
  assumes "rd_reach acq (rd_reset src r0) st" and "len src < 2 ^ 63"
  shows "rd_wf (fst st) \<and> rd_buf (fst st) = src \<and> ends_ok (rd_end (fst st)) (snd st) (len src) \<and>
         \<not> rd_step acq st Panic st'"
proof -
  have "rd_inv src st"
    using rd_reach_inv [OF assms(1)] assms(2) by (simp add: rd_reset_def rd_wf_def)
  then show ?thesis using rd_step_inv [of acq st Panic st' src] by (auto simp: rd_inv_def)
qed

theorem reader_reachable_safe_witness:
  "rd_buf (fst (snd (rd_BeginLengthDelim (rd_reset [1, 9] (new_reader [] :: unit reader))), [2 :: int])) = [1, 9]"
proof -
  let ?r = "rd_reset [1, 9] (new_reader [] :: unit reader)"
  let ?s = "?r\<lparr>rd_pos := 1, rd_end := 2\<rparr>"
  have "rd_BeginLengthDelim ?r = (Ret 2, ?s)"
    by (simp add: rd_BeginLengthDelim_def rd_bind_def rd_bounded_len_def rd_read_uvarint_def
        rd_reset_def new_reader_def read_uvarint_def read_uvarint_at_drop go_uint64_def go_int_def
        go_slice_def)
  moreover have "rd_reach (\<lambda>a b. (b, a)) ?r (?s, [2])"
    by (rule rd_reach.step [OF rd_reach.start rd_step.begin_ok [OF calculation]])
  ultimately show ?thesis
    using reader_reachable_safe [of "\<lambda>a b. (b, a)" "[1, 9]" "new_reader []" "(?s, [2])"] by simp
qed



text \<open>
  C14: \<^verbatim>\<open>BeginLengthDelim\<close> and \<^verbatim>\<open>EndLengthDelim\<close> bracket a submessage. When the unread bytes start
  with a length \<open>n\<close> that fits, the reader sees exactly the next \<open>n\<close> bytes as its region; once they
  are all read, \<^verbatim>\<open>EndLengthDelim\<close> puts the old end back with the bytes after the submessage unread;
  called before that, it reports \<^verbatim>\<open>ErrTrailingBytes\<close>.
\<close>

theorem region_bracket:
  assumes "rd_wf r" and "rd_err r = None" and "p_bounded_len (rd_rest r) = Ret (n, bs)"
    and "rd_BeginLengthDelim r = (res, s)" and "rd_adv s t" and "rd_err t = None"
  shows "res = Ret (rd_end r) \<and> rd_wf s \<and> rd_rest s = take (nat n) bs \<and>
         (if rd_rest t = [] then
            rd_EndLengthDelim (rd_end r) t = (Ret (), t\<lparr>rd_end := rd_end r\<rparr>) \<and>
            rd_rest (t\<lparr>rd_end := rd_end r\<rparr>) = drop (nat n) bs
          else fst (rd_EndLengthDelim (rd_end r) t) = Fail ErrTrailingBytes)"
proof -
  obtain s' where s': "rd_BeginLengthDelim r = (Ret (rd_end r), s')" "rd_wf s'"
      "rd_rest s' = take (nat n) bs" "rd_buf s' = rd_buf r"
      "drop (nat (rd_end s')) (take (nat (rd_end r)) (rd_buf r)) = drop (nat n) bs"
    using rd_Begin_region [OF assms(1-3)] by metis
  then have eq: "s' = s" "res = Ret (rd_end r)" using assms(4) by auto
  have t: "rd_wf t" using rd_adv_wf assms(5) s'(2) eq by blast
  then have "rd_rest t = [] \<longleftrightarrow> rd_pos t = rd_end t"
    using length_rd_rest [OF t] by auto
  moreover have "rd_rest (t\<lparr>rd_end := rd_end r\<rparr>) = drop (nat n) bs" if "rd_pos t = rd_end t"
  proof -
    have "nat (rd_end r - rd_pos t) = nat (rd_end r) - nat (rd_pos t)"
      using t assms(1) by (intro nat_diff_distrib') (auto simp: rd_wf_def)
    then show ?thesis
      using that s' assms(5) eq by (simp add: rd_rest_def rd_adv_def drop_take)
  qed
  ultimately show ?thesis using s' eq assms(6) by (simp add: rd_End_cases)
qed

theorem region_bracket_witness:
  "let r = new_reader [2, 7, 8, 9] :: unit reader; s = snd (rd_BeginLengthDelim r);
       t = snd (rd_SkipField WireVarint (snd (rd_SkipField WireVarint s))) in
   rd_rest s = [7, 8] \<and> rd_EndLengthDelim 4 t = (Ret (), t\<lparr>rd_end := 4\<rparr>) \<and>
   rd_rest (t\<lparr>rd_end := 4\<rparr>) = [9]"
proof -
  let ?r = "new_reader [2, 7, 8, 9] :: unit reader"
  let ?s = "?r\<lparr>rd_pos := 1, rd_end := 3\<rparr>" and ?t = "?r\<lparr>rd_pos := 3, rd_end := 3\<rparr>"
  note d = rd_bind_def rd_read_uvarint_def read_uvarint_def read_uvarint_at_drop go_uint64_def
    go_int_def go_slice_def
  have b: "rd_BeginLengthDelim ?r = (Ret 4, ?s)"
    by (simp add: d rd_BeginLengthDelim_def rd_bounded_len_def)
  have k: "snd (rd_SkipField 0 (snd (rd_SkipField 0 ?s))) = ?t"
    by (simp add: d rd_SkipField_def rd_guard_def rd_return_def)
  have p: "p_bounded_len (rd_rest ?r) = Ret (2, [7, 8, 9])"
    by (simp add: p_bounded_len_def p_bind_def p_uvarint_def read_uvarint_def read_uvarint_at_drop)
  have a: "rd_adv ?s ?t" by (simp add: rd_adv_def)
  show ?thesis
    using region_bracket [OF _ _ p b a]
    by (simp add: b k Let_def new_reader_wf) (simp add: rd_rest_def)
qed

end
