(* ===== verification/Roundtrip.thy ===== *)
theory Roundtrip
  imports Marshal_Spec Reader_Safety
begin

text \<open>
  Reading back what was written. A decoder is driven by the \<open>shape\<close> of the data alone: it calls
  the read operation that belongs to each write, and brackets each region.
\<close>

section \<open>The mirrored decoder\<close>

datatype kind =
    KTag | KUvarint | KVarint | KBool | KFixed32 | KFixed64 | KString | KBytes | KLength | KPresence

datatype shape = Leaf kind | Sub "shape list"

fun kind_of :: "prim \<Rightarrow> kind" where
  "kind_of (PTag _ _) = KTag"
| "kind_of (PUvarint _) = KUvarint"
| "kind_of (PVarint _) = KVarint"
| "kind_of (PBool _) = KBool"
| "kind_of (PFixed32 _) = KFixed32"
| "kind_of (PFixed64 _) = KFixed64"
| "kind_of (PString _) = KString"
| "kind_of (PBytes _) = KBytes"
| "kind_of (PLength _) = KLength"
| "kind_of PPresenceNil = KPresence"
| "kind_of PPresenceNonZero = KPresence"
| "kind_of PPresenceZero = KPresence"

fun shape_of :: "item \<Rightarrow> shape" where
  "shape_of (Item p) = Leaf (kind_of p)"
| "shape_of (Group xs) = Sub (map shape_of xs)"

definition presence_prim :: "byte \<Rightarrow> prim" where
  "presence_prim b =
     (if b = PresenceNil then PPresenceNil
      else if b = PresenceNonZero then PPresenceNonZero else PPresenceZero)"

fun rd_leaf :: "'al acquire \<Rightarrow> kind \<Rightarrow> ('al, prim) reading" where
  "rd_leaf acq KTag = rd_bind rd_ReadTag (\<lambda>x. rd_return (PTag (fst x) (snd x)))"
| "rd_leaf acq KUvarint = rd_bind rd_ReadUvarint (\<lambda>x. rd_return (PUvarint x))"
| "rd_leaf acq KVarint = rd_bind rd_ReadVarint (\<lambda>x. rd_return (PVarint x))"
| "rd_leaf acq KBool = rd_bind rd_ReadBool (\<lambda>x. rd_return (PBool x))"
| "rd_leaf acq KFixed32 = rd_bind rd_ReadFixed32 (\<lambda>x. rd_return (PFixed32 x))"
| "rd_leaf acq KFixed64 = rd_bind rd_ReadFixed64 (\<lambda>x. rd_return (PFixed64 x))"
| "rd_leaf acq KString = rd_bind (rd_ReadString acq) (\<lambda>x. rd_return (PString x))"
| "rd_leaf acq KBytes = rd_bind rd_ReadBytes (\<lambda>x. rd_return (PBytes x))"
| "rd_leaf acq KLength = rd_bind rd_ReadUvarint (\<lambda>x. rd_return (PLength x))"
| "rd_leaf acq KPresence =
     rd_bind (rd_ReadPresenceByte True) (\<lambda>b. rd_return (presence_prim b))"

fun rd_shape :: "'al acquire \<Rightarrow> shape \<Rightarrow> ('al, item) reading"
  and rd_shapes :: "'al acquire \<Rightarrow> shape list \<Rightarrow> ('al, item list) reading" where
  "rd_shape acq (Leaf k) r = rd_bind (rd_leaf acq k) (\<lambda>p. rd_return (Item p)) r"
| "rd_shape acq (Sub ss) r =
     rd_bind rd_BeginLengthDelim (\<lambda>saved.
       rd_bind (rd_shapes acq ss) (\<lambda>xs.
         rd_bind (rd_EndLengthDelim saved) (\<lambda>_. rd_return (Group xs)))) r"
| "rd_shapes acq [] r = rd_return [] r"
| "rd_shapes acq (s # ss) r =
     rd_bind (rd_shape acq s) (\<lambda>x. rd_bind (rd_shapes acq ss) (\<lambda>xs. rd_return (x # xs))) r"

section \<open>Strings through an allocator\<close>

definition transparent :: "'al acquire \<Rightarrow> bool" where
  "transparent acq \<longleftrightarrow> (\<forall>a b. fst (acq a b) = b)"

lemma rd_ReadString_refines:
  assumes "transparent acq"
  shows "rd_refines (rd_ReadString acq) p_len_bytes"
proof -
  have q: "p_len_bytes = p_bind p_len_bytes p_return"
    by (rule ext) (auto simp: p_bind_def p_return_def split: outcome.splits prod.splits)
  have "rd_refines (\<lambda>r. case rd_AcquireString acq b r of (s, r') \<Rightarrow> (Ret s, r')) (p_return b)" for b
  proof (rule rd_refinesI)
    fix r :: "'a reader" assume r: "rd_wf r" "rd_err r = None"
    show "rd_sim (case rd_AcquireString acq b r of (s, r') \<Rightarrow> (Ret s, r')) (p_return b (rd_rest r)) r"
    proof (cases "rd_alloc r")
      case None
      then show ?thesis using r by (simp add: rd_AcquireString_def p_return_def)
    next
      case (Some a)
      obtain s a' where s: "acq a b = (s, a')" by (cases "acq a b")
      then have "s = b" using assms by (metis transparent_def fst_conv)
      then show ?thesis
        using r Some s
        by (simp add: rd_AcquireString_def p_return_def rd_adv_def rd_wf_def rd_rest_def)
    qed
  qed
  then show ?thesis
    unfolding rd_ReadString_def by (subst q) (rule rd_refines_bind [OF rd_readLenBytes_refines])
qed

section \<open>Each primitive\<close>

fun p_leaf :: "kind \<Rightarrow> prim parser" where
  "p_leaf KTag = p_bind p_tag (\<lambda>x. p_return (PTag (fst x) (snd x)))"
| "p_leaf KUvarint = p_bind p_uvarint (\<lambda>x. p_return (PUvarint x))"
| "p_leaf KVarint =
     p_bind (p_bind p_uvarint (\<lambda>v. p_return (zigzag_decode64 v))) (\<lambda>x. p_return (PVarint x))"
| "p_leaf KBool = p_bind (p_bind p_uvarint (\<lambda>v. p_return (v \<noteq> 0))) (\<lambda>x. p_return (PBool x))"
| "p_leaf KFixed32 =
     p_bind (p_bind (p_take 4) (\<lambda>b. p_return (le_get b))) (\<lambda>x. p_return (PFixed32 x))"
| "p_leaf KFixed64 =
     p_bind (p_bind (p_take 8) (\<lambda>b. p_return (le_get b))) (\<lambda>x. p_return (PFixed64 x))"
| "p_leaf KString = p_bind p_len_bytes (\<lambda>x. p_return (PString x))"
| "p_leaf KBytes = p_bind p_len_bytes (\<lambda>x. p_return (PBytes x))"
| "p_leaf KLength = p_bind p_uvarint (\<lambda>x. p_return (PLength x))"
| "p_leaf KPresence = p_bind (p_presence True) (\<lambda>b. p_return (presence_prim b))"

lemma rd_leaf_refines: "transparent acq \<Longrightarrow> rd_refines (rd_leaf acq k) (p_leaf k)"
  by (cases k)
    (simp_all add: rd_refines_map rd_ReadTag_refines rd_ReadUvarint_refines rd_ReadVarint_refines
      rd_ReadBool_refines rd_ReadFixed32_refines rd_ReadFixed64_refines rd_ReadString_refines
      rd_ReadBytes_def rd_readLenBytes_refines rd_ReadPresenceByte_refines)

lemma p_uvarint_enc [simp]: "p_uvarint (uvarint v @ rest) = Ret (v, rest)"
proof -
  have "read_uvarint (uvarint v @ rest) 0 = Ret (v, len (uvarint v))"
    using read_uvarint_uvarint [of 0 "uvarint v @ rest" v rest] by (simp add: length_uvarint)
  then show ?thesis by (simp add: p_uvarint_def)
qed

lemma p_take_enc [simp]: "n = len bs \<Longrightarrow> p_take n (bs @ rest) = Ret (bs, rest)"
  by (simp add: p_take_def)

lemma p_bind_Ret: "p bs = Ret (x, bs') \<Longrightarrow> p_bind p q bs = q x bs'"
  by (simp add: p_bind_def)

lemma uint_go_len: "len s < 2 ^ 63 \<Longrightarrow> uint (go_uint64 (len s)) = len s"
  unfolding go_uint64_def by (rule uint_u64_of_int) simp_all

lemma p_bounded_enc:
  "len s < 2 ^ 63 \<Longrightarrow> p_bounded_len (uvarint (go_uint64 (len s)) @ s @ rest) = Ret (len s, s @ rest)"
  by (simp add: p_bounded_len_def p_bind_Ret uint_go_len)

lemma p_len_bytes_enc:
  "len s < 2 ^ 63 \<Longrightarrow> p_len_bytes (uvarint (go_uint64 (len s)) @ s @ rest) = Ret (s, rest)"
  using p_bounded_enc [of s rest] by (simp add: p_len_bytes_def p_bind_Ret)

lemma p_tag_enc:
  assumes "prim_err (PTag t wt) = None"
  shows "p_tag (uvarint (field_key t wt) @ rest) = Ret ((t, wt), rest)"
proof -
  have v: "t \<noteq> 0" "\<not> MaxTag < t" "valid_wire_type wt"
    using assms by (auto simp: prim_err_def split: if_splits)
  then have w: "wt < 8" "unat wt \<le> 3" by (simp_all add: valid_wire_type_unat word_less_nat_alt)
  let ?k = "field_key t wt"
  have d: "uint ?k div 8 = uint t"
    using uint_key_tag [of ?k] field_key_tag [OF w(1), of t] by simp
  have "wt = word_of_int (uint ?k mod 8)"
    using field_key_wt [OF w(1), of t] key_wt_value [of ?k] by simp
  then have m: "uint wt = uint ?k mod 8"
    using uint_word_of_int [of "uint ?k mod 8", where ?'a = 8] by simp
  have c1: "uint t \<noteq> 0" using v(1) uint_0_iff by blast
  have "uint MaxTag = 2 ^ 29 - 1" by (simp add: MaxTag_def)
  then have c2: "\<not> 2 ^ 29 - 1 < uint t" using v(2) by (simp only: word_less_def not_False_eq_True)
  have c3: "\<not> 3 < uint wt" using w(2) unfolding uint_nat by linarith
  have c: "uint ?k div 8 \<noteq> 0" "\<not> 2 ^ 29 - 1 < uint ?k div 8" "\<not> 3 < uint ?k mod 8"
    unfolding d m [symmetric] by (fact c1 c2 c3)+
  have r: "word_of_int (uint ?k div 8) = t" "word_of_int (uint ?k mod 8) = wt"
    unfolding d m [symmetric] by simp_all
  have "p_tag (uvarint ?k @ rest) =
      (if uint ?k div 8 = 0 then p_fail ErrZeroTag
       else if 2 ^ 29 - 1 < uint ?k div 8 then p_fail ErrTagOverflow
       else if 3 < uint ?k mod 8 then p_fail ErrReservedWire
       else p_return (word_of_int (uint ?k div 8), word_of_int (uint ?k mod 8))) rest"
    unfolding p_tag_def by (rule p_bind_Ret) simp
  then show ?thesis by (simp only: c if_False r p_return_def)
qed

lemma p_presence_enc:
  "b \<in> {0, 1, 3} \<Longrightarrow> p_presence True (b # rest) = Ret (b, rest)"
  by (auto simp: p_presence_def p_bind_def p_take_def p_return_def)

lemma le_get_put_rev:
  "le_get (le_put 4 (v :: u32)) = v" "le_get (le_put 8 (u :: u64)) = u"
  by simp_all

lemma p_leaf_enc:
  assumes "prim_err p = None" and "len (prim_bytes p) < 2 ^ 63"
  shows "p_leaf (kind_of p) (prim_bytes p @ rest) = Ret (p, rest)"
proof (cases p)
  case (PTag t wt)
  then show ?thesis using p_tag_enc assms(1) by (simp add: p_bind_Ret p_return_def)
next
  case (PString s)
  then show ?thesis using p_len_bytes_enc [of s rest] assms(2) by (simp add: p_bind_Ret p_return_def)
next
  case (PBytes s)
  then show ?thesis using p_len_bytes_enc [of s rest] assms(2) by (simp add: p_bind_Ret p_return_def)
next
  case (PBool b)
  have "uvarint (if b then 1 else 0) = [if b then 1 else 0]" by (subst uvarint_rec) (simp add: word_le_nat_alt)
  then have "p_uvarint ((if b then 1 else 0) # rest) = Ret (if b then 1 else 0, rest)"
    using p_uvarint_enc [of "if b then 1 else 0" rest] by simp
  then show ?thesis using PBool by (simp add: p_bind_Ret p_return_def)
qed (simp_all add: p_bind_Ret p_return_def p_presence_enc presence_prim_def)

section \<open>Whole programs\<close>

fun valid_item :: "item \<Rightarrow> bool" where
  "valid_item (Item p) \<longleftrightarrow> prim_err p = None"
| "valid_item (Group xs) \<longleftrightarrow> (\<forall>x\<in>set xs. valid_item x)"

lemma resolve_valid: "resolve op sg = (Ret x, sg') \<Longrightarrow> valid_item x"
  and resolves_valid: "resolves ops sg = (Ret xs, sg') \<Longrightarrow> \<forall>x\<in>set xs. valid_item x"
proof (induction op sg and ops sg arbitrary: x sg' and xs sg' rule: resolve_resolves.induct)
  case (7 op ops sg)
  then show ?case by (fastforce split: prod.splits outcome.splits)
qed (auto simp: Let_def prim_err_def split: option.splits prod.splits if_splits sum.splits)

text \<open>\<open>reads f r x rest\<close>: \<open>f\<close> returns \<open>x\<close> and leaves \<open>rest\<close> unread, in the same region.\<close>

definition reads :: "('al, 'a) reading \<Rightarrow> 'al reader \<Rightarrow> 'a \<Rightarrow> byte list \<Rightarrow> bool" where
  "reads f r x rest \<longleftrightarrow>
     (\<exists>r'. f r = (Ret x, r') \<and> rd_adv r r' \<and> rd_err r' = None \<and> rd_rest r' = rest)"

lemma reads_return [simp]:
  "rd_wf r \<Longrightarrow> rd_err r = None \<Longrightarrow> rd_rest r = rest \<Longrightarrow> reads (rd_return x) r x rest"
  by (simp add: reads_def rd_return_def)

lemma reads_bind:
  assumes "reads f r x mid" and "rd_wf r"
    and "\<And>s. rd_wf s \<Longrightarrow> rd_err s = None \<Longrightarrow> rd_rest s = mid \<Longrightarrow> reads (g x) s y rest"
  shows "reads (rd_bind f g) r y rest"
proof -
  obtain s where s: "f r = (Ret x, s)" "rd_adv r s" "rd_err s = None" "rd_rest s = mid"
    using assms(1) by (auto simp: reads_def)
  have "rd_wf s" using rd_adv_wf [OF assms(2) s(2)] .
  from assms(3) [OF this s(3,4)] show ?thesis
    using s rd_adv_trans [OF s(2)] by (auto simp: reads_def rd_bind_def)
qed

lemma reads_refines:
  assumes "rd_refines f p" and "rd_wf r" and "rd_err r = None" and "p (rd_rest r) = Ret (x, rest)"
  shows "reads f r x rest"
proof -
  have "rd_sim (f r) (Ret (x, rest)) r" using rd_refinesD [OF assms(1-3)] assms(4) by simp
  then show ?thesis by (cases "f r") (auto simp: reads_def)
qed

lemma reads_region:
  assumes r: "rd_wf r" "rd_err r = None"
    and rest: "rd_rest r = uvarint (go_uint64 (len body)) @ body @ rest"
    and inner: "\<And>s. rd_wf s \<Longrightarrow> rd_err s = None \<Longrightarrow> rd_rest s = body \<Longrightarrow> reads f s x []"
  shows "reads (rd_bind rd_BeginLengthDelim (\<lambda>saved.
           rd_bind f (\<lambda>x. rd_bind (rd_EndLengthDelim saved) (\<lambda>_. rd_return (h x))))) r (h x) rest"
proof -
  have "len body < 2 ^ 63" using len_rd_rest_small [OF r(1)] rest by simp
  then have p: "p_bounded_len (rd_rest r) = Ret (len body, body @ rest)"
    using p_bounded_enc rest by simp
  obtain s where s: "rd_BeginLengthDelim r = (Ret (rd_end r), s)" "rd_wf s" "rd_err s = None"
      "rd_rest s = body" "rd_buf s = rd_buf r" "rd_end s = rd_pos s + len body"
      "rd_end r - rd_end s = len rest"
    using rd_Begin_region [OF r p] by (metis (no_types, lifting) append_eq_conv_conj nat_int
        add_diff_cancel_left' length_append of_nat_add)
  obtain t where t: "f s = (Ret x, t)" "rd_adv s t" "rd_err t = None" "rd_rest t = []"
    using inner [OF s(2-4)] by (auto simp: reads_def)
  let ?t = "t\<lparr>rd_end := rd_end r\<rparr>"
  have e: "rd_EndLengthDelim (rd_end r) t = (Ret (), ?t)" "rd_rest ?t = rest"
    using region_bracket [OF r p s(1) t(2,3)] t(4) by auto
  have wft: "rd_wf t" using rd_adv_wf [OF s(2) t(2)] .
  then have "rd_pos t = rd_end t" using length_rd_rest [OF wft] t(4) by simp
  have pos: "rd_pos r \<le> rd_pos s"
    using rd_Begin_cases [OF r(1)] s(1) by (metis outcome.inject(1) outcome.distinct(1) prod.inject)
  have "rd_adv r ?t"
    using t(2) s(5,6,7) pos by (auto simp: rd_adv_def)
  then show ?thesis
    using s(1) t(1,3) e by (simp add: reads_def rd_bind_def rd_return_def)
qed

lemma reads_item:
    "transparent acq \<Longrightarrow> valid_item x \<Longrightarrow> rd_wf r \<Longrightarrow> rd_err r = None \<Longrightarrow>
       rd_rest r = enc_item x @ rest \<Longrightarrow> reads (rd_shape acq (shape_of x)) r x rest"
  and reads_items: "transparent acq \<Longrightarrow> \<forall>x\<in>set xs. valid_item x \<Longrightarrow> rd_wf r \<Longrightarrow> rd_err r = None \<Longrightarrow>
       rd_rest r = enc_items xs @ rest \<Longrightarrow> reads (rd_shapes acq (map shape_of xs)) r xs rest"
proof (induction x and xs arbitrary: r rest and r rest rule: enc_item_enc_items.induct)
  case (1 p)
  have "len (prim_bytes p) < 2 ^ 63" using len_rd_rest_small [OF 1(3)] 1(5) by simp
  then have "p_leaf (kind_of p) (rd_rest r) = Ret (p, rest)" using p_leaf_enc 1 by simp
  then have "reads (rd_leaf acq (kind_of p)) r p rest"
    using reads_refines [OF rd_leaf_refines] 1 by blast
  then have "reads (rd_bind (rd_leaf acq (kind_of p)) (\<lambda>p. rd_return (Item p))) r (Item p) rest"
    by (rule reads_bind [OF _ 1(3)]) simp
  then show ?case by (simp add: reads_def)
next
  case (2 xs)
  have "reads (\<lambda>s. rd_shapes acq (map shape_of xs) s) s xs []"
    if "rd_wf s" "rd_err s = None" "rd_rest s = enc_items xs" for s
    using 2(1) [OF 2(3) _ that(1,2), of "[]"] 2(4) that(3) by simp
  from reads_region [OF 2(5,6) _ this, where h = Group and rest = rest] 2(7)
  show ?case by (simp add: reads_def)
next
  case 3
  then show ?case by (simp add: reads_def rd_return_def)
next
  case (4 x xs)
  have x: "reads (rd_shape acq (shape_of x)) r x (enc_items xs @ rest)"
    using 4 by simp
  have xs: "reads (rd_bind (rd_shapes acq (map shape_of xs)) (\<lambda>ys. rd_return (x # ys))) s (x # xs) rest"
    if "rd_wf s" "rd_err s = None" "rd_rest s = enc_items xs @ rest" for s
    by (rule reads_bind [OF 4(2) [OF 4(3) _ that]]) (use 4(4) that in auto)
  have "reads (rd_bind (rd_shape acq (shape_of x))
      (\<lambda>x. rd_bind (rd_shapes acq (map shape_of xs)) (\<lambda>ys. rd_return (x # ys)))) r (x # xs) rest"
    by (rule reads_bind [OF x 4(5)]) (rule xs)
  then show ?case by (simp add: reads_def)
qed

section \<open>The codec laws\<close>

text \<open>
  What the libraries are relied on for: a stream an encoder closed cleanly is inflated to the
  bytes it was fed, within the limits given to the decoder.
\<close>

definition codec_laws :: "codec_lib \<Rightarrow> enc_lib \<Rightarrow> bool" where
  "codec_laws lib el \<longleftrightarrow>
     (\<forall>chunks c. enc_close el CompressionGzip chunks = Inr c \<longrightarrow>
        gzip_stream lib c = Ret (concat chunks, None)) \<and>
     (\<forall>chunks c. enc_close el CompressionZstd chunks = Inr c \<longrightarrow>
        (\<forall>m n. len (concat chunks) \<le> n \<longrightarrow> len (concat chunks) \<le> uint m \<longrightarrow>
           zstd_decode_all_cap lib m n c = Ret (concat chunks)) \<and>
        (\<forall>m. len (concat chunks) \<le> uint m \<longrightarrow> zstd_stream lib m c = Ret (concat chunks, None)))"

lemma decompress_encoded:
  assumes "codec_laws lib el" and "enc_close el method chunks = Inr c"
    and "method = CompressionZstd \<or> method = CompressionGzip"
    and "len (concat chunks) \<le> uint (decoder_max_decompressed_size max_int)"
  shows "fst (decompress_body lib max_int method c (len (concat chunks))) = Ret (concat chunks)"
  using assms
  by (auto simp: codec_laws_def decompress_body_def decompress_zstd_known_def decompress_gzip_def
      read_limited_all)

section \<open>Blobs through \<^verbatim>\<open>ReadHeader\<close>\<close>

lemma le_get_u32_small: "0 \<le> n \<Longrightarrow> n \<le> MaxUint32 \<Longrightarrow> uint (word_of_int n :: u32) = n"
  by (simp add: MaxUint32_def uint_word_of_int)

lemma hdr_parse_plain:
  assumes "len body \<le> MaxUint32"
  shows "hdr_parse lib max_int (blob_header 0 hint (len body) @ body) =
           Ret ((0, hint, word_of_int (len body)), body)"
  using le_get_u32_small [OF _ assms] decoder_max_nonneg
  by (simp add: hdr_parse_def blob_header_def Magic_def hdr_size_def hdr_inflated_def hdr_body_def
      Let_def)

lemma hdr_parse_compressed:
  assumes "codec_laws lib el" and "enc_close el method chunks = Inr c"
    and "method = CompressionZstd \<or> method = CompressionGzip" and "len c \<le> MaxUint32"
    and "len (concat chunks) \<le> uint (decoder_max_decompressed_size max_int)"
    and "len (concat chunks) \<le> MaxUint32"
  shows "hdr_parse lib max_int (ext_header method hint (len c) (len (concat chunks)) @ c) =
           Ret ((method OR 8, hint, word_of_int (len c)), concat chunks)"
proof -
  have f: "method OR 8 = (if method = CompressionZstd then 9 else 10)" "(method OR 8) AND 7 = method"
    using assms(3) by auto
  have n: "uint (word_of_int (len c) :: u32) = len c"
      "uint (word_of_int (len (concat chunks)) :: u32) = len (concat chunks)"
    by (rule le_get_u32_small [OF _ assms(4)], simp, rule le_get_u32_small [OF _ assms(6)], simp)
  note d = decompress_encoded [OF assms(1-3,5)]
  show ?thesis
    using assms(3,5) f n d
    by (auto simp: hdr_parse_def ext_header_def Magic_def hdr_size_def hdr_inflated_def hdr_body_def
        Let_def not_less)
qed

section \<open>From \<^verbatim>\<open>MarshalWithOptions\<close> back to the data\<close>

lemma options_method_cases:
  "valid_compression_method (options_method opts) \<Longrightarrow> compresses (options_method opts) \<Longrightarrow>
     options_method opts = CompressionZstd \<or> options_method opts = CompressionGzip"
  by (auto simp: valid_compression_method_def compresses_def)

lemma case_pair_eq: "(case p of (r, w) \<Rightarrow> (r, w, h)) = (x, y, z) \<longleftrightarrow> p = (x, y) \<and> h = z"
  "(x, y, z) = (case p of (r, w) \<Rightarrow> (r, w, h)) \<longleftrightarrow> p = (x, y) \<and> h = z"
  by (cases p; auto)+

lemma marshal_compressed_Ret:
  assumes "marshal_compressed el v hint method g = (Ret blob, g')"
    and m: "method = CompressionZstd \<or> method = CompressionGzip"
  shows "\<exists>xs sc chunks c. resolves v (Map.empty, g) = (Ret xs, sc, g') \<and>
     len (enc_items xs) \<le> MaxUint32 \<and> concat chunks = enc_items xs \<and>
     enc_close el method chunks = Inr c \<and> len c \<le> MaxUint32 \<and>
     blob = ext_header method hint (len c) (len (concat chunks)) @ c"
proof -
  obtain s b where st: "marshal_compressed_streaming el v hint method (buffer_sink, g) =
      ((Ret (), b), s, g')" and blob: "blob = concat (sink_log s)"
    using assms(1) by (auto simp: marshal_compressed_def split: prod.splits outcome.splits)
  obtain r sc h where res: "resolves v (Map.empty, g) = (r, sc, h)"
    by (cases "resolves v (Map.empty, g)") auto
  obtain sw where sw: "wr_execs v (new_recording_size_writer, g) = Some (sw, h)"
    "case r of
       Ret xs \<Rightarrow> w_err sw = None \<and> w_size_acc sw = len (enc_items xs) \<and> w_scratch sw = sc \<and>
         w_recorded sw = region_sizes xs
     | Fail e \<Rightarrow> w_err sw = Some e
     | Panic \<Rightarrow> False"
    using recording_pass [OF res] .
  then obtain xs where xs: "r = Ret xs" "len (enc_items xs) \<le> MaxUint32"
    using st by (cases r) (auto simp: marshal_compressed_streaming_def Let_def split: if_splits)
  from streaming_eq [OF res [unfolded xs(1)] xs(2) m, of el hint buffer_sink] st
  obtain chunks where ch: "concat chunks = enc_items xs" "h = g'"
      "compressed_spec el hint method chunks buffer_sink = ((Ret (), b), s)"
    by (auto simp: case_pair_eq)
  then obtain c where c: "enc_close el method chunks = Inr c" "len c \<le> MaxUint32"
      "sink_log s = [ext_header method hint (len c) (len (concat chunks)), c]"
    by (auto simp: compressed_spec_def write_compressed_blob_def sink_write_def buffer_sink_def
        not_less split: sum.splits prod.splits if_splits)
  show ?thesis using res xs ch c blob by auto
qed

lemma encode_decode_header:
  assumes "marshal_with_options el v hint opts g = (Ret blob, g')"
    and "codec_laws lib el" and "2 ^ 32 + 15 \<le> max_int" and "max_int < 2 ^ 63"
  shows "\<exists>xs sc flags n. resolves v (Map.empty, g) = (Ret xs, sc, g') \<and>
     hdr_parse lib max_int blob = Ret ((flags, hint, n), enc_items xs) \<and> len blob < 2 ^ 63"
proof -
  let ?m = "options_method opts"
  have cap: "uint (decoder_max_decompressed_size max_int) = MaxUint32"
    using decoder_max_uint [of max_int] assms(3,4)
    by (simp add: MaxUint32_def zstdDecoderOverAllocSlack_def)
  have valid: "valid_compression_method ?m"
    using assms(1) by (auto simp: marshal_with_options_def Let_def split: if_splits)
  show ?thesis
  proof (cases "compresses ?m")
    case True
    then have m: "?m = CompressionZstd \<or> ?m = CompressionGzip"
      using options_method_cases valid by blast
    have "marshal_compressed el v hint ?m g = (Ret blob, g')"
      using assms(1) valid True by (simp add: marshal_with_options_def Let_def)
    from marshal_compressed_Ret [OF this m] obtain xs sc chunks c where
      r: "resolves v (Map.empty, g) = (Ret xs, sc, g')" "len (enc_items xs) \<le> MaxUint32"
        "concat chunks = enc_items xs" "enc_close el ?m chunks = Inr c" "len c \<le> MaxUint32"
        "blob = ext_header ?m hint (len c) (len (concat chunks)) @ c" by blast
    have "hdr_parse lib max_int blob = Ret ((?m OR 8, hint, word_of_int (len c)), enc_items xs)"
      using hdr_parse_compressed [OF assms(2) r(4) m r(5), of max_int hint] r(2,3,6) cap by simp
    moreover have "len blob < 2 ^ 63"
      using r(5,6) by (simp add: ext_header_def Magic_def MaxUint32_def)
    ultimately show ?thesis using r(1) by blast
  next
    case False
    then have "marshal_spec v hint g = (Ret blob, g')"
      using assms(1) valid by (simp add: marshal_with_options_def Let_def marshal_uncompressed_eq)
    then obtain xs sc where r: "resolves v (Map.empty, g) = (Ret xs, sc, g')"
        "len (enc_items xs) \<le> MaxUint32"
        "blob = blob_header 0 hint (len (enc_items xs)) @ enc_items xs"
      by (auto simp: marshal_spec_def split: prod.splits outcome.splits if_splits)
    then have "hdr_parse lib max_int blob =
        Ret ((0, hint, word_of_int (len (enc_items xs))), enc_items xs)"
      using hdr_parse_plain by simp
    moreover have "len blob < 2 ^ 63"
      using r(2,3) by (simp add: blob_header_def Magic_def MaxUint32_def)
    ultimately show ?thesis using r(1) by blast
  qed
qed

lemma read_all:
  assumes "\<forall>x\<in>set xs. valid_item x" and "transparent acq" and "rd_wf r" and "rd_err r = None"
    and "rd_rest r = enc_items xs"
  shows "fst (rd_shapes acq (map shape_of xs) r) = Ret xs \<and>
         \<not> rd_has_more (snd (rd_shapes acq (map shape_of xs) r))"
proof -
  have "reads (rd_shapes acq (map shape_of xs)) r xs []"
    using reads_items [OF assms(2,1,3,4), of "[]"] assms(5) by simp
  then obtain s where s: "rd_shapes acq (map shape_of xs) r = (Ret xs, s)" "rd_adv r s"
      "rd_rest s = []" by (auto simp: reads_def)
  have "rd_wf s" using rd_adv_wf [OF assms(3) s(2)] .
  then show ?thesis using s length_rd_rest [of s] by (simp add: rd_has_more_def)
qed

section \<open>Properties\<close>

text \<open>
  C4: encode and decode are inverse, end to end. Whatever \<^verbatim>\<open>MarshalWithOptions\<close> returns for a program
  of Writer calls, with any options and lawful codecs on a 64-bit platform, \<^verbatim>\<open>ReadHeader\<close> on it
  yields the schema hint, and the read operations mirroring the program, driven by its shape
  alone and through any transparent allocator, return exactly the values that were written and
  consume the whole body.
\<close>

theorem encode_decode:
  assumes "marshal_with_options el v hint opts g = (Ret blob, g')"
    and "codec_laws lib el" and "codec_lib_ok lib"
    and "2 ^ 32 + 15 \<le> max_int" and "max_int < 2 ^ 63" and "transparent acq"
    and "rd_ReadHeader lib max_int (rd_reset blob r0) = (res, r)"
  shows "\<exists>xs sc flags n. resolves v (Map.empty, g) = (Ret xs, sc, g') \<and> res = Ret (flags, hint, n) \<and>
           fst (rd_shapes acq (map shape_of xs) r) = Ret xs \<and>
           \<not> rd_has_more (snd (rd_shapes acq (map shape_of xs) r))"
proof -
  obtain xs sc flags n where h: "resolves v (Map.empty, g) = (Ret xs, sc, g')"
      "hdr_parse lib max_int blob = Ret ((flags, hint, n), enc_items xs)" "len blob < 2 ^ 63"
    using encode_decode_header [OF assms(1,2,4,5)] by blast
  let ?r = "rd_reset blob r0"
  have wf: "rd_wf ?r" "rd_err ?r = None" "rd_rest ?r = blob"
    using h(3) by (simp_all add: rd_reset_def rd_wf_def rd_rest_def)
  have sim: "hdr_sim (res, r) (Ret ((flags, hint, n), enc_items xs))"
    using rd_ReadHeader_sim [OF wf(1,2) assms(3) _ assms(5)] assms(4,7) wf(3) h(2) by simp
  then have r: "res = Ret (flags, hint, n)" "rd_wf r" "rd_err r = None" "rd_rest r = enc_items xs"
    by (simp_all add: hdr_sim_def)
  show ?thesis
    using read_all [OF resolves_valid [OF h(1)] assms(6) r(2-4)] h(1) r(1) by blast
qed

lemma stored_codec_laws: "codec_laws stored_lib stored_enc"
  by (auto simp: codec_laws_def stored_lib_def stored_enc_def not_less)

theorem encode_decode_witness:
  "\<exists>flags n. fst (rd_ReadHeader stored_lib (2 ^ 63 - 1)
       (rd_reset (blob_header 0 5 2 @ [1, 9]) (new_reader [] :: unit reader))) = Ret (flags, 5, n)"
proof -
  let ?v = "[Region [Prim (PUvarint 9)]] :: unit wop list"
  have u: "uvarint 9 = [9]" "uvarint (go_uint64 1) = [1]"
    by (subst uvarint_rec, simp add: go_uint64_def word_le_nat_alt)+
  have "marshal_with_options stored_enc ?v 5 \<lparr>opt_compress = False, opt_compression = 0\<rparr> () =
      (Ret (blob_header 0 5 2 @ [1, 9]), ())"
    using u by (simp add: marshal_with_options_def options_method_def compresses_def
        valid_compression_method_def marshal_uncompressed_eq marshal_spec_def prim_err_def MaxUint32_def)
  note m = this
  obtain res r where rr: "rd_ReadHeader stored_lib (2 ^ 63 - 1)
      (rd_reset (blob_header 0 5 2 @ [1, 9]) (new_reader [] :: unit reader)) = (res, r)" by force
  have "transparent (\<lambda>(a :: unit) b. (b, a))" by (simp add: transparent_def)
  from encode_decode [OF m stored_codec_laws stored_lib_ok _ _ this rr] show ?thesis
    unfolding rr by auto
qed

end
