(* ===== verification/Allocator.thy ===== *)
theory Allocator
  imports Roundtrip
begin

text \<open>
  \<^verbatim>\<open>storage/gsbm/allocator.go\<close>: the \<^verbatim>\<open>Allocator\<close> interface as a locale and the heap allocator.
  An allocator hands out handles; \<open>contents a s\<close> is the
  string a handle \<open>s\<close> denotes while the allocator is in state \<open>a\<close>.
\<close>

section \<open>The interface\<close>

fun acquire_all ::
  "('al \<Rightarrow> byte list \<Rightarrow> 's \<times> 'al) \<Rightarrow> 'al \<Rightarrow> byte list list \<Rightarrow> 's list \<times> 'al" where
  "acquire_all acquire a [] = ([], a)"
| "acquire_all acquire a (b # bs) =
     (case acquire a b of (s, a1) \<Rightarrow> case acquire_all acquire a1 bs of (ss, a2) \<Rightarrow> (s # ss, a2))"

text \<open>The acquisition a Reader sees: the string the new handle denotes.\<close>

definition read_acquire ::
  "('al \<Rightarrow> byte list \<Rightarrow> 's \<times> 'al) \<Rightarrow> ('al \<Rightarrow> 's \<Rightarrow> byte list) \<Rightarrow> 'al acquire" where
  "read_acquire acquire contents a b = (case acquire a b of (s, a') \<Rightarrow> (contents a' s, a'))"

text \<open>A Reader operation that does not look at the allocator.\<close>

definition blind :: "('al, 'a) reading \<Rightarrow> bool" where
  "blind f \<longleftrightarrow>
     (\<forall>r x. f (r\<lparr>rd_alloc := x\<rparr>) = (fst (f r), (snd (f r))\<lparr>rd_alloc := x\<rparr>))"

text \<open>
  \<open>agrees ainv f g\<close>: on a reader whose allocator satisfies \<open>ainv\<close>, \<open>f\<close> returns what \<open>g\<close> returns
  without an allocator, moves the same way, and keeps \<open>ainv\<close>.
\<close>

definition alloc_inv :: "('al \<Rightarrow> bool) \<Rightarrow> 'al reader \<Rightarrow> bool" where
  "alloc_inv ainv r \<longleftrightarrow> (\<forall>a. rd_alloc r = Some a \<longrightarrow> ainv a)"

definition agrees :: "('al \<Rightarrow> bool) \<Rightarrow> ('al, 'a) reading \<Rightarrow> ('al, 'a) reading \<Rightarrow> bool" where
  "agrees ainv f g \<longleftrightarrow>
     (\<forall>r. alloc_inv ainv r \<longrightarrow>
        fst (f r) = fst (g (r\<lparr>rd_alloc := None\<rparr>)) \<and>
        (snd (f r))\<lparr>rd_alloc := None\<rparr> = snd (g (r\<lparr>rd_alloc := None\<rparr>)) \<and>
        alloc_inv ainv (snd (f r)))"

lemma agrees_bind:
  assumes "agrees ainv f f'" and "\<And>x. agrees ainv (g x) (g' x)"
  shows "agrees ainv (rd_bind f g) (rd_bind f' g')"
  unfolding agrees_def
proof (intro allI impI)
  fix r :: "'a reader" assume r: "alloc_inv ainv r"
  obtain res s where f: "f r = (res, s)" by (cases "f r")
  have f': "f' (r\<lparr>rd_alloc := None\<rparr>) = (res, s\<lparr>rd_alloc := None\<rparr>)" "alloc_inv ainv s"
    using assms(1) r f by (auto simp: agrees_def prod_eq_iff)
  show "fst (rd_bind f g r) = fst (rd_bind f' g' (r\<lparr>rd_alloc := None\<rparr>)) \<and>
      (snd (rd_bind f g r))\<lparr>rd_alloc := None\<rparr> = snd (rd_bind f' g' (r\<lparr>rd_alloc := None\<rparr>)) \<and>
      alloc_inv ainv (snd (rd_bind f g r))"
    using assms(2) f f' by (cases res) (auto simp: rd_bind_def agrees_def)
qed

lemma reader_alloc_self [simp]: "r\<lparr>rd_alloc := rd_alloc r\<rparr> = r" for r :: "'al reader"
  by (cases r) simp

lemma agrees_blind: "blind f \<Longrightarrow> agrees ainv f f"
  unfolding agrees_def
proof (intro allI impI)
  fix r :: "'a reader" assume f: "blind f" and r: "alloc_inv ainv r"
  have "f r = (fst (f r), (snd (f r))\<lparr>rd_alloc := rd_alloc r\<rparr>)"
    using f unfolding blind_def by (metis reader_alloc_self)
  then have a: "rd_alloc (snd (f r)) = rd_alloc r"
    by (metis reader.select_convs(5) reader.surjective reader.update_convs(5) snd_conv)
  show "fst (f r) = fst (f (r\<lparr>rd_alloc := None\<rparr>)) \<and>
      (snd (f r))\<lparr>rd_alloc := None\<rparr> = snd (f (r\<lparr>rd_alloc := None\<rparr>)) \<and>
      alloc_inv ainv (snd (f r))"
    using f r a unfolding blind_def alloc_inv_def by simp
qed

lemma blind_bind: "blind f \<Longrightarrow> (\<And>x. blind (g x)) \<Longrightarrow> blind (rd_bind f g)"
  unfolding blind_def rd_bind_def by (auto split: prod.splits outcome.splits)

lemma blind_guard: "blind f \<Longrightarrow> blind (rd_guard f)"
  by (auto simp: blind_def rd_guard_def split: option.splits)

lemma blind_fail: "blind (rd_fail e)"
  by (auto simp: blind_def rd_fail_def rd_set_err_def Let_def)

lemma blind_return: "blind (rd_return x)"
  by (auto simp: blind_def rd_return_def)

lemma blind_if: "(c \<Longrightarrow> blind f) \<Longrightarrow> (\<not> c \<Longrightarrow> blind g) \<Longrightarrow> blind (if c then f else g)"
  by simp

lemma blind_uvarint: "blind rd_read_uvarint"
  by (auto simp: blind_def rd_read_uvarint_def rd_set_err_def split: option.splits outcome.splits prod.splits)

lemma blind_take_fixed: "blind (rd_take_fixed n)"
  by (auto simp: blind_def rd_take_fixed_def rd_fail_def rd_set_err_def Let_def split: option.splits)

lemma blind_bounded_len: "blind rd_bounded_len"
  unfolding rd_bounded_len_def
  by (rule blind_bind [OF blind_uvarint])
    (auto simp: blind_def rd_fail_def rd_set_err_def Let_def)

lemma blind_readLenBytes: "blind rd_readLenBytes"
  unfolding rd_readLenBytes_def
  by (rule blind_bind [OF blind_bounded_len]) (auto simp: blind_def split: option.splits)

lemma blind_ReadTag: "blind rd_ReadTag"
  unfolding rd_ReadTag_def
  by (intro blind_guard blind_bind blind_uvarint)
    (auto simp: blind_def rd_fail_def rd_set_err_def Let_def)

lemma blind_Begin: "blind rd_BeginLengthDelim"
  unfolding rd_BeginLengthDelim_def
  by (rule blind_bind [OF blind_bounded_len]) (auto simp: blind_def)

lemma blind_End: "blind (rd_EndLengthDelim e)"
  unfolding rd_EndLengthDelim_def
  by (rule blind_guard) (auto simp: blind_def rd_fail_def rd_set_err_def Let_def)

lemma blindI:
  "(\<And>r x. f (r\<lparr>rd_alloc := x\<rparr>) = map_prod id (\<lambda>s. s\<lparr>rd_alloc := x\<rparr>) (f r)) \<Longrightarrow> blind f"
  by (simp add: blind_def map_prod_def case_prod_beta)

lemma rd_fail_alloc:
  "rd_fail e (r\<lparr>rd_alloc := x\<rparr>) = map_prod id (\<lambda>s. s\<lparr>rd_alloc := x\<rparr>) (rd_fail e r)"
  by (simp add: rd_fail_def rd_set_err_def Let_def)

lemma rd_fail_alloc_pos:
  "rd_fail e (r\<lparr>rd_alloc := x, rd_pos := p\<rparr>) =
     map_prod id (\<lambda>s. s\<lparr>rd_alloc := x\<rparr>) (rd_fail e (r\<lparr>rd_pos := p\<rparr>))"
  by (simp add: rd_fail_def rd_set_err_def Let_def)

lemma blind_presence: "blind (rd_ReadPresenceByte a)"
  unfolding rd_ReadPresenceByte_def
  by (rule blind_guard, rule blindI)
    (simp add: Let_def rd_fail_alloc rd_fail_alloc_pos if_distrib [of "map_prod id _"]
      split: option.split)

lemmas blind_intros = blind_bind blind_guard blind_return blind_uvarint blind_take_fixed
  blind_readLenBytes blind_ReadTag blind_presence

lemma blind_leaf: "k \<noteq> KString \<Longrightarrow> blind (rd_leaf acq k)"
  by (cases k)
    (auto simp: rd_ReadUvarint_def rd_ReadVarint_def rd_ReadBool_def rd_ReadFixed32_def
      rd_ReadFixed64_def rd_ReadBytes_def intro!: blind_intros)

text \<open>The acquisition of the heap path, whatever the allocator type.\<close>

definition plain_acquire :: "'al acquire" where
  "plain_acquire a b = (b, a)"

lemma transparent_plain [simp]: "transparent plain_acquire"
  by (simp add: transparent_def plain_acquire_def)

locale string_allocator =
  fixes ainv :: "'al \<Rightarrow> bool"
    and acquire :: "'al \<Rightarrow> byte list \<Rightarrow> 's \<times> 'al"
    and contents :: "'al \<Rightarrow> 's \<Rightarrow> byte list"
    and live :: "'al \<Rightarrow> 's \<Rightarrow> bool"
  assumes acquire_inv: "ainv a \<Longrightarrow> acquire a b = (s, a') \<Longrightarrow> ainv a'"
    and acquire_new: "ainv a \<Longrightarrow> acquire a b = (s, a') \<Longrightarrow> live a' s \<and> contents a' s = b"
    and acquire_old: "ainv a \<Longrightarrow> live a t \<Longrightarrow> acquire a b = (s, a') \<Longrightarrow>
      live a' t \<and> contents a' t = contents a t"
begin

text \<open>However many strings are acquired, all of them denote what was asked for at the end.\<close>

lemma acquire_all_contents:
  "ainv a \<Longrightarrow> acquire_all acquire a bs = (ss, a') \<Longrightarrow>
     ainv a' \<and> map (contents a') ss = bs \<and> (\<forall>s\<in>set ss. live a' s) \<and>
     (\<forall>t. live a t \<longrightarrow> live a' t \<and> contents a' t = contents a t)"
proof (induction bs arbitrary: a ss)
  case (Cons b bs)
  obtain s a1 where s: "acquire a b = (s, a1)" by (cases "acquire a b")
  obtain ss2 where ss: "acquire_all acquire a1 bs = (ss2, a')" "ss = s # ss2"
    using Cons.prems(2) s by (auto split: prod.splits)
  show ?case
    using Cons.IH [OF acquire_inv [OF Cons.prems(1) s] ss(1)] acquire_new [OF Cons.prems(1) s]
      acquire_old [OF Cons.prems(1) _ s] ss(2)
    by auto
qed simp

lemma agrees_acquire:
  "agrees ainv
     (\<lambda>r. case rd_AcquireString (read_acquire acquire contents) b r of (s, r') \<Rightarrow> (Ret s, r'))
     (\<lambda>r. case rd_AcquireString plain_acquire b r of (s, r') \<Rightarrow> (Ret s, r'))"
  unfolding agrees_def
proof (intro allI impI)
  let ?f = "\<lambda>acq (r :: 'al reader). case rd_AcquireString acq b r of (s, r') \<Rightarrow> (Ret s, r')"
  let ?a = "read_acquire acquire contents"
  fix r :: "'al reader" assume r: "alloc_inv ainv r"
  show "fst (?f ?a r) = fst (?f plain_acquire (r\<lparr>rd_alloc := None\<rparr>)) \<and>
      (snd (?f ?a r))\<lparr>rd_alloc := None\<rparr> = snd (?f plain_acquire (r\<lparr>rd_alloc := None\<rparr>)) \<and>
      alloc_inv ainv (snd (?f ?a r))"
  proof (cases "rd_alloc r")
    case None
    then show ?thesis using r by (simp add: rd_AcquireString_def alloc_inv_def)
  next
    case (Some a)
    obtain s a' where s: "acquire a b = (s, a')" by (cases "acquire a b")
    have "ainv a" using r Some by (simp add: alloc_inv_def)
    then show ?thesis
      using acquire_new [of a b s a'] acquire_inv [of a b s a'] s Some
      by (simp add: rd_AcquireString_def read_acquire_def alloc_inv_def)
  qed
qed

abbreviation "acq_here \<equiv> read_acquire acquire contents"

lemma agrees_ReadString: "agrees ainv (rd_ReadString acq_here) (rd_ReadString plain_acquire)"
  unfolding rd_ReadString_def
  by (rule agrees_bind [OF agrees_blind [OF blind_readLenBytes] agrees_acquire])

lemma agrees_leaf: "agrees ainv (rd_leaf acq_here k) (rd_leaf plain_acquire k)"
proof (cases "k = KString")
  case True
  then show ?thesis
    using agrees_bind [OF agrees_ReadString agrees_blind [OF blind_return]] by simp
next
  case False
  then have "rd_leaf acq_here k = rd_leaf plain_acquire k" by (cases k) auto
  then show ?thesis using agrees_blind [OF blind_leaf [OF False]] by simp
qed

lemma agrees_shapes_if:
  "(\<And>s. s \<in> set ss \<Longrightarrow> agrees ainv (rd_shape acq_here s) (rd_shape plain_acquire s)) \<Longrightarrow>
     agrees ainv (rd_shapes acq_here ss) (rd_shapes plain_acquire ss)"
proof (induction ss)
  case Nil
  show ?case using agrees_blind [OF blind_return [of "[]"]] by (simp add: agrees_def)
next
  case (Cons s ss)
  have e: "rd_shapes acq (s # ss) =
      rd_bind (rd_shape acq s) (\<lambda>x. rd_bind (rd_shapes acq ss) (\<lambda>xs. rd_return (x # xs)))" for acq :: "'al acquire"
    by (rule ext) simp
  have ss: "agrees ainv (rd_shapes acq_here ss) (rd_shapes plain_acquire ss)"
    using Cons by simp
  show ?case
    unfolding e
    by (rule agrees_bind, rule Cons.prems, simp, rule agrees_bind [OF ss],
        rule agrees_blind, rule blind_return)
qed

lemma agrees_shape: "agrees ainv (rd_shape acq_here s) (rd_shape plain_acquire s)"
proof (induction s)
  case (Leaf k)
  have e: "rd_shape acq (Leaf k) = rd_bind (rd_leaf acq k) (\<lambda>p. rd_return (Item p))"
    for acq :: "'al acquire"
    by (rule ext) simp
  show ?case
    unfolding e by (rule agrees_bind [OF agrees_leaf agrees_blind [OF blind_return]])
next
  case (Sub ss)
  have e: "rd_shape acq (Sub ss) =
      rd_bind rd_BeginLengthDelim (\<lambda>saved. rd_bind (rd_shapes acq ss) (\<lambda>xs.
        rd_bind (rd_EndLengthDelim saved) (\<lambda>_. rd_return (Group xs))))" for acq :: "'al acquire"
    by (rule ext) simp
  have ss: "agrees ainv (rd_shapes acq_here ss) (rd_shapes plain_acquire ss)"
    by (rule agrees_shapes_if) (rule Sub.IH)
  show ?case
    unfolding e
    by (rule agrees_bind [OF agrees_blind [OF blind_Begin]], rule agrees_bind [OF ss],
        rule agrees_blind, rule blind_bind [OF blind_End], rule blind_return)
qed

lemmas agrees_shapes = agrees_shapes_if [OF agrees_shape]

end

section \<open>The heap allocator\<close>

text \<open>\<^verbatim>\<open>heapAllocator.AcquireString\<close> converts, which copies: the handle is the string itself.\<close>

definition heap_acquire :: "unit \<Rightarrow> byte list \<Rightarrow> byte list \<times> unit" where
  "heap_acquire a b = (b, a)"

interpretation heap: string_allocator "\<lambda>_. True" heap_acquire "\<lambda>_ s. s" "\<lambda>_ _. True"
  by unfold_locales (simp_all add: heap_acquire_def)

end
