(* ===== verification/Interner.thy ===== *)
theory Interner
  imports Allocator
begin

text \<open>
  \<^verbatim>\<open>storage/gsbm/intern.go\<close>: the deduplicating allocator. A Go string other than the empty one is
  an index into the strings allocated so far, so that two equal indices are one shared string:
  \<^verbatim>\<open>string(b)\<close> appends to that list. The nil table of a zero \<^verbatim>\<open>Interner\<close> is \<open>None\<close>.
\<close>

type_synonym str_heap = "byte list list"
type_synonym str_handle = "nat option"

record interner =
  it_tab :: "(byte list \<times> nat) list option"
  it_max :: int

definition NewInterner :: interner where
  "NewInterner = \<lparr>it_tab = Some [], it_max = 0\<rparr>"

definition NewInternerN :: "int \<Rightarrow> interner" where
  "NewInternerN maxDistinct =
     (let m = (if maxDistinct < 0 then 0 else maxDistinct) in \<lparr>it_tab = Some [], it_max = m\<rparr>)"

definition it_entries :: "interner \<Rightarrow> (byte list \<times> nat) list" where
  "it_entries it = (case it_tab it of None \<Rightarrow> [] | Some t \<Rightarrow> t)"

definition go_string :: "byte list \<Rightarrow> str_heap \<Rightarrow> nat \<times> str_heap" where
  "go_string b h = (length h, h @ [b])"

definition it_AcquireString ::
  "interner \<times> str_heap \<Rightarrow> byte list \<Rightarrow> str_handle \<times> (interner \<times> str_heap)" where
  "it_AcquireString st b =
     (case st of (it, h) \<Rightarrow>
       if b = [] then (None, st)
       else let tab = it_entries it; it1 = it\<lparr>it_tab := Some tab\<rparr> in
         (case map_of tab b of
            Some s \<Rightarrow> (Some s, (it1, h))
          | None \<Rightarrow>
              (case go_string b h of
                 (s, h') \<Rightarrow>
                   if 0 < it_max it \<and> it_max it \<le> len tab then (Some s, (it1, h'))
                   else (Some s, (it1\<lparr>it_tab := Some ((b, s) # tab)\<rparr>, h')))))"

definition it_Len :: "interner \<Rightarrow> int" where
  "it_Len it = len (it_entries it)"

definition it_Reset :: "interner \<Rightarrow> interner" where
  "it_Reset it = it\<lparr>it_tab := map_option (\<lambda>_. []) (it_tab it)\<rparr>"

section \<open>The allocator laws\<close>

definition str_contents :: "'a \<times> str_heap \<Rightarrow> str_handle \<Rightarrow> byte list" where
  "str_contents st s = (case s of None \<Rightarrow> [] | Some i \<Rightarrow> snd st ! i)"

definition str_live :: "'a \<times> str_heap \<Rightarrow> str_handle \<Rightarrow> bool" where
  "str_live st s \<longleftrightarrow> (case s of None \<Rightarrow> True | Some i \<Rightarrow> i < length (snd st))"

definition it_inv :: "interner \<times> str_heap \<Rightarrow> bool" where
  "it_inv st \<longleftrightarrow>
     (\<forall>(b, i)\<in>set (it_entries (fst st)). b \<noteq> [] \<and> i < length (snd st) \<and> snd st ! i = b) \<and>
     distinct (map fst (it_entries (fst st))) \<and>
     (0 < it_max (fst st) \<longrightarrow> it_Len (fst st) \<le> it_max (fst st))"

lemma it_entries_simps [simp]:
  "it_entries (it\<lparr>it_tab := Some t\<rparr>) = t"
  "it_entries NewInterner = []" "it_entries (NewInternerN m) = []" "it_entries (it_Reset it) = []"
  by (simp_all add: it_entries_def NewInterner_def NewInternerN_def it_Reset_def Let_def
      split: option.split)

lemma it_AcquireString_cases:
  assumes "it_AcquireString (it, h) b = (s, (it', h'))" and "b \<noteq> []"
  obtains (hit) i where "map_of (it_entries it) b = Some i" "s = Some i" "h' = h"
      "it_entries it' = it_entries it" "it_max it' = it_max it"
    | (full) "map_of (it_entries it) b = None" "0 < it_max it" "it_max it \<le> it_Len it"
      "s = Some (length h)" "h' = h @ [b]" "it_entries it' = it_entries it" "it_max it' = it_max it"
    | (miss) "map_of (it_entries it) b = None" "\<not> (0 < it_max it \<and> it_max it \<le> it_Len it)"
      "s = Some (length h)" "h' = h @ [b]" "it_entries it' = (b, length h) # it_entries it"
      "it_max it' = it_max it"
  using assms
  by (auto simp: it_AcquireString_def go_string_def it_Len_def Let_def
      split: option.splits if_splits)

lemma it_AcquireString_inv:
  assumes "it_inv (it, h)" and "it_AcquireString (it, h) b = (s, (it', h'))"
  shows "it_inv (it', h')"
proof (cases "b = []")
  case True
  then show ?thesis using assms by (simp add: it_AcquireString_def)
next
  case False
  show ?thesis
    using assms(2) False
  proof (cases rule: it_AcquireString_cases)
    case miss
    have "\<And>x i. (x, i) \<in> set (it_entries it) \<Longrightarrow> i < length h" using assms(1) by (auto simp: it_inv_def)
    then show ?thesis
      using assms(1) miss False
      by (auto simp: it_inv_def it_Len_def nth_append map_of_eq_None_iff)
  qed (use assms(1) in \<open>auto simp: it_inv_def it_Len_def nth_append\<close>)
qed

interpretation it: string_allocator it_inv it_AcquireString str_contents str_live
proof
  fix st b s st' assume a: "it_inv st" "it_AcquireString st b = (s, st')"
  obtain it h it' h' where st: "st = (it, h)" "st' = (it', h')" by (cases st, cases st')
  show "it_inv st'" using it_AcquireString_inv a unfolding st .
  have *: "(str_live st' s \<and> str_contents st' s = b) \<and>
      (\<forall>t. str_live st t \<longrightarrow> str_live st' t \<and> str_contents st' t = str_contents st t)"
  proof (cases "b = []")
    case True
    then show ?thesis using a st by (auto simp: it_AcquireString_def str_live_def str_contents_def)
  next
    case False
    show ?thesis
      using a(2) [unfolded st] False
      by (cases rule: it_AcquireString_cases)
        (use a(1) st in \<open>auto simp: it_inv_def str_live_def str_contents_def nth_append
          dest!: map_of_SomeD split: option.splits\<close>)
  qed
  then show "str_live st' s \<and> str_contents st' s = b" by blast
  show "str_live st' t \<and> str_contents st' t = str_contents st t" if "str_live st t" for t
    using * that by blast
qed

section \<open>Sharing\<close>

definition it_handle :: "interner \<Rightarrow> byte list \<Rightarrow> str_handle" where
  "it_handle it b = (if b = [] then None else map_of (it_entries it) b)"

definition it_grows :: "interner \<times> str_heap \<Rightarrow> interner \<times> str_heap \<Rightarrow> byte list set \<Rightarrow> bool" where
  "it_grows st st' B \<longleftrightarrow>
     it_max (fst st') = it_max (fst st) \<and>
     (\<forall>b i. map_of (it_entries (fst st)) b = Some i \<longrightarrow> map_of (it_entries (fst st')) b = Some i) \<and>
     fst ` set (it_entries (fst st')) = fst ` set (it_entries (fst st)) \<union> (B - {[]}) \<and>
     length (snd st') + length (it_entries (fst st)) = length (snd st) + length (it_entries (fst st'))"

lemma it_grows_trans: "it_grows s1 s2 A \<Longrightarrow> it_grows s2 s3 B \<Longrightarrow> it_grows s1 s3 (A \<union> B)"
  by (auto simp: it_grows_def)

lemma it_AcquireString_grows:
  assumes "it_max it \<le> 0" and "it_AcquireString (it, h) b = (s, (it', h'))"
  shows "it_grows (it, h) (it', h') {b} \<and> s = it_handle it' b"
proof (cases "b = []")
  case True
  then show ?thesis using assms by (simp add: it_AcquireString_def it_grows_def it_handle_def)
next
  case False
  show ?thesis
    using assms(2) False
  proof (cases rule: it_AcquireString_cases)
    case (hit i)
    then have "b \<in> fst ` set (it_entries it)" by (metis domI dom_map_of_conv_image_fst)
    then show ?thesis using hit False by (auto simp: it_grows_def it_handle_def)
  next
    case full
    then show ?thesis using assms(1) by simp
  next
    case miss
    then show ?thesis using False by (auto simp: it_grows_def it_handle_def)
  qed
qed

lemma it_handle_grows:
  assumes "it_grows st st' B" and "b \<in> fst ` set (it_entries (fst st)) \<or> b = []"
  shows "it_handle (fst st') b = it_handle (fst st) b"
proof (cases "b = []")
  case False
  then obtain i where "map_of (it_entries (fst st)) b = Some i"
    using assms(2) by (metis dom_map_of_conv_image_fst domD)
  then show ?thesis using assms(1) False by (simp add: it_handle_def it_grows_def)
qed (simp add: it_handle_def)

lemma acquire_all_shares:
  "it_max it \<le> 0 \<Longrightarrow> acquire_all it_AcquireString (it, h) bs = (ss, st') \<Longrightarrow>
     it_grows (it, h) st' (set bs) \<and> ss = map (it_handle (fst st')) bs"
proof (induction bs arbitrary: it h ss)
  case Nil
  then show ?case by (auto simp: it_grows_def)
next
  case (Cons b bs)
  obtain s it1 h1 where s: "it_AcquireString (it, h) b = (s, (it1, h1))"
    by (metis prod.collapse)
  obtain ss2 where ss: "acquire_all it_AcquireString (it1, h1) bs = (ss2, st')" "ss = s # ss2"
    using Cons.prems(2) s by (auto split: prod.splits)
  have g: "it_grows (it, h) (it1, h1) {b}" "s = it_handle it1 b"
    using it_AcquireString_grows [OF Cons.prems(1) s] by auto
  then have "it_max it1 \<le> 0" using Cons.prems(1) by (simp add: it_grows_def)
  then have ih: "it_grows (it1, h1) st' (set bs)" "ss2 = map (it_handle (fst st')) bs"
    using Cons.IH ss(1) by blast+
  have "b \<in> fst ` set (it_entries it1) \<or> b = []" using g(1) by (auto simp: it_grows_def)
  then have "it_handle (fst st') b = s" using it_handle_grows [OF ih(1)] g(2) by simp
  then show ?case using it_grows_trans [OF g(1) ih(1)] ih(2) ss(2) by simp
qed

lemma it_max_AcquireString: "it_AcquireString st b = (s, st') \<Longrightarrow> it_max (fst st') = it_max (fst st)"
  by (auto simp: it_AcquireString_def go_string_def Let_def split: prod.splits option.splits if_splits)

lemma it_max_acquire_all:
  "acquire_all it_AcquireString st bs = (ss, st') \<Longrightarrow> it_max (fst st') = it_max (fst st)"
  by (induction bs arbitrary: st ss) (auto dest!: it_max_AcquireString split: prod.splits)

lemma it_inv_new: "it_inv (NewInternerN m, h)"
  by (simp add: it_inv_def it_Len_def)

text \<open>
  C21: Every string an \<^verbatim>\<open>Interner\<close> returns has the bytes asked for, for good. A positive cap bounds
  the table. Without a cap two results are the same shared string exactly when their bytes are
  equal, and one string is allocated per distinct non-empty value, which \<^verbatim>\<open>Len\<close> reports.
\<close>

theorem interner_shares:
  assumes "acquire_all it_AcquireString (NewInternerN m, h) bs = (ss, (it', h'))"
  shows "map (str_contents (it', h')) ss = bs \<and>
     (0 < m \<longrightarrow> it_Len it' \<le> m) \<and>
     (m \<le> 0 \<longrightarrow>
        (\<forall>i<length bs. \<forall>j<length bs. ss ! i = ss ! j \<longleftrightarrow> bs ! i = bs ! j) \<and>
        it_Len it' = int (card (set bs - {[]})) \<and>
        length h' = length h + card (set bs - {[]}))"
proof (intro conjI impI)
  note c = it.acquire_all_contents [OF it_inv_new assms]
  have m: "it_max it' = max 0 m"
    using it_max_acquire_all [OF assms] by (simp add: NewInternerN_def)
  show contents: "map (str_contents (it', h')) ss = bs" using c by blast
  show "it_Len it' \<le> m" if "0 < m" using c m that by (simp add: it_inv_def)
  assume "m \<le> 0"
  then have sh: "it_grows (NewInternerN m, h) (it', h') (set bs)" "ss = map (it_handle it') bs"
    using acquire_all_shares [OF _ assms] by (simp_all add: NewInternerN_def)
  show "\<forall>i<length bs. \<forall>j<length bs. ss ! i = ss ! j \<longleftrightarrow> bs ! i = bs ! j"
  proof (intro allI impI iffI)
    fix i j assume "i < length bs" "j < length bs"
    moreover from this have "str_contents (it', h') (ss ! k) = bs ! k" if "k < length bs" for k
      using contents that by (metis length_map nth_map)
    ultimately show "ss ! i = ss ! j \<Longrightarrow> bs ! i = bs ! j" by metis
    show "bs ! i = bs ! j \<Longrightarrow> ss ! i = ss ! j"
      using sh(2) \<open>i < length bs\<close> \<open>j < length bs\<close> by simp
  qed
  have "distinct (map fst (it_entries it'))" using c by (simp add: it_inv_def)
  then have "length (it_entries it') = card (fst ` set (it_entries it'))"
    using distinct_card [of "map fst (it_entries it')"] by simp
  then show "it_Len it' = int (card (set bs - {[]}))" and "length h' = length h + card (set bs - {[]})"
    using sh(1) by (simp_all add: it_grows_def it_Len_def)
qed

theorem interner_shares_witness:
  "fst (acquire_all it_AcquireString (NewInternerN 0, []) [[65], [66], [], [65]]) =
     [Some 0, Some 1, None, Some 0] \<and>
   it_Len (fst (snd (acquire_all it_AcquireString (NewInternerN 0, []) [[65], [66], [], [65]]))) = 2"
proof
  let ?r = "acquire_all it_AcquireString (NewInternerN 0, []) [[65], [66], [], [65]]"
  show "fst ?r = [Some 0, Some 1, None, Some 0]"
    by (simp add: it_AcquireString_def NewInternerN_def it_entries_def go_string_def Let_def)
  have "it_Len (fst (snd ?r)) = int (card (set [[65], [66], [], [65 :: byte]] - {[]}))"
    using interner_shares [of 0 "[]" "[[65], [66], [], [65]]" "fst ?r" "fst (snd ?r)" "snd (snd ?r)"]
    by simp
  also have "set [[65], [66], [], [65 :: byte]] - {[]} = {[65], [66]}" by auto
  finally show "it_Len (fst (snd ?r)) = 2" by simp
qed

lemma it_Reset_inv: "it_inv (it_Reset it, h)" and it_Reset_Len: "it_Len (it_Reset it) = 0"
  by (simp_all add: it_inv_def it_Len_def)

end
