(* ===== verification/Slice_Pool.thy ===== *)
theory Slice_Pool
  imports Allocator
begin

text \<open>
  \<^verbatim>\<open>storage/gsbm/allocator.go\<close>: the typed slice pools an arena hands to the decoder, and the
  allocation entry points \<^verbatim>\<open>MakeSlice\<close> and \<^verbatim>\<open>MakeMap\<close> with their budgets.
\<close>

section \<open>Typed pools\<close>

text \<open>
  \<^verbatim>\<open>cur\<close> always refers to one of the pool's chunks, or is nil: \<open>tp_cur\<close> is its index. A slice drawn
  from the pool is the window \<open>(chunk, offset, length)\<close>.
\<close>

record 'v typed_pool =
  tp_chunks :: "'v list list"
  tp_cur :: "nat option"
  tp_used :: int
  tp_chunkCap :: int

definition empty_pool :: "'v typed_pool" where
  "empty_pool = \<lparr>tp_chunks = [], tp_cur = None, tp_used = 0, tp_chunkCap = 0\<rparr>"

definition defaultChunkCap :: int where "defaultChunkCap = 256"

datatype 'v gslice = NilSlice | Window nat int int | Made "'v list"

definition cur_len :: "'v list list \<Rightarrow> nat option \<Rightarrow> int" where
  "cur_len chunks c = (case c of None \<Rightarrow> 0 | Some i \<Rightarrow> len (chunks ! i))"

text \<open>
  The bump step \<^verbatim>\<open>TypedPool.Alloc\<close> and the arena's \<^verbatim>\<open>allocBytes\<close> share: chunks, current chunk and
  fill level before and after, and the window handed out.
\<close>

definition bump ::
  "'v \<Rightarrow> int \<Rightarrow> int \<Rightarrow> 'v list list \<times> nat option \<times> int \<Rightarrow>
     (nat \<times> int \<times> int) \<times> ('v list list \<times> nat option \<times> int)" where
  "bump zero cap n st =
     (case st of (chunks, cur, used) \<Rightarrow>
        let (chunks', c, used') =
              (if used + n > cur_len chunks cur
               then (chunks @ [replicate (nat (max cap n)) zero], length chunks, 0)
               else (chunks, the cur, used))
        in ((c, used', n), (chunks', Some c, used' + n)))"

definition tp_Alloc :: "'v \<Rightarrow> int \<Rightarrow> 'v typed_pool \<Rightarrow> 'v gslice \<times> 'v typed_pool" where
  "tp_Alloc zero n p =
     (if n \<le> 0 then (NilSlice, p)
      else let cap = (if tp_chunkCap p = 0 then defaultChunkCap else tp_chunkCap p) in
        case bump zero cap n (tp_chunks p, tp_cur p, tp_used p) of
          ((c, off, l), (chunks, cur, used)) \<Rightarrow>
            (Window c off l,
             \<lparr>tp_chunks = chunks, tp_cur = cur, tp_used = used, tp_chunkCap = cap\<rparr>))"

fun alloc_all :: "'v \<Rightarrow> int list \<Rightarrow> 'v typed_pool \<Rightarrow> 'v gslice list \<times> 'v typed_pool" where
  "alloc_all zero [] p = ([], p)"
| "alloc_all zero (n # ns) p =
     (case tp_Alloc zero n p of (s, p1) \<Rightarrow> case alloc_all zero ns p1 of (ss, p2) \<Rightarrow> (s # ss, p2))"

text \<open>Where the next window can start: everything before it in its chunk is given out.\<close>

definition bump_ok :: "'v list list \<times> nat option \<times> int \<Rightarrow> bool" where
  "bump_ok st \<longleftrightarrow>
     (case st of (chunks, cur, used) \<Rightarrow>
        0 \<le> used \<and>
        (case cur of None \<Rightarrow> chunks = [] \<and> used = 0
         | Some i \<Rightarrow> Suc i = length chunks \<and> used \<le> len (chunks ! i)))"

definition window_in :: "'v list list \<Rightarrow> nat \<times> int \<times> int \<Rightarrow> bool" where
  "window_in chunks w \<longleftrightarrow>
     (case w of (c, off, l) \<Rightarrow> c < length chunks \<and> 0 \<le> off \<and> 0 \<le> l \<and> off + l \<le> len (chunks ! c))"

definition given_out :: "'v list list \<times> nat option \<times> int \<Rightarrow> nat \<times> int \<times> int \<Rightarrow> bool" where
  "given_out st w \<longleftrightarrow>
     (case st of (chunks, cur, used) \<Rightarrow>
        window_in chunks w \<and>
        (case w of (c, off, l) \<Rightarrow> cur = Some c \<longrightarrow> off + l \<le> used))"

definition apart :: "nat \<times> int \<times> int \<Rightarrow> nat \<times> int \<times> int \<Rightarrow> bool" where
  "apart v w \<longleftrightarrow>
     (case (v, w) of ((c, off, l), (c', off', l')) \<Rightarrow>
        c \<noteq> c' \<or> off + l \<le> off' \<or> off' + l' \<le> off)"

lemma bump_step:
  assumes "bump_ok st" and "0 < n" and "bump zero cap n st = (w, st')"
  shows "bump_ok st'" and "given_out st' w" and "snd (snd w) = n"
    and "\<And>v. given_out st v \<Longrightarrow> given_out st' v \<and> apart v w"
    and "\<exists>new. fst st' = fst st @ new \<and> set (concat new) \<subseteq> {zero}"
proof -
  obtain chunks cur used where st: "st = (chunks, cur, used)" by (cases st)
  note d = assms st bump_def bump_ok_def given_out_def window_in_def cur_len_def apart_def
  have big: "n \<le> max cap n" "0 \<le> max cap n" using assms(2) by auto
  show "bump_ok st'" using assms st big
    by (auto simp: bump_def bump_ok_def cur_len_def Let_def split: if_splits option.splits)
  show "given_out st' w" using assms st big
    by (auto simp: bump_def bump_ok_def cur_len_def given_out_def window_in_def Let_def
        split: if_splits option.splits)
  show "snd (snd w) = n" using assms st by (auto simp: bump_def Let_def split: if_splits)
  show "given_out st' v \<and> apart v w" if "given_out st v" for v
    using assms st big that
    by (cases v) (auto simp: bump_def bump_ok_def cur_len_def given_out_def window_in_def apart_def
        nth_append Let_def split: if_splits option.splits)
  show "\<exists>new. fst st' = fst st @ new \<and> set (concat new) \<subseteq> {zero}"
    using assms st by (auto simp: bump_def Let_def split: if_splits)
qed

definition pool_state :: "'v typed_pool \<Rightarrow> 'v list list \<times> nat option \<times> int" where
  "pool_state p = (tp_chunks p, tp_cur p, tp_used p)"

fun slices_apart :: "'v gslice \<Rightarrow> 'v gslice \<Rightarrow> bool" where
  "slices_apart (Window c off l) (Window c' off' l') = apart (c, off, l) (c', off', l')"
| "slices_apart _ _ = True"

fun served :: "'v list list \<times> nat option \<times> int \<Rightarrow> int \<Rightarrow> 'v gslice \<Rightarrow> bool" where
  "served st n (Window c off l) \<longleftrightarrow> 0 < n \<and> l = n \<and> given_out st (c, off, l)"
| "served st n NilSlice \<longleftrightarrow> n \<le> 0"
| "served st n (Made xs) \<longleftrightarrow> False"

lemma served_mono:
  "served st n s \<Longrightarrow> (\<And>v. given_out st v \<Longrightarrow> given_out st' v) \<Longrightarrow> served st' n s"
  by (cases s) auto

lemma tp_Alloc_step:
  assumes "bump_ok (pool_state p)" and "tp_Alloc zero n p = (s, p')"
  shows "bump_ok (pool_state p')" and "served (pool_state p') n s"
    and "\<And>v. given_out (pool_state p) v \<Longrightarrow> given_out (pool_state p') v"
    and "\<And>m t. served (pool_state p) m t \<Longrightarrow> slices_apart t s"
    and "\<exists>new. tp_chunks p' = tp_chunks p @ new \<and> set (concat new) \<subseteq> {zero}"
proof -
  have "bump_ok (pool_state p') \<and> served (pool_state p') n s \<and>
    (\<forall>v. given_out (pool_state p) v \<longrightarrow> given_out (pool_state p') v) \<and>
    (\<forall>m t. served (pool_state p) m t \<longrightarrow> slices_apart t s) \<and>
    (\<exists>new. tp_chunks p' = tp_chunks p @ new \<and> set (concat new) \<subseteq> {zero})"
  proof (cases "n \<le> 0")
    case True
    then have "s = NilSlice" "p' = p" using assms(2) by (simp_all add: tp_Alloc_def)
    then show ?thesis using assms(1) True by auto
  next
    case False
    define cap where "cap = (if tp_chunkCap p = 0 then defaultChunkCap else tp_chunkCap p)"
    obtain w st' where b: "bump zero cap n (pool_state p) = (w, st')"
      by (cases "bump zero cap n (pool_state p)")
    obtain c off l chunks cur used where w: "w = (c, off, l)" "st' = (chunks, cur, used)"
      by (cases w, cases st') auto
    have s: "s = Window c off l"
      "p' = \<lparr>tp_chunks = chunks, tp_cur = cur, tp_used = used, tp_chunkCap = cap\<rparr>"
      using assms(2) False b w by (simp_all add: tp_Alloc_def cap_def pool_state_def Let_def)
    then have p': "pool_state p' = st'" using w by (simp add: pool_state_def)
    note b5 = bump_step [OF assms(1) _ b]
    have "slices_apart t s" if "served (pool_state p) m t" for m t
      using that b5(4) False s w by (cases t) auto
    moreover have "fst (pool_state p) = tp_chunks p" "fst st' = tp_chunks p'"
      using p' by (auto simp: pool_state_def)
    ultimately show ?thesis using b5 False s w p' by auto
  qed
  then show "bump_ok (pool_state p')" and "served (pool_state p') n s"
    and "\<And>v. given_out (pool_state p) v \<Longrightarrow> given_out (pool_state p') v"
    and "\<And>m t. served (pool_state p) m t \<Longrightarrow> slices_apart t s"
    and "\<exists>new. tp_chunks p' = tp_chunks p @ new \<and> set (concat new) \<subseteq> {zero}"
    by blast+
qed

lemma alloc_all_step:
  "bump_ok (pool_state p) \<Longrightarrow> alloc_all zero ns p = (ss, p') \<Longrightarrow>
     bump_ok (pool_state p') \<and> list_all2 (served (pool_state p')) ns ss \<and>
     (\<forall>v. given_out (pool_state p) v \<longrightarrow> given_out (pool_state p') v) \<and>
     (\<forall>m t. served (pool_state p) m t \<longrightarrow> (\<forall>s\<in>set ss. slices_apart t s)) \<and>
     sorted_wrt slices_apart ss \<and>
     (\<exists>new. tp_chunks p' = tp_chunks p @ new \<and> set (concat new) \<subseteq> {zero})"
proof (induction ns arbitrary: p ss)
  case (Cons n ns)
  obtain s p1 where s: "tp_Alloc zero n p = (s, p1)" by (cases "tp_Alloc zero n p")
  obtain ss2 where ss: "alloc_all zero ns p1 = (ss2, p')" "ss = s # ss2"
    using Cons.prems(2) s by (auto split: prod.splits)
  note a = tp_Alloc_step [OF Cons.prems(1) s]
  note ih = Cons.IH [OF a(1) ss(1)]
  have "served (pool_state p') n s" using served_mono [OF a(2)] ih by blast
  moreover have "\<forall>m t. served (pool_state p) m t \<longrightarrow> (\<forall>s\<in>set ss. slices_apart t s)"
    using a(3,4) ih served_mono ss(2) by (metis set_ConsD)
  moreover have "\<exists>new. tp_chunks p' = tp_chunks p @ new \<and> set (concat new) \<subseteq> {zero}"
  proof -
    obtain n1 n2 where "tp_chunks p1 = tp_chunks p @ n1" "set (concat n1) \<subseteq> {zero}"
      "tp_chunks p' = tp_chunks p1 @ n2" "set (concat n2) \<subseteq> {zero}"
      using a(5) ih by blast
    then show ?thesis by (intro exI [of _ "n1 @ n2"]) auto
  qed
  ultimately show ?case using ih a(2,3) ss(2) by auto
qed simp

lemma pool_state_empty: "bump_ok (pool_state empty_pool)"
  by (simp add: bump_ok_def pool_state_def empty_pool_def)

text \<open>
  C22: However many slices are drawn from a \<^verbatim>\<open>TypedPool\<close>, a request of \<open>n \<le> 0\<close> gets nil and every
  other one a window of exactly the requested length inside one of the pool's chunks; no two of
  them overlap, and the pool never writes a chunk after making it, so all of them are zeroed.
\<close>

theorem pool_windows_disjoint:
  assumes "alloc_all zero ns empty_pool = (ss, p)"
  shows "list_all2 (\<lambda>n s. if n \<le> 0 then s = NilSlice
           else \<exists>c off. s = Window c off n \<and> window_in (tp_chunks p) (c, off, n)) ns ss \<and>
         sorted_wrt slices_apart ss \<and> set (concat (tp_chunks p)) \<subseteq> {zero}"
proof (intro conjI)
  note a = alloc_all_step [OF pool_state_empty assms]
  obtain new where new: "tp_chunks p = tp_chunks empty_pool @ new" "set (concat new) \<subseteq> {zero}"
    using a by blast
  then show "set (concat (tp_chunks p)) \<subseteq> {zero}" by (simp add: empty_pool_def)
  show "sorted_wrt slices_apart ss" using a by blast
  have "list_all2 (served (pool_state p)) ns ss" using a by blast
  then show "list_all2 (\<lambda>n s. if n \<le> 0 then s = NilSlice
           else \<exists>c off. s = Window c off n \<and> window_in (tp_chunks p) (c, off, n)) ns ss"
    by (rule list_all2_mono) (auto simp: pool_state_def given_out_def elim!: served.elims)
qed

theorem pool_windows_disjoint_witness:
  "fst (alloc_all (0 :: nat) [3, 0, 200, 300, 5] empty_pool) =
     [Window 0 0 3, NilSlice, Window 0 3 200, Window 1 0 300, Window 2 0 5] \<and>
   sorted_wrt slices_apart (fst (alloc_all (0 :: nat) [3, 0, 200, 300, 5] empty_pool))"
proof
  let ?r = "alloc_all (0 :: nat) [3, 0, 200, 300, 5] empty_pool"
  show "fst ?r = [Window 0 0 3, NilSlice, Window 0 3 200, Window 1 0 300, Window 2 0 5]"
    by (simp add: tp_Alloc_def bump_def cur_len_def empty_pool_def defaultChunkCap_def Let_def
        nth_append)
  show "sorted_wrt slices_apart (fst ?r)"
    by (rule pool_windows_disjoint [OF prod.collapse [symmetric], THEN conjunct2, THEN conjunct1])
qed

section \<open>MakeSlice and MakeMap\<close>

definition maxSliceAllocBytes :: u64 where "maxSliceAllocBytes = 2 ^ 24"

text \<open>
  \<open>'t\<close> stands for \<^verbatim>\<open>reflect.Type\<close>, with the zero value and \<^verbatim>\<open>Size()\<close> of a type as parameters. \<open>pools\<close> is
  the type assertion to \<^verbatim>\<open>SlicePoolStore\<close> followed by \<^verbatim>\<open>SlicePools()\<close>, \<open>set_pools\<close> the effect of
  writing through the map it returns.
\<close>

type_synonym ('t, 'v) pool_map = "'t \<Rightarrow> 'v typed_pool option"

definition draw ::
  "('t \<Rightarrow> 'v) \<Rightarrow> 't \<Rightarrow> int \<Rightarrow> ('t, 'v) pool_map \<Rightarrow> 'v gslice \<times> ('t, 'v) pool_map" where
  "draw zero rt n m =
     (let p = (case m rt of Some p \<Rightarrow> p | None \<Rightarrow> empty_pool) in
      case tp_Alloc (zero rt) n p of (s, p') \<Rightarrow> (s, m(rt \<mapsto> p')))"

definition MakeSlice ::
  "('t \<Rightarrow> 'v) \<Rightarrow> ('t \<Rightarrow> u64) \<Rightarrow> ('al \<Rightarrow> ('t, 'v) pool_map option) \<Rightarrow>
     (('t, 'v) pool_map \<Rightarrow> 'al \<Rightarrow> 'al) \<Rightarrow> 't \<Rightarrow> 'al reader option \<Rightarrow> int \<Rightarrow>
     'v gslice \<times> 'al reader option" where
  "MakeSlice zero sizeof pools set_pools rt r n =
     (if n = 0 then (NilSlice, r)
      else if maxSliceAllocBytes < go_uint64 n \<or> maxSliceAllocBytes < go_uint64 n * sizeof rt
      then (NilSlice, map_option (rd_set_err ErrAllocTooLarge) r)
      else case r of
        None \<Rightarrow> (Made (replicate (nat n) (zero rt)), r)
      | Some r1 \<Rightarrow>
          (case Option.bind (rd_alloc r1) (\<lambda>a. map_option (Pair a) (pools a)) of
             None \<Rightarrow> (Made (replicate (nat n) (zero rt)), r)
           | Some (a, m) \<Rightarrow>
               (case draw zero rt n m of
                  (s, m') \<Rightarrow> (s, Some (r1\<lparr>rd_alloc := Some (set_pools m' a)\<rparr>)))))"

definition mapHintCap :: int where "mapHintCap = 1024"

text \<open>\<^verbatim>\<open>MakeMap\<close> returns an empty map; what it decides is the size hint it passes to \<^verbatim>\<open>make\<close>.\<close>

definition make_map_hint :: "int \<Rightarrow> int" where
  "make_map_hint n = (if mapHintCap < n then mapHintCap else n)"

definition MakeMap :: "'al reader \<Rightarrow> int \<Rightarrow> ('k \<Rightarrow> 'w option) \<times> int" where
  "MakeMap r n = (\<lambda>_. None, make_map_hint n)"

fun gslice_len :: "'v gslice \<Rightarrow> int" where
  "gslice_len NilSlice = 0"
| "gslice_len (Window c off l) = l"
| "gslice_len (Made xs) = len xs"

lemma go_uint64_le:
  assumes "- (2 ^ 63) \<le> n" and "n < 2 ^ 63"
  shows "maxSliceAllocBytes < go_uint64 n \<longleftrightarrow> n < 0 \<or> 2 ^ 24 < n"
proof -
  have "uint (go_uint64 n) = n mod 2 ^ 64" by (simp add: go_uint64_def uint_word_of_int)
  also have "\<dots> = (if n < 0 then n + 2 ^ 64 else n)"
  proof (cases "n < 0")
    case True
    have "n mod 2 ^ 64 = (n + 2 ^ 64) mod 2 ^ 64" by simp
    also have "\<dots> = n + 2 ^ 64" using assms True by (intro mod_pos_pos_trivial) auto
    finally show ?thesis using True by simp
  next
    case False
    then show ?thesis using assms by simp
  qed
  finally show ?thesis
    using assms by (auto simp: word_less_def maxSliceAllocBytes_def)
qed

lemma go_uint64_times:
  assumes "0 \<le> n" and "n \<le> 2 ^ 24" and "uint (sz :: u64) < 2 ^ 40"
  shows "uint (go_uint64 n * sz) = n * uint sz"
proof -
  have n: "uint (go_uint64 n) = n"
    using assms by (simp add: go_uint64_def uint_word_of_int)
  have "n * uint sz \<le> 2 ^ 24 * uint sz" using assms by (intro mult_right_mono) auto
  also have "\<dots> < 2 ^ 24 * 2 ^ 40" using assms by simp
  finally have "n * uint sz < 2 ^ 64" by simp
  moreover have "0 \<le> n * uint sz" using assms by simp
  ultimately show ?thesis using n by (simp add: uint_word_arith_bintrs take_bit_eq_mod)
qed

lemma gslice_len_alloc:
  assumes "tp_Alloc zero n p = (s, p')" and "0 < n"
  shows "gslice_len s = n"
  using assms by (auto simp: tp_Alloc_def bump_def Let_def split: if_splits prod.splits)

text \<open>What a Reader is apart from its allocator.\<close>

definition sans_alloc :: "'al reader option \<Rightarrow> 'al reader option" where
  "sans_alloc = map_option (\<lambda>r. r\<lparr>rd_alloc := None\<rparr>)"

text \<open>
  \<^verbatim>\<open>MakeSlice\<close> for an element type below \<open>2 ^ 40\<close> bytes: no length gives nil; a negative length,
  or one whose memory would pass 16 MiB, gives nil and records \<^verbatim>\<open>ErrAllocTooLarge\<close> (unless an error is
  already recorded); every other call gives a slice of exactly the requested length within the
  budget, from the pool or from the heap, and changes nothing of the Reader but the allocator.
\<close>

theorem MakeSlice_budget:
  assumes "- (2 ^ 63) \<le> n" and "n < 2 ^ 63" and "uint (sizeof rt) < 2 ^ 40"
  shows "case MakeSlice zero sizeof pools set_pools rt r n of (s, r') \<Rightarrow>
     if n = 0 then s = NilSlice \<and> r' = r
     else if n < 0 \<or> 2 ^ 24 < n \<or> 2 ^ 24 < n * uint (sizeof rt)
     then s = NilSlice \<and> r' = map_option (rd_set_err ErrAllocTooLarge) r
     else gslice_len s = n \<and> sans_alloc r' = sans_alloc r"
proof -
  have m: "maxSliceAllocBytes < go_uint64 n * sizeof rt \<longleftrightarrow> 2 ^ 24 < n * uint (sizeof rt)"
    if "\<not> maxSliceAllocBytes < go_uint64 n"
    using go_uint64_times [of n "sizeof rt"] go_uint64_le [OF assms(1,2)] that assms(3)
    by (simp add: word_less_def maxSliceAllocBytes_def)
  show ?thesis
    using go_uint64_le [OF assms(1,2)] m
    by (auto simp: MakeSlice_def sans_alloc_def draw_def Let_def dest: gslice_len_alloc
        split: prod.split option.split)
qed

theorem MakeSlice_budget_witness:
  "fst (MakeSlice (\<lambda>_. 0 :: nat) (\<lambda>_. 16) (\<lambda>a :: unit. None) (\<lambda>_ a. a) () None (2 ^ 20 + 1)) = NilSlice \<and>
   gslice_len (fst (MakeSlice (\<lambda>_. 0 :: nat) (\<lambda>_. 16) (\<lambda>a :: unit. None) (\<lambda>_ a. a) ()
     (Some (new_reader [])) (2 ^ 20))) = 2 ^ 20"
  using MakeSlice_budget [where n = "2 ^ 20 + 1" and sizeof = "\<lambda>_. 16" and rt = "()"
      and zero = "\<lambda>_. 0 :: nat" and pools = "\<lambda>a :: unit. None" and set_pools = "\<lambda>_ a. a" and r = None]
    MakeSlice_budget [where n = "2 ^ 20" and sizeof = "\<lambda>_. 16" and rt = "()"
      and zero = "\<lambda>_. 0 :: nat" and pools = "\<lambda>a :: unit. None" and set_pools = "\<lambda>_ a. a"
      and r = "Some (new_reader [])"]
  by (simp add: case_prod_beta)

text \<open>
  Without the bound on the element size the product of the check can wrap: \<open>2 ^ 24\<close> elements of
  \<open>2 ^ 40\<close> bytes pass it.
\<close>

lemma MakeSlice_wraps:
  "fst (MakeSlice (\<lambda>_. 0 :: nat) (\<lambda>_. 2 ^ 40) (\<lambda>a :: unit. None) (\<lambda>_ a. a) () None (2 ^ 24)) \<noteq> NilSlice"
proof -
  have "go_uint64 (2 ^ 24) * 2 ^ 40 = 0" by (simp add: go_uint64_def)
  moreover have "\<not> maxSliceAllocBytes < go_uint64 (2 ^ 24)"
    by (simp add: go_uint64_def maxSliceAllocBytes_def)
  ultimately show ?thesis unfolding MakeSlice_def by simp
qed

lemma make_map_hint_bounds: "0 \<le> n \<Longrightarrow> 0 \<le> make_map_hint n \<and> make_map_hint n \<le> 1024"
  by (simp add: make_map_hint_def mapHintCap_def)

end
