(* ===== verification/Arena.thy ===== *)
theory Arena
  imports Slice_Pool
begin

text \<open>
  \<^verbatim>\<open>storage/gsbmarena/arena.go\<close>: the bump allocator for decoded strings and slices. A non-empty
  arena string is a window \<open>(chunk, offset, length)\<close> into the byte chunks; its bytes are read from
  there, so a later write into the window would show.
\<close>

type_synonym window = "nat \<times> int \<times> int"

record ('t, 'v) arena =
  ar_chunks :: "byte list list"
  ar_cur :: "nat option"
  ar_used :: int
  ar_pools :: "('t, 'v) pool_map option"

definition arenaChunkBytes :: int where "arenaChunkBytes = 4096"

definition NewArena :: "('t, 'v) arena" where
  "NewArena = \<lparr>ar_chunks = [], ar_cur = None, ar_used = 0, ar_pools = None\<rparr>"

definition ar_Release :: "('t, 'v) arena \<Rightarrow> ('t, 'v) arena" where
  "ar_Release a = a\<lparr>ar_chunks := [], ar_cur := None, ar_used := 0, ar_pools := None\<rparr>"

definition ar_state :: "('t, 'v) arena \<Rightarrow> byte list list \<times> nat option \<times> int" where
  "ar_state a = (ar_chunks a, ar_cur a, ar_used a)"

definition ar_allocBytes :: "('t, 'v) arena \<Rightarrow> int \<Rightarrow> window \<times> ('t, 'v) arena" where
  "ar_allocBytes a n =
     (case bump 0 arenaChunkBytes n (ar_state a) of
        (w, (chunks, cur, used)) \<Rightarrow>
          (w, a\<lparr>ar_chunks := chunks, ar_cur := cur, ar_used := used\<rparr>))"

text \<open>\<^verbatim>\<open>copy(dst, b)\<close> for a destination as long as its source.\<close>

definition copy_at :: "'a list \<Rightarrow> nat \<Rightarrow> 'a list \<Rightarrow> 'a list" where
  "copy_at xs off b = take off xs @ b @ drop (off + length b) xs"

definition ar_AcquireString ::
  "('t, 'v) arena \<Rightarrow> byte list \<Rightarrow> window option \<times> ('t, 'v) arena" where
  "ar_AcquireString a b =
     (if b = [] then (None, a)
      else case ar_allocBytes a (len b) of
        ((c, off, l), a') \<Rightarrow>
          (Some (c, off, l),
           a'\<lparr>ar_chunks := (ar_chunks a')[c := copy_at (ar_chunks a' ! c) (nat off) b]\<rparr>))"

definition ar_SlicePools :: "('t, 'v) arena \<Rightarrow> ('t, 'v) pool_map option" where
  "ar_SlicePools a = Some (case ar_pools a of None \<Rightarrow> (\<lambda>_. None) | Some m \<Rightarrow> m)"

definition ar_set_pools :: "('t, 'v) pool_map \<Rightarrow> ('t, 'v) arena \<Rightarrow> ('t, 'v) arena" where
  "ar_set_pools m a = a\<lparr>ar_pools := Some m\<rparr>"

definition AllocSlice :: "('t \<Rightarrow> 'v) \<Rightarrow> 't \<Rightarrow> ('t, 'v) arena \<Rightarrow> int \<Rightarrow> 'v gslice \<times> ('t, 'v) arena" where
  "AllocSlice zero rt a n =
     (if n \<le> 0 then (NilSlice, a)
      else case draw zero rt n (the (ar_SlicePools a)) of (s, m) \<Rightarrow> (s, ar_set_pools m a))"

text \<open>\<^verbatim>\<open>&s[0]\<close>: the address of a struct is its chunk and offset; \<open>None\<close> is the index panic.\<close>

definition AllocStruct :: "('t \<Rightarrow> 'v) \<Rightarrow> 't \<Rightarrow> ('t, 'v) arena \<Rightarrow> (nat \<times> int) option \<times> ('t, 'v) arena" where
  "AllocStruct zero rt a =
     (case AllocSlice zero rt a 1 of
        (Window c off l, a') \<Rightarrow> (if 0 < l then Some (c, off) else None, a')
      | (_, a') \<Rightarrow> (None, a'))"

section \<open>The allocator laws\<close>

definition ar_inv :: "('t, 'v) arena \<Rightarrow> bool" where
  "ar_inv a \<longleftrightarrow> bump_ok (ar_state a)"

definition ar_contents :: "('t, 'v) arena \<Rightarrow> window option \<Rightarrow> byte list" where
  "ar_contents a s =
     (case s of None \<Rightarrow> []
      | Some (c, off, l) \<Rightarrow> take (nat l) (drop (nat off) (ar_chunks a ! c)))"

definition ar_live :: "('t, 'v) arena \<Rightarrow> window option \<Rightarrow> bool" where
  "ar_live a s \<longleftrightarrow> (case s of None \<Rightarrow> True | Some w \<Rightarrow> given_out (ar_state a) w)"

lemma copy_at_length: "off + length b \<le> length xs \<Longrightarrow> length (copy_at xs off b) = length xs"
  by (simp add: copy_at_def)

lemma copy_at_read: "off + length b \<le> length xs \<Longrightarrow> take (length b) (drop off (copy_at xs off b)) = b"
  by (simp add: copy_at_def)

lemma copy_at_other:
  assumes "off + length b \<le> length xs" and "o' + l' \<le> length xs"
    and "o' + l' \<le> off \<or> off + length b \<le> o'"
  shows "take l' (drop o' (copy_at xs off b)) = take l' (drop o' xs)"
proof (rule nth_equalityI)
  show "length (take l' (drop o' (copy_at xs off b))) = length (take l' (drop o' xs))"
    using assms copy_at_length [OF assms(1)] by simp
  fix i assume i: "i < length (take l' (drop o' (copy_at xs off b)))"
  then have "o' + i < off \<or> off + length b \<le> o' + i" "o' + i < length xs"
    using assms copy_at_length [OF assms(1)] by auto
  then have "copy_at xs off b ! (o' + i) = xs ! (o' + i)"
    using assms(1) by (auto simp: copy_at_def nth_append)
  then show "take l' (drop o' (copy_at xs off b)) ! i = take l' (drop o' xs) ! i"
    using i assms copy_at_length [OF assms(1)] by simp
qed

lemma ar_AcquireString_step:
  assumes "ar_inv a" and "ar_AcquireString a b = (s, a')"
  shows "ar_inv a'" and "ar_live a' s" and "ar_contents a' s = b"
    and "\<And>t. ar_live a t \<Longrightarrow> ar_live a' t \<and> ar_contents a' t = ar_contents a t"
    and "\<And>v w. ar_live a (Some v) \<Longrightarrow> s = Some w \<Longrightarrow> apart v w"
proof -
  have "ar_inv a' \<and> ar_live a' s \<and> ar_contents a' s = b \<and>
    (\<forall>t. ar_live a t \<longrightarrow> ar_live a' t \<and> ar_contents a' t = ar_contents a t) \<and>
    (\<forall>v w. ar_live a (Some v) \<longrightarrow> s = Some w \<longrightarrow> apart v w)"
  proof (cases "b = []")
    case True
    then show ?thesis using assms by (simp add: ar_AcquireString_def ar_live_def ar_contents_def)
  next
    case False
    obtain w st where bm: "bump 0 arenaChunkBytes (len b) (ar_state a) = (w, st)"
      by (cases "bump 0 arenaChunkBytes (len b) (ar_state a)")
    obtain c off l chunks cur used where w: "w = (c, off, l)" "st = (chunks, cur, used)"
      by (cases w, cases st) auto
    have s: "s = Some (c, off, l)" and a': "ar_state a' = (chunks[c := copy_at (chunks ! c) (nat off) b], cur, used)"
        "ar_chunks a' = chunks[c := copy_at (chunks ! c) (nat off) b]"
      using assms(2) False bm w by (auto simp: ar_AcquireString_def ar_allocBytes_def ar_state_def)
    have "0 < len b" using False by simp
    note p = bump_step [OF assms(1) [unfolded ar_inv_def] this bm]
    have in_w: "c < length chunks" "0 \<le> off" "l = len b" "off + len b \<le> len (chunks ! c)"
      using p(2,3) w by (auto simp: given_out_def window_in_def)
    then have off: "nat off + length b \<le> length (chunks ! c)" by linarith
    have keep: "length (chunks[c := copy_at (chunks ! c) (nat off) b] ! i) = length (chunks ! i)" for i
      using in_w copy_at_length [OF off] by (cases "i = c") auto
    have inv: "bump_ok (ar_state a')"
      using p(1) w(2) keep by (auto simp: a' bump_ok_def split: option.splits)
    have given: "given_out (ar_state a') v \<longleftrightarrow> given_out st v" for v
      using keep w(2) by (cases v) (auto simp: a' given_out_def window_in_def)
    have old: "ar_contents a' (Some v) = ar_contents a (Some v)" if "given_out (ar_state a) v" for v
    proof -
      obtain c' off' l' where v: "v = (c', off', l')" by (cases v)
      have g: "given_out st v" "apart v w" using p(4) that by auto
      obtain new where "chunks = ar_chunks a @ new" using p(5) w by (auto simp: ar_state_def)
      then have same: "chunks ! c' = ar_chunks a ! c'"
        using that v by (simp add: given_out_def window_in_def ar_state_def nth_append)
      have v_in: "c' < length chunks" "0 \<le> off'" "0 \<le> l'" "off' + l' \<le> len (chunks ! c')"
        using g v w by (auto simp: given_out_def window_in_def)
      show ?thesis
      proof (cases "c' = c")
        case True
        have "nat off' + nat l' \<le> length (chunks ! c)"
          "nat off' + nat l' \<le> nat off \<or> nat off + length b \<le> nat off'"
          using g(2) v_in in_w v w True by (auto simp: apart_def)
        then have "take (nat l') (drop (nat off') (copy_at (chunks ! c) (nat off) b)) =
            take (nat l') (drop (nat off') (chunks ! c))"
          by (rule copy_at_other [OF off])
        then show ?thesis using v a' in_w True same by (simp add: ar_contents_def)
      qed (use v a' same in \<open>simp add: ar_contents_def\<close>)
    qed
    have "ar_contents a' s = b" using s a' in_w copy_at_read [OF off] by (simp add: ar_contents_def)
    moreover have "ar_live a' t \<and> ar_contents a' t = ar_contents a t" if "ar_live a t" for t
      using that old given p(4) by (cases t) (auto simp: ar_live_def ar_contents_def [of _ None])
    ultimately show ?thesis
      using inv given p(2,4) s w by (auto simp: ar_inv_def ar_live_def)
  qed
  then show "ar_inv a'" and "ar_live a' s" and "ar_contents a' s = b"
    and "\<And>t. ar_live a t \<Longrightarrow> ar_live a' t \<and> ar_contents a' t = ar_contents a t"
    and "\<And>v w. ar_live a (Some v) \<Longrightarrow> s = Some w \<Longrightarrow> apart v w"
    by blast+
qed

interpretation ar: string_allocator ar_inv ar_AcquireString ar_contents ar_live
proof
  fix a :: "('t, 'v) arena" and b s a' assume a: "ar_inv a" "ar_AcquireString a b = (s, a')"
  note st = ar_AcquireString_step [OF a]
  show "ar_inv a'" by (rule st(1))
  show "ar_live a' s \<and> ar_contents a' s = b" by (rule conjI [OF st(2,3)])
  show "ar_live a' t \<and> ar_contents a' t = ar_contents a t" if "ar_live a t" for t
    by (rule st(4) [OF that])
qed

section \<open>Strings and slices of one arena\<close>

fun windows_apart :: "window option \<Rightarrow> window option \<Rightarrow> bool" where
  "windows_apart (Some v) (Some w) = apart v w"
| "windows_apart _ _ = True"

lemma acquire_all_apart:
  "ar_inv a \<Longrightarrow> acquire_all ar_AcquireString a bs = (ss, a') \<Longrightarrow>
     sorted_wrt windows_apart ss \<and> (\<forall>t. ar_live a t \<longrightarrow> (\<forall>s\<in>set ss. windows_apart t s))"
proof (induction bs arbitrary: a ss)
  case (Cons b bs)
  obtain s a1 where s: "ar_AcquireString a b = (s, a1)" by (cases "ar_AcquireString a b")
  obtain ss2 where ss: "acquire_all ar_AcquireString a1 bs = (ss2, a')" "ss = s # ss2"
    using Cons.prems(2) s by (auto split: prod.splits)
  note st = ar_AcquireString_step [OF Cons.prems(1) s]
  have "windows_apart t s" if "ar_live a t" for t
    using that st(5) by (cases t; cases s) auto
  then show ?case using Cons.IH [OF st(1) ss(1)] st(2,4) ss(2) by auto
qed simp

lemma ar_inv_new [simp]: "ar_inv NewArena" and ar_inv_release [simp]: "ar_inv (ar_Release a)"
  by (simp_all add: ar_inv_def bump_ok_def ar_state_def NewArena_def ar_Release_def)

text \<open>
  C20: The strings of an arena. However many are acquired from a new or released arena, each of
  them reads the bytes asked for at the end, a zero-length one without memory, and no two of
  them share a byte; they also stay what they were while slices and structs are drawn.
\<close>

theorem arena_strings_stable:
  assumes "acquire_all ar_AcquireString (ar_Release a0) bs = (ss, a)"
  shows "map (ar_contents a) ss = bs \<and> sorted_wrt windows_apart ss \<and>
     map (ar_contents (snd (AllocSlice zero rt a n))) ss = bs \<and>
     map (ar_contents (snd (AllocStruct zero rt a))) ss = bs"
proof -
  have *: "ar_contents (snd (AllocSlice zero rt a n)) = ar_contents a" for n
    by (auto simp: AllocSlice_def ar_set_pools_def ar_contents_def fun_eq_iff split: prod.split option.split)
  have "snd (AllocStruct zero rt a) = snd (AllocSlice zero rt a 1)"
    by (simp add: AllocStruct_def case_prod_beta split: gslice.split)
  then show ?thesis
    using ar.acquire_all_contents [OF ar_inv_release assms] acquire_all_apart [OF ar_inv_release assms] *
    by simp
qed

theorem arena_strings_stable_witness:
  "fst (acquire_all ar_AcquireString (ar_Release (NewArena :: (nat, nat) arena)) [[65], [], [66, 67]]) =
     [Some (0, 0, 1), None, Some (0, 1, 2)] \<and>
   map (ar_contents (snd (acquire_all ar_AcquireString (ar_Release (NewArena :: (nat, nat) arena))
     [[65], [], [66, 67]]))) [Some (0, 0, 1), None, Some (0, 1, 2)] = [[65], [], [66, 67]]"
proof
  let ?r = "acquire_all ar_AcquireString (ar_Release (NewArena :: (nat, nat) arena)) [[65], [], [66, 67]]"
  show f: "fst ?r = [Some (0, 0, 1), None, Some (0, 1, 2)]"
    by (simp add: ar_AcquireString_def ar_allocBytes_def bump_def cur_len_def ar_state_def
        ar_Release_def arenaChunkBytes_def copy_at_length)
  show "map (ar_contents (snd ?r)) [Some (0, 0, 1), None, Some (0, 1, 2)] = [[65], [], [66, 67]]"
    unfolding f [symmetric]
    by (rule arena_strings_stable [OF prod.collapse [symmetric], THEN conjunct1])
qed

text \<open>\<^verbatim>\<open>AllocStruct\<close> never hits the index panic.\<close>

lemma AllocStruct_some: "fst (AllocStruct zero rt a) \<noteq> None"
  by (auto simp: AllocStruct_def AllocSlice_def draw_def tp_Alloc_def bump_def Let_def
      split: prod.splits if_splits)

end
