(* ===== verification/Decode_Into.thy ===== *)
theory Decode_Into
  imports Interner Arena
begin

text \<open>
  \<^verbatim>\<open>storage/gsbm/decode_into.go\<close> and \<^verbatim>\<open>DecodeInterned\<close> of \<^verbatim>\<open>intern.go\<close>. A \<^verbatim>\<open>GSBMRoot\<close> is the receiver's
  state with its two methods: \<^verbatim>\<open>Reset\<close>, and \<^verbatim>\<open>UnmarshalGSBM\<close>, which may have changed the receiver
  when it fails.
\<close>

type_synonym ('al, 'd) unmarshaler = "'d \<Rightarrow> 'al reader \<Rightarrow> (unit outcome \<times> 'd) \<times> 'al reader"

text \<open>The tail of the three entry points: \<^verbatim>\<open>UnmarshalGSBM\<close>, then the Reader's sticky error.\<close>

definition finish_decode ::
  "('al, 'd) unmarshaler \<Rightarrow> 'd \<Rightarrow> 'al reader \<Rightarrow> unit outcome \<times> 'd" where
  "finish_decode unm dst r =
     (case unm dst r of
        ((Ret _, dst'), r') \<Rightarrow> ((case rd_err r' of None \<Rightarrow> Ret () | Some e \<Rightarrow> Fail e), dst')
      | ((Fail e, dst'), r') \<Rightarrow> (Fail e, dst')
      | ((Panic, dst'), r') \<Rightarrow> (Panic, dst'))"

definition DecodeInto ::
  "codec_lib \<Rightarrow> int \<Rightarrow> ('d \<Rightarrow> 'd) \<Rightarrow> ('al, 'd) unmarshaler \<Rightarrow> byte list \<Rightarrow> 'd \<Rightarrow> unit outcome \<times> 'd" where
  "DecodeInto lib max_int reset unm data dst =
     (case rd_ReadHeader lib max_int (new_reader data) of
        (Ret _, r) \<Rightarrow> finish_decode unm (reset dst) r
      | (Fail e, r) \<Rightarrow> (Fail e, reset dst)
      | (Panic, r) \<Rightarrow> (Panic, reset dst))"

definition DecodeBodyInto ::
  "('d \<Rightarrow> 'd) \<Rightarrow> ('al, 'd) unmarshaler \<Rightarrow> byte list \<Rightarrow> 'd \<Rightarrow> unit outcome \<times> 'd" where
  "DecodeBodyInto reset unm data dst = finish_decode unm (reset dst) (new_reader data)"

definition DecodeInterned ::
  "codec_lib \<Rightarrow> int \<Rightarrow> ('d \<Rightarrow> 'd) \<Rightarrow> (interner \<times> str_heap, 'd) unmarshaler \<Rightarrow> str_heap \<Rightarrow>
     byte list \<Rightarrow> 'd \<Rightarrow> unit outcome \<times> 'd" where
  "DecodeInterned lib max_int reset unm h data dst =
     (case rd_ReadHeader lib max_int (rd_set_allocator (Some (NewInterner, h)) (new_reader data)) of
        (Ret _, r) \<Rightarrow> finish_decode unm (reset dst) r
      | (Fail e, r) \<Rightarrow> (Fail e, reset dst)
      | (Panic, r) \<Rightarrow> (Panic, reset dst))"

section \<open>Allocators do not show\<close>

lemma inflate_alloc:
  "rd_inflate_body lib m c n x (r\<lparr>rd_alloc := a\<rparr>) =
     map_prod id (\<lambda>s. s\<lparr>rd_alloc := a\<rparr>) (rd_inflate_body lib m c n x r)"
  by (simp add: rd_inflate_body_def rd_fail_alloc split: option.split outcome.split)

lemma inflate_alloc_pos:
  "rd_inflate_body lib m c n x (r\<lparr>rd_alloc := a, rd_pos := p\<rparr>) =
     map_prod id (\<lambda>s. s\<lparr>rd_alloc := a\<rparr>) (rd_inflate_body lib m c n x (r\<lparr>rd_pos := p\<rparr>))"
proof -
  have "r\<lparr>rd_alloc := a, rd_pos := p\<rparr> = (r\<lparr>rd_pos := p\<rparr>)\<lparr>rd_alloc := a\<rparr>" by simp
  then show ?thesis by (simp only: inflate_alloc)
qed

lemma blind_ReadHeader: "blind (rd_ReadHeader lib max_int)"
  unfolding rd_ReadHeader_def
  by (rule blind_guard, rule blindI)
    (simp add: Let_def rd_fail_alloc inflate_alloc_pos split: option.split outcome.split)

text \<open>The mirrored unmarshaler: it reads the values of a shape into the receiver.\<close>

definition shape_unm :: "'al acquire \<Rightarrow> shape list \<Rightarrow> ('al, item list) unmarshaler" where
  "shape_unm acq ss d r =
     (case rd_shapes acq ss r of
        (Ret xs, r') \<Rightarrow> ((Ret (), xs), r')
      | (Fail e, r') \<Rightarrow> ((Fail e, d), r')
      | (Panic, r') \<Rightarrow> ((Panic, d), r'))"

definition unm_agrees ::
  "('al \<Rightarrow> bool) \<Rightarrow> ('al, 'd) unmarshaler \<Rightarrow> ('al, 'd) unmarshaler \<Rightarrow> bool" where
  "unm_agrees ainv u v \<longleftrightarrow>
     (\<forall>d r. alloc_inv ainv r \<longrightarrow>
        fst (u d r) = fst (v d (r\<lparr>rd_alloc := None\<rparr>)) \<and>
        (snd (u d r))\<lparr>rd_alloc := None\<rparr> = snd (v d (r\<lparr>rd_alloc := None\<rparr>)))"

lemma shape_unm_agrees:
  assumes "agrees ainv (rd_shapes a1 ss) (rd_shapes a2 ss)"
  shows "unm_agrees ainv (shape_unm a1 ss) (shape_unm a2 ss)"
  unfolding unm_agrees_def
proof (intro allI impI)
  fix d and r :: "'a reader" assume r: "alloc_inv ainv r"
  have "fst (rd_shapes a1 ss r) = fst (rd_shapes a2 ss (r\<lparr>rd_alloc := None\<rparr>))"
    "(snd (rd_shapes a1 ss r))\<lparr>rd_alloc := None\<rparr> = snd (rd_shapes a2 ss (r\<lparr>rd_alloc := None\<rparr>))"
    using assms r by (auto simp: agrees_def)
  then show "fst (shape_unm a1 ss d r) = fst (shape_unm a2 ss d (r\<lparr>rd_alloc := None\<rparr>)) \<and>
      (snd (shape_unm a1 ss d r))\<lparr>rd_alloc := None\<rparr> = snd (shape_unm a2 ss d (r\<lparr>rd_alloc := None\<rparr>))"
    by (auto simp: shape_unm_def split: prod.split outcome.split)
qed

lemma finish_decode_agrees:
  assumes "unm_agrees ainv u v" and "alloc_inv ainv r"
  shows "finish_decode u d r = finish_decode v d (r\<lparr>rd_alloc := None\<rparr>)"
proof -
  obtain x r1 where u: "u d r = (x, r1)" by (cases "u d r")
  obtain y r2 where v: "v d (r\<lparr>rd_alloc := None\<rparr>) = (y, r2)" by (cases "v d (r\<lparr>rd_alloc := None\<rparr>)")
  have "fst (u d r) = fst (v d (r\<lparr>rd_alloc := None\<rparr>))"
    "(snd (u d r))\<lparr>rd_alloc := None\<rparr> = snd (v d (r\<lparr>rd_alloc := None\<rparr>))"
    using assms by (auto simp: unm_agrees_def)
  then have "x = y" "r1\<lparr>rd_alloc := None\<rparr> = r2" using u v by simp_all
  moreover from this(2) have "rd_err r1 = rd_err r2" by auto
  ultimately show ?thesis using u v by (simp add: finish_decode_def split: prod.split outcome.split)
qed

lemma ReadHeader_alloc:
  "rd_ReadHeader lib m (r\<lparr>rd_alloc := x\<rparr>) =
     (fst (rd_ReadHeader lib m r), (snd (rd_ReadHeader lib m r))\<lparr>rd_alloc := x\<rparr>)"
  by (rule blind_ReadHeader [unfolded blind_def, rule_format])

lemma new_reader_alloc: "(new_reader b)\<lparr>rd_alloc := None\<rparr> = new_reader b"
  by (simp add: new_reader_def)

lemma DecodeInterned_eq:
  assumes "unm_agrees it_inv u v"
  shows "DecodeInterned lib m reset u h data dst = DecodeInto lib m reset v data dst"
proof -
  let ?r0 = "new_reader data :: (interner \<times> str_heap) reader"
  obtain res r where h: "rd_ReadHeader lib m ?r0 = (res, r)" by (cases "rd_ReadHeader lib m ?r0")
  have r: "r\<lparr>rd_alloc := None\<rparr> = r"
    using h ReadHeader_alloc [where r = ?r0 and x = None and lib = lib and m = m] by (simp add: new_reader_alloc)
  have "it_inv (NewInterner, h)" using it_inv_new [of 0 h]
    by (simp add: NewInterner_def NewInternerN_def)
  then have "alloc_inv it_inv (r\<lparr>rd_alloc := Some (NewInterner, h)\<rparr>)" by (simp add: alloc_inv_def)
  from finish_decode_agrees [OF assms this, of "reset dst"]
  have "finish_decode u (reset dst) (r\<lparr>rd_alloc := Some (NewInterner, h)\<rparr>) =
      finish_decode v (reset dst) r"
    using r by simp
  then show ?thesis
    using h ReadHeader_alloc [where r = ?r0 and x = "Some (NewInterner, h)" and lib = lib and m = m]
    by (simp add: DecodeInterned_def DecodeInto_def rd_set_allocator_def split: outcome.split)
qed

section \<open>Properties\<close>

lemma DecodeInto_marshalled:
  assumes "marshal_with_options el v hint opts g = (Ret blob, g')"
    and "codec_laws lib el" and "codec_lib_ok lib" and "2 ^ 32 + 15 \<le> max_int" and "max_int < 2 ^ 63"
  shows "\<exists>xs sc. resolves v (Map.empty, g) = (Ret xs, sc, g') \<and>
     (\<forall>acq dst. transparent acq \<longrightarrow>
        DecodeInto lib max_int reset (shape_unm acq (map shape_of xs)) blob dst = (Ret (), xs))"
proof -
  obtain xs sc flags n where h: "resolves v (Map.empty, g) = (Ret xs, sc, g')"
      "hdr_parse lib max_int blob = Ret ((flags, hint, n), enc_items xs)" "len blob < 2 ^ 63"
    using encode_decode_header [OF assms(1,2,4,5)] by blast
  have "DecodeInto lib max_int reset (shape_unm acq (map shape_of xs)) blob dst = (Ret (), xs)"
    if tr: "transparent acq" for acq :: "'b acquire" and dst
  proof -
    let ?r = "new_reader blob :: 'b reader"
    have wf: "rd_wf ?r" "rd_err ?r = None" "rd_rest ?r = blob"
      using h(3) by (simp_all add: new_reader_def rd_wf_def rd_rest_def)
    obtain res r where rr: "rd_ReadHeader lib max_int ?r = (res, r)"
      by (cases "rd_ReadHeader lib max_int ?r")
    have "hdr_sim (res, r) (Ret ((flags, hint, n), enc_items xs))"
      using rd_ReadHeader_sim [OF wf(1,2) assms(3) _ assms(5)] assms(4) rr wf(3) h(2) by simp
    then have r: "res = Ret (flags, hint, n)" "rd_wf r" "rd_err r = None" "rd_rest r = enc_items xs"
      by (simp_all add: hdr_sim_def)
    obtain s where s: "rd_shapes acq (map shape_of xs) r = (Ret xs, s)" "rd_err s = None"
      using reads_items [OF tr _ r(2,3), of xs "[]"] resolves_valid [OF h(1)] r(4)
      by (auto simp: reads_def)
    then show ?thesis using rr r(1) s(1) by (simp add: DecodeInto_def finish_decode_def shape_unm_def)
  qed
  then show ?thesis using h(1) by blast
qed





end
