(* ===== verification/Presence_Track.thy ===== *)
theory Presence_Track
  imports Gsbm_Prelude
begin

text \<open>
  \<^verbatim>\<open>storage/gsbm/presence_track.go\<close>: the package-level sidecar that records which tags were decoded
  into a receiver. A receiver is the two words of its interface value, \<open>None\<close> the nil interface.
  Every operation is one step; the word operations are atomic in the code and the map operations
  are linearizable, so a sequence of steps is what an execution amounts to.
\<close>

definition MaxTrackedTag :: u32 where "MaxTrackedTag = 1024"

type_synonym presence_mask = "u64 list"
datatype receiver_key = Key (rk_typ: nat) (rk_ptr: nat)

type_synonym receiver = "receiver_key option"
type_synonym presence_store = "receiver_key \<Rightarrow> presence_mask option"

definition mask_word :: "u32 \<Rightarrow> nat" where
  "mask_word tag = unat (drop_bit 6 (tag - 1))"

definition mask_bit :: "u32 \<Rightarrow> u64" where
  "mask_bit tag = push_bit (unat ((tag - 1) AND 63)) 1"

definition mask_set :: "u32 \<Rightarrow> presence_mask \<Rightarrow> presence_mask" where
  "mask_set tag m = m[mask_word tag := m ! mask_word tag OR mask_bit tag]"

definition mask_get :: "u32 \<Rightarrow> presence_mask \<Rightarrow> bool" where
  "mask_get tag m \<longleftrightarrow> m ! mask_word tag AND mask_bit tag \<noteq> 0"

definition mask_clear :: "presence_mask \<Rightarrow> presence_mask" where
  "mask_clear m = map (\<lambda>_. 0) m"

definition empty_mask :: presence_mask where
  "empty_mask = replicate 16 0"

definition make_key :: "receiver \<Rightarrow> receiver_key" where
  "make_key r = (case r of None \<Rightarrow> Key 0 0 | Some k \<Rightarrow> k)"

text \<open>
  \<^verbatim>\<open>MarkPresent\<close>: \<^verbatim>\<open>Load\<close>, and on a miss \<^verbatim>\<open>LoadOrStore\<close> of a mask with the bit already set.
\<close>

definition MarkPresent :: "receiver \<Rightarrow> u32 \<Rightarrow> presence_store \<Rightarrow> presence_store" where
  "MarkPresent r tag st =
     (if tag = 0 \<or> MaxTrackedTag < tag then st
      else let key = make_key r in
        if rk_ptr key = 0 then st
        else case st key of
          Some m \<Rightarrow> st(key \<mapsto> mask_set tag m)
        | None \<Rightarrow> st(key \<mapsto> mask_set tag empty_mask))"

definition ClearPresence :: "receiver \<Rightarrow> presence_store \<Rightarrow> presence_store" where
  "ClearPresence r st =
     (let key = make_key r in
      if rk_ptr key = 0 then st
      else case st key of None \<Rightarrow> st | Some m \<Rightarrow> st(key \<mapsto> mask_clear m))"

definition ForgetPresence :: "receiver \<Rightarrow> presence_store \<Rightarrow> presence_store" where
  "ForgetPresence r st = (let key = make_key r in if rk_ptr key = 0 then st else st(key := None))"

definition ResetPresenceStore :: "presence_store \<Rightarrow> presence_store" where
  "ResetPresenceStore st = (\<lambda>_. None)"

definition IsPresent :: "receiver \<Rightarrow> u32 \<Rightarrow> presence_store \<Rightarrow> bool" where
  "IsPresent r tag st \<longleftrightarrow>
     (if tag = 0 \<or> MaxTrackedTag < tag then False
      else let key = make_key r in
        if rk_ptr key = 0 then False
        else case st key of None \<Rightarrow> False | Some m \<Rightarrow> mask_get tag m)"

section \<open>The mask is a set of tags\<close>

definition trackable :: "u32 \<Rightarrow> bool" where
  "trackable tag \<longleftrightarrow> tag \<noteq> 0 \<and> tag \<le> MaxTrackedTag"

lemma trackable_unat:
  assumes "trackable tag"
  shows "unat (tag - 1) = unat tag - 1" and "1 \<le> unat tag" and "unat tag \<le> 1024"
proof -
  have "0 < unat tag" using assms by (simp add: trackable_def unat_gt_0)
  then show "1 \<le> unat tag" by simp
  have "1 \<le> tag" using assms by (simp add: trackable_def word_le_nat_alt Suc_leI unat_gt_0)
  then show "unat (tag - 1) = unat tag - 1" by (simp add: unat_sub)
  have "unat tag \<le> unat (1024 :: u32)"
    using assms by (simp add: trackable_def MaxTrackedTag_def word_le_nat_alt)
  then show "unat tag \<le> 1024" by simp
qed

lemma mask_word_eq: "trackable tag \<Longrightarrow> mask_word tag = (unat tag - 1) div 64"
  by (simp add: mask_word_def unat_div drop_bit_eq_div trackable_unat)

lemma mask_shift_eq: "trackable tag \<Longrightarrow> unat ((tag - 1) AND 63) = (unat tag - 1) mod 64"
proof -
  assume t: "trackable tag"
  have "unat ((tag - 1) AND 63) = unat (tag - 1) AND 63" by (simp add: unsigned_and_eq)
  also have "\<dots> = take_bit 6 (unat (tag - 1))" by (simp add: take_bit_eq_mask mask_eq_exp_minus_1)
  finally show ?thesis using t by (simp add: take_bit_eq_mod trackable_unat)
qed

lemma mask_word_less: "trackable tag \<Longrightarrow> mask_word tag < 16"
  using trackable_unat [of tag] by (simp add: mask_word_eq)

lemma bit_get:
  assumes "i < 64"
  shows "w AND push_bit i 1 \<noteq> 0 \<longleftrightarrow> bit (w :: u64) i"
proof -
  have "w AND push_bit i 1 = (if bit w i then push_bit i 1 else 0)"
    using assms by (intro bit_word_eqI) (auto simp: bit_simps)
  moreover have "bit (push_bit i (1 :: u64)) i" using assms by (simp add: bit_simps)
  then have "push_bit i (1 :: u64) \<noteq> 0" by (metis bit_0_eq bot_apply bot_bool_def)
  ultimately show ?thesis by simp
qed

lemma mask_get_bit:
  "trackable t \<Longrightarrow> mask_get t m \<longleftrightarrow> bit (m ! mask_word t) ((unat t - 1) mod 64)"
  unfolding mask_get_def mask_bit_def by (simp only: mask_shift_eq bit_get mod_less_divisor zero_less_numeral)

lemma tag_split_eq:
  assumes "trackable s" and "trackable t"
  shows "(unat s - 1) div 64 = (unat t - 1) div 64 \<and> (unat s - 1) mod 64 = (unat t - 1) mod 64
    \<longleftrightarrow> s = t"
proof -
  have "unat s - 1 = unat t - 1 \<longleftrightarrow> s = t"
    using trackable_unat [OF assms(1)] trackable_unat [OF assms(2)] by (auto simp: word_unat_eq_iff)
  then show ?thesis by (metis div_mult_mod_eq)
qed

lemma mask_get_set:
  assumes "trackable s" and "trackable t" and "length m = 16"
  shows "mask_get s (mask_set t m) \<longleftrightarrow> s = t \<or> mask_get s m"
proof (cases "mask_word s = mask_word t")
  case True
  have "bit (m ! mask_word t OR mask_bit t) ((unat s - 1) mod 64) \<longleftrightarrow>
      bit (m ! mask_word t) ((unat s - 1) mod 64) \<or> (unat s - 1) mod 64 = (unat t - 1) mod 64"
    using assms by (auto simp: mask_bit_def mask_shift_eq bit_simps)
  then show ?thesis
    using True tag_split_eq [OF assms(1,2)] mask_word_less [OF assms(2)] assms
    by (auto simp: mask_get_bit mask_set_def mask_word_eq)
next
  case False
  then show ?thesis using assms by (auto simp: mask_get_bit mask_set_def)
qed

lemma mask_set_length: "length (mask_set t m) = length m"
  by (simp add: mask_set_def)

lemma mask_get_empty: "trackable t \<Longrightarrow> \<not> mask_get t empty_mask"
  using mask_word_less [of t] by (simp add: mask_get_def empty_mask_def)

lemma mask_get_clear: "trackable t \<Longrightarrow> length m = 16 \<Longrightarrow> \<not> mask_get t (mask_clear m)"
  using mask_word_less [of t] by (simp add: mask_get_def mask_clear_def)

section \<open>The sidecar as a state machine\<close>

datatype pr_op = Mark receiver u32 | Clear receiver | Forget receiver | ResetStore

fun pr_run :: "pr_op \<Rightarrow> presence_store \<Rightarrow> presence_store" where
  "pr_run (Mark r tag) st = MarkPresent r tag st"
| "pr_run (Clear r) st = ClearPresence r st"
| "pr_run (Forget r) st = ForgetPresence r st"
| "pr_run ResetStore st = ResetPresenceStore st"

text \<open>The abstract state: which tags of which receiver are marked.\<close>

type_synonym presence_set = "(receiver_key \<times> u32) set"

fun pr_spec :: "pr_op \<Rightarrow> presence_set \<Rightarrow> presence_set" where
  "pr_spec (Mark (Some k) tag) S = (if trackable tag \<and> rk_ptr k \<noteq> 0 then insert (k, tag) S else S)"
| "pr_spec (Clear (Some k)) S = {p \<in> S. fst p \<noteq> k}"
| "pr_spec (Forget (Some k)) S = {p \<in> S. fst p \<noteq> k}"
| "pr_spec ResetStore S = {}"
| "pr_spec _ S = S"

inductive pr_reach :: "presence_store \<Rightarrow> presence_set \<Rightarrow> bool" where
  pr_start: "pr_reach (\<lambda>_. None) {}"
| pr_step: "pr_reach st S \<Longrightarrow> pr_reach (pr_run op st) (pr_spec op S)"

definition pr_inv :: "presence_store \<Rightarrow> presence_set \<Rightarrow> bool" where
  "pr_inv st S \<longleftrightarrow>
     (\<forall>k m. st k = Some m \<longrightarrow> length m = 16 \<and> rk_ptr k \<noteq> 0) \<and>
     (\<forall>k t. trackable t \<longrightarrow> (k, t) \<in> S \<longleftrightarrow> (\<exists>m. st k = Some m \<and> mask_get t m)) \<and>
     (\<forall>(k, t)\<in>S. trackable t)"

lemma trackable_iff: "tag = 0 \<or> MaxTrackedTag < tag \<longleftrightarrow> \<not> trackable tag"
  by (auto simp: trackable_def)

lemma pr_inv_nil: "pr_inv st S \<Longrightarrow> rk_ptr k = 0 \<Longrightarrow> st k = None"
  unfolding pr_inv_def by (metis not_None_eq)

lemma pr_inv_mark:
  assumes "pr_inv st S"
  shows "pr_inv (MarkPresent r tag st) (pr_spec (Mark r tag) S)"
proof (cases "trackable tag \<and> rk_ptr (make_key r) \<noteq> 0")
  case False
  then have "MarkPresent r tag st = st"
    by (auto simp: MarkPresent_def trackable_iff Let_def)
  moreover have "pr_spec (Mark r tag) S = S"
    using False by (cases r) (auto simp: make_key_def)
  ultimately show ?thesis using assms by simp
next
  case True
  then obtain k where k: "r = Some k" "rk_ptr k \<noteq> 0" "make_key r = k"
    by (cases r) (auto simp: make_key_def)
  define m where "m = (case st k of Some m \<Rightarrow> m | None \<Rightarrow> empty_mask)"
  have m: "length m = 16" "\<And>t. trackable t \<Longrightarrow> mask_get t m \<longleftrightarrow> (k, t) \<in> S"
    using assms mask_get_empty
    by (auto simp: m_def pr_inv_def empty_mask_def split: option.splits)
  have st: "MarkPresent r tag st = st(k \<mapsto> mask_set tag m)"
    using True k by (auto simp: MarkPresent_def trackable_iff m_def Let_def split: option.splits)
  show ?thesis
    using assms True k m mask_get_set [OF _ _ m(1)]
    unfolding pr_inv_def st by (auto simp: mask_set_length)
qed

lemma pr_inv_step: "pr_inv st S \<Longrightarrow> pr_inv (pr_run op st) (pr_spec op S)"
proof (cases op)
  case (Mark r tag)
  then show "pr_inv st S \<Longrightarrow> ?thesis" using pr_inv_mark by simp
next
  case (Clear r)
  assume a: "pr_inv st S"
  show ?thesis
    using a Clear mask_get_clear pr_inv_nil [OF a]
    by (cases r) (auto simp: pr_inv_def ClearPresence_def make_key_def mask_clear_def Let_def
        split: option.split)
next
  case (Forget r)
  assume a: "pr_inv st S"
  show ?thesis
    using a Forget pr_inv_nil [OF a] by (cases r) (auto simp: pr_inv_def ForgetPresence_def make_key_def Let_def)
next
  case ResetStore
  then show "pr_inv st S \<Longrightarrow> ?thesis" by (auto simp: pr_inv_def ResetPresenceStore_def)
qed

lemma pr_reach_inv: "pr_reach st S \<Longrightarrow> pr_inv st S"
proof (induction rule: pr_reach.induct)
  case pr_start
  show ?case by (simp add: pr_inv_def)
next
  case (pr_step st S op)
  show ?case by (rule pr_inv_step [OF pr_step.IH])
qed

text \<open>
  C23: The presence sidecar is a set of (receiver, tag) pairs. After any sequence of \<^verbatim>\<open>MarkPresent\<close>,
  \<^verbatim>\<open>ClearPresence\<close>, \<^verbatim>\<open>ForgetPresence\<close> and \<^verbatim>\<open>ResetPresenceStore\<close>, \<^verbatim>\<open>IsPresent\<close> answers exactly whether the
  pair was marked and not cleared since; tag 0, tags above 1024 and nil receivers are never
  present, and no two tags or receivers share a bit.
\<close>

theorem presence_sidecar_refines:
  assumes "pr_reach st S"
  shows "IsPresent r tag st \<longleftrightarrow> (\<exists>k. r = Some k \<and> (k, tag) \<in> S)"
proof -
  note i = pr_reach_inv [OF assms]
  show ?thesis
    using i pr_inv_nil [OF i] by (cases r) (auto simp: IsPresent_def trackable_iff pr_inv_def make_key_def Let_def
        split: option.splits)
qed

theorem presence_sidecar_refines_witness:
  "IsPresent (Some (Key 7 9)) 65 (pr_run (Mark (Some (Key 7 9)) 65) (\<lambda>_. None)) \<and>
   \<not> IsPresent (Some (Key 7 9)) 1 (pr_run (Mark (Some (Key 7 9)) 65) (\<lambda>_. None))"
proof -
  have r: "pr_reach (pr_run (Mark (Some (Key 7 9)) 65) (\<lambda>_. None)) (pr_spec (Mark (Some (Key 7 9)) 65) {})"
    by (rule pr_step [OF pr_start])
  show ?thesis
    using presence_sidecar_refines [OF r, of "Some (Key 7 9)" 65]
      presence_sidecar_refines [OF r, of "Some (Key 7 9)" 1]
    by (simp add: trackable_def MaxTrackedTag_def)
qed

end
