(* ===== verification/Schema_Types.thy ===== *)
theory Schema_Types
  imports Gsbm_Prelude "HOL-Library.Char_ord" "HOL-Library.List_Lexorder" "HOL-Library.Multiset"
begin

text \<open>
  \<^verbatim>\<open>tools/gsbmschema/types.go\<close>: the schema model, with the string operations of the Go library the
  schema tools use. A Go string is a \<^typ>\<open>string\<close> of bytes, compared lexicographically. A map built
  by inserting a slice's elements keeps the last element of a key.
\<close>

section \<open>Strings\<close>

definition has_prefix :: "string \<Rightarrow> string \<Rightarrow> bool" where
  "has_prefix p s \<longleftrightarrow> take (length p) s = p"

definition trim_prefix :: "string \<Rightarrow> string \<Rightarrow> string" where
  "trim_prefix p s = (if has_prefix p s then drop (length p) s else s)"

definition has_suffix :: "string \<Rightarrow> string \<Rightarrow> bool" where
  "has_suffix p s \<longleftrightarrow> length p \<le> length s \<and> drop (length s - length p) s = p"

lemma has_prefix_append [simp]: "has_prefix p (p @ s)"
  by (simp add: has_prefix_def)

lemma trim_prefix_append [simp]: "trim_prefix p (p @ s) = s"
  by (simp add: trim_prefix_def)

lemma has_prefix_iff: "has_prefix p s \<longleftrightarrow> (\<exists>t. s = p @ t)"
  by (metis append_take_drop_id has_prefix_append has_prefix_def)

text \<open>\<^verbatim>\<open>strings.Split\<close> and \<^verbatim>\<open>strings.Join\<close> with a one-byte separator.\<close>

fun split_on :: "char \<Rightarrow> string \<Rightarrow> string list" where
  "split_on c [] = [[]]"
| "split_on c (x # xs) =
     (if x = c then [] # split_on c xs
      else case split_on c xs of [] \<Rightarrow> [[x]] | p # ps \<Rightarrow> (x # p) # ps)"

fun join_with :: "string \<Rightarrow> string list \<Rightarrow> string" where
  "join_with sep [] = []"
| "join_with sep [p] = p"
| "join_with sep (p # q # ps) = p @ sep @ join_with sep (q # ps)"

lemma split_on_nonempty [simp]: "split_on c s \<noteq> []"
  by (induction s) (auto split: list.split)

lemma split_on_plain: "c \<notin> set p \<Longrightarrow> split_on c p = [p]"
  by (induction p) auto

lemma split_on_append: "c \<notin> set p \<Longrightarrow> split_on c (p @ c # s) = p # split_on c s"
  by (induction p) auto

lemma split_on_join:
  "ps \<noteq> [] \<Longrightarrow> \<forall>p\<in>set ps. c \<notin> set p \<Longrightarrow> split_on c (join_with [c] ps) = ps"
proof (induction ps)
  case (Cons p ps)
  show ?case
  proof (cases ps)
    case Nil
    then show ?thesis using Cons.prems by (simp add: split_on_plain)
  next
    case (Cons q qs)
    then show ?thesis
      using Cons.IH Cons.prems split_on_append [of c p "join_with [c] ps"] by simp
  qed
qed simp

text \<open>\<^verbatim>\<open>strings.IndexByte\<close> and \<^verbatim>\<open>strings.LastIndexByte\<close>.\<close>

fun index_byte :: "char \<Rightarrow> string \<Rightarrow> nat option" where
  "index_byte c [] = None"
| "index_byte c (x # xs) = (if x = c then Some 0 else map_option Suc (index_byte c xs))"

fun last_index_byte :: "char \<Rightarrow> string \<Rightarrow> nat option" where
  "last_index_byte c [] = None"
| "last_index_byte c (x # xs) =
     (case last_index_byte c xs of Some i \<Rightarrow> Some (Suc i) | None \<Rightarrow> if x = c then Some 0 else None)"

text \<open>\<^verbatim>\<open>%d\<close> of an unsigned number.\<close>

definition digit_char :: "nat \<Rightarrow> char" where
  "digit_char d = char_of (48 + d)"

fun dec :: "nat \<Rightarrow> string" where
  "dec n = (if n < 10 then [digit_char n] else dec (n div 10) @ [digit_char (n mod 10)])"

declare dec.simps [simp del]

definition dec_u32 :: "u32 \<Rightarrow> string" where
  "dec_u32 w = dec (unat w)"

definition show_bool :: "bool \<Rightarrow> string" where
  "show_bool b = (if b then ''true'' else ''false'')"

text \<open>\<^verbatim>\<open>strconv.ParseUint(s, 10, 32)\<close>: digits only, at most \<open>2 ^ 32 - 1\<close>.\<close>

definition is_digit :: "char \<Rightarrow> bool" where
  "is_digit c \<longleftrightarrow> 48 \<le> (of_char c :: nat) \<and> (of_char c :: nat) \<le> 57"

definition digits_value :: "string \<Rightarrow> nat" where
  "digits_value s = foldl (\<lambda>n c. 10 * n + (of_char c - 48)) 0 s"

definition parse_uint32 :: "string \<Rightarrow> u32 option" where
  "parse_uint32 s =
     (if s \<noteq> [] \<and> list_all is_digit s \<and> digits_value s < 2 ^ 32
      then Some (word_of_nat (digits_value s)) else None)"

lemma of_digit_char: "d < 10 \<Longrightarrow> of_char (digit_char d) = 48 + d"
  by (simp add: digit_char_def)

lemma is_digit_char [simp]: "d < 10 \<Longrightarrow> is_digit (digit_char d)"
  by (simp add: is_digit_def of_digit_char)

lemma dec_digits: "list_all is_digit (dec n)"
  by (induction n rule: dec.induct) (subst dec.simps, simp)

lemma dec_nonempty [simp]: "dec n \<noteq> []"
  by (subst dec.simps) simp

lemma digits_value_dec: "digits_value (dec n) = n"
proof (induction n rule: dec.induct)
  case (1 n)
  show ?case
    using 1 by (subst dec.simps) (simp add: digits_value_def of_digit_char)
qed

lemma parse_dec: "parse_uint32 (dec_u32 w) = Some w"
  using unsigned_less [of w, where 'a = nat]
  by (simp add: parse_uint32_def dec_u32_def dec_digits digits_value_dec)

lemma dec_inj: "dec a = dec b \<longleftrightarrow> a = b"
  by (metis digits_value_dec)

section \<open>The schema\<close>

text \<open>\<^verbatim>\<open>FmtVer\<close> of the schema tools, the value the schema snapshot carries.\<close>

definition schema_FmtVer :: nat where "schema_FmtVer = 1"

datatype type_ref =
  TypeRef (tr_pkg: string) (tr_name: string) (tr_args: "type_ref list")
    (tr_under: "type_ref option")

record field_decl =
  fd_Name :: string
  fd_Tag :: u32
  fd_Type :: string
  fd_Wire :: string
  fd_Optional :: bool
  fd_Deprecated :: bool
  fd_CompatWrite :: bool
  fd_CycleBreak :: bool
  fd_MapKey :: string
  fd_MapValue :: string
  fd_Elem :: string
  fd_MapKeyUnderlying :: string
  fd_Custom :: string
  fd_WireOverride :: string
  fd_AliasType :: "type_ref option"
  fd_FlattenedFrom :: string
  fd_FlattenedFromPointer :: bool

record struct_decl =
  sd_Type :: type_ref
  sd_Fields :: "field_decl list"
  sd_Reserved :: "u32 list"
  sd_Opaque :: bool
  sd_Generic :: "string list"
  sd_AllowBreaking :: string
  sd_TrackPresence :: bool
  sd_BorrowStrings :: bool

record schema =
  sc_FmtVer :: nat
  sc_SchemaHint :: u16
  sc_Roots :: "type_ref list"
  sc_Structs :: "struct_decl list"

definition schema_WireVarint :: string where "schema_WireVarint = ''varint''"
definition schema_WireFixed64 :: string where "schema_WireFixed64 = ''fixed64''"
definition schema_WireFixed32 :: string where "schema_WireFixed32 = ''fixed32''"
definition schema_WireLengthDelim :: string where "schema_WireLengthDelim = ''length-delim''"

fun ref_key :: "type_ref \<Rightarrow> string" where
  "ref_key (TypeRef p n as u) =
     (let base = (if p \<noteq> [] then p @ ''.'' @ n else n) in
      if as = [] then base else base @ ''['' @ join_with '','' (map ref_key as) @ '']'')"

fun type_ref_string :: "type_ref \<Rightarrow> string" where
  "type_ref_string (TypeRef p n as u) =
     (let base = (if p \<noteq> [] then p @ ''.'' @ n else n) in
      if as = [] then base else base @ ''['' @ join_with '', '' (map type_ref_string as) @ '']'')"

section \<open>Maps built from slices\<close>

definition index_by :: "('a \<Rightarrow> 'k) \<Rightarrow> 'a list \<Rightarrow> 'k \<Rightarrow> 'a option" where
  "index_by f xs = map_of (rev (map (\<lambda>x. (f x, x)) xs))"

text \<open>The keys of such a map, each once.\<close>

definition index_keys :: "('a \<Rightarrow> 'k) \<Rightarrow> 'a list \<Rightarrow> 'k list" where
  "index_keys f xs = remdups (map f xs)"

lemma index_by_SomeD: "index_by f xs k = Some x \<Longrightarrow> x \<in> set xs \<and> f x = k"
  by (auto simp: index_by_def dest!: map_of_SomeD)

lemma index_by_None_iff: "index_by f xs k = None \<longleftrightarrow> k \<notin> f ` set xs"
  by (auto simp: index_by_def map_of_eq_None_iff image_iff)

lemma index_by_cover: "x \<in> set xs \<Longrightarrow> \<exists>y. index_by f xs (f x) = Some y"
  using index_by_None_iff [of f xs "f x"] by (cases "index_by f xs (f x)") auto

lemma index_by_distinct:
  "distinct (map f xs) \<Longrightarrow> x \<in> set xs \<Longrightarrow> index_by f xs (f x) = Some x"
  unfolding index_by_def
  by (rule map_of_is_SomeI) (auto simp: rev_map [symmetric] comp_def)

lemma set_index_keys [simp]: "set (index_keys f xs) = f ` set xs"
  by (simp add: index_keys_def)

lemma distinct_index_keys [simp]: "distinct (index_keys f xs)"
  by (simp add: index_keys_def)

definition index_by_key :: "struct_decl list \<Rightarrow> string \<Rightarrow> struct_decl option" where
  "index_by_key = index_by (\<lambda>s. ref_key (sd_Type s))"

definition index_fields :: "field_decl list \<Rightarrow> u32 \<Rightarrow> field_decl option" where
  "index_fields = index_by fd_Tag"

definition index_fields_by_name :: "field_decl list \<Rightarrow> string \<Rightarrow> field_decl option" where
  "index_fields_by_name = index_by fd_Name"

end
