(* ===== verification/Wire_Override.thy ===== *)
theory Wire_Override
  imports Schema_Types
begin

text \<open>
  \<^verbatim>\<open>tools/gsbmschema/wireoverride.go\<close>: the contract of \<^verbatim>\<open>bin:"N,type=W"\<close>. Of a \<^verbatim>\<open>types.Type\<close> the code
  looks at its string and at the basic kind of its underlying type, \<open>None\<close> for a type that is not
  basic; a nil type is \<open>None\<close> altogether.
\<close>

datatype basic_kind =
    KInt | KInt8 | KInt16 | KInt32 | KInt64
  | KUint | KUint8 | KUint16 | KUint32 | KUint64 | KUintptr
  | KNonInt string

type_synonym go_type = "string \<times> basic_kind option"

datatype width_error =
    NilType | NotInteger string | OverrideOnNonInteger string string | UnknownWidth string
  | SignMismatch string bool string bool | BelowDefault string string string | WiderThanGo string string

definition basicIntShape :: "basic_kind \<Rightarrow> (nat \<times> bool) option" where
  "basicIntShape k =
     (case k of
        KInt \<Rightarrow> Some (64, True) | KInt8 \<Rightarrow> Some (8, True) | KInt16 \<Rightarrow> Some (16, True)
      | KInt32 \<Rightarrow> Some (32, True) | KInt64 \<Rightarrow> Some (64, True)
      | KUint \<Rightarrow> Some (64, False) | KUintptr \<Rightarrow> Some (64, False) | KUint8 \<Rightarrow> Some (8, False)
      | KUint16 \<Rightarrow> Some (16, False) | KUint32 \<Rightarrow> Some (32, False) | KUint64 \<Rightarrow> Some (64, False)
      | KNonInt _ \<Rightarrow> None)"

definition parseOverrideWidth :: "string \<Rightarrow> (nat \<times> bool) option" where
  "parseOverrideWidth w =
     (if w = ''int8'' then Some (8, True) else if w = ''int16'' then Some (16, True)
      else if w = ''int32'' then Some (32, True) else if w = ''int64'' then Some (64, True)
      else if w = ''uint8'' then Some (8, False) else if w = ''uint16'' then Some (16, False)
      else if w = ''uint32'' then Some (32, False) else if w = ''uint64'' then Some (64, False)
      else None)"

definition narrowerKindName :: "bool \<Rightarrow> nat \<Rightarrow> string" where
  "narrowerKindName sgnd bits =
     (if sgnd then (if bits = 8 then ''int8'' else if bits = 16 then ''int16'' else [])
      else (if bits = 8 then ''uint8'' else if bits = 16 then ''uint16'' else []))"

definition platform_sized :: "basic_kind \<Rightarrow> bool" where
  "platform_sized k \<longleftrightarrow> k = KInt \<or> k = KUint \<or> k = KUintptr"

definition WireOverrideCompat :: "go_type option \<Rightarrow> string \<Rightarrow> width_error + nat \<times> bool" where
  "WireOverrideCompat t override =
     (case t of
        None \<Rightarrow> Inl NilType
      | Some (displayName, basic) \<Rightarrow>
          (case Option.bind basic basicIntShape of
             None \<Rightarrow>
               (if override = [] then Inl (NotInteger displayName)
                else Inl (OverrideOnNonInteger override displayName))
           | Some (goBits, goSigned) \<Rightarrow>
               let platformSized = platform_sized (the basic) in
               if override = [] then Inr (if platformSized then 32 else goBits, goSigned)
               else (case parseOverrideWidth override of
                   None \<Rightarrow> Inl (UnknownWidth override)
                 | Some (overrideBits, overrideSigned) \<Rightarrow>
                     if overrideSigned \<noteq> goSigned
                     then Inl (SignMismatch override overrideSigned displayName goSigned)
                     else if platformSized then
                       (if overrideBits < 32
                        then Inl (BelowDefault override displayName
                               (narrowerKindName overrideSigned overrideBits))
                        else Inr (overrideBits, overrideSigned))
                     else if goBits < overrideBits then Inl (WiderThanGo override displayName)
                     else Inr (overrideBits, overrideSigned))))"

section \<open>Widths from a snapshot\<close>

text \<open>\<^verbatim>\<open>strings.LastIndex(s, "/id:")\<close> followed by the slice behind it.\<close>

fun after_last_id :: "string \<Rightarrow> string option" where
  "after_last_id [] = None"
| "after_last_id (c # s) =
     (case after_last_id s of
        Some r \<Rightarrow> Some r
      | None \<Rightarrow> if has_prefix ''/id:'' (c # s) then Some (drop 3 s) else None)"

lemma after_last_id_shorter: "after_last_id s = Some r \<Longrightarrow> length r < length s"
  by (induction s arbitrary: r) (auto split: option.splits if_splits)

text \<open>The text between the last opening parenthesis and a closing one at the end.\<close>

definition paren_inner :: "string \<Rightarrow> string option" where
  "paren_inner s =
     (case last_index_byte (CHR ''('') s of
        Some lp \<Rightarrow>
          if has_suffix '')'' s then Some (drop (lp + 1) (take (length s - 1) s)) else None
      | None \<Rightarrow> None)"

lemma paren_inner_shorter: "paren_inner s = Some r \<Longrightarrow> length r < length s"
  by (cases s) (auto simp: paren_inner_def split: option.splits if_splits)

definition basic_width :: "string \<Rightarrow> (nat \<times> bool) option" where
  "basic_width s =
     (if s = ''int'' then Some (32, True)
      else if s = ''uint'' \<or> s = ''uintptr'' then Some (32, False)
      else parseOverrideWidth s)"

function defaultIntWidthFromTypeString :: "string \<Rightarrow> (nat \<times> bool) option" where
  "defaultIntWidthFromTypeString fdType =
     (case after_last_id fdType of
        Some r \<Rightarrow> defaultIntWidthFromTypeString r
      | None \<Rightarrow>
          (case basic_width fdType of
             Some w \<Rightarrow> Some w
           | None \<Rightarrow>
               (case paren_inner fdType of
                  Some inner \<Rightarrow> defaultIntWidthFromTypeString inner
                | None \<Rightarrow> None)))"
  by pat_completeness auto
termination
  by (relation "measure length") (auto dest: after_last_id_shorter paren_inner_shorter)

declare defaultIntWidthFromTypeString.simps [simp del]

definition effectiveWireWidthFromSnapshot :: "string \<Rightarrow> string \<Rightarrow> (nat \<times> bool) option" where
  "effectiveWireWidthFromSnapshot fdType override =
     (if override \<noteq> [] then parseOverrideWidth override else defaultIntWidthFromTypeString fdType)"

section \<open>The contract\<close>

definition kind_name :: "basic_kind \<Rightarrow> string" where
  "kind_name k =
     (case k of
        KInt \<Rightarrow> ''int'' | KInt8 \<Rightarrow> ''int8'' | KInt16 \<Rightarrow> ''int16'' | KInt32 \<Rightarrow> ''int32''
      | KInt64 \<Rightarrow> ''int64'' | KUint \<Rightarrow> ''uint'' | KUintptr \<Rightarrow> ''uintptr'' | KUint8 \<Rightarrow> ''uint8''
      | KUint16 \<Rightarrow> ''uint16'' | KUint32 \<Rightarrow> ''uint32'' | KUint64 \<Rightarrow> ''uint64'' | KNonInt s \<Rightarrow> s)"

text \<open>The wire width a Go kind has without an override.\<close>

definition default_width :: "basic_kind \<Rightarrow> (nat \<times> bool) option" where
  "default_width k =
     map_option (\<lambda>(b, s). (if platform_sized k then 32 else b, s)) (basicIntShape k)"

text \<open>
  The width contract. \<^verbatim>\<open>WireOverrideCompat\<close> accepts a type and an override exactly when the type's
  underlying kind is an integer and the override is empty (then the width is the kind's own, 32
  bits for \<^verbatim>\<open>int\<close>, \<^verbatim>\<open>uint\<close>, \<^verbatim>\<open>uintptr\<close>) or a width of the same sign that neither widens a
  fixed-width kind nor narrows a platform-sized one below 32 bits (then the width is the
  override's).
\<close>

theorem WireOverrideCompat_contract:
  "WireOverrideCompat t override = Inr (bits, sgnd) \<longleftrightarrow>
     (\<exists>name k. t = Some (name, Some k) \<and>
        (if override = [] then default_width k = Some (bits, sgnd)
         else parseOverrideWidth override = Some (bits, sgnd) \<and>
           (\<exists>own. basicIntShape k = Some (own, sgnd) \<and>
             (if platform_sized k then 32 \<le> bits else bits \<le> own))))"
  by (auto simp: WireOverrideCompat_def default_width_def Let_def
      split: option.splits if_splits prod.splits bind_splits)

lemma basic_width_kind: "basicIntShape k = Some w \<Longrightarrow> basic_width (kind_name k) = default_width k"
  by (cases k)
    (auto simp: basicIntShape_def kind_name_def basic_width_def default_width_def platform_sized_def
      parseOverrideWidth_def)

lemma after_last_id_no_slash: "CHR ''/'' \<notin> set s \<Longrightarrow> after_last_id s = None"
  by (induction s) (auto simp: has_prefix_def)

lemma after_last_id_append:
  "CHR ''/'' \<notin> set s \<Longrightarrow> after_last_id (base @ ''/id:'' @ s) = Some s"
proof (induction base)
  case Nil
  have "after_last_id (''id:'' @ s) = None" using Nil by (intro after_last_id_no_slash) simp
  then show ?case by (simp add: has_prefix_def)
qed simp

lemma last_index_byte_None: "c \<notin> set s \<Longrightarrow> last_index_byte c s = None"
  by (induction s) auto

lemma last_index_byte_append: "c \<notin> set s \<Longrightarrow> last_index_byte c (a @ c # s) = Some (length a)"
  by (induction a) (auto simp: last_index_byte_None)

lemma kind_name_plain:
  assumes "basicIntShape k = Some w"
  shows "CHR ''/'' \<notin> set (kind_name k)" and "CHR ''('' \<notin> set (kind_name k)"
  using assms by (cases k; simp add: basicIntShape_def kind_name_def)+

lemma basic_width_no_paren: "basic_width s = Some w \<Longrightarrow> CHR ''('' \<notin> set s"
  by (auto simp: basic_width_def parseOverrideWidth_def split: if_splits)

lemma default_width_plain:
  assumes "basicIntShape k = Some w"
  shows "defaultIntWidthFromTypeString (kind_name k) = default_width k"
proof -
  have "default_width k \<noteq> None" using assms by (simp add: default_width_def)
  then show ?thesis
    using after_last_id_no_slash [OF kind_name_plain(1) [OF assms]] basic_width_kind [OF assms]
    by (subst defaultIntWidthFromTypeString.simps) auto
qed

lemma default_width_alias:
  assumes "basicIntShape k = Some w" and "after_last_id (nm @ ''('' @ kind_name k @ '')'') = None"
  shows "defaultIntWidthFromTypeString (nm @ ''('' @ kind_name k @ '')'') = default_width k"
proof -
  let ?s = "nm @ ''('' @ kind_name k @ '')''"
  have "basic_width ?s = None"
    using basic_width_no_paren [of ?s] by (cases "basic_width ?s") auto
  moreover have "last_index_byte (CHR ''('') ?s = Some (length nm)"
    using last_index_byte_append [of "CHR ''(''" "kind_name k @ '')''" nm]
      kind_name_plain(2) [OF assms(1)] by simp
  then have "paren_inner ?s = Some (kind_name k)"
    by (simp add: paren_inner_def has_suffix_def)
  ultimately show ?thesis
    using assms(2) default_width_plain [OF assms(1)]
    by (subst defaultIntWidthFromTypeString.simps) simp
qed

lemma default_width_id:
  assumes "basicIntShape k = Some w"
  shows "defaultIntWidthFromTypeString (base @ ''/id:'' @ kind_name k) = default_width k"
  using after_last_id_append [OF kind_name_plain(1) [OF assms], of base] default_width_plain [OF assms]
  by (subst defaultIntWidthFromTypeString.simps) simp

text \<open>
  The classifier, which only has snapshot strings, sees the width the validator computed from
  the Go type: for every accepted pair, the snapshot of the kind itself, of a named type over it,
  and of an \<^verbatim>\<open>id_ref\<close> to it give the same bits and sign.
\<close>

theorem snapshot_width_agrees:
  assumes "WireOverrideCompat (Some (name, Some k)) override = Inr w"
    and "after_last_id (nm @ ''('' @ kind_name k @ '')'') = None"
  shows "effectiveWireWidthFromSnapshot (kind_name k) override = Some w \<and>
     effectiveWireWidthFromSnapshot (nm @ ''('' @ kind_name k @ '')'') override = Some w \<and>
     effectiveWireWidthFromSnapshot (base @ ''/id:'' @ kind_name k) override = Some w"
proof -
  obtain b s where w: "w = (b, s)" by (cases w)
  have c: "if override = [] then default_width k = Some (b, s)
      else parseOverrideWidth override = Some (b, s) \<and> (\<exists>own. basicIntShape k = Some (own, s) \<and>
        (if platform_sized k then 32 \<le> b else b \<le> own))"
    using assms(1) w by (simp add: WireOverrideCompat_contract)
  then obtain own where k: "basicIntShape k = Some own"
    by (cases "override = []") (auto simp: default_width_def)
  show ?thesis
    using c w default_width_plain [OF k] default_width_alias [OF k assms(2)] default_width_id [OF k]
    by (cases "override = []") (auto simp: effectiveWireWidthFromSnapshot_def)
qed

theorem snapshot_width_agrees_witness:
  "WireOverrideCompat (Some (''p.UserID'', Some KInt64)) ''int32'' = Inr (32, True) \<and>
   effectiveWireWidthFromSnapshot ''p.UserID(int64)'' ''int32'' = Some (32, True)"
proof -
  have c: "WireOverrideCompat (Some (''p.UserID'', Some KInt64)) ''int32'' = Inr (32, True)"
    by (simp add: WireOverrideCompat_def basicIntShape_def parseOverrideWidth_def platform_sized_def)
  have "after_last_id (''p.UserID'' @ ''('' @ kind_name KInt64 @ '')'') = None"
    by (rule after_last_id_no_slash) (simp add: kind_name_def)
  from snapshot_width_agrees [OF c this, of "''x''"] c show ?thesis by (simp add: kind_name_def)
qed

end
