(* ===== verification/Classifier.thy ===== *)
theory Classifier
  imports Wire_Override "HOL-Library.Product_Lexorder"
begin

text \<open>
  \<^verbatim>\<open>tools/gsbmschema/classifier.go\<close>: the diff of two schema snapshots. The text of a change is kept as
  its operands, the strings between them being fixed by the code. Go iterates a map in any order:
  \<open>go_order\<close> gives the order of each loop, by the loop's site, and is an argument.
\<close>

section \<open>Severities and changes\<close>

datatype severity = SeveritySafe | SeverityWarning | SeverityBreaking

fun severity_rank :: "severity \<Rightarrow> nat" where
  "severity_rank SeveritySafe = 0"
| "severity_rank SeverityWarning = 1"
| "severity_rank SeverityBreaking = 2"

lemma severity_rank_inj: "severity_rank a = severity_rank b \<longleftrightarrow> a = b"
  by (cases a; cases b) simp_all

instantiation severity :: linorder
begin

definition less_eq_severity :: "severity \<Rightarrow> severity \<Rightarrow> bool" where
  "less_eq_severity a b \<longleftrightarrow> severity_rank a \<le> severity_rank b"

definition less_severity :: "severity \<Rightarrow> severity \<Rightarrow> bool" where
  "less_severity a b \<longleftrightarrow> severity_rank a < severity_rank b"

instance
  by standard (auto simp: less_eq_severity_def less_severity_def severity_rank_inj)

end

fun severity_string :: "severity \<Rightarrow> string" where
  "severity_string SeveritySafe = ''safe''"
| "severity_string SeverityWarning = ''warning''"
| "severity_string SeverityBreaking = ''breaking''"

record change =
  ch_Severity :: severity
  ch_Code :: string
  ch_Subject :: string
  ch_Detail :: "string list"
  ch_Acknowledged :: string

record diff =
  df_Changes :: "change list"
  df_MaxSeverity :: severity

definition change_of :: "severity \<Rightarrow> string \<Rightarrow> string \<Rightarrow> string list \<Rightarrow> change" where
  "change_of sev code subject detail =
     \<lparr>ch_Severity = sev, ch_Code = code, ch_Subject = subject, ch_Detail = detail,
      ch_Acknowledged = []\<rparr>"

lemma change_of_simps [simp]:
  "ch_Severity (change_of s c u d) = s" "ch_Code (change_of s c u d) = c"
  "ch_Subject (change_of s c u d) = u" "ch_Acknowledged (change_of s c u d) = []"
  by (simp_all add: change_of_def)

abbreviation "safe \<equiv> change_of SeveritySafe"
abbreviation "warning \<equiv> change_of SeverityWarning"
abbreviation "breaking \<equiv> change_of SeverityBreaking"

text \<open>The closure \<^verbatim>\<open>add\<close>.\<close>

definition add_change :: "change \<Rightarrow> diff \<Rightarrow> diff" where
  "add_change c d =
     d\<lparr>df_Changes := df_Changes d @ [c],
       df_MaxSeverity := (if df_MaxSeverity d < ch_Severity c then ch_Severity c else df_MaxSeverity d)\<rparr>"

definition empty_diff :: diff where
  "empty_diff = \<lparr>df_Changes = [], df_MaxSeverity = SeveritySafe\<rparr>"

section \<open>One field in both snapshots\<close>

datatype field_state = FieldActive | FieldCompatWrite | FieldDeprecated

definition lifecycleState :: "field_decl \<Rightarrow> field_state" where
  "lifecycleState f =
     (if fd_Deprecated f \<and> fd_CompatWrite f then FieldCompatWrite
      else if fd_Deprecated f then FieldDeprecated else FieldActive)"

definition tag_subject :: "string \<Rightarrow> string \<Rightarrow> u32 \<Rightarrow> string" where
  "tag_subject key name tag = key @ ''.'' @ name @ '' (tag '' @ dec_u32 tag @ '')''"

definition shape_frozen :: "field_decl \<Rightarrow> field_decl \<Rightarrow> bool" where
  "shape_frozen pf cf \<longleftrightarrow>
     fd_Deprecated pf \<and> \<not> fd_CompatWrite pf \<and> fd_Deprecated cf \<and> \<not> fd_CompatWrite cf"

definition underlying_equal :: "type_ref option \<Rightarrow> type_ref option \<Rightarrow> bool" where
  "underlying_equal a b \<longleftrightarrow>
     (case (a, b) of
        (Some x, Some y) \<Rightarrow> ref_key x = ref_key y
      | (None, None) \<Rightarrow> True
      | _ \<Rightarrow> False)"

definition removed_field :: "string \<Rightarrow> u32 \<Rightarrow> field_decl \<Rightarrow> change list" where
  "removed_field key tag pf =
     [breaking
        (if fd_Deprecated pf \<and> fd_CompatWrite pf then ''field/removed-compat-write''
         else if fd_Deprecated pf then ''field/removed-deprecated'' else ''field/removed'')
        (tag_subject key (fd_Name pf) tag) []]"

definition type_change :: "string \<Rightarrow> u32 \<Rightarrow> field_decl \<Rightarrow> field_decl \<Rightarrow> change list" where
  "type_change key tag pf cf =
     (if fd_Type cf \<noteq> fd_Type pf \<and> \<not> shape_frozen pf cf
      then [breaking ''field/type-changed'' (tag_subject key (fd_Name pf) tag) [fd_Type pf, fd_Type cf]]
      else [])"

definition alias_change :: "string \<Rightarrow> u32 \<Rightarrow> field_decl \<Rightarrow> field_decl \<Rightarrow> change list" where
  "alias_change key tag pf cf =
     (if \<not> shape_frozen pf cf \<and> fd_Type pf = fd_Type cf then
        let subject = tag_subject key (fd_Name cf) tag in
        (case (fd_AliasType pf, fd_AliasType cf) of
           (None, None) \<Rightarrow> []
         | (None, Some ca) \<Rightarrow> [safe ''field/alias-added'' subject [type_ref_string ca]]
         | (Some pa, None) \<Rightarrow> [safe ''field/alias-removed'' subject [type_ref_string pa]]
         | (Some pa, Some ca) \<Rightarrow>
             if ref_key pa \<noteq> ref_key ca \<and> underlying_equal (tr_under pa) (tr_under ca)
             then [safe ''field/alias-renamed'' subject [type_ref_string pa, type_ref_string ca]]
             else [])
      else [])"

definition flatten_change :: "string \<Rightarrow> u32 \<Rightarrow> field_decl \<Rightarrow> field_decl \<Rightarrow> change list" where
  "flatten_change key tag pf cf =
     (if \<not> shape_frozen pf cf \<and> fd_Type pf = fd_Type cf \<and> fd_Wire pf = fd_Wire cf then
        let pff = fd_FlattenedFrom pf; cff = fd_FlattenedFrom cf;
            subject = tag_subject key (fd_Name cf) tag in
        (if pff = [] \<and> cff = [] then []
         else if pff = [] \<and> cff \<noteq> [] then [safe ''field/flattened-from-added'' subject [cff]]
         else if pff \<noteq> [] \<and> cff = [] then [safe ''field/flattened-from-removed'' subject [pff]]
         else if pff \<noteq> cff then [safe ''field/flattened-from-changed'' subject [pff, cff]]
         else [])
      else [])"

definition wire_change :: "string \<Rightarrow> u32 \<Rightarrow> field_decl \<Rightarrow> field_decl \<Rightarrow> change list" where
  "wire_change key tag pf cf =
     (if fd_Wire cf \<noteq> fd_Wire pf \<and> \<not> shape_frozen pf cf \<and> fd_Custom pf = [] \<and> fd_Custom cf = []
      then [breaking ''field/wire-changed'' (tag_subject key (fd_Name pf) tag) [fd_Wire pf, fd_Wire cf]]
      else [])"

definition optional_change :: "string \<Rightarrow> u32 \<Rightarrow> field_decl \<Rightarrow> field_decl \<Rightarrow> change list" where
  "optional_change key tag pf cf =
     (if fd_Optional cf \<noteq> fd_Optional pf \<and> \<not> shape_frozen pf cf
      then [breaking ''field/optional-changed'' (tag_subject key (fd_Name pf) tag)
              [show_bool (fd_Optional pf), show_bool (fd_Optional cf)]]
      else [])"

definition lifecycle_change :: "string \<Rightarrow> u32 \<Rightarrow> field_decl \<Rightarrow> field_decl \<Rightarrow> change list" where
  "lifecycle_change key tag pf cf =
     (let subject = tag_subject key (fd_Name cf) tag in
      case (lifecycleState pf, lifecycleState cf) of
        (FieldActive, FieldCompatWrite) \<Rightarrow> [safe ''field/compat-write-added'' subject []]
      | (FieldActive, FieldDeprecated) \<Rightarrow> [warning ''field/deprecated'' subject []]
      | (FieldCompatWrite, FieldDeprecated) \<Rightarrow> [breaking ''field/compat-write-removed'' subject []]
      | (FieldCompatWrite, FieldActive) \<Rightarrow> [warning ''field/resurrected'' subject [''compat_write'']]
      | (FieldDeprecated, FieldActive) \<Rightarrow> [warning ''field/resurrected'' subject [''deprecated'']]
      | (FieldDeprecated, FieldCompatWrite) \<Rightarrow>
          [safe ''field/compat-write-added'' subject [''re-entered'']]
      | _ \<Rightarrow> [])"

definition rename_change :: "string \<Rightarrow> u32 \<Rightarrow> field_decl \<Rightarrow> field_decl \<Rightarrow> change list" where
  "rename_change key tag pf cf =
     (if fd_Name cf \<noteq> fd_Name pf
      then [safe ''field/renamed'' (key @ '' tag '' @ dec_u32 tag) [fd_Name pf, fd_Name cf]] else [])"

definition cycle_change :: "string \<Rightarrow> u32 \<Rightarrow> field_decl \<Rightarrow> field_decl \<Rightarrow> change list" where
  "cycle_change key tag pf cf =
     (if fd_CycleBreak cf \<noteq> fd_CycleBreak pf \<and> \<not> shape_frozen pf cf then
        [breaking (if \<not> fd_CycleBreak pf \<and> fd_CycleBreak cf then ''field/cycle-break-added''
                   else ''field/cycle-break-removed'')
           (tag_subject key (fd_Name cf) tag) []]
      else [])"

definition map_key_change :: "string \<Rightarrow> u32 \<Rightarrow> field_decl \<Rightarrow> field_decl \<Rightarrow> change list" where
  "map_key_change key tag pf cf =
     (if fd_MapKeyUnderlying pf \<noteq> [] \<and> fd_MapKeyUnderlying cf \<noteq> [] \<and>
         fd_MapKeyUnderlying cf \<noteq> fd_MapKeyUnderlying pf \<and> \<not> shape_frozen pf cf
      then [breaking ''field/map-key-underlying-changed'' (tag_subject key (fd_Name cf) tag)
              [fd_MapKeyUnderlying pf, fd_MapKeyUnderlying cf]]
      else [])"

definition width_change :: "string \<Rightarrow> u32 \<Rightarrow> field_decl \<Rightarrow> field_decl \<Rightarrow> change list" where
  "width_change key tag pf cf =
     (if fd_WireOverride cf \<noteq> fd_WireOverride pf \<and> \<not> shape_frozen pf cf \<and>
         fd_Custom pf = [] \<and> fd_Custom cf = [] then
        (case (effectiveWireWidthFromSnapshot (fd_Type pf) (fd_WireOverride pf),
               effectiveWireWidthFromSnapshot (fd_Type cf) (fd_WireOverride cf)) of
           (Some (pbits, _), Some (cbits, _)) \<Rightarrow>
             let subject = tag_subject key (fd_Name cf) tag;
                 detail = [fd_WireOverride pf, fd_WireOverride cf] in
             if pbits < cbits then
               [safe ''field/wire-widened'' subject (detail @ [dec pbits, dec cbits])]
             else if cbits < pbits then
               [breaking ''field/wire-narrowed'' subject (detail @ [dec pbits, dec cbits])]
             else [safe ''field/wire-intent-changed'' subject detail]
         | _ \<Rightarrow> [])
      else [])"

definition custom_change :: "string \<Rightarrow> u32 \<Rightarrow> field_decl \<Rightarrow> field_decl \<Rightarrow> change list" where
  "custom_change key tag pf cf =
     (if fd_Custom cf \<noteq> fd_Custom pf \<and> \<not> shape_frozen pf cf then
        let subject = tag_subject key (fd_Name cf) tag in
        (if fd_Custom pf = [] \<and> fd_Custom cf \<noteq> []
         then [warning ''field/custom-added'' subject [fd_Custom cf]]
         else if fd_Custom pf \<noteq> [] \<and> fd_Custom cf = []
         then [breaking ''field/custom-removed'' subject [fd_Custom pf]]
         else [breaking ''field/custom-changed'' subject [fd_Custom pf, fd_Custom cf]])
      else [])"

definition field_changes :: "string \<Rightarrow> u32 \<Rightarrow> field_decl \<Rightarrow> field_decl \<Rightarrow> change list" where
  "field_changes key tag pf cf =
     type_change key tag pf cf @ alias_change key tag pf cf @ flatten_change key tag pf cf @
     wire_change key tag pf cf @ optional_change key tag pf cf @ lifecycle_change key tag pf cf @
     rename_change key tag pf cf @ cycle_change key tag pf cf @ map_key_change key tag pf cf @
     width_change key tag pf cf @ custom_change key tag pf cf"

section \<open>Structs and the whole diff\<close>

text \<open>The order of each map iteration, by loop site.\<close>

record go_order =
  ord_str :: "string \<Rightarrow> string list \<Rightarrow> string list"
  ord_tag :: "string \<Rightarrow> u32 list \<Rightarrow> u32 list"

definition added_field ::
  "string \<Rightarrow> (string \<Rightarrow> field_decl option) \<Rightarrow> u32 \<Rightarrow> field_decl \<Rightarrow> change list" where
  "added_field key prevByName tag cf =
     (case prevByName (fd_Name cf) of
        Some pf \<Rightarrow>
          if fd_Tag pf \<noteq> fd_Tag cf
          then [breaking ''field/tag-changed'' (key @ ''.'' @ fd_Name cf)
                  [dec_u32 (fd_Tag pf), dec_u32 (fd_Tag cf)]]
          else [safe ''field/added'' (tag_subject key (fd_Name cf) tag) [fd_Type cf, fd_Wire cf]]
      | None \<Rightarrow> [safe ''field/added'' (tag_subject key (fd_Name cf) tag) [fd_Type cf, fd_Wire cf]])"

definition tag_range :: "go_order \<Rightarrow> string \<Rightarrow> field_decl list \<Rightarrow> (u32 \<times> field_decl) list" where
  "tag_range ord site fs =
     map (\<lambda>t. (t, the (index_fields fs t))) (ord_tag ord site (index_keys fd_Tag fs))"

definition kept_fields :: "go_order \<Rightarrow> string \<Rightarrow> struct_decl \<Rightarrow> struct_decl \<Rightarrow> change list" where
  "kept_fields ord key p c =
     concat (map (\<lambda>(tag, pf).
         case index_fields (sd_Fields c) tag of
           None \<Rightarrow> removed_field key tag pf
         | Some cf \<Rightarrow> field_changes key tag pf cf)
       (tag_range ord (key @ ''/prev'') (sd_Fields p)))"

definition new_fields :: "go_order \<Rightarrow> string \<Rightarrow> struct_decl \<Rightarrow> struct_decl \<Rightarrow> change list" where
  "new_fields ord key p c =
     concat (map (\<lambda>(tag, cf).
         if index_fields (sd_Fields p) tag \<noteq> None then []
         else added_field key (index_fields_by_name (sd_Fields p)) tag cf)
       (tag_range ord (key @ ''/curr'') (sd_Fields c)))"

definition reserved_changes :: "go_order \<Rightarrow> string \<Rightarrow> struct_decl \<Rightarrow> struct_decl \<Rightarrow> change list" where
  "reserved_changes ord key p c =
     concat (map (\<lambda>t. if t \<notin> set (sd_Reserved c)
         then [breaking ''reserved/removed'' (key @ '' tag '' @ dec_u32 t) []] else [])
       (ord_tag ord (key @ ''/prevR'') (remdups (sd_Reserved p)))) @
     concat (map (\<lambda>t. if t \<notin> set (sd_Reserved p)
         then [safe ''reserved/added'' (key @ '' tag '' @ dec_u32 t) []] else [])
       (ord_tag ord (key @ ''/currR'') (remdups (sd_Reserved c))))"

definition opaque_change :: "string \<Rightarrow> struct_decl \<Rightarrow> struct_decl \<Rightarrow> change list" where
  "opaque_change key p c =
     (if sd_Opaque p \<noteq> sd_Opaque c
      then [warning ''struct/opaque-changed'' key [show_bool (sd_Opaque p), show_bool (sd_Opaque c)]]
      else [])"

definition classifyStruct :: "go_order \<Rightarrow> string \<Rightarrow> struct_decl \<Rightarrow> struct_decl \<Rightarrow> change list" where
  "classifyStruct ord key p c =
     kept_fields ord key p c @ new_fields ord key p c @ reserved_changes ord key p c @ opaque_change key p c"

text \<open>The closure \<^verbatim>\<open>add2\<close>: the source-level acknowledgement.\<close>

definition acknowledge :: "string \<Rightarrow> change \<Rightarrow> change" where
  "acknowledge allow ch =
     (if ch_Acknowledged ch = [] \<and> allow \<noteq> [] \<and> ch_Severity ch = SeverityBreaking \<and>
         ch_Code ch \<noteq> ''field/compat-write-removed'' \<and> ch_Code ch \<noteq> ''field/removed-compat-write''
      then ch\<lparr>ch_Acknowledged := allow\<rparr> else ch)"

definition root_changes :: "go_order \<Rightarrow> schema \<Rightarrow> schema \<Rightarrow> change list" where
  "root_changes ord prev cur =
     concat (map (\<lambda>k. if k \<notin> ref_key ` set (sc_Roots cur) then [breaking ''root/removed'' k []] else [])
       (ord_str ord ''prevRoots'' (index_keys ref_key (sc_Roots prev)))) @
     concat (map (\<lambda>k. if k \<notin> ref_key ` set (sc_Roots prev) then [safe ''root/added'' k []] else [])
       (ord_str ord ''currRoots'' (index_keys ref_key (sc_Roots cur))))"

definition struct_keys :: "schema \<Rightarrow> string list" where
  "struct_keys s = index_keys (\<lambda>d. ref_key (sd_Type d)) (sc_Structs s)"

definition prev_struct_changes :: "go_order \<Rightarrow> schema \<Rightarrow> schema \<Rightarrow> string \<Rightarrow> change list" where
  "prev_struct_changes ord prev cur k =
     (let p = the (index_by_key (sc_Structs prev) k) in
      case index_by_key (sc_Structs cur) k of
        None \<Rightarrow> [breaking ''struct/removed'' k []]
      | Some c \<Rightarrow> map (acknowledge (sd_AllowBreaking c)) (classifyStruct ord k p c))"

definition curr_struct_changes :: "schema \<Rightarrow> schema \<Rightarrow> string \<Rightarrow> change list" where
  "curr_struct_changes prev cur k =
     (let c = the (index_by_key (sc_Structs cur) k) in
      if index_by_key (sc_Structs prev) k \<noteq> None then []
      else [safe ''struct/added'' k [dec (length (sd_Fields c))]])"

definition all_changes :: "go_order \<Rightarrow> schema \<Rightarrow> schema \<Rightarrow> change list" where
  "all_changes ord prev cur =
     root_changes ord prev cur @
     concat (map (prev_struct_changes ord prev cur) (ord_str ord ''prevStructs'' (struct_keys prev))) @
     concat (map (curr_struct_changes prev cur) (ord_str ord ''currStructs'' (struct_keys cur)))"

text \<open>\<^verbatim>\<open>sort.SliceStable\<close> by severity, highest first, then subject, then code.\<close>

definition change_key :: "change \<Rightarrow> nat \<times> string \<times> string" where
  "change_key c = (2 - severity_rank (ch_Severity c), ch_Subject c, ch_Code c)"

definition Classify :: "go_order \<Rightarrow> schema \<Rightarrow> schema \<Rightarrow> diff" where
  "Classify ord prev cur =
     (let d = fold add_change (all_changes ord prev cur) empty_diff in
      d\<lparr>df_Changes := sort_key change_key (df_Changes d)\<rparr>)"

section \<open>The gate\<close>

text \<open>\<^verbatim>\<open>tools/gsbmschema/runner.go\<close>: \<^verbatim>\<open>CIDiffWithOptions\<close>.\<close>

record ci_report =
  ci_Diff :: diff
  ci_GateBlocks :: bool

definition operator_ack :: "bool \<Rightarrow> change \<Rightarrow> change" where
  "operator_ack allowStop c =
     (if allowStop \<and> ch_Code c = ''field/compat-write-removed'' \<and> ch_Acknowledged c = []
      then c\<lparr>ch_Acknowledged := ''--allow-stop-compat-write''\<rparr> else c)"

definition blocking :: "change \<Rightarrow> bool" where
  "blocking c \<longleftrightarrow> ch_Severity c = SeverityBreaking \<and> ch_Acknowledged c = []"

definition CIDiffWithOptions :: "go_order \<Rightarrow> schema \<Rightarrow> schema \<Rightarrow> bool \<Rightarrow> ci_report" where
  "CIDiffWithOptions ord prev cur allowStop =
     (let d = Classify ord prev cur;
          d = d\<lparr>df_Changes := map (operator_ack allowStop) (df_Changes d)\<rparr> in
      \<lparr>ci_Diff = d, ci_GateBlocks = list_ex blocking (df_Changes d)\<rparr>)"

definition CIDiff :: "go_order \<Rightarrow> schema \<Rightarrow> schema \<Rightarrow> ci_report" where
  "CIDiff ord prev cur = CIDiffWithOptions ord prev cur False"

end
