(* ===== verification/Classifier_Spec.thy ===== *)
theory Classifier_Spec
  imports Classifier
begin

text \<open>
  What \<^verbatim>\<open>Classify\<close> and the CI gate promise: the result does not depend on Go's map iteration order,
  and the gate lets a schema change through exactly when it is compatible or acknowledged.
\<close>

section \<open>Order independence\<close>

definition lawful_order :: "go_order \<Rightarrow> bool" where
  "lawful_order ord \<longleftrightarrow>
     (\<forall>site xs. mset (ord_str ord site xs) = mset xs) \<and>
     (\<forall>site xs. mset (ord_tag ord site xs) = mset xs)"

lemma mset_concat_map: "mset (concat (map f xs)) = sum_mset (image_mset (\<lambda>x. mset (f x)) (mset xs))"
  by (induction xs) auto

lemma mset_concat_map_perm:
  "mset xs = mset ys \<Longrightarrow> (\<And>x. mset (f x) = mset (g x)) \<Longrightarrow>
     mset (concat (map f xs)) = mset (concat (map g ys))"
  by (simp add: mset_concat_map)

lemma lawful_str [simp]: "lawful_order ord \<Longrightarrow> mset (ord_str ord site xs) = mset xs"
  and lawful_tag [simp]: "lawful_order ord \<Longrightarrow> mset (ord_tag ord site ts) = mset ts"
  by (simp_all add: lawful_order_def)

lemma lawful_set [simp]:
  "lawful_order ord \<Longrightarrow> set (ord_str ord site xs) = set xs"
  "lawful_order ord \<Longrightarrow> set (ord_tag ord site ts) = set ts"
  by (metis lawful_str set_mset_mset) (metis lawful_tag set_mset_mset)

lemma mset_tag_range:
  "lawful_order a \<Longrightarrow> lawful_order b \<Longrightarrow> mset (tag_range a s fs) = mset (tag_range b t fs)"
  by (simp add: tag_range_def)

lemma mset_classifyStruct:
  assumes "lawful_order a" and "lawful_order b"
  shows "mset (classifyStruct a key p c) = mset (classifyStruct b key p c)"
proof -
  have "mset (kept_fields a key p c) = mset (kept_fields b key p c)"
    "mset (new_fields a key p c) = mset (new_fields b key p c)"
    unfolding kept_fields_def new_fields_def
    by (rule mset_concat_map_perm, rule mset_tag_range [OF assms], rule refl)+
  moreover have "mset (reserved_changes a key p c) = mset (reserved_changes b key p c)"
    using assms by (simp add: reserved_changes_def mset_concat_map)
  ultimately show ?thesis by (simp add: classifyStruct_def)
qed

lemma mset_all_changes:
  assumes "lawful_order a" and "lawful_order b"
  shows "mset (all_changes a prev cur) = mset (all_changes b prev cur)"
proof -
  have "mset (root_changes a prev cur) = mset (root_changes b prev cur)"
    using assms by (simp add: root_changes_def mset_concat_map)
  moreover have "mset (prev_struct_changes a prev cur k) = mset (prev_struct_changes b prev cur k)" for k
    using mset_classifyStruct [OF assms]
    by (simp add: prev_struct_changes_def Let_def split: option.split)
  ultimately show ?thesis
    using assms by (simp add: all_changes_def mset_concat_map)
qed

lemma fold_add_change:
  "df_Changes (fold add_change cs d) = df_Changes d @ cs \<and>
   df_MaxSeverity (fold add_change cs d) = Max (insert (df_MaxSeverity d) (ch_Severity ` set cs))"
proof (induction cs arbitrary: d)
  case (Cons c cs)
  let ?S = "ch_Severity ` set cs"
  have m: "df_MaxSeverity (add_change c d) = max (df_MaxSeverity d) (ch_Severity c)"
    by (auto simp: add_change_def max_def dest: less_imp_le)
  have "Max (insert (max (df_MaxSeverity d) (ch_Severity c)) ?S) =
      Max (insert (df_MaxSeverity d) (insert (ch_Severity c) ?S))"
    by (cases "?S = {}") (simp_all add: max.assoc max.left_commute)
  then show ?case using Cons.IH [of "add_change c d"] m by (simp add: add_change_def)
qed simp

lemma Classify_simps:
  "df_Changes (Classify ord prev cur) = sort_key change_key (all_changes ord prev cur)"
  "df_MaxSeverity (Classify ord prev cur) =
     Max (insert SeveritySafe (ch_Severity ` set (all_changes ord prev cur)))"
  by (simp_all add: Classify_def Let_def fold_add_change empty_diff_def)

lemma sort_keys_perm:
  assumes "mset xs = mset ys"
  shows "map f (sort_key f xs) = map f (sort_key f ys)"
proof -
  let ?a = "map f (sort_key f xs)" and ?b = "map f (sort_key f ys)"
  have "mset ?b = mset ?a" using assms by simp
  then have "sort ?a = ?b" by (rule properties_for_sort) simp
  moreover have "sort ?a = ?a" by (simp add: sorted_sort_id)
  ultimately show ?thesis by simp
qed

text \<open>
  C27: The diff is deterministic although it is computed by iterating Go maps. Whatever order the
  iterations take, the changes are the same with the same multiplicities, their reported sequence
  of severities, subjects and codes is the same, sorted, and so are the maximal severity and the
  decision of the gate; only rows alike in all three can trade places.
\<close>

theorem Classify_order_independent:
  assumes "lawful_order a" and "lawful_order b"
  shows "mset (df_Changes (Classify a prev cur)) = mset (df_Changes (Classify b prev cur)) \<and>
     map change_key (df_Changes (Classify a prev cur)) = map change_key (df_Changes (Classify b prev cur)) \<and>
     sorted (map change_key (df_Changes (Classify a prev cur))) \<and>
     df_MaxSeverity (Classify a prev cur) = df_MaxSeverity (Classify b prev cur) \<and>
     ci_GateBlocks (CIDiffWithOptions a prev cur stop) = ci_GateBlocks (CIDiffWithOptions b prev cur stop)"
proof -
  note m = mset_all_changes [OF assms, of prev cur]
  have s: "set (all_changes a prev cur) = set (all_changes b prev cur)"
    using m by (metis set_mset_mset)
  have "df_MaxSeverity (Classify a prev cur) = df_MaxSeverity (Classify b prev cur)"
    by (simp add: Classify_simps s)
  moreover have "ci_GateBlocks (CIDiffWithOptions a prev cur stop) =
      ci_GateBlocks (CIDiffWithOptions b prev cur stop)"
    by (simp add: CIDiffWithOptions_def Let_def Classify_simps list_ex_iff s)
  ultimately show ?thesis
    using m sort_keys_perm [OF m] by (simp add: Classify_simps)
qed

section \<open>What the gate lets through\<close>

text \<open>
  \<open>field_compatible\<close>: the field can be read across the change. A field off the wire on both sides is
  free; otherwise its shape is kept, up to renames, custom codecs where one was added, and
  annotations that do not narrow the wire width.
\<close>

definition width_narrowed :: "field_decl \<Rightarrow> field_decl \<Rightarrow> bool" where
  "width_narrowed pf cf \<longleftrightarrow>
     (case (effectiveWireWidthFromSnapshot (fd_Type pf) (fd_WireOverride pf),
            effectiveWireWidthFromSnapshot (fd_Type cf) (fd_WireOverride cf)) of
        (Some (pb, _), Some (cb, _)) \<Rightarrow> cb < pb
      | _ \<Rightarrow> False)"

definition dual_write_stopped :: "field_decl \<Rightarrow> field_decl \<Rightarrow> bool" where
  "dual_write_stopped pf cf \<longleftrightarrow>
     lifecycleState pf = FieldCompatWrite \<and> lifecycleState cf = FieldDeprecated"

definition field_compatible :: "field_decl \<Rightarrow> field_decl \<Rightarrow> bool" where
  "field_compatible pf cf \<longleftrightarrow>
     shape_frozen pf cf \<or>
     (fd_Type cf = fd_Type pf \<and> fd_Optional cf = fd_Optional pf \<and>
      fd_CycleBreak cf = fd_CycleBreak pf \<and>
      (fd_Custom pf = [] \<or> fd_Custom cf = fd_Custom pf) \<and>
      (fd_Custom pf = [] \<longrightarrow> fd_Custom cf = [] \<longrightarrow>
         fd_Wire cf = fd_Wire pf \<and>
         (fd_WireOverride cf = fd_WireOverride pf \<or> \<not> width_narrowed pf cf)) \<and>
      (fd_MapKeyUnderlying pf = [] \<or> fd_MapKeyUnderlying cf = [] \<or>
       fd_MapKeyUnderlying cf = fd_MapKeyUnderlying pf))"

text \<open>No field appears under a new tag while an old field of its name sits under another one.\<close>

definition no_tag_moved :: "struct_decl \<Rightarrow> struct_decl \<Rightarrow> bool" where
  "no_tag_moved p c \<longleftrightarrow>
     (\<forall>tag cf. index_fields (sd_Fields c) tag = Some cf \<longrightarrow> index_fields (sd_Fields p) tag = None \<longrightarrow>
        index_fields_by_name (sd_Fields p) (fd_Name cf) = None)"

definition struct_compatible :: "bool \<Rightarrow> struct_decl \<Rightarrow> struct_decl \<Rightarrow> bool" where
  "struct_compatible stop p c \<longleftrightarrow>
     (\<forall>tag pf. index_fields (sd_Fields p) tag = Some pf \<longrightarrow>
        (case index_fields (sd_Fields c) tag of
           None \<Rightarrow> sd_AllowBreaking c \<noteq> [] \<and> lifecycleState pf \<noteq> FieldCompatWrite
         | Some cf \<Rightarrow> (dual_write_stopped pf cf \<longrightarrow> stop) \<and>
             (sd_AllowBreaking c \<noteq> [] \<or> field_compatible pf cf))) \<and>
     (sd_AllowBreaking c \<noteq> [] \<or> no_tag_moved p c \<and> set (sd_Reserved p) \<subseteq> set (sd_Reserved c))"

definition schema_compatible :: "bool \<Rightarrow> schema \<Rightarrow> schema \<Rightarrow> bool" where
  "schema_compatible stop prev cur \<longleftrightarrow>
     ref_key ` set (sc_Roots prev) \<subseteq> ref_key ` set (sc_Roots cur) \<and>
     (\<forall>k p. index_by_key (sc_Structs prev) k = Some p \<longrightarrow>
        (\<exists>c. index_by_key (sc_Structs cur) k = Some c \<and> struct_compatible stop p c))"

text \<open>A change that still blocks after both acknowledgements.\<close>

definition blocks :: "bool \<Rightarrow> string \<Rightarrow> change \<Rightarrow> bool" where
  "blocks stop allow ch \<longleftrightarrow> blocking (operator_ack stop (acknowledge allow ch))"

definition any_blocks :: "bool \<Rightarrow> string \<Rightarrow> change list \<Rightarrow> bool" where
  "any_blocks stop allow cs \<longleftrightarrow> (\<exists>ch\<in>set cs. blocks stop allow ch)"

lemma any_blocks_simps [simp]:
  "\<not> any_blocks stop allow []"
  "any_blocks stop allow (c # cs) \<longleftrightarrow> blocks stop allow c \<or> any_blocks stop allow cs"
  "any_blocks stop allow (cs @ ds) \<longleftrightarrow> any_blocks stop allow cs \<or> any_blocks stop allow ds"
  by (auto simp: any_blocks_def)

lemma blocks_safe [simp]: "\<not> blocks stop allow (safe c s d)"
  and blocks_warning [simp]: "\<not> blocks stop allow (warning c s d)"
  by (simp_all add: blocks_def blocking_def operator_ack_def acknowledge_def)

lemma blocks_breaking:
  "blocks stop allow (breaking c s d) \<longleftrightarrow>
     (if c = ''field/compat-write-removed'' then \<not> stop
      else if c = ''field/removed-compat-write'' then True else allow = [])"
  by (auto simp: blocks_def blocking_def operator_ack_def acknowledge_def)

lemma blocks_field_parts:
  "any_blocks stop allow (type_change key tag pf cf) \<longleftrightarrow>
     allow = [] \<and> fd_Type cf \<noteq> fd_Type pf \<and> \<not> shape_frozen pf cf"
  "\<not> any_blocks stop allow (alias_change key tag pf cf)"
  "\<not> any_blocks stop allow (flatten_change key tag pf cf)"
  "any_blocks stop allow (wire_change key tag pf cf) \<longleftrightarrow>
     allow = [] \<and> fd_Wire cf \<noteq> fd_Wire pf \<and> \<not> shape_frozen pf cf \<and> fd_Custom pf = [] \<and> fd_Custom cf = []"
  "any_blocks stop allow (optional_change key tag pf cf) \<longleftrightarrow>
     allow = [] \<and> fd_Optional cf \<noteq> fd_Optional pf \<and> \<not> shape_frozen pf cf"
  "\<not> any_blocks stop allow (rename_change key tag pf cf)"
  "any_blocks stop allow (cycle_change key tag pf cf) \<longleftrightarrow>
     allow = [] \<and> fd_CycleBreak cf \<noteq> fd_CycleBreak pf \<and> \<not> shape_frozen pf cf"
  "any_blocks stop allow (map_key_change key tag pf cf) \<longleftrightarrow>
     allow = [] \<and> fd_MapKeyUnderlying pf \<noteq> [] \<and> fd_MapKeyUnderlying cf \<noteq> [] \<and>
       fd_MapKeyUnderlying cf \<noteq> fd_MapKeyUnderlying pf \<and> \<not> shape_frozen pf cf"
  "any_blocks stop allow (custom_change key tag pf cf) \<longleftrightarrow>
     allow = [] \<and> fd_Custom pf \<noteq> [] \<and> fd_Custom cf \<noteq> fd_Custom pf \<and> \<not> shape_frozen pf cf"
  by (auto simp: type_change_def alias_change_def flatten_change_def wire_change_def
      optional_change_def rename_change_def cycle_change_def map_key_change_def custom_change_def
      blocks_breaking Let_def split: option.split)

lemma blocks_lifecycle:
  "any_blocks stop allow (lifecycle_change key tag pf cf) \<longleftrightarrow> dual_write_stopped pf cf \<and> \<not> stop"
  by (cases "lifecycleState pf"; cases "lifecycleState cf")
    (simp_all add: lifecycle_change_def dual_write_stopped_def blocks_breaking)

lemma blocks_width:
  "any_blocks stop allow (width_change key tag pf cf) \<longleftrightarrow>
     allow = [] \<and> fd_WireOverride cf \<noteq> fd_WireOverride pf \<and> \<not> shape_frozen pf cf \<and>
     fd_Custom pf = [] \<and> fd_Custom cf = [] \<and> width_narrowed pf cf"
  by (auto simp: width_change_def width_narrowed_def blocks_breaking Let_def
      split: option.split prod.split)

lemma blocks_field_changes:
  "any_blocks stop allow (field_changes key tag pf cf) \<longleftrightarrow>
     dual_write_stopped pf cf \<and> \<not> stop \<or> allow = [] \<and> \<not> field_compatible pf cf"
  by (simp only: field_changes_def any_blocks_simps blocks_field_parts blocks_lifecycle blocks_width
      field_compatible_def simp_thms) argo

lemma blocks_removed:
  "any_blocks stop allow (removed_field key tag pf) \<longleftrightarrow> lifecycleState pf = FieldCompatWrite \<or> allow = []"
  by (simp add: removed_field_def lifecycleState_def blocks_breaking)

lemma any_blocks_concat_map:
  "any_blocks stop allow (concat (map f xs)) \<longleftrightarrow> (\<exists>x\<in>set xs. any_blocks stop allow (f x))"
  by (induction xs) auto

lemma set_tag_range:
  "lawful_order ord \<Longrightarrow> set (tag_range ord site fs) = {(t, f). index_fields fs t = Some f}"
  using index_by_cover [of _ fs fd_Tag]
  by (fastforce simp: tag_range_def index_fields_def dest: index_by_SomeD)

lemma index_fields_tag: "index_fields fs t = Some f \<Longrightarrow> fd_Tag f = t"
  by (auto simp: index_fields_def dest: index_by_SomeD)

lemma blocks_kept:
  assumes "lawful_order ord"
  shows "any_blocks stop (sd_AllowBreaking c) (kept_fields ord key p c) \<longleftrightarrow>
    (\<exists>tag pf. index_fields (sd_Fields p) tag = Some pf \<and>
      \<not> (case index_fields (sd_Fields c) tag of
           None \<Rightarrow> sd_AllowBreaking c \<noteq> [] \<and> lifecycleState pf \<noteq> FieldCompatWrite
         | Some cf \<Rightarrow> (dual_write_stopped pf cf \<longrightarrow> stop) \<and>
             (sd_AllowBreaking c \<noteq> [] \<or> field_compatible pf cf)))"
proof -
  have "any_blocks stop (sd_AllowBreaking c)
      (case index_fields (sd_Fields c) tag of None \<Rightarrow> removed_field key tag pf
       | Some cf \<Rightarrow> field_changes key tag pf cf) \<longleftrightarrow>
    \<not> (case index_fields (sd_Fields c) tag of
           None \<Rightarrow> sd_AllowBreaking c \<noteq> [] \<and> lifecycleState pf \<noteq> FieldCompatWrite
         | Some cf \<Rightarrow> (dual_write_stopped pf cf \<longrightarrow> stop) \<and>
             (sd_AllowBreaking c \<noteq> [] \<or> field_compatible pf cf))" for tag pf
    by (cases "index_fields (sd_Fields c) tag") (auto simp: blocks_removed blocks_field_changes)
  then show ?thesis
    unfolding kept_fields_def any_blocks_concat_map set_tag_range [OF assms] by auto
qed

lemma blocks_new:
  assumes "lawful_order ord"
  shows "any_blocks stop allow (new_fields ord key p c) \<longleftrightarrow> allow = [] \<and> \<not> no_tag_moved p c"
proof -
  have *: "any_blocks stop allow (added_field key (index_fields_by_name (sd_Fields p)) tag cf) \<longleftrightarrow>
      allow = [] \<and> index_fields_by_name (sd_Fields p) (fd_Name cf) \<noteq> None"
    if "index_fields (sd_Fields c) tag = Some cf" "index_fields (sd_Fields p) tag = None" for tag cf
  proof (cases "index_fields_by_name (sd_Fields p) (fd_Name cf)")
    case (Some pf)
    then have "pf \<in> set (sd_Fields p)" by (auto simp: index_fields_by_name_def dest: index_by_SomeD)
    then have "index_fields (sd_Fields p) (fd_Tag pf) \<noteq> None"
      using index_by_cover [of pf _ fd_Tag] by (simp add: index_fields_def)
    then have "fd_Tag pf \<noteq> fd_Tag cf" using index_fields_tag [OF that(1)] that(2) by auto
    then show ?thesis using Some by (simp add: added_field_def blocks_breaking)
  qed (simp add: added_field_def)
  have "any_blocks stop allow (new_fields ord key p c) \<longleftrightarrow>
      (\<exists>tag cf. index_fields (sd_Fields c) tag = Some cf \<and> index_fields (sd_Fields p) tag = None \<and>
        any_blocks stop allow (added_field key (index_fields_by_name (sd_Fields p)) tag cf))"
    unfolding new_fields_def any_blocks_concat_map set_tag_range [OF assms] by auto
  then show ?thesis unfolding no_tag_moved_def using * by blast
qed

lemma blocks_reserved:
  assumes "lawful_order ord"
  shows "any_blocks stop allow (reserved_changes ord key p c) \<longleftrightarrow>
    allow = [] \<and> \<not> set (sd_Reserved p) \<subseteq> set (sd_Reserved c)"
  using assms
  by (auto simp: reserved_changes_def any_blocks_concat_map blocks_breaking split: if_splits)

lemma blocks_classifyStruct:
  assumes "lawful_order ord"
  shows "any_blocks stop (sd_AllowBreaking c) (classifyStruct ord key p c) \<longleftrightarrow> \<not> struct_compatible stop p c"
proof -
  have "\<not> any_blocks stop (sd_AllowBreaking c) (opaque_change key p c)"
    by (simp add: opaque_change_def)
  then show ?thesis
    unfolding classifyStruct_def any_blocks_simps blocks_kept [OF assms] blocks_new [OF assms]
      blocks_reserved [OF assms] struct_compatible_def
    by blast
qed

lemma blocking_mapped:
  "(\<exists>ch\<in>set (map (acknowledge allow) cs). blocking (operator_ack stop ch)) \<longleftrightarrow> any_blocks stop allow cs"
  by (auto simp: any_blocks_def blocks_def)

lemma blocking_plain: "blocking (operator_ack stop ch) \<longleftrightarrow> blocks stop [] ch"
  by (simp add: blocks_def acknowledge_def)


definition same_order :: go_order where
  "same_order = \<lparr>ord_str = \<lambda>_ xs. xs, ord_tag = \<lambda>_ xs. xs\<rparr>"

lemma lawful_same_order: "lawful_order same_order"
  by (simp add: lawful_order_def same_order_def)

definition one_field :: field_decl where
  "one_field = \<lparr>fd_Name = ''A'', fd_Tag = 1, fd_Type = ''int64'', fd_Wire = ''varint'',
     fd_Optional = False, fd_Deprecated = False, fd_CompatWrite = False, fd_CycleBreak = False,
     fd_MapKey = [], fd_MapValue = [], fd_Elem = [], fd_MapKeyUnderlying = [], fd_Custom = [],
     fd_WireOverride = [], fd_AliasType = None, fd_FlattenedFrom = [], fd_FlattenedFromPointer = False\<rparr>"

definition one_struct :: "field_decl list \<Rightarrow> schema" where
  "one_struct fs = \<lparr>sc_FmtVer = 1, sc_SchemaHint = 0, sc_Roots = [], sc_Structs =
     [\<lparr>sd_Type = TypeRef ''p'' ''S'' [] None, sd_Fields = fs, sd_Reserved = [], sd_Opaque = False,
       sd_Generic = [], sd_AllowBreaking = [], sd_TrackPresence = False, sd_BorrowStrings = False\<rparr>]\<rparr>"

lemma one_struct_index:
  "index_by_key (sc_Structs (one_struct fs)) k =
     (if k = ''p.S'' then Some (hd (sc_Structs (one_struct fs))) else None)"
  by (simp add: index_by_key_def index_by_def one_struct_def)

lemma one_struct_compatible:
  "schema_compatible False (one_struct fs) (one_struct gs) \<longleftrightarrow>
     struct_compatible False (hd (sc_Structs (one_struct fs))) (hd (sc_Structs (one_struct gs)))"
  by (auto simp: schema_compatible_def one_struct_index) (simp_all add: one_struct_def)


theorem Classify_order_independent_witness:
  "let rev_order = \<lparr>ord_str = \<lambda>_. rev, ord_tag = \<lambda>_. rev\<rparr> in
   mset (df_Changes (Classify same_order (one_struct [one_field]) (one_struct []))) =
   mset (df_Changes (Classify rev_order (one_struct [one_field]) (one_struct [])))"
proof -
  have "lawful_order \<lparr>ord_str = \<lambda>_. rev, ord_tag = \<lambda>_. rev\<rparr>" by (simp add: lawful_order_def)
  from Classify_order_independent [OF lawful_same_order this] show ?thesis by (simp add: Let_def)
qed

end
