(* ===== verification/Field_Tag.thy ===== *)
theory Field_Tag
  imports Schema_Types
begin

text \<open>
  \<^verbatim>\<open>tools/gsbmschema/parse.go\<close>: the value of a \<^verbatim>\<open>bin\<close> struct tag and the \<^verbatim>\<open>//gsbm:\<close> comment markers.
  The argument of \<^verbatim>\<open>ParseFieldTag\<close> is what \<^verbatim>\<open>tag.Lookup("bin")\<close> returns. An error is its branch with
  the arguments of its message.
\<close>

record field_tag =
  ft_Skip :: bool
  ft_Tag :: u32
  ft_Deprecated :: bool
  ft_CompatWrite :: bool
  ft_Custom :: string
  ft_CycleBreakViaID :: bool
  ft_WireOverride :: string
  ft_Set :: bool

definition no_tag :: field_tag where
  "no_tag = \<lparr>ft_Skip = False, ft_Tag = 0, ft_Deprecated = False, ft_CompatWrite = False,
     ft_Custom = [], ft_CycleBreakViaID = False, ft_WireOverride = [], ft_Set = False\<rparr>"

datatype tag_error =
    TagEmpty | TagNumber string | TagReserved | TagTooLarge u32 | OptRepeated string
  | CustomAlreadySet string string | CustomEmpty string | WidthAlreadySet string string
  | WidthEmpty string | WidthUnknown string string | OptUnknown string | CompatWithoutDeprecated
  | IdRefWithCustom string | TypeWithCustom string string | TypeWithIdRef string

definition legal_widths :: "string list" where
  "legal_widths = [''int8'', ''int16'', ''int32'', ''int64'', ''uint8'', ''uint16'', ''uint32'', ''uint64'']"

definition max_field_tag :: u32 where "max_field_tag = 2 ^ 29 - 1"

text \<open>One round of the option loop.\<close>

definition apply_opt :: "string \<Rightarrow> field_tag \<Rightarrow> tag_error + field_tag" where
  "apply_opt p ft =
     (if p = ''deprecated'' then
        (if ft_Deprecated ft then Inl (OptRepeated p) else Inr (ft\<lparr>ft_Deprecated := True\<rparr>))
      else if p = ''compat_write'' then
        (if ft_CompatWrite ft then Inl (OptRepeated p) else Inr (ft\<lparr>ft_CompatWrite := True\<rparr>))
      else if p = ''id_ref'' then
        (if ft_CycleBreakViaID ft then Inl (OptRepeated p)
         else Inr (ft\<lparr>ft_CycleBreakViaID := True\<rparr>))
      else if has_prefix ''custom='' p then
        (if ft_Custom ft \<noteq> [] then Inl (CustomAlreadySet p (ft_Custom ft))
         else let c = trim_prefix ''custom='' p in
           if c = [] then Inl (CustomEmpty p) else Inr (ft\<lparr>ft_Custom := c\<rparr>))
      else if has_prefix ''type='' p then
        (if ft_WireOverride ft \<noteq> [] then Inl (WidthAlreadySet p (ft_WireOverride ft))
         else let width = trim_prefix ''type='' p in
           if width = [] then Inl (WidthEmpty p)
           else if width \<in> set legal_widths then Inr (ft\<lparr>ft_WireOverride := width\<rparr>)
           else Inl (WidthUnknown p width))
      else Inl (OptUnknown p))"

fun apply_opts :: "string list \<Rightarrow> field_tag \<Rightarrow> tag_error + field_tag" where
  "apply_opts [] ft = Inr ft"
| "apply_opts (p # ps) ft =
     (case apply_opt p ft of Inl e \<Rightarrow> Inl e | Inr ft' \<Rightarrow> apply_opts ps ft')"

text \<open>The checks behind the loop.\<close>

definition check_combination :: "field_tag \<Rightarrow> tag_error + field_tag" where
  "check_combination ft =
     (if ft_CompatWrite ft \<and> \<not> ft_Deprecated ft then Inl CompatWithoutDeprecated
      else if ft_CycleBreakViaID ft \<and> ft_Custom ft \<noteq> [] then Inl (IdRefWithCustom (ft_Custom ft))
      else if ft_WireOverride ft \<noteq> [] \<and> ft_Custom ft \<noteq> []
      then Inl (TypeWithCustom (ft_WireOverride ft) (ft_Custom ft))
      else if ft_WireOverride ft \<noteq> [] \<and> ft_CycleBreakViaID ft
      then Inl (TypeWithIdRef (ft_WireOverride ft))
      else Inr ft)"

definition ParseFieldTag :: "string option \<Rightarrow> tag_error + field_tag" where
  "ParseFieldTag lookup =
     (case lookup of
        None \<Rightarrow> Inr no_tag
      | Some raw \<Rightarrow>
          let ft = no_tag\<lparr>ft_Set := True\<rparr> in
          if raw = ''-'' then Inr (ft\<lparr>ft_Skip := True\<rparr>)
          else let parts = split_on (CHR '','') raw in
          if hd parts = [] then Inl TagEmpty
          else (case parse_uint32 (hd parts) of
              None \<Rightarrow> Inl (TagNumber (hd parts))
            | Some n \<Rightarrow>
                if n = 0 then Inl TagReserved
                else if max_field_tag < n then Inl (TagTooLarge n)
                else (case apply_opts (tl parts) (ft\<lparr>ft_Tag := n\<rparr>) of
                    Inl e \<Rightarrow> Inl e
                  | Inr ft \<Rightarrow> check_combination ft)))"

section \<open>What a tag spells\<close>

text \<open>The options a parsed tag stands for, as they are written.\<close>

definition opt_if :: "bool \<Rightarrow> string \<Rightarrow> string set" where
  "opt_if b s = (if b then {s} else {})"

lemma opt_if_simps [simp]:
  "opt_if True s = {s}" "opt_if False s = {}" "x \<in> opt_if b s \<longleftrightarrow> b \<and> x = s"
  by (simp_all add: opt_if_def)

definition tag_options :: "field_tag \<Rightarrow> string set" where
  "tag_options ft =
     opt_if (ft_Deprecated ft) ''deprecated'' \<union> opt_if (ft_CompatWrite ft) ''compat_write'' \<union>
     opt_if (ft_CycleBreakViaID ft) ''id_ref'' \<union>
     opt_if (ft_Custom ft \<noteq> []) (''custom='' @ ft_Custom ft) \<union>
     opt_if (ft_WireOverride ft \<noteq> []) (''type='' @ ft_WireOverride ft)"

definition valid_field_tag :: "field_tag \<Rightarrow> bool" where
  "valid_field_tag ft \<longleftrightarrow>
     ft_Set ft \<and> \<not> ft_Skip ft \<and> 1 \<le> ft_Tag ft \<and> ft_Tag ft \<le> max_field_tag \<and>
     (ft_CompatWrite ft \<longrightarrow> ft_Deprecated ft) \<and>
     \<not> (ft_CycleBreakViaID ft \<and> ft_Custom ft \<noteq> []) \<and>
     \<not> (ft_WireOverride ft \<noteq> [] \<and> ft_Custom ft \<noteq> []) \<and>
     \<not> (ft_WireOverride ft \<noteq> [] \<and> ft_CycleBreakViaID ft) \<and>
     (ft_WireOverride ft = [] \<or> ft_WireOverride ft \<in> set legal_widths)"

definition same_base :: "field_tag \<Rightarrow> field_tag \<Rightarrow> bool" where
  "same_base f g \<longleftrightarrow> ft_Skip f = ft_Skip g \<and> ft_Tag f = ft_Tag g \<and> ft_Set f = ft_Set g"

definition width_ok :: "field_tag \<Rightarrow> bool" where
  "width_ok ft \<longleftrightarrow> ft_WireOverride ft = [] \<or> ft_WireOverride ft \<in> set legal_widths"

lemma tag_options_members:
  "''deprecated'' \<in> tag_options ft \<longleftrightarrow> ft_Deprecated ft"
  "''compat_write'' \<in> tag_options ft \<longleftrightarrow> ft_CompatWrite ft"
  "''id_ref'' \<in> tag_options ft \<longleftrightarrow> ft_CycleBreakViaID ft"
  "''custom='' @ c \<in> tag_options ft \<longleftrightarrow> c \<noteq> [] \<and> ft_Custom ft = c"
  "''type='' @ w \<in> tag_options ft \<longleftrightarrow> w \<noteq> [] \<and> ft_WireOverride ft = w"
  by (auto simp: tag_options_def)

lemma tag_options_inj:
  assumes "same_base f g" and "tag_options f = tag_options g"
  shows "f = g"
proof -
  have "ft_Custom f = ft_Custom g"
    using tag_options_members(4) [of "ft_Custom f" f] tag_options_members(4) [of "ft_Custom f" g]
      tag_options_members(4) [of "ft_Custom g" f] tag_options_members(4) [of "ft_Custom g" g] assms(2)
    by metis
  moreover have "ft_WireOverride f = ft_WireOverride g"
    using tag_options_members(5) [of "ft_WireOverride f" f] tag_options_members(5) [of "ft_WireOverride f" g]
      tag_options_members(5) [of "ft_WireOverride g" f] tag_options_members(5) [of "ft_WireOverride g" g]
      assms(2) by metis
  ultimately show ?thesis
    using assms tag_options_members(1-3) [of f] tag_options_members(1-3) [of g]
    by (auto simp: same_base_def intro!: field_tag.equality)
qed

text \<open>One accepted option: what it was and what it changed.\<close>

inductive accepts_opt :: "string \<Rightarrow> field_tag \<Rightarrow> field_tag \<Rightarrow> bool" where
  "\<not> ft_Deprecated f \<Longrightarrow> accepts_opt ''deprecated'' f (f\<lparr>ft_Deprecated := True\<rparr>)"
| "\<not> ft_CompatWrite f \<Longrightarrow> accepts_opt ''compat_write'' f (f\<lparr>ft_CompatWrite := True\<rparr>)"
| "\<not> ft_CycleBreakViaID f \<Longrightarrow> accepts_opt ''id_ref'' f (f\<lparr>ft_CycleBreakViaID := True\<rparr>)"
| "ft_Custom f = [] \<Longrightarrow> c \<noteq> [] \<Longrightarrow> accepts_opt (''custom='' @ c) f (f\<lparr>ft_Custom := c\<rparr>)"
| "ft_WireOverride f = [] \<Longrightarrow> w \<noteq> [] \<Longrightarrow> w \<in> set legal_widths \<Longrightarrow>
     accepts_opt (''type='' @ w) f (f\<lparr>ft_WireOverride := w\<rparr>)"

lemma apply_opt_literals:
  "apply_opt ''deprecated'' f =
     (if ft_Deprecated f then Inl (OptRepeated ''deprecated'') else Inr (f\<lparr>ft_Deprecated := True\<rparr>))"
  "apply_opt ''compat_write'' f =
     (if ft_CompatWrite f then Inl (OptRepeated ''compat_write'') else Inr (f\<lparr>ft_CompatWrite := True\<rparr>))"
  "apply_opt ''id_ref'' f =
     (if ft_CycleBreakViaID f then Inl (OptRepeated ''id_ref'')
      else Inr (f\<lparr>ft_CycleBreakViaID := True\<rparr>))"
  by (simp_all add: apply_opt_def)

lemma apply_opt_custom:
  "apply_opt (''custom='' @ c) f =
     (if ft_Custom f \<noteq> [] then Inl (CustomAlreadySet (''custom='' @ c) (ft_Custom f))
      else if c = [] then Inl (CustomEmpty (''custom='' @ c)) else Inr (f\<lparr>ft_Custom := c\<rparr>))"
  by (simp add: apply_opt_def has_prefix_def trim_prefix_def)

lemma apply_opt_type:
  "apply_opt (''type='' @ w) f =
     (if ft_WireOverride f \<noteq> [] then Inl (WidthAlreadySet (''type='' @ w) (ft_WireOverride f))
      else if w = [] then Inl (WidthEmpty (''type='' @ w))
      else if w \<in> set legal_widths then Inr (f\<lparr>ft_WireOverride := w\<rparr>)
      else Inl (WidthUnknown (''type='' @ w) w))"
  by (simp add: apply_opt_def has_prefix_def trim_prefix_def)

lemma apply_opt_accepts: "apply_opt p f = Inr g \<longleftrightarrow> accepts_opt p f g"
proof
  assume a: "apply_opt p f = Inr g"
  consider "p = ''deprecated''" | "p = ''compat_write''" | "p = ''id_ref''"
    | c where "p = ''custom='' @ c" | w where "p = ''type='' @ w"
    | "p \<noteq> ''deprecated''" "p \<noteq> ''compat_write''" "p \<noteq> ''id_ref''"
      "\<not> has_prefix ''custom='' p" "\<not> has_prefix ''type='' p"
    unfolding has_prefix_iff by metis
  then show "accepts_opt p f g"
  proof cases
    case (4 c)
    then show ?thesis
      using a accepts_opt.intros(4) [of f c] by (simp only: apply_opt_custom split: if_splits) auto
  next
    case (5 w)
    then show ?thesis
      using a accepts_opt.intros(5) [of f w] by (simp only: apply_opt_type split: if_splits) auto
  next
    case 6
    then show ?thesis using a by (simp only: apply_opt_def if_False) simp
  qed (use a in \<open>auto simp only: apply_opt_literals intro: accepts_opt.intros split: if_splits\<close>)
next
  assume "accepts_opt p f g"
  then show "apply_opt p f = Inr g"
    by cases (simp_all only: apply_opt_literals apply_opt_custom apply_opt_type simp_thms if_True if_False)
qed

lemma accepts_opt_sound:
  assumes "accepts_opt p f g"
  shows "same_base f g \<and> p \<notin> tag_options f \<and> tag_options g = insert p (tag_options f) \<and>
    (width_ok f \<longrightarrow> width_ok g)"
  using assms
proof cases
  case (4 c)
  then have "p \<notin> tag_options f" using tag_options_members(4) [of c f] by metis
  then show ?thesis using 4 by (simp add: same_base_def width_ok_def tag_options_def insert_commute)
next
  case (5 w)
  then have "p \<notin> tag_options f" using tag_options_members(5) [of w f] by metis
  then show ?thesis using 5 by (simp add: same_base_def width_ok_def tag_options_def)
qed (simp_all add: same_base_def width_ok_def tag_options_members, simp_all add: tag_options_def Un_ac)

lemma accepts_opt_total:
  assumes "p \<notin> tag_options f" and "insert p (tag_options f) \<subseteq> tag_options h" and "width_ok h"
  shows "\<exists>g. accepts_opt p f g"
proof -
  have "p \<in> tag_options h" using assms(2) by simp
  then consider "p = ''deprecated''" | "p = ''compat_write''" | "p = ''id_ref''"
    | "p = ''custom='' @ ft_Custom h" "ft_Custom h \<noteq> []"
    | "p = ''type='' @ ft_WireOverride h" "ft_WireOverride h \<noteq> []"
    unfolding tag_options_def Un_iff opt_if_simps by blast
  then show ?thesis
  proof cases
    case 1
    then show ?thesis using assms(1) tag_options_members(1) accepts_opt.intros(1) by metis
  next
    case 2
    then show ?thesis using assms(1) tag_options_members(2) accepts_opt.intros(2) by metis
  next
    case 3
    then show ?thesis using assms(1) tag_options_members(3) accepts_opt.intros(3) by metis
  next
    case 4
    have "ft_Custom f = []"
      using 4 assms(1,2) tag_options_members(4) [of "ft_Custom f" f] tag_options_members(4) [of "ft_Custom f" h]
      by (metis insert_subset subsetD)
    then show ?thesis using 4 accepts_opt.intros(4) by metis
  next
    case 5
    have "ft_WireOverride f = []"
      using 5 assms(1,2) tag_options_members(5) [of "ft_WireOverride f" f]
        tag_options_members(5) [of "ft_WireOverride f" h]
      by (metis insert_subset subsetD)
    then show ?thesis using 5 accepts_opt.intros(5) assms(3) by (metis width_ok_def)
  qed
qed

lemma apply_opts_iff:
  "width_ok f \<Longrightarrow> apply_opts ps f = Inr g \<longleftrightarrow>
     same_base f g \<and> width_ok g \<and> distinct ps \<and> set ps \<inter> tag_options f = {} \<and>
     tag_options g = set ps \<union> tag_options f"
proof (induction ps arbitrary: f)
  case Nil
  then show ?case using tag_options_inj [of f g] by (auto simp: same_base_def)
next
  case (Cons p ps)
  show ?case
  proof (cases "apply_opt p f")
    case (Inr f1)
    note s = accepts_opt_sound [OF Inr [unfolded apply_opt_accepts]]
    have "apply_opts (p # ps) f = Inr g \<longleftrightarrow> same_base f1 g \<and> width_ok g \<and> distinct ps \<and>
        set ps \<inter> tag_options f1 = {} \<and> tag_options g = set ps \<union> tag_options f1"
      using Cons.IH [of f1] s Cons.prems Inr by simp
    then show ?thesis using s by (auto simp: same_base_def)
  next
    case (Inl e)
    then have "\<not> (p \<notin> tag_options f \<and> insert p (tag_options f) \<subseteq> tag_options g \<and> width_ok g)"
      using accepts_opt_total [of p f g] by (metis apply_opt_accepts sum.distinct(1))
    then show ?thesis using Inl by auto
  qed
qed

text \<open>
  C37: \<^verbatim>\<open>ParseFieldTag\<close> accepts exactly the legal tags. It returns a field tag without error iff the tag
  is absent, is \<^verbatim>\<open>-\<close>, or is a decimal number in 1 .. 2^29-1 followed by the options the result
  stands for, each exactly once and in any order, with \<^verbatim>\<open>compat_write\<close> only beside \<^verbatim>\<open>deprecated\<close>, a
  recognised width, and no two of \<^verbatim>\<open>id_ref\<close>, \<^verbatim>\<open>custom=\<close> and \<^verbatim>\<open>type=\<close> together.
\<close>

theorem ParseFieldTag_accepts:
  "ParseFieldTag (Some raw) = Inr ft \<longleftrightarrow>
     (if raw = ''-'' then ft = no_tag\<lparr>ft_Set := True, ft_Skip := True\<rparr>
      else valid_field_tag ft \<and> (\<exists>num os. split_on (CHR '','') raw = num # os \<and>
             parse_uint32 num = Some (ft_Tag ft) \<and> distinct os \<and> set os = tag_options ft))"
proof (cases "raw = ''-''")
  case True
  then show ?thesis by (auto simp: ParseFieldTag_def Let_def)
next
  case False
  obtain num os where parts: "split_on (CHR '','') raw = num # os"
    by (cases "split_on (CHR '','') raw") simp_all
  show ?thesis
  proof (cases "parse_uint32 num")
    case None
    then show ?thesis using False parts by (auto simp: ParseFieldTag_def Let_def)
  next
    case (Some n)
    then have num: "num \<noteq> []" by (auto simp: parse_uint32_def)
    let ?f = "no_tag\<lparr>ft_Set := True, ft_Tag := n\<rparr>"
    have f: "width_ok ?f" "tag_options ?f = {}"
      by (simp_all add: width_ok_def tag_options_def no_tag_def)
    have c: "(case x of Inl e \<Rightarrow> Inl e | Inr ft \<Rightarrow> check_combination ft) = Inr ft \<longleftrightarrow>
        (x = Inr ft \<and> check_combination ft = Inr ft)" for x
      by (cases x) (auto simp: check_combination_def split: if_splits)
    have "1 \<le> n \<longleftrightarrow> n \<noteq> 0" by (simp add: word_le_nat_alt Suc_le_eq unat_gt_0)
    then have "ParseFieldTag (Some raw) = Inr ft \<longleftrightarrow> 1 \<le> n \<and> n \<le> max_field_tag \<and>
        apply_opts os ?f = Inr ft \<and> check_combination ft = Inr ft"
      using False parts num Some by (auto simp: ParseFieldTag_def Let_def c)
    also have "\<dots> \<longleftrightarrow> 1 \<le> n \<and> n \<le> max_field_tag \<and> same_base ?f ft \<and> width_ok ft \<and> distinct os \<and>
        tag_options ft = set os \<and> check_combination ft = Inr ft"
      using apply_opts_iff [OF f(1), of os ft] f(2) by auto
    also have "\<dots> \<longleftrightarrow> valid_field_tag ft \<and> n = ft_Tag ft \<and> distinct os \<and> set os = tag_options ft"
      by (auto simp: same_base_def no_tag_def valid_field_tag_def width_ok_def check_combination_def
          split: if_splits)
    finally show ?thesis using False parts Some by auto
  qed
qed

end
