(* ===== verification/Markers.thy ===== *)
theory Markers
  imports Field_Tag
begin

text \<open>
  \<^verbatim>\<open>tools/gsbmschema/parse.go\<close>: the \<^verbatim>\<open>//gsbm:\<close> directives of a comment group. A comment group is the
  list of its comment texts, \<open>None\<close> when there is none; texts are ASCII. \<^verbatim>\<open>parseMarkers\<close> returns what
  it has collected also when it returns an error, and its callers use it.
\<close>

record markers =
  mk_root :: bool
  mk_opaque :: bool
  mk_cycleBreakViaID :: bool
  mk_trackPresence :: bool
  mk_borrowStrings :: bool
  mk_reserved :: "u32 list"
  mk_allowBreaking :: string

definition no_markers :: markers where
  "no_markers = \<lparr>mk_root = False, mk_opaque = False, mk_cycleBreakViaID = False,
     mk_trackPresence = False, mk_borrowStrings = False, mk_reserved = [], mk_allowBreaking = []\<rparr>"

datatype marker_error =
    ReservedEmpty | ReservedNumber string | ReservedRange u32 | NoJustification | UnknownDirective string

definition is_space :: "char \<Rightarrow> bool" where
  "is_space c \<longleftrightarrow> of_char c \<in> {9, 10, 11, 12, 13, 32 :: nat}"

definition trim_space :: "string \<Rightarrow> string" where
  "trim_space s = rev (dropWhile is_space (rev (dropWhile is_space s)))"

definition trim_suffix :: "string \<Rightarrow> string \<Rightarrow> string" where
  "trim_suffix p s = (if has_suffix p s then take (length s - length p) s else s)"

text \<open>\<^verbatim>\<open>strings.Cut(s, " ")\<close> without its third result.\<close>

definition cut_space :: "string \<Rightarrow> string \<times> string" where
  "cut_space s = (let a = takeWhile (\<lambda>c. c \<noteq> CHR '' '') s in (a, drop (Suc (length a)) s))"

fun parse_reserved_tags :: "string list \<Rightarrow> marker_error + u32 list" where
  "parse_reserved_tags [] = Inr []"
| "parse_reserved_tags (p # ps) =
     (let p = trim_space p in
      case parse_uint32 p of
        None \<Rightarrow> Inl (ReservedNumber p)
      | Some n \<Rightarrow>
          if n = 0 \<or> max_field_tag < n then Inl (ReservedRange n)
          else (case parse_reserved_tags ps of Inl e \<Rightarrow> Inl e | Inr ns \<Rightarrow> Inr (n # ns)))"

definition parseReservedList :: "string \<Rightarrow> marker_error + u32 list" where
  "parseReservedList arg =
     (if arg = [] then Inl ReservedEmpty else parse_reserved_tags (split_on (CHR '','') arg))"

text \<open>The directive of one comment, if it is one: its name and its argument.\<close>

definition directive_of :: "string \<Rightarrow> (string \<times> string) option" where
  "directive_of txt =
     (let line = trim_space (trim_prefix ''/*'' (trim_prefix ''//'' txt));
          line = trim_space (trim_suffix ''*/'' line) in
      if \<not> has_prefix ''gsbm:'' line then None
      else case cut_space (trim_prefix ''gsbm:'' line) of
        (name, arg) \<Rightarrow> Some (trim_space name, trim_space arg))"

definition apply_directive :: "string \<Rightarrow> string \<Rightarrow> markers \<Rightarrow> marker_error + markers" where
  "apply_directive name arg m =
     (if name = ''root'' then Inr (m\<lparr>mk_root := True\<rparr>)
      else if name = ''opaque'' then Inr (m\<lparr>mk_opaque := True\<rparr>)
      else if name = ''cycle_break_via_id'' then Inr (m\<lparr>mk_cycleBreakViaID := True\<rparr>)
      else if name = ''reserved'' then
        (case parseReservedList arg of
           Inl e \<Rightarrow> Inl e
         | Inr tags \<Rightarrow> Inr (m\<lparr>mk_reserved := mk_reserved m @ tags\<rparr>))
      else if name = ''allow-breaking'' then
        (if arg = [] then Inl NoJustification else Inr (m\<lparr>mk_allowBreaking := arg\<rparr>))
      else if name = ''presence'' then Inr m
      else if name = ''track-presence'' then Inr (m\<lparr>mk_trackPresence := True\<rparr>)
      else if name = ''borrow-strings'' then Inr (m\<lparr>mk_borrowStrings := True\<rparr>)
      else Inl (UnknownDirective name))"

fun scan_comments :: "string list \<Rightarrow> markers \<Rightarrow> markers \<times> marker_error option" where
  "scan_comments [] m = (m, None)"
| "scan_comments (c # cs) m =
     (case directive_of c of
        None \<Rightarrow> scan_comments cs m
      | Some (name, arg) \<Rightarrow>
          (case apply_directive name arg m of
             Inl e \<Rightarrow> (m, Some e)
           | Inr m' \<Rightarrow> scan_comments cs m'))"

definition parseMarkers :: "string list option \<Rightarrow> markers \<times> marker_error option" where
  "parseMarkers cg = (case cg of None \<Rightarrow> (no_markers, None) | Some cs \<Rightarrow> scan_comments cs no_markers)"

section \<open>What the markers say\<close>

definition known_directives :: "string set" where
  "known_directives = {''root'', ''opaque'', ''cycle_break_via_id'', ''reserved'', ''allow-breaking'',
     ''presence'', ''track-presence'', ''borrow-strings''}"

definition directives :: "string list \<Rightarrow> (string \<times> string) list" where
  "directives cs = List.map_filter directive_of cs"

lemma directives_simps [simp]:
  "directives [] = []"
  "directives (c # cs) = (case directive_of c of None \<Rightarrow> directives cs | Some d \<Rightarrow> d # directives cs)"
  by (auto simp: directives_def map_filter_simps split: option.split)

text \<open>The directives of a list, run over what is already collected.\<close>

fun run_directives :: "(string \<times> string) list \<Rightarrow> markers \<Rightarrow> markers \<times> marker_error option" where
  "run_directives [] m = (m, None)"
| "run_directives ((name, arg) # ds) m =
     (case apply_directive name arg m of
        Inl e \<Rightarrow> (m, Some e)
      | Inr m' \<Rightarrow> run_directives ds m')"

lemma scan_run: "scan_comments cs m = run_directives (directives cs) m"
  by (induction cs arbitrary: m) (auto split: option.split sum.split)

lemma apply_directive_effect:
  assumes "apply_directive name arg m = Inr m'"
  shows "name \<in> known_directives"
    and "mk_root m' \<longleftrightarrow> mk_root m \<or> name = ''root''"
    and "mk_opaque m' \<longleftrightarrow> mk_opaque m \<or> name = ''opaque''"
    and "mk_cycleBreakViaID m' \<longleftrightarrow> mk_cycleBreakViaID m \<or> name = ''cycle_break_via_id''"
    and "mk_trackPresence m' \<longleftrightarrow> mk_trackPresence m \<or> name = ''track-presence''"
    and "mk_borrowStrings m' \<longleftrightarrow> mk_borrowStrings m \<or> name = ''borrow-strings''"
    and "mk_reserved m' = mk_reserved m @
      (if name = ''reserved'' then projr (parseReservedList arg) else [])"
    and "mk_allowBreaking m' = (if name = ''allow-breaking'' then arg else mk_allowBreaking m)"
    and "name = ''allow-breaking'' \<Longrightarrow> arg \<noteq> []"
  using assms
  by (simp_all add: apply_directive_def known_directives_def split: if_splits sum.splits) auto

definition reserved_of :: "(string \<times> string) list \<Rightarrow> u32 list" where
  "reserved_of ds = concat (map (\<lambda>d. if fst d = ''reserved'' then projr (parseReservedList (snd d)) else []) ds)"

definition justification :: "string \<Rightarrow> (string \<times> string) list \<Rightarrow> string" where
  "justification s ds = fold (\<lambda>d s. if fst d = ''allow-breaking'' then snd d else s) ds s"

lemma run_directives_ok:
  "run_directives ds m = (m', None) \<Longrightarrow>
     fst ` set ds \<subseteq> known_directives \<and>
     (mk_root m' \<longleftrightarrow> mk_root m \<or> ''root'' \<in> fst ` set ds) \<and>
     (mk_opaque m' \<longleftrightarrow> mk_opaque m \<or> ''opaque'' \<in> fst ` set ds) \<and>
     (mk_cycleBreakViaID m' \<longleftrightarrow> mk_cycleBreakViaID m \<or> ''cycle_break_via_id'' \<in> fst ` set ds) \<and>
     (mk_trackPresence m' \<longleftrightarrow> mk_trackPresence m \<or> ''track-presence'' \<in> fst ` set ds) \<and>
     (mk_borrowStrings m' \<longleftrightarrow> mk_borrowStrings m \<or> ''borrow-strings'' \<in> fst ` set ds) \<and>
     mk_reserved m' = mk_reserved m @ reserved_of ds \<and>
     mk_allowBreaking m' = justification (mk_allowBreaking m) ds"
proof (induction ds arbitrary: m)
  case Nil
  then show ?case by (simp add: reserved_of_def justification_def)
next
  case (Cons d ds)
  obtain name arg where d: "d = (name, arg)" by (cases d)
  obtain m1 where m1: "apply_directive name arg m = Inr m1" "run_directives ds m1 = (m', None)"
    using Cons.prems d by (auto split: sum.splits)
  note e = apply_directive_effect [OF m1(1)]
  note ih = Cons.IH [OF m1(2)]
  have i: "x \<in> fst ` set (d # ds) \<longleftrightarrow> name = x \<or> x \<in> fst ` set ds" for x
    using d by auto
  have "fst ` set (d # ds) \<subseteq> known_directives" using ih e(1) d by simp
  moreover have "mk_root m' \<longleftrightarrow> mk_root m \<or> ''root'' \<in> fst ` set (d # ds)"
    unfolding i using ih e(2) by blast
  moreover have "mk_opaque m' \<longleftrightarrow> mk_opaque m \<or> ''opaque'' \<in> fst ` set (d # ds)"
    unfolding i using ih e(3) by blast
  moreover have "mk_cycleBreakViaID m' \<longleftrightarrow>
      mk_cycleBreakViaID m \<or> ''cycle_break_via_id'' \<in> fst ` set (d # ds)"
    unfolding i using ih e(4) by blast
  moreover have "mk_trackPresence m' \<longleftrightarrow> mk_trackPresence m \<or> ''track-presence'' \<in> fst ` set (d # ds)"
    unfolding i using ih e(5) by blast
  moreover have "mk_borrowStrings m' \<longleftrightarrow> mk_borrowStrings m \<or> ''borrow-strings'' \<in> fst ` set (d # ds)"
    unfolding i using ih e(6) by blast
  moreover have "mk_reserved m' = mk_reserved m @ reserved_of (d # ds)"
    using ih e(7) d by (simp add: reserved_of_def)
  moreover have "mk_allowBreaking m' = justification (mk_allowBreaking m) (d # ds)"
    using ih e(8) d by (simp add: justification_def)
  ultimately show ?case by blast
qed

lemma run_directives_error:
  "run_directives ds m = (m', Some e) \<Longrightarrow>
     \<exists>ds1 name arg ds2. ds = ds1 @ (name, arg) # ds2 \<and> run_directives ds1 m = (m', None) \<and>
       apply_directive name arg m' = Inl e"
proof (induction ds arbitrary: m)
  case (Cons d ds)
  obtain name arg where d: "d = (name, arg)" by (cases d)
  show ?case
  proof (cases "apply_directive name arg m")
    case (Inl e')
    then show ?thesis using Cons.prems d
      by (intro exI [of _ "[]"] exI [of _ name] exI [of _ arg] exI [of _ ds]) simp
  next
    case (Inr m1)
    then have "run_directives ds m1 = (m', Some e)" using Cons.prems d by simp
    then obtain ds1 n a ds2 where "ds = ds1 @ (n, a) # ds2" "run_directives ds1 m1 = (m', None)"
      "apply_directive n a m' = Inl e" using Cons.IH by blast
    then show ?thesis using Inr d
      by (intro exI [of _ "d # ds1"] exI [of _ n] exI [of _ a] exI [of _ ds2]) simp
  qed
qed simp

lemma apply_directive_unknown:
  "name \<notin> known_directives \<Longrightarrow> apply_directive name arg m = Inl (UnknownDirective name)"
  by (simp add: apply_directive_def known_directives_def)

text \<open>
  \<^verbatim>\<open>parseMarkers\<close> reads a comment group completely or stops at the first bad directive. Without an
  error every directive was a known one, each flag is set iff its directive occurs, the reserved
  tags are those of all lists in order and the justification is the last one given. An error
  comes from one directive, and what is returned beside it are the markers before it; a
  misspelt directive is always such an error.
\<close>

theorem parseMarkers_complete:
  "case parseMarkers (Some cs) of
     (m, None) \<Rightarrow>
       fst ` set (directives cs) \<subseteq> known_directives \<and>
       mk_root m = (''root'' \<in> fst ` set (directives cs)) \<and>
       mk_opaque m = (''opaque'' \<in> fst ` set (directives cs)) \<and>
       mk_cycleBreakViaID m = (''cycle_break_via_id'' \<in> fst ` set (directives cs)) \<and>
       mk_trackPresence m = (''track-presence'' \<in> fst ` set (directives cs)) \<and>
       mk_borrowStrings m = (''borrow-strings'' \<in> fst ` set (directives cs)) \<and>
       mk_reserved m = reserved_of (directives cs) \<and>
       mk_allowBreaking m = justification [] (directives cs)
   | (m, Some e) \<Rightarrow>
       \<exists>ds1 name arg ds2. directives cs = ds1 @ (name, arg) # ds2 \<and>
         run_directives ds1 no_markers = (m, None) \<and> apply_directive name arg m = Inl e"
proof -
  obtain m oe where r: "run_directives (directives cs) no_markers = (m, oe)" by fastforce
  show ?thesis
  proof (cases oe)
    case None
    then show ?thesis
      using run_directives_ok [of "directives cs" no_markers m] r
      by (simp add: parseMarkers_def scan_run no_markers_def)
  next
    case (Some e)
    then show ?thesis
      using run_directives_error [of "directives cs" no_markers m e] r
      by (simp add: parseMarkers_def scan_run)
  qed
qed

end
