(* ===== verification/Go_Types.thy ===== *)
theory Go_Types
  imports Markers Wire_Override
begin

text \<open>
  What the schema tools read of a typechecked Go program: the types of \<^verbatim>\<open>go/types\<close>, the declarations of
  \<^verbatim>\<open>go/ast\<close>, the lookups of \<^verbatim>\<open>tools/gsbmschema/packages.go\<close> and the target lookup of
  \<^verbatim>\<open>tools/gsbmschema/idref.go\<close>.

  A named type is the number of its declaration and its type arguments; \<^verbatim>\<open>Underlying()\<close> of a named type
  is never a named type, which the two sorts \<open>go_ty\<close> and \<open>go_lit\<close> say. What the library computes for a
  type (its printed form, the underlying type of an instance) is a field of the environment.
\<close>

section \<open>Types\<close>

datatype go_ty =
    Named nat "go_ty list"
  | Alias string go_lit
  | Lit go_lit
and go_lit =
    TBasic basic_kind string
  | TPointer go_ty
  | TSlice go_ty
  | TArray nat go_ty
  | TMap go_ty go_ty
  | TChan go_ty
  | TStruct "go_var list"
  | TInterface bool string
  | TSignature string
  | TOther string
and go_var =
  Var (var_Name: string) (var_Pkg: "string option") (var_Exported: bool) (var_Anonymous: bool)
    (var_Type: go_ty) (var_BinTag: "string option")

type_synonym named = "nat \<times> go_ty list"

record type_obj =
  to_Name :: string
  to_Pkg :: "string option"
  to_Exported :: bool
  to_TypeParams :: "string list"

record go_env =
  ge_Obj :: "nat \<Rightarrow> type_obj"
  ge_Underlying :: "named \<Rightarrow> go_lit"
  ge_String :: "go_ty \<Rightarrow> string"

definition Obj :: "go_env \<Rightarrow> named \<Rightarrow> type_obj" where
  "Obj env n = ge_Obj env (fst n)"

definition named_ty :: "named \<Rightarrow> go_ty" where
  "named_ty n = Named (fst n) (snd n)"

definition Underlying :: "go_env \<Rightarrow> go_ty \<Rightarrow> go_lit" where
  "Underlying env t =
     (case t of Named i as \<Rightarrow> ge_Underlying env (i, as) | Alias _ l \<Rightarrow> l | Lit l \<Rightarrow> l)"

definition struct_fields :: "go_lit \<Rightarrow> go_var list option" where
  "struct_fields l = (case l of TStruct fs \<Rightarrow> Some fs | _ \<Rightarrow> None)"

definition is_struct :: "go_env \<Rightarrow> named \<Rightarrow> bool" where
  "is_struct env n \<longleftrightarrow> struct_fields (ge_Underlying env n) \<noteq> None"

text \<open>\<^verbatim>\<open>Pkg().Path()\<close>, empty without a package.\<close>

definition pkg_path_of :: "go_env \<Rightarrow> named \<Rightarrow> string" where
  "pkg_path_of env n = (case to_Pkg (Obj env n) of None \<Rightarrow> [] | Some p \<Rightarrow> p)"

definition pkgPath :: "go_env \<Rightarrow> go_ty \<Rightarrow> string" where
  "pkgPath env t = (case t of Named i as \<Rightarrow> pkg_path_of env (i, as) | _ \<Rightarrow> [])"

text \<open>What the width contract sees of a type.\<close>

definition width_view :: "go_env \<Rightarrow> go_ty \<Rightarrow> string \<times> basic_kind option" where
  "width_view env t =
     (ge_String env t, case Underlying env t of TBasic k _ \<Rightarrow> Some k | _ \<Rightarrow> None)"

section \<open>Type references\<close>

fun refOfType :: "go_env \<Rightarrow> go_ty \<Rightarrow> type_ref" where
  "refOfType env (Named i as) =
     TypeRef (pkg_path_of env (i, as)) (to_Name (Obj env (i, as))) (map (refOfType env) as) None"
| "refOfType env (Alias s l) = TypeRef [] (ge_String env (Alias s l)) [] None"
| "refOfType env (Lit l) = TypeRef [] (ge_String env (Lit l)) [] None"

definition refOf :: "go_env \<Rightarrow> named \<Rightarrow> type_ref" where
  "refOf env n = refOfType env (named_ty n)"

definition keyOf :: "go_env \<Rightarrow> named \<Rightarrow> string" where
  "keyOf env n = ref_key (refOf env n)"

lemma refOf_fields [simp]:
  "tr_pkg (refOf env n) = pkg_path_of env n" "tr_name (refOf env n) = to_Name (Obj env n)"
  by (simp_all add: refOf_def named_ty_def)

section \<open>Basic kinds\<close>

definition isSupportedBasicKind :: "basic_kind \<Rightarrow> bool" where
  "isSupportedBasicKind k =
     (case k of KNonInt s \<Rightarrow> s \<in> set [''bool'', ''string'', ''float32'', ''float64''] | _ \<Rightarrow> True)"

definition isBasicByte :: "go_ty \<Rightarrow> bool" where
  "isBasicByte t = (case t of Lit (TBasic k _) \<Rightarrow> k = KUint8 | _ \<Rightarrow> False)"

definition isBasicIDRefKind :: "basic_kind \<Rightarrow> bool" where
  "isBasicIDRefKind k = (case k of KNonInt s \<Rightarrow> s = ''string'' | _ \<Rightarrow> True)"

definition id_lit_ok :: "go_lit \<Rightarrow> bool" where
  "id_lit_ok l =
     (case l of TBasic k _ \<Rightarrow> isBasicIDRefKind k | TSlice e \<Rightarrow> isBasicByte e | _ \<Rightarrow> False)"

definition isIDRefFieldType :: "go_env \<Rightarrow> go_ty \<Rightarrow> bool" where
  "isIDRefFieldType env t =
     (case t of Lit l \<Rightarrow> id_lit_ok l | Named i as \<Rightarrow> id_lit_ok (ge_Underlying env (i, as)) | Alias _ _ \<Rightarrow> False)"

definition isPointerToStruct :: "go_env \<Rightarrow> go_ty \<Rightarrow> bool" where
  "isPointerToStruct env t =
     (case t of Lit (TPointer (Named i as)) \<Rightarrow> is_struct env (i, as) | _ \<Rightarrow> False)"

section \<open>The target of an \<^verbatim>\<open>id_ref\<close>\<close>

datatype idref_error =
    TargetNotNamed | TargetNotStruct string | TargetBadTag string string tag_error
  | TargetBadType string string string | TargetNoID string

text \<open>The field loop; its state is the first parse error.\<close>

fun find_id_field ::
  "go_env \<Rightarrow> string \<Rightarrow> go_var list \<Rightarrow> idref_error option \<Rightarrow> idref_error + go_var \<times> string"
where
  "find_id_field env nm [] perr =
     Inl (case perr of Some e \<Rightarrow> e | None \<Rightarrow> TargetNoID nm)"
| "find_id_field env nm (f # fs) perr =
     (case ParseFieldTag (var_BinTag f) of
        Inl e \<Rightarrow>
          find_id_field env nm fs
            (case perr of None \<Rightarrow> Some (TargetBadTag nm (var_Name f) e) | Some p \<Rightarrow> Some p)
      | Inr ft \<Rightarrow>
          if \<not> ft_Set ft \<or> ft_Skip ft then find_id_field env nm fs perr
          else if ft_Tag ft \<noteq> 1 then find_id_field env nm fs perr
          else if \<not> isIDRefFieldType env (var_Type f)
          then Inl (TargetBadType nm (var_Name f) (ge_String env (var_Type f)))
          else Inr (f, ft_WireOverride ft))"

text \<open>The argument is the pointee; the Go function returns the field, its type and the override.\<close>

definition LookupIDRefField :: "go_env \<Rightarrow> go_ty \<Rightarrow> idref_error + go_var \<times> string" where
  "LookupIDRefField env pointee =
     (case pointee of
        Named i as \<Rightarrow>
          (case struct_fields (ge_Underlying env (i, as)) of
             None \<Rightarrow> Inl (TargetNotStruct (to_Name (Obj env (i, as))))
           | Some fs \<Rightarrow> find_id_field env (to_Name (Obj env (i, as))) fs None)
      | _ \<Rightarrow> Inl TargetNotNamed)"

section \<open>Declarations\<close>

text \<open>A comment group is the list of its texts; \<open>None\<close> is a nil group.\<close>

type_synonym comment_group = "string list option"

datatype ast_expr =
    EIdent string | ESelector ast_expr string | EStar ast_expr | EIndex ast_expr | EIndexList ast_expr
  | EStruct "ast_field list" | EOther
and ast_field =
  AstField (af_Names: "string list") (af_Doc: comment_group) (af_Type: ast_expr)

record type_spec =
  ts_Name :: string
  ts_Doc :: comment_group
  ts_Type :: ast_expr

text \<open>A declaration that is not a \<^verbatim>\<open>type\<close> declaration is \<open>OtherDecl\<close>; \<open>None\<close> stands for a spec of another kind.\<close>

datatype ast_decl = TypeDecl comment_group "type_spec option list" | OtherDecl

datatype scope_obj = TypeName go_ty | OtherObj

record go_package =
  pk_Path :: string
  pk_Files :: "ast_decl list list"
  pk_Lookup :: "string \<Rightarrow> scope_obj option"
  pk_TopLevel :: bool

text \<open>The doc comment of a spec: its own, or that of a declaration with one spec.\<close>

definition spec_doc :: "comment_group \<Rightarrow> type_spec option list \<Rightarrow> type_spec \<Rightarrow> comment_group" where
  "spec_doc gdoc specs ts = (if ts_Doc ts = None \<and> length specs = 1 then gdoc else ts_Doc ts)"

definition decl_specs :: "ast_decl \<Rightarrow> (comment_group \<times> type_spec) list" where
  "decl_specs d =
     (case d of
        TypeDecl gdoc specs \<Rightarrow>
          map (\<lambda>ts. (spec_doc gdoc specs ts, ts)) (List.map_filter id specs)
      | OtherDecl \<Rightarrow> [])"

text \<open>The type specs of a package in source order, each with its doc comment.\<close>

definition package_specs :: "go_package \<Rightarrow> (comment_group \<times> type_spec) list" where
  "package_specs p = concat (map decl_specs (concat (pk_Files p)))"

definition findStructDoc :: "go_package \<Rightarrow> string \<Rightarrow> (comment_group \<times> ast_field list) option" where
  "findStructDoc p nm =
     (case find (\<lambda>(_, ts). ts_Name ts = nm) (package_specs p) of
        None \<Rightarrow> None
      | Some (doc, ts) \<Rightarrow> (case ts_Type ts of EStruct fs \<Rightarrow> Some (doc, fs) | _ \<Rightarrow> None))"

definition findFieldDoc :: "ast_field list option \<Rightarrow> string \<Rightarrow> comment_group option" where
  "findFieldDoc st nm =
     (case st of
        None \<Rightarrow> None
      | Some fs \<Rightarrow> map_option af_Doc (find (\<lambda>f. nm \<in> set (af_Names f)) fs))"

definition embed_base_name :: "ast_expr \<Rightarrow> string" where
  "embed_base_name e = (case e of EIdent n \<Rightarrow> n | ESelector _ n \<Rightarrow> n | _ \<Rightarrow> [])"

definition embed_name :: "ast_expr \<Rightarrow> string" where
  "embed_name e0 =
     (let e = (case e0 of EStar x \<Rightarrow> x | _ \<Rightarrow> e0) in
      case e of EIndex x \<Rightarrow> embed_base_name x | EIndexList x \<Rightarrow> embed_base_name x | _ \<Rightarrow> embed_base_name e)"

definition findAnonymousFieldDoc :: "ast_field list option \<Rightarrow> string \<Rightarrow> comment_group option" where
  "findAnonymousFieldDoc st nm =
     (case st of
        None \<Rightarrow> None
      | Some fs \<Rightarrow>
          map_option af_Doc (find (\<lambda>f. af_Names f = [] \<and> embed_name (af_Type f) = nm) fs))"

definition findPackage :: "go_package list \<Rightarrow> string option \<Rightarrow> go_package option" where
  "findPackage ps path = (case path of None \<Rightarrow> None | Some p \<Rightarrow> find (\<lambda>pp. pk_Path pp = p) ps)"

section \<open>The lookup as two passes\<close>

definition field_number :: "go_var \<Rightarrow> u32 option" where
  "field_number f =
     (case ParseFieldTag (var_BinTag f) of
        Inr ft \<Rightarrow> if ft_Set ft \<and> \<not> ft_Skip ft then Some (ft_Tag ft) else None
      | Inl _ \<Rightarrow> None)"

definition field_override :: "go_var \<Rightarrow> string" where
  "field_override f = (case ParseFieldTag (var_BinTag f) of Inr ft \<Rightarrow> ft_WireOverride ft | Inl _ \<Rightarrow> [])"

definition tag_failure :: "go_var \<Rightarrow> tag_error option" where
  "tag_failure f = (case ParseFieldTag (var_BinTag f) of Inl e \<Rightarrow> Some e | Inr _ \<Rightarrow> None)"

definition first_failure :: "string \<Rightarrow> go_var list \<Rightarrow> idref_error" where
  "first_failure nm fs =
     (case find (\<lambda>f. tag_failure f \<noteq> None) fs of
        Some g \<Rightarrow> TargetBadTag nm (var_Name g) (the (tag_failure g))
      | None \<Rightarrow> TargetNoID nm)"

lemma find_id_field_passes:
  "find_id_field env nm fs perr =
     (case find (\<lambda>f. field_number f = Some 1) fs of
        Some f \<Rightarrow>
          if isIDRefFieldType env (var_Type f) then Inr (f, field_override f)
          else Inl (TargetBadType nm (var_Name f) (ge_String env (var_Type f)))
      | None \<Rightarrow> Inl (case perr of Some e \<Rightarrow> e | None \<Rightarrow> first_failure nm fs))"
proof (induction env nm fs perr rule: find_id_field.induct)
  case (2 env nm f fs perr)
  then show ?case
    by (cases "ParseFieldTag (var_BinTag f)")
      (auto simp: field_number_def field_override_def tag_failure_def first_failure_def split: option.split)
qed (simp add: first_failure_def split: option.split)

text \<open>
  The one loop of \<^verbatim>\<open>LookupIDRefField\<close> is the two-pass search its comment describes. The first field with
  tag 1 decides, whatever malformed tags stand before it; only a struct without one reports a malformed
  tag, its first, and only one without malformed tags reports a missing field.
\<close>

theorem LookupIDRefField_passes:
  "LookupIDRefField env (Named i as) =
     (case struct_fields (ge_Underlying env (i, as)) of
        None \<Rightarrow> Inl (TargetNotStruct (to_Name (Obj env (i, as))))
      | Some fs \<Rightarrow>
          (case find (\<lambda>f. field_number f = Some 1) fs of
             Some f \<Rightarrow>
               if isIDRefFieldType env (var_Type f) then Inr (f, field_override f)
               else Inl (TargetBadType (to_Name (Obj env (i, as))) (var_Name f)
                 (ge_String env (var_Type f)))
           | None \<Rightarrow> Inl (first_failure (to_Name (Obj env (i, as))) fs)))"
  by (simp add: LookupIDRefField_def find_id_field_passes split: option.split)


end
