(* ===== verification/Shapes.thy ===== *)
theory Shapes
  imports Schema_Types
begin

text \<open>
  The shape strings of \<^verbatim>\<open>tools/gsbmschema/validate.go\<close>: which named types a field's shape mentions.
  \<^verbatim>\<open>byKey\<close> enters as the test whether a key is one of the schema's structs.
\<close>

text \<open>
  \<^verbatim>\<open>matchBracket(s, openIdx)\<close> scans from \<open>openIdx + 1\<close> with depth 1; \<open>scan_bracket\<close> is its loop on
  the rest of the string and counts from there.
\<close>

fun scan_bracket :: "nat \<Rightarrow> string \<Rightarrow> nat option" where
  "scan_bracket depth [] = None"
| "scan_bracket depth (c # s) =
     (if c = CHR ''['' then map_option Suc (scan_bracket (depth + 1) s)
      else if c = CHR '']'' then
        (if depth - 1 = 0 then Some 0 else map_option Suc (scan_bracket (depth - 1) s))
      else map_option Suc (scan_bracket depth s))"

definition matchBracket :: "string \<Rightarrow> nat \<Rightarrow> nat option" where
  "matchBracket s openIdx = map_option (\<lambda>i. openIdx + 1 + i) (scan_bracket 1 (drop (openIdx + 1) s))"

text \<open>\<^verbatim>\<open>strings.Cut(shape, "]")\<close>: what is behind the first bracket, if there is one.\<close>

definition after_bracket :: "string \<Rightarrow> string option" where
  "after_bracket s = map_option (\<lambda>i. drop (Suc i) s) (index_byte (CHR '']'') s)"

lemma scan_bracket_less: "scan_bracket d s = Some i \<Longrightarrow> i < length s"
  by (induction d s arbitrary: i rule: scan_bracket.induct) (auto split: if_splits)

lemma matchBracket_less: "matchBracket s k = Some e \<Longrightarrow> k < e \<and> e < length s"
  by (auto simp: matchBracket_def dest: scan_bracket_less)

lemma after_bracket_shorter: "after_bracket s = Some r \<Longrightarrow> length r < length s"
  by (cases s) (auto simp: after_bracket_def)

abbreviation strip_stars :: "string \<Rightarrow> string" where
  "strip_stars s \<equiv> dropWhile (\<lambda>c. c = CHR ''*'') s"

lemma strip_stars_length: "length (strip_stars s) \<le> length s"
  by (rule length_dropWhile_le)

function collectRefs :: "(string \<Rightarrow> bool) \<Rightarrow> string \<Rightarrow> string list" where
  "collectRefs isKey shape0 =
     (let shape = strip_stars shape0 in
      if shape = [] then []
      else if has_prefix ''map['' shape then
        (case matchBracket shape 3 of
           None \<Rightarrow> []
         | Some e \<Rightarrow>
             collectRefs isKey (drop 4 (take e shape)) @ collectRefs isKey (drop (e + 1) shape))
      else if hd shape = CHR ''['' then
        (case after_bracket shape of
           None \<Rightarrow> []
         | Some rest \<Rightarrow> collectRefs isKey rest)
      else if isKey shape then [shape] else [])"
  by pat_completeness auto
termination
proof (relation "measure (\<lambda>(_, s). length s)", goal_cases)
  case (2 isKey shape0 x x2)
  then show ?case
    using strip_stars_length [of shape0] matchBracket_less [of x 3 x2] by (simp; linarith)
next
  case (3 isKey shape0 x x2)
  then show ?case
    using strip_stars_length [of shape0] matchBracket_less [of x 3 x2] by (simp; linarith)
next
  case (4 isKey shape0 x x2)
  then show ?case
    using strip_stars_length [of shape0] after_bracket_shorter [of x x2] by simp
qed simp

declare collectRefs.simps [simp del]

section \<open>Shapes as trees\<close>

text \<open>The grammar of the comment in front of \<^verbatim>\<open>collectRefs\<close>.\<close>

datatype shape_tree =
  Ident string | Pointer shape_tree | SliceOf shape_tree | ArrayOf nat shape_tree
  | MapOf shape_tree shape_tree

fun render :: "shape_tree \<Rightarrow> string" where
  "render (Ident n) = n"
| "render (Pointer s) = CHR ''*'' # render s"
| "render (SliceOf s) = ''[]'' @ render s"
| "render (ArrayOf n s) = ''['' @ dec n @ '']'' @ render s"
| "render (MapOf k v) = ''map['' @ render k @ '']'' @ render v"

fun idents :: "shape_tree \<Rightarrow> string list" where
  "idents (Ident n) = [n]"
| "idents (Pointer s) = idents s"
| "idents (SliceOf s) = idents s"
| "idents (ArrayOf n s) = idents s"
| "idents (MapOf k v) = idents k @ idents v"

text \<open>Brackets that match: generic instantiations may carry them inside a name.\<close>

inductive balanced :: "string \<Rightarrow> bool" where
  balanced_Nil: "balanced []"
| balanced_plain: "c \<noteq> CHR ''['' \<Longrightarrow> c \<noteq> CHR '']'' \<Longrightarrow> balanced s \<Longrightarrow> balanced (c # s)"
| balanced_group: "balanced s \<Longrightarrow> balanced t \<Longrightarrow> balanced (CHR ''['' # s @ CHR '']'' # t)"

definition ident_ok :: "string \<Rightarrow> bool" where
  "ident_ok n \<longleftrightarrow> n \<noteq> [] \<and> hd n \<noteq> CHR ''*'' \<and> hd n \<noteq> CHR ''['' \<and> \<not> has_prefix ''map['' n \<and> balanced n"

lemma balanced_append: "balanced s \<Longrightarrow> balanced t \<Longrightarrow> balanced (s @ t)"
  by (induction rule: balanced.induct) (auto intro: balanced.intros)

lemma scan_balanced:
  "balanced s \<Longrightarrow> 1 \<le> d \<Longrightarrow>
     scan_bracket d (s @ t) = map_option (\<lambda>i. length s + i) (scan_bracket d t)"
proof (induction arbitrary: d t rule: balanced.induct)
  case balanced_Nil
  show ?case by (cases "scan_bracket d t") auto
next
  case (balanced_plain c s)
  then show ?case by (cases "scan_bracket d t") auto
next
  case (balanced_group s u)
  have "scan_bracket d ((CHR ''['' # s @ CHR '']'' # u) @ t) =
      map_option Suc (scan_bracket (d + 1) (s @ CHR '']'' # (u @ t)))" by simp
  also have "scan_bracket (d + 1) (s @ CHR '']'' # (u @ t)) =
      map_option (\<lambda>i. length s + i) (map_option Suc (scan_bracket d (u @ t)))"
    using balanced_group.IH(1) [of "d + 1" "CHR '']'' # (u @ t)"] balanced_group.prems by simp
  finally show ?case
    using balanced_group.IH(2) [OF balanced_group.prems, of t]
    by (cases "scan_bracket d t") auto
qed

lemma balanced_digits: "list_all is_digit s \<Longrightarrow> balanced s"
  by (induction s) (auto intro!: balanced.intros simp: is_digit_def)

fun tree_ok :: "shape_tree \<Rightarrow> bool" where
  "tree_ok (Ident n) \<longleftrightarrow> ident_ok n"
| "tree_ok (Pointer s) \<longleftrightarrow> tree_ok s"
| "tree_ok (SliceOf s) \<longleftrightarrow> tree_ok s"
| "tree_ok (ArrayOf n s) \<longleftrightarrow> tree_ok s"
| "tree_ok (MapOf k v) \<longleftrightarrow> tree_ok k \<and> tree_ok v"

lemma balanced_render: "tree_ok s \<Longrightarrow> balanced (render s)"
proof (induction s)
  case (MapOf k v)
  then have "balanced (CHR ''['' # render k @ CHR '']'' # render v)" by (auto intro: balanced_group)
  then have "balanced (''map'' @ CHR ''['' # render k @ CHR '']'' # render v)"
    by (auto intro!: balanced_plain)
  then show ?case by simp
next
  case (ArrayOf n s)
  then show ?case using balanced_group [OF balanced_digits [OF dec_digits]] by auto
next
  case (SliceOf s)
  then show ?case using balanced_group [OF balanced_Nil] by fastforce
qed (auto simp: ident_ok_def intro: balanced_plain)

lemma render_nonempty: "tree_ok s \<Longrightarrow> render s \<noteq> []"
  by (induction s) (auto simp: ident_ok_def)

lemma collectRefs_star: "collectRefs isKey (CHR ''*'' # s) = collectRefs isKey s"
  by (subst (1 2) collectRefs.simps) simp

lemma collectRefs_slice:
  "collectRefs isKey (''[]'' @ s) = collectRefs isKey s"
  by (subst collectRefs.simps) (simp add: has_prefix_def after_bracket_def)

lemma index_byte_append: "c \<notin> set p \<Longrightarrow> index_byte c (p @ c # s) = Some (length p)"
  by (induction p) auto

lemma collectRefs_array: "collectRefs isKey (''['' @ dec n @ '']'' @ s) = collectRefs isKey s"
proof -
  have "CHR '']'' \<notin> set (dec n)" using dec_digits [of n] by (auto simp: list_all_iff is_digit_def)
  then have "after_bracket (CHR ''['' # dec n @ CHR '']'' # s) = Some s"
    by (simp add: after_bracket_def index_byte_append)
  then show ?thesis by (subst collectRefs.simps) (simp add: has_prefix_def)
qed

lemma collectRefs_map:
  assumes "balanced k"
  shows "collectRefs isKey (''map['' @ k @ '']'' @ v) = collectRefs isKey k @ collectRefs isKey v"
proof -
  have "matchBracket (''map['' @ k @ '']'' @ v) 3 = Some (length k + 4)"
    using scan_balanced [OF assms, of 1 "CHR '']'' # v"] by (simp add: matchBracket_def)
  moreover have "drop 4 (take (length k + 4) (''map['' @ k @ '']'' @ v)) = k"
    and "drop (length k + 4 + 1) (''map['' @ k @ '']'' @ v) = v"
    by (simp_all add: eval_nat_numeral)
  moreover have "collectRefs isKey (''map['' @ k @ '']'' @ v) =
      (case matchBracket (''map['' @ k @ '']'' @ v) 3 of
         None \<Rightarrow> []
       | Some e \<Rightarrow> collectRefs isKey (drop 4 (take e (''map['' @ k @ '']'' @ v))) @
           collectRefs isKey (drop (e + 1) (''map['' @ k @ '']'' @ v)))"
    by (subst collectRefs.simps) (simp add: has_prefix_def Let_def cong: option.case_cong)
  ultimately show ?thesis by (simp only: option.case)
qed

lemma collectRefs_ident:
  assumes "ident_ok n"
  shows "collectRefs isKey n = (if isKey n then [n] else [])"
proof -
  obtain c cs where n: "n = c # cs" "c \<noteq> CHR ''*''" "c \<noteq> CHR ''[''"
    using assms by (cases n) (auto simp: ident_ok_def)
  then show ?thesis using assms by (subst collectRefs.simps) (simp add: ident_ok_def)
qed

lemma collectRefs_tree:
  assumes "tree_ok s"
  shows "collectRefs isKey (render s) = filter isKey (idents s)"
  using assms
proof (induction s)
  case (Pointer s)
  then show ?case by (simp add: collectRefs_star)
next
  case (SliceOf s)
  then show ?case using collectRefs_slice [of isKey "render s"] by simp
next
  case (ArrayOf n s)
  then show ?case using collectRefs_array [of isKey n "render s"] by simp
next
  case (MapOf k v)
  then show ?case using collectRefs_map [OF balanced_render, of k isKey "render v"] by simp
qed (simp add: collectRefs_ident)

text \<open>
  \<^verbatim>\<open>collectRefs\<close> misses nothing. On the string of any shape built from pointers, slices, arrays and
  maps over identifiers with matching brackets, it returns exactly the identifiers that are structs
  of the schema, each occurrence once, in order.
\<close>

theorem collectRefs_complete:
  assumes "tree_ok s"
  shows "collectRefs isKey (render s) = filter isKey (idents s)"
  by (rule collectRefs_tree [OF assms])

theorem collectRefs_complete_witness:
  "collectRefs (\<lambda>k. k = ''p.Item'' \<or> k = ''p.Key[p.A]'') ''map[p.Key[p.A]][]*[4]p.Item'' =
     [''p.Key[p.A]'', ''p.Item'']"
proof -
  have four: "dec 4 = ''4''" by code_simp
  let ?s = "MapOf (Ident ''p.Key[p.A]'') (SliceOf (Pointer (ArrayOf 4 (Ident ''p.Item''))))"
  have "balanced (CHR ''['' # ''p.A'' @ CHR '']'' # [])"
    by (rule balanced_group) (simp_all add: balanced_plain balanced_Nil)
  then have "balanced ''p.Key[p.A]''" by (simp add: balanced_plain)
  then have "tree_ok ?s"
    by (simp add: ident_ok_def has_prefix_def balanced_plain balanced_Nil)
  moreover have "render ?s = ''map[p.Key[p.A]][]*[4]p.Item''"
    using four by simp
  ultimately show ?thesis
    using collectRefs_complete [of ?s "\<lambda>k. k = ''p.Item'' \<or> k = ''p.Key[p.A]''"] by simp
qed

end
