(* ===== verification/Validate.thy ===== *)
theory Validate
  imports Shapes
begin

text \<open>
  \<^verbatim>\<open>tools/gsbmschema/validate.go\<close>: the per-struct rules and the cycle check. An issue is its code and
  the operands of its message.
\<close>

record issue =
  is_Code :: string
  is_Args :: "string list"

definition issue_of :: "string \<Rightarrow> string list \<Rightarrow> issue" where
  "issue_of c args = \<lparr>is_Code = c, is_Args = args\<rparr>"

definition primitiveKinds :: "string list" where
  "primitiveKinds =
     [''bool'', ''string'', ''int'', ''int8'', ''int16'', ''int32'', ''int64'', ''uint'', ''uint8'',
      ''uint16'', ''uint32'', ''uint64'', ''uintptr'', ''byte'', ''rune'']"

definition builtinPrimitives :: "string list" where
  "builtinPrimitives = [''float32'', ''float64''] @ primitiveKinds"

definition isAcceptableMapKey :: "string \<Rightarrow> bool" where
  "isAcceptableMapKey shape \<longleftrightarrow>
     shape \<in> set primitiveKinds \<or>
     (case index_byte (CHR ''('') shape of
        Some i \<Rightarrow> has_suffix '')'' shape \<and>
          drop (i + 1) (take (length shape - 1) shape) \<in> set primitiveKinds
      | None \<Rightarrow> False)"

definition IsBuiltinPrimitive :: "string \<Rightarrow> bool" where
  "IsBuiltinPrimitive typeName \<longleftrightarrow>
     typeName = ''[]byte'' \<or> typeName = ''[]uint8'' \<or> typeName \<in> set builtinPrimitives"

section \<open>One struct\<close>

definition is_composite :: "string \<Rightarrow> bool" where
  "is_composite t \<longleftrightarrow> has_prefix ''['' t \<or> has_prefix ''map['' t"

text \<open>One round of the field loop; \<open>seen\<close> is \<^verbatim>\<open>seenTag\<close>.\<close>

definition field_issues ::
  "struct_decl \<Rightarrow> (u32 \<Rightarrow> string option) \<Rightarrow> field_decl \<Rightarrow> issue list" where
  "field_issues sd seen fd =
     (let owner = tr_name (sd_Type sd) in
      (if fd_Tag fd = 0 then [issue_of ''tag/zero'' [owner, fd_Name fd]] else []) @
      (case seen (fd_Tag fd) of
         Some other \<Rightarrow> [issue_of ''tag/duplicate'' [owner, dec_u32 (fd_Tag fd), other, fd_Name fd]]
       | None \<Rightarrow> []) @
      (if fd_Tag fd \<in> set (sd_Reserved sd)
       then [issue_of ''tag/reserved'' [owner, fd_Name fd, dec_u32 (fd_Tag fd)]] else []) @
      (if fd_MapKey fd \<noteq> [] \<and> \<not> isAcceptableMapKey (fd_MapKey fd)
       then [issue_of ''map/bad-key'' [owner, fd_Name fd, fd_MapKey fd]] else []) @
      (if fd_Optional fd \<and> fd_Custom fd = [] \<and> fd_Type fd \<noteq> ''[]byte'' \<and>
          fd_Type fd \<noteq> ''[]uint8'' \<and> is_composite (fd_Type fd)
       then [issue_of ''field/optional-composite'' [owner, fd_Name fd, ''*'' @ fd_Type fd]] else []) @
      (if fd_Custom fd \<noteq> [] \<and> is_composite (fd_Type fd)
       then [issue_of ''field/custom-composite'' [owner, fd_Name fd, fd_Custom fd, fd_Type fd]]
       else []))"

fun fields_issues ::
  "struct_decl \<Rightarrow> (u32 \<Rightarrow> string option) \<Rightarrow> field_decl list \<Rightarrow> issue list" where
  "fields_issues sd seen [] = []"
| "fields_issues sd seen (fd # fds) =
     field_issues sd seen fd @ fields_issues sd (seen(fd_Tag fd \<mapsto> fd_Name fd)) fds"

definition validateStruct :: "struct_decl \<Rightarrow> string list \<Rightarrow> bool \<Rightarrow> issue list" where
  "validateStruct sd allowed checkAllowed =
     (let t = sd_Type sd in
      (if checkAllowed \<and> tr_pkg t \<noteq> [] \<and> tr_pkg t \<notin> set allowed
       then [issue_of ''type/external'' [tr_name t, tr_pkg t]] else []) @
      (if sd_Opaque sd then
         (if sd_TrackPresence sd then [issue_of ''marker/track-presence-opaque'' [tr_name t]] else []) @
         (if sd_BorrowStrings sd then [issue_of ''marker/borrow-strings-opaque'' [tr_name t]] else [])
       else
         (if sd_Generic sd \<noteq> [] then [issue_of ''type/generic'' (ref_key t # sd_Generic sd)] else []) @
         fields_issues sd (\<lambda>_. None) (sd_Fields sd)))"

section \<open>The cycle check\<close>

definition referencedKeys :: "(string \<Rightarrow> bool) \<Rightarrow> field_decl \<Rightarrow> string list" where
  "referencedKeys isKey fd =
     collectRefs isKey (fd_Type fd) @ collectRefs isKey (fd_Elem fd) @ collectRefs isKey (fd_MapValue fd)"

definition shortTypeName :: "string \<Rightarrow> string" where
  "shortTypeName key =
     (let e = (case index_byte (CHR ''['') key of Some i \<Rightarrow> i | None \<Rightarrow> length key) in
      case last_index_byte (CHR ''.'') (take e key) of
        Some i \<Rightarrow> drop (i + 1) key
      | None \<Rightarrow> key)"

definition to_lower :: "string \<Rightarrow> string" where
  "to_lower = map (\<lambda>c. let n = of_char c :: nat in if 65 \<le> n \<and> n \<le> 90 then char_of (n + 32) else c)"

fun contains_sub :: "string \<Rightarrow> string \<Rightarrow> bool" where
  "contains_sub p [] \<longleftrightarrow> p = []"
| "contains_sub p (c # s) \<longleftrightarrow> has_prefix p (c # s) \<or> contains_sub p s"

definition isCycleBreakName :: "string \<Rightarrow> bool" where
  "isCycleBreakName name \<longleftrightarrow>
     (let lower = to_lower name in
      contains_sub ''previous'' lower \<or> contains_sub ''parent'' lower \<or> has_suffix ''ref'' lower)"

text \<open>The index of the suggested break: one round of the loop keeps or moves \<^verbatim>\<open>bestIdx\<close>.\<close>

definition better_break :: "field_decl list \<Rightarrow> nat \<Rightarrow> nat \<Rightarrow> nat" where
  "better_break es best i =
     (if fd_Tag (es ! i) < fd_Tag (es ! best) then i
      else if fd_Tag (es ! i) = fd_Tag (es ! best) \<and> isCycleBreakName (fd_Name (es ! i)) \<and>
              \<not> isCycleBreakName (fd_Name (es ! best)) then i
      else best)"

definition best_break :: "field_decl list \<Rightarrow> nat" where
  "best_break es = foldl (better_break es) 0 [0..<length es]"

definition path_step :: "string \<Rightarrow> field_decl \<Rightarrow> string" where
  "path_step node fd = shortTypeName node @ ''.'' @ fd_Name fd"

text \<open>The other fields whose names look like an anchor, each owner and name once.\<close>

definition heuristic_candidates :: "string list \<Rightarrow> field_decl list \<Rightarrow> (string \<times> u32) list" where
  "heuristic_candidates ns es =
     (let best = best_break es;
          idx = filter (\<lambda>i. i \<noteq> best \<and> isCycleBreakName (fd_Name (es ! i))) [0..<length es] in
      rev (foldl (\<lambda>acc i. let k = path_step (ns ! i) (es ! i) in
             if k \<in> fst ` set acc then acc else (k, fd_Tag (es ! i)) # acc) [] idx))"

definition formatCycleDiagnostic :: "string list \<Rightarrow> field_decl list \<Rightarrow> string list" where
  "formatCycleDiagnostic ns es =
     (let best = best_break es in
      map2 path_step ns es @ [shortTypeName (hd ns)] @
      [path_step (ns ! best) (es ! best), dec_u32 (fd_Tag (es ! best))] @
      concat (map (\<lambda>(k, t). [k, dec_u32 t]) (heuristic_candidates ns es)))"

datatype node_state = Unseen | OnStack | Done

type_synonym dfs_state = "string \<Rightarrow> node_state"

text \<open>The first position of \<open>n\<close> on the path.\<close>

definition path_index :: "string \<Rightarrow> string list \<Rightarrow> nat option" where
  "path_index n ns = map_option fst (find (\<lambda>(i, p). p = n) (enumerate 0 ns))"

definition cycle_issue :: "string list \<Rightarrow> field_decl list \<Rightarrow> field_decl \<Rightarrow> string \<Rightarrow> issue list" where
  "cycle_issue ns es fd n =
     (case path_index n ns of
        None \<Rightarrow> []
      | Some i \<Rightarrow> [issue_of ''type/cycle'' (formatCycleDiagnostic (drop i ns) (drop i es @ [fd]))])"

text \<open>The references the walk follows from a struct, with their fields.\<close>

definition out_refs :: "(string \<Rightarrow> bool) \<Rightarrow> struct_decl \<Rightarrow> (field_decl \<times> string) list" where
  "out_refs isKey sd =
     concat (map (\<lambda>fd. if fd_CycleBreak fd \<or> fd_Custom fd \<noteq> [] then []
       else map (Pair fd) (referencedKeys isKey fd)) (sd_Fields sd))"

text \<open>
  \<^verbatim>\<open>dfs\<close> with a depth bound: \<open>None\<close> is running out of it. \<open>dfs_refs\<close> is the double loop over the
  fields and their references.
\<close>

fun dfs_refs ::
  "(string \<Rightarrow> field_decl list \<Rightarrow> dfs_state \<Rightarrow> (issue list \<times> dfs_state) option) \<Rightarrow>
     string list \<Rightarrow> field_decl list \<Rightarrow> (field_decl \<times> string) list \<Rightarrow> dfs_state \<Rightarrow>
     (issue list \<times> dfs_state) option" where
  "dfs_refs visit ns es [] st = Some ([], st)"
| "dfs_refs visit ns es ((fd, n) # rs) st =
     (case (case st n of
              Unseen \<Rightarrow> visit n (es @ [fd]) st
            | OnStack \<Rightarrow> Some (cycle_issue ns es fd n, st)
            | Done \<Rightarrow> Some ([], st)) of
        None \<Rightarrow> None
      | Some (found, st1) \<Rightarrow>
          (case dfs_refs visit ns es rs st1 of
             None \<Rightarrow> None
           | Some (found2, st2) \<Rightarrow> Some (found @ found2, st2)))"

fun dfs ::
  "(string \<Rightarrow> struct_decl option) \<Rightarrow> nat \<Rightarrow> string list \<Rightarrow> string \<Rightarrow> field_decl list \<Rightarrow> dfs_state \<Rightarrow>
     (issue list \<times> dfs_state) option" where
  "dfs byKey 0 ns key es st = None"
| "dfs byKey (Suc d) ns key es st =
     (case byKey key of
        None \<Rightarrow> Some ([], st)
      | Some sd \<Rightarrow>
          (case dfs_refs (dfs byKey d (ns @ [key])) (ns @ [key]) es
                  (out_refs (\<lambda>k. byKey k \<noteq> None) sd) (st(key := OnStack)) of
             None \<Rightarrow> None
           | Some (found, st') \<Rightarrow> Some (found, st'(key := Done))))"

fun walk_roots ::
  "(string \<Rightarrow> struct_decl option) \<Rightarrow> nat \<Rightarrow> type_ref list \<Rightarrow> dfs_state \<Rightarrow>
     (issue list \<times> dfs_state) option" where
  "walk_roots byKey d [] st = Some ([], st)"
| "walk_roots byKey d (r # rs) st =
     (case dfs byKey d [] (ref_key r) [] st of
        None \<Rightarrow> None
      | Some (found, st1) \<Rightarrow>
          (case walk_roots byKey d rs st1 of
             None \<Rightarrow> None
           | Some (found2, st2) \<Rightarrow> Some (found @ found2, st2)))"

definition validateNoCycles :: "schema \<Rightarrow> issue list option" where
  "validateNoCycles s =
     map_option fst (walk_roots (index_by_key (sc_Structs s)) (Suc (length (sc_Structs s)))
       (sc_Roots s) (\<lambda>_. Unseen))"

text \<open>\<open>pkgs\<close> are the paths of the package set, none of them when it is nil.\<close>

definition Validate :: "schema \<Rightarrow> string list \<Rightarrow> issue list option" where
  "Validate s pkgs =
     map_option (\<lambda>cycles.
         concat (map (\<lambda>sd. validateStruct sd pkgs (pkgs \<noteq> [])) (sc_Structs s)) @ cycles)
       (validateNoCycles s)"

end
