(* ===== verification/Supported_Types.thy ===== *)
theory Supported_Types
  imports Go_Types Validate
begin

text \<open>
  \<^verbatim>\<open>checkSupportedType\<close> of \<^verbatim>\<open>tools/gsbmschema/discover.go\<close>: which Go types a field may have. An issue is its
  code and the operands of its message. The grammar of the accepted types is \<open>supported\<close>.
\<close>

definition MaxNestingDepth :: nat where "MaxNestingDepth = 3"

definition is_composite_lit :: "go_ty \<Rightarrow> bool" where
  "is_composite_lit t = (case t of Lit (TSlice _) \<Rightarrow> True | Lit (TMap _ _) \<Rightarrow> True | _ \<Rightarrow> False)"

definition basic_supported :: "go_lit \<Rightarrow> bool" where
  "basic_supported l = (case l of TBasic k _ \<Rightarrow> isSupportedBasicKind k | _ \<Rightarrow> False)"

definition isLeafElementType :: "go_env \<Rightarrow> go_ty \<Rightarrow> bool" where
  "isLeafElementType env t =
     (case t of
        Lit (TBasic k _) \<Rightarrow> isSupportedBasicKind k
      | Named i as \<Rightarrow>
          is_struct env (i, as) \<or> basic_supported (ge_Underlying env (i, as))
      | _ \<Rightarrow> False)"

definition isSliceElementType :: "go_env \<Rightarrow> go_ty \<Rightarrow> bool" where
  "isSliceElementType env t \<longleftrightarrow>
     isLeafElementType env t \<or>
     (case t of Lit (TPointer (Named i as)) \<Rightarrow> is_struct env (i, as) | _ \<Rightarrow> False)"

text \<open>The pointee of a pointer, the type itself otherwise.\<close>

definition strip_pointer :: "go_ty \<Rightarrow> go_ty" where
  "strip_pointer t = (case t of Lit (TPointer e) \<Rightarrow> e | _ \<Rightarrow> t)"

lemma strip_pointer_size: "size (strip_pointer t) \<le> size t"
  by (auto simp: strip_pointer_def split: go_ty.splits go_lit.splits)

text \<open>The owner and the field enter the messages; \<open>who\<close> stands for the pair of their names.\<close>

function checkSupportedType ::
  "go_env \<Rightarrow> string \<Rightarrow> go_ty \<Rightarrow> go_ty \<Rightarrow> nat \<Rightarrow> nat \<Rightarrow> issue list"
where
  "checkSupportedType env who ft t depth compositeDepth =
     (let str = ge_String env;
          unsupported = (\<lambda>args. [issue_of ''type/unsupported'' (who # args)]) in
      case t of
        Named i as \<Rightarrow>
          (if as \<noteq> [] \<and> (0 < depth \<or> \<not> is_struct env (i, as))
           then [issue_of ''type/generic'' [who, str t]]
           else let u = ge_Underlying env (i, as) in
             if is_struct env (i, as) then []
             else if basic_supported u then []
             else (case u of
                 TSlice e \<Rightarrow>
                   if isBasicByte e then []
                   else if 0 < depth then unsupported [''alias'', str t]
                   else if is_composite_lit e
                   then checkSupportedType env who ft e (depth + 1) (compositeDepth + 1)
                   else if \<not> isSliceElementType env e then unsupported [''alias element'', str t, str e]
                   else checkSupportedType env who ft (strip_pointer e) (depth + 1) (compositeDepth + 1)
               | _ \<Rightarrow> unsupported [''underlying'', str t, str (Lit u)]))
      | Alias _ _ \<Rightarrow> unsupported [str t]
      | Lit l \<Rightarrow>
          (case l of
             TBasic k _ \<Rightarrow> if isSupportedBasicKind k then [] else unsupported [''basic'', str t]
           | TPointer e \<Rightarrow>
               if 0 < depth then [issue_of ''type/nested-pointer'' [who, str t]]
               else checkSupportedType env who ft e (depth + 1) compositeDepth
           | TSlice e \<Rightarrow>
               if MaxNestingDepth < compositeDepth + 1
               then [issue_of ''type/nesting-too-deep'' [who, dec MaxNestingDepth, str ft]]
               else if isBasicByte e then []
               else if is_composite_lit e
               then checkSupportedType env who ft e (depth + 1) (compositeDepth + 1)
               else if \<not> isSliceElementType env e then unsupported [''element'', str e]
               else checkSupportedType env who ft (strip_pointer e) (depth + 1) (compositeDepth + 1)
           | TMap k e \<Rightarrow>
               if MaxNestingDepth < compositeDepth + 1
               then [issue_of ''type/nesting-too-deep'' [who, dec MaxNestingDepth, str ft]]
               else if is_composite_lit e
               then checkSupportedType env who ft e (depth + 1) (compositeDepth + 1)
               else if \<not> isLeafElementType env e then unsupported [''value'', str e]
               else checkSupportedType env who ft e (depth + 1) (compositeDepth + 1)
           | TArray _ _ \<Rightarrow> unsupported [''array'', str t]
           | TInterface _ _ \<Rightarrow> unsupported [''interface'', str t]
           | _ \<Rightarrow> unsupported [str t]))"
  by pat_completeness auto
termination
  using le_imp_less_Suc [OF le_SucI [OF strip_pointer_size]]
    le_imp_less_Suc [OF strip_pointer_size]
  by (relation "measures [\<lambda>(_, _, _, _, d, _). if d = 0 then 1 else 0, \<lambda>(_, _, _, t, _, _). size t]")
    (auto simp: less_Suc_eq_le intro: le_SucI strip_pointer_size)

declare checkSupportedType.simps [simp del]

section \<open>The accepted types\<close>

text \<open>
  A leaf is a supported basic type, a named type over one, or a named struct; behind a pointer, slice or
  map no named type has type arguments. A composite of at most \<open>m\<close> layers is \<^verbatim>\<open>[]byte\<close>, a slice of leaves or of
  pointers to structs, a map to leaves, or a slice or map of a composite of one layer less.
\<close>

definition leaf_type :: "go_env \<Rightarrow> go_ty \<Rightarrow> bool" where
  "leaf_type env t =
     (case t of
        Lit l \<Rightarrow> basic_supported l
      | Named i as \<Rightarrow> as = [] \<and> (is_struct env (i, as) \<or> basic_supported (ge_Underlying env (i, as)))
      | Alias _ _ \<Rightarrow> False)"

definition bare_struct :: "go_env \<Rightarrow> go_ty \<Rightarrow> bool" where
  "bare_struct env t = (case t of Named i as \<Rightarrow> as = [] \<and> is_struct env (i, as) | _ \<Rightarrow> False)"

inductive composite :: "go_env \<Rightarrow> nat \<Rightarrow> go_ty \<Rightarrow> bool" for env where
  comp_bytes: "isBasicByte e \<Longrightarrow> composite env (Suc m) (Lit (TSlice e))"
| comp_leaves: "leaf_type env e \<Longrightarrow> composite env (Suc m) (Lit (TSlice e))"
| comp_pointers: "bare_struct env e \<Longrightarrow> composite env (Suc m) (Lit (TSlice (Lit (TPointer e))))"
| comp_slice: "composite env m e \<Longrightarrow> composite env (Suc m) (Lit (TSlice e))"
| comp_map_leaf: "leaf_type env e \<Longrightarrow> composite env (Suc m) (Lit (TMap k e))"
| comp_map: "composite env m e \<Longrightarrow> composite env (Suc m) (Lit (TMap k e))"

text \<open>
  What may stand behind one pointer; a field is that, a generic struct by value, or a named slice type
  whose slice counts as one of the layers.
\<close>

definition pointee :: "go_env \<Rightarrow> go_ty \<Rightarrow> bool" where
  "pointee env t \<longleftrightarrow>
     leaf_type env t \<or> composite env MaxNestingDepth t \<or>
     (case t of
        Named i as \<Rightarrow> as = [] \<and> (case ge_Underlying env (i, as) of TSlice e \<Rightarrow> isBasicByte e | _ \<Rightarrow> False)
      | _ \<Rightarrow> False)"

definition supported :: "go_env \<Rightarrow> go_ty \<Rightarrow> bool" where
  "supported env t \<longleftrightarrow>
     pointee env t \<or>
     (case t of
        Lit (TPointer e) \<Rightarrow> pointee env e
      | Named i as \<Rightarrow>
          is_struct env (i, as) \<or>
          as = [] \<and> (case ge_Underlying env (i, as) of
            TSlice e \<Rightarrow> composite env MaxNestingDepth (Lit (TSlice e)) | _ \<Rightarrow> False)
      | _ \<Rightarrow> False)"

section \<open>Equations by the form of the type\<close>

lemma type_tests [simp]:
  "is_composite_lit (Named i as) = False" "is_composite_lit (Alias a l) = False"
  "is_composite_lit (Lit l) = (case l of TSlice _ \<Rightarrow> True | TMap _ _ \<Rightarrow> True | _ \<Rightarrow> False)"
  "isBasicByte (Named i as) = False" "isBasicByte (Alias a l) = False"
  "isBasicByte (Lit l) = (case l of TBasic k _ \<Rightarrow> k = KUint8 | _ \<Rightarrow> False)"
  "strip_pointer (Named i as) = Named i as" "strip_pointer (Alias a l) = Alias a l"
  "strip_pointer (Lit l) = (case l of TPointer e \<Rightarrow> e | _ \<Rightarrow> Lit l)"
  by (simp_all add: is_composite_lit_def isBasicByte_def strip_pointer_def split: go_lit.split)

lemma element_tests [simp]:
  "isLeafElementType env (Named i as) \<longleftrightarrow>
     is_struct env (i, as) \<or> basic_supported (ge_Underlying env (i, as))"
  "isLeafElementType env (Alias a l) = False"
  "isLeafElementType env (Lit l) = basic_supported l"
  "leaf_type env (Named i as) \<longleftrightarrow>
     as = [] \<and> (is_struct env (i, as) \<or> basic_supported (ge_Underlying env (i, as)))"
  "leaf_type env (Alias a l) = False"
  "leaf_type env (Lit l) = basic_supported l"
  "bare_struct env (Named i as) \<longleftrightarrow> as = [] \<and> is_struct env (i, as)"
  "bare_struct env (Alias a l) = False" "bare_struct env (Lit l) = False"
  by (simp_all add: isLeafElementType_def leaf_type_def bare_struct_def basic_supported_def
      split: go_lit.split)

lemma basic_supported_simps [simp]:
  "basic_supported (TBasic k nm) = isSupportedBasicKind k" "\<not> basic_supported (TPointer e)"
  "\<not> basic_supported (TSlice e)" "\<not> basic_supported (TArray n e)" "\<not> basic_supported (TMap ky e)"
  "\<not> basic_supported (TChan e)" "\<not> basic_supported (TStruct fs)" "\<not> basic_supported (TInterface b s)"
  "\<not> basic_supported (TSignature s)" "\<not> basic_supported (TOther s)"
  by (simp_all add: basic_supported_def)

lemma slice_element_tests [simp]:
  "isSliceElementType env (Named i as) = isLeafElementType env (Named i as)"
  "isSliceElementType env (Alias a l) = False"
  "isSliceElementType env (Lit l) \<longleftrightarrow> basic_supported l \<or>
     (case l of TPointer (Named i as) \<Rightarrow> is_struct env (i, as) | _ \<Rightarrow> False)"
  by (simp_all add: isSliceElementType_def split: go_lit.split)

lemma check_named:
  "checkSupportedType env who ft (Named i as) d c =
     (if as \<noteq> [] \<and> (0 < d \<or> \<not> is_struct env (i, as))
      then [issue_of ''type/generic'' [who, ge_String env (Named i as)]]
      else if is_struct env (i, as) then []
      else if basic_supported (ge_Underlying env (i, as)) then []
      else (case ge_Underlying env (i, as) of
          TSlice e \<Rightarrow>
            if isBasicByte e then []
            else if 0 < d
            then [issue_of ''type/unsupported'' [who, ''alias'', ge_String env (Named i as)]]
            else if is_composite_lit e then checkSupportedType env who ft e (d + 1) (c + 1)
            else if \<not> isSliceElementType env e
            then [issue_of ''type/unsupported''
                   [who, ''alias element'', ge_String env (Named i as), ge_String env e]]
            else checkSupportedType env who ft (strip_pointer e) (d + 1) (c + 1)
        | u \<Rightarrow> [issue_of ''type/unsupported''
                 [who, ''underlying'', ge_String env (Named i as), ge_String env (Lit u)]]))"
  by (subst checkSupportedType.simps) (simp add: Let_def split: go_lit.split)

lemma check_slice:
  "checkSupportedType env who ft (Lit (TSlice e)) d c =
     (if MaxNestingDepth < c + 1
      then [issue_of ''type/nesting-too-deep'' [who, dec MaxNestingDepth, ge_String env ft]]
      else if isBasicByte e then []
      else if is_composite_lit e then checkSupportedType env who ft e (d + 1) (c + 1)
      else if \<not> isSliceElementType env e
      then [issue_of ''type/unsupported'' [who, ''element'', ge_String env e]]
      else checkSupportedType env who ft (strip_pointer e) (d + 1) (c + 1))"
  by (subst checkSupportedType.simps) (simp add: Let_def)

lemma check_map:
  "checkSupportedType env who ft (Lit (TMap k e)) d c =
     (if MaxNestingDepth < c + 1
      then [issue_of ''type/nesting-too-deep'' [who, dec MaxNestingDepth, ge_String env ft]]
      else if is_composite_lit e then checkSupportedType env who ft e (d + 1) (c + 1)
      else if \<not> isLeafElementType env e
      then [issue_of ''type/unsupported'' [who, ''value'', ge_String env e]]
      else checkSupportedType env who ft e (d + 1) (c + 1))"
  by (subst checkSupportedType.simps) (simp add: Let_def)

lemma check_pointer:
  "checkSupportedType env who ft (Lit (TPointer e)) d c =
     (if 0 < d then [issue_of ''type/nested-pointer'' [who, ge_String env (Lit (TPointer e))]]
      else checkSupportedType env who ft e (d + 1) c)"
  by (subst checkSupportedType.simps) (simp add: Let_def)

lemma check_flat:
  "checkSupportedType env who ft (Alias a l) d c \<noteq> []"
  "checkSupportedType env who ft (Lit (TBasic k nm)) d c = [] \<longleftrightarrow> isSupportedBasicKind k"
  "checkSupportedType env who ft (Lit (TArray n e)) d c \<noteq> []"
  "checkSupportedType env who ft (Lit (TChan e)) d c \<noteq> []"
  "checkSupportedType env who ft (Lit (TStruct fs)) d c \<noteq> []"
  "checkSupportedType env who ft (Lit (TInterface b s)) d c \<noteq> []"
  "checkSupportedType env who ft (Lit (TSignature s)) d c \<noteq> []"
  "checkSupportedType env who ft (Lit (TOther s)) d c \<noteq> []"
  by (subst checkSupportedType.simps, simp add: Let_def)+

section \<open>The checker and the grammar agree\<close>

lemma composite_cases_lit: "composite env m t \<Longrightarrow> is_composite_lit t"
  by (induction rule: composite.induct) auto

lemma composite_other: "\<not> is_composite_lit t \<Longrightarrow> \<not> composite env m t"
  using composite_cases_lit by blast

inductive_simps composite_slice: "composite env m (Lit (TSlice e))"
inductive_simps composite_map: "composite env m (Lit (TMap k e))"

lemma composite_slice_iff:
  "composite env m (Lit (TSlice e)) \<longleftrightarrow>
     0 < m \<and> (isBasicByte e \<or> leaf_type env e \<or> (\<exists>p. e = Lit (TPointer p) \<and> bare_struct env p) \<or>
       composite env (m - 1) e)"
  by (cases m) (auto simp: composite_slice)

lemma composite_map_iff:
  "composite env m (Lit (TMap k e)) \<longleftrightarrow> 0 < m \<and> (leaf_type env e \<or> composite env (m - 1) e)"
  by (cases m) (auto simp: composite_map)

lemma composite_not_leaf:
  "is_composite_lit e \<Longrightarrow> \<not> leaf_type env e \<and> \<not> isBasicByte e \<and> e \<noteq> Lit (TPointer p)"
  by (cases e) (auto split: go_lit.splits)

lemma check_leaf_element:
  assumes "0 < d" "isLeafElementType env t"
  shows "checkSupportedType env who ft t d c = [] \<longleftrightarrow> leaf_type env t"
proof (cases t)
  case (Lit l)
  then show ?thesis using assms by (cases l) (auto simp: check_flat)
qed (use assms in \<open>auto simp: check_named\<close>)

lemma check_slice_element:
  assumes "isSliceElementType env t"
  shows "checkSupportedType env who ft (strip_pointer t) (Suc d) c = [] \<longleftrightarrow>
     leaf_type env t \<or> (\<exists>e. t = Lit (TPointer e) \<and> bare_struct env e)"
proof (cases "isLeafElementType env t")
  case True
  then have "t \<noteq> Lit (TPointer e)" for e by auto
  then have "strip_pointer t = t" "\<nexists>e. t = Lit (TPointer e)"
    by (auto simp: strip_pointer_def split: go_ty.split go_lit.split)
  then show ?thesis using check_leaf_element [of "Suc d" env t] True by simp
next
  case False
  then obtain i as where t: "t = Lit (TPointer (Named i as))" "is_struct env (i, as)"
    using assms unfolding isSliceElementType_def by (auto split: go_ty.splits go_lit.splits)
  then have "isLeafElementType env (Named i as)" by simp
  then show ?thesis
    using check_leaf_element [of "Suc d" env "Named i as" who ft c] t by simp
qed

lemma leaf_element: "leaf_type env t \<Longrightarrow> isLeafElementType env t"
  by (cases t) auto

lemma slice_element_if:
  assumes "leaf_type env e \<or> (\<exists>p. e = Lit (TPointer p) \<and> bare_struct env p)"
  shows "isSliceElementType env e"
  using assms
proof (elim disjE exE conjE)
  fix p
  assume "e = Lit (TPointer p)" "bare_struct env p"
  then show ?thesis by (cases p) auto
qed (simp add: isSliceElementType_def leaf_element)

text \<open>Slices and maps, once the checker is right on smaller composites.\<close>

lemma check_slice_elem_ok:
  assumes "is_composite_lit e \<Longrightarrow>
      checkSupportedType env who ft e (Suc d) (Suc c) = [] \<longleftrightarrow> composite env (MaxNestingDepth - Suc c) e"
    and "c < MaxNestingDepth"
  shows "(if isBasicByte e then []
      else if is_composite_lit e then checkSupportedType env who ft e (d + 1) (c + 1)
      else if \<not> isSliceElementType env e then [issue_of code args]
      else checkSupportedType env who ft (strip_pointer e) (d + 1) (c + 1)) = [] \<longleftrightarrow>
     composite env (MaxNestingDepth - c) (Lit (TSlice e))"
proof (cases "is_composite_lit e")
  case True
  then show ?thesis
    using assms composite_not_leaf [OF True] by (auto simp: composite_slice_iff)
next
  case False
  then show ?thesis
    using assms check_slice_element [of env e who ft d "Suc c"] slice_element_if [of env e]
    by (auto simp: composite_slice_iff composite_other)
qed

lemma check_slice_ok:
  assumes "is_composite_lit e \<Longrightarrow>
      checkSupportedType env who ft e (Suc d) (Suc c) = [] \<longleftrightarrow> composite env (MaxNestingDepth - Suc c) e"
  shows "checkSupportedType env who ft (Lit (TSlice e)) d c = [] \<longleftrightarrow>
     composite env (MaxNestingDepth - c) (Lit (TSlice e))"
proof (cases "c < MaxNestingDepth")
  case True
  then show ?thesis unfolding check_slice using check_slice_elem_ok [OF assms True] by simp
next
  case False
  then show ?thesis by (simp add: check_slice composite_slice_iff)
qed

lemma check_map_ok:
  assumes "is_composite_lit e \<Longrightarrow>
      checkSupportedType env who ft e (Suc d) (Suc c) = [] \<longleftrightarrow> composite env (MaxNestingDepth - Suc c) e"
  shows "checkSupportedType env who ft (Lit (TMap k e)) d c = [] \<longleftrightarrow>
     composite env (MaxNestingDepth - c) (Lit (TMap k e))"
proof (cases "is_composite_lit e")
  case True
  then show ?thesis
    using assms composite_not_leaf [OF True] by (auto simp: check_map composite_map_iff)
next
  case False
  show ?thesis
    using False check_leaf_element [of "Suc d" env e who ft "Suc c"] leaf_element [of env e]
    by (auto simp: check_map composite_map_iff composite_other)
qed

definition named_bytes :: "go_env \<Rightarrow> go_ty \<Rightarrow> bool" where
  "named_bytes env t =
     (case t of
        Named i as \<Rightarrow> as = [] \<and> (case ge_Underlying env (i, as) of TSlice e \<Rightarrow> isBasicByte e | _ \<Rightarrow> False)
      | _ \<Rightarrow> False)"

lemma is_struct_lit: "is_struct env n \<longleftrightarrow> (\<exists>fs. ge_Underlying env n = TStruct fs)"
  by (simp add: is_struct_def struct_fields_def split: go_lit.split)

text \<open>Behind the first layer.\<close>

lemma check_inner:
  assumes "0 < d"
  shows "checkSupportedType env who ft t d c = [] \<longleftrightarrow>
     leaf_type env t \<or> composite env (MaxNestingDepth - c) t \<or> named_bytes env t"
  using assms
proof (induction "size t" arbitrary: t d c rule: less_induct)
  case less
  have elem: "checkSupportedType env who ft e (Suc d) (Suc c) = [] \<longleftrightarrow>
      composite env (MaxNestingDepth - Suc c) e"
    if "is_composite_lit e" "size e < size t" for e
    using less.hyps [OF that(2), of "Suc d" "Suc c"] that(1) composite_not_leaf [OF that(1)]
    by (cases e) (auto simp: named_bytes_def)
  show ?case
  proof (cases t)
    case (Named i as)
    then show ?thesis
      using \<open>0 < d\<close> composite_other [of t]
      by (cases "ge_Underlying env (i, as)") (auto simp: check_named named_bytes_def is_struct_lit split: if_splits)
  next
    case (Alias a l)
    then show ?thesis by (simp add: check_flat named_bytes_def composite_other)
  next
    case (Lit l)
    show ?thesis
    proof (cases l)
      case (TSlice e)
      then show ?thesis
        using check_slice_ok [of e env who ft d c] elem [of e] Lit by (simp add: named_bytes_def)
    next
      case (TMap k e)
      then show ?thesis
        using check_map_ok [of e env who ft d c k] elem [of e] Lit by (simp add: named_bytes_def)
    qed (use Lit \<open>0 < d\<close> in \<open>simp_all add: check_flat check_pointer named_bytes_def composite_other\<close>)
  qed
qed

lemma checker_accepts:
  "checkSupportedType env who t t 0 0 = [] \<longleftrightarrow> supported env t"
proof -
  have inner: "checkSupportedType env who ft e (Suc 0) 0 = [] \<longleftrightarrow> pointee env e" for ft e
    using check_inner [of "Suc 0" env who ft e 0] by (simp add: pointee_def named_bytes_def)
  have elem: "checkSupportedType env who ft e (Suc 0) (Suc 0) = [] \<longleftrightarrow> composite env (MaxNestingDepth - Suc 0) e"
    if "is_composite_lit e" for ft e
    using check_inner [of "Suc 0" env who ft e "Suc 0"] composite_not_leaf [OF that] that
    by (cases e) (auto simp: named_bytes_def)
  have max: "0 < MaxNestingDepth" by (simp add: MaxNestingDepth_def)
  show ?thesis
  proof (cases t)
    case (Named i as)
    consider "as \<noteq> []" | "as = []" "is_struct env (i, as)"
      | "as = []" "\<not> is_struct env (i, as)" by blast
    then show ?thesis
    proof cases
      case 3
      show ?thesis
      proof (cases "ge_Underlying env (i, [])")
        case (TSlice e)
        have "(if isBasicByte e then []
            else if is_composite_lit e then checkSupportedType env who t e (0 + 1) (0 + 1)
            else if \<not> isSliceElementType env e
            then [issue_of ''type/unsupported'' [who, ''alias element'', ge_String env t, ge_String env e]]
            else checkSupportedType env who t (strip_pointer e) (0 + 1) (0 + 1)) = [] \<longleftrightarrow>
           composite env (MaxNestingDepth - 0) (Lit (TSlice e))"
          by (rule check_slice_elem_ok [OF _ max]) (use elem in simp)
        moreover have "isBasicByte e \<longrightarrow> composite env MaxNestingDepth (Lit (TSlice e))"
          using max by (simp add: composite_slice_iff)
        ultimately show ?thesis
          using 3 Named TSlice composite_other [of t env MaxNestingDepth]
          by (cases "isBasicByte e") (simp_all add: check_named supported_def pointee_def split: if_splits)
      qed (use 3 Named in \<open>auto simp: check_named supported_def pointee_def composite_other\<close>)
    qed (use Named in \<open>auto simp: check_named supported_def pointee_def composite_other\<close>)
  next
    case (Alias a l)
    then show ?thesis by (simp add: check_flat supported_def pointee_def composite_other)
  next
    case (Lit l)
    show ?thesis
    proof (cases l)
      case (TSlice e)
      then show ?thesis
        using check_slice_ok [of e env who t 0 0] elem Lit by (simp add: supported_def pointee_def)
    next
      case (TMap k e)
      then show ?thesis
        using check_map_ok [of e env who t 0 0 k] elem Lit by (simp add: supported_def pointee_def)
    qed (use Lit inner in \<open>simp_all add: check_flat check_pointer supported_def pointee_def composite_other\<close>)
  qed
qed

text \<open>
  C31: \<^verbatim>\<open>checkSupportedType\<close> is a type checker for the field grammar: at the top of a field it records no
  issue exactly for the types of the grammar \<open>supported\<close>, whatever the program's named types are.
\<close>

theorem checkSupportedType_exact:
  "checkSupportedType env who t t 0 0 = [] \<longleftrightarrow> supported env t"
  by (rule checker_accepts)

end
