(* ===== verification/Field_Shape.thy ===== *)
theory Field_Shape
  imports Supported_Types "HOL-Library.AList"
begin

text \<open>
  \<^verbatim>\<open>tools/gsbmschema/discover.go\<close>: the builder's table and queue, and the shape of a field.
  \<^verbatim>\<open>shapeOf\<close> and \<^verbatim>\<open>wireFor\<close> follow the underlying type of a named type without a bound, so they are
  partial functions: \<open>None\<close> stands for a call that never returns.

  The table \<^verbatim>\<open>seen\<close> is the list of its entries, \<open>None\<close> being the nil placeholder.
\<close>

record builder =
  bd_seen :: "(string \<times> struct_decl option) list"
  bd_queue :: "named list"
  bd_issues :: "issue list"

definition new_builder :: builder where
  "new_builder = \<lparr>bd_seen = [], bd_queue = [], bd_issues = []\<rparr>"

definition add_issue :: "issue \<Rightarrow> builder \<Rightarrow> builder" where
  "add_issue i b = b\<lparr>bd_issues := bd_issues b @ [i]\<rparr>"

definition enqueue :: "go_env \<Rightarrow> named \<Rightarrow> builder \<Rightarrow> builder" where
  "enqueue env n b =
     (let k = keyOf env n in
      if map_of (bd_seen b) k \<noteq> None then b
      else b\<lparr>bd_seen := AList.update k None (bd_seen b), bd_queue := bd_queue b @ [n]\<rparr>)"

section \<open>Shape strings\<close>

partial_function (option) shapeOf ::
  "go_env \<Rightarrow> go_ty \<Rightarrow> bool \<Rightarrow> builder \<times> field_decl \<Rightarrow> (string \<times> builder \<times> field_decl) option"
where
  "shapeOf env t isTop s =
     (case t of
        Named i as \<Rightarrow>
          if is_struct env (i, as)
          then Some (keyOf env (i, as), enqueue env (i, as) (fst s), snd s)
          else Option.bind (shapeOf env (Lit (ge_Underlying env (i, as))) False s) (\<lambda>(u, s').
            Some (keyOf env (i, as) @ ''('' @ u @ '')'', s'))
      | Alias _ _ \<Rightarrow> Some (ge_String env t, s)
      | Lit l \<Rightarrow>
          (case l of
             TBasic k nm \<Rightarrow> Some (nm, s)
           | TSlice e \<Rightarrow>
               Option.bind (shapeOf env e False s) (\<lambda>(elem, b, fd).
                 Some (''[]'' @ elem, b, if isTop then fd\<lparr>fd_Elem := elem\<rparr> else fd))
           | TArray n e \<Rightarrow>
               Option.bind (shapeOf env e False s) (\<lambda>(elem, s').
                 Some (''['' @ dec n @ '']'' @ elem, s'))
           | TMap ky e \<Rightarrow>
               Option.bind (shapeOf env ky False s) (\<lambda>(k, s').
                 Option.bind (shapeOf env e False s') (\<lambda>(v, b, fd).
                   Some (''map['' @ k @ '']'' @ v, b,
                     if isTop then fd\<lparr>fd_MapKey := k, fd_MapValue := v,
                       fd_MapKeyUnderlying :=
                         (case ky of
                            Named i as \<Rightarrow>
                              (case ge_Underlying env (i, as) of
                                 TBasic _ nm \<Rightarrow> nm | _ \<Rightarrow> fd_MapKeyUnderlying fd)
                          | _ \<Rightarrow> fd_MapKeyUnderlying fd)\<rparr>
                     else fd)))
           | TPointer e \<Rightarrow>
               Option.bind (shapeOf env e False s) (\<lambda>(p, s'). Some (''*'' @ p, s'))
           | TInterface emp nm \<Rightarrow> Some (if emp then ''any'' else ge_String env t, s)
           | _ \<Rightarrow> Some (ge_String env t, s)))"

partial_function (option) wireFor :: "go_env \<Rightarrow> go_ty \<Rightarrow> string option" where
  "wireFor env t =
     (case t of
        Named i as \<Rightarrow>
          if is_struct env (i, as) then Some schema_WireLengthDelim
          else wireFor env (Lit (ge_Underlying env (i, as)))
      | Alias _ _ \<Rightarrow> Some schema_WireLengthDelim
      | Lit l \<Rightarrow>
          (case l of
             TBasic k _ \<Rightarrow>
               Some (if k = KNonInt ''float32'' then schema_WireFixed32
                 else if k = KNonInt ''float64'' then schema_WireFixed64
                 else if k = KNonInt ''string'' then schema_WireLengthDelim
                 else schema_WireVarint)
           | TPointer e \<Rightarrow> wireFor env e
           | _ \<Rightarrow> Some schema_WireLengthDelim))"

definition sliceElemRef :: "go_env \<Rightarrow> go_ty \<Rightarrow> type_ref" where
  "sliceElemRef env t =
     (case t of
        Lit (TPointer (Named i as)) \<Rightarrow> TypeRef [] (''*'' @ ref_key (refOf env (i, as))) [] None
      | Lit (TPointer _) \<Rightarrow> TypeRef [] (ge_String env t) [] None
      | _ \<Rightarrow> refOfType env t)"

definition aliasTypeRef :: "go_env \<Rightarrow> named \<Rightarrow> go_ty \<Rightarrow> type_ref" where
  "aliasTypeRef env n elem =
     (case refOf env n of TypeRef p nm as u \<Rightarrow> TypeRef p nm as (Some (sliceElemRef env elem)))"

text \<open>The element of a named slice type other than a named \<^verbatim>\<open>[]byte\<close>.\<close>

definition slice_alias :: "go_env \<Rightarrow> go_ty \<Rightarrow> (named \<times> go_ty) option" where
  "slice_alias env t =
     (case t of
        Named i as \<Rightarrow>
          (case ge_Underlying env (i, as) of
             TSlice e \<Rightarrow> if isBasicByte e then None else Some ((i, as), e)
           | _ \<Rightarrow> None)
      | _ \<Rightarrow> None)"

definition fillTypeShape :: "go_env \<Rightarrow> go_ty \<Rightarrow> builder \<times> field_decl \<Rightarrow> (builder \<times> field_decl) option" where
  "fillTypeShape env t s =
     (let (b, fd) = s;
          fd = (case t of Lit (TPointer _) \<Rightarrow> fd\<lparr>fd_Optional := True\<rparr> | _ \<Rightarrow> fd);
          t = strip_pointer t;
          (t, fd) = (case slice_alias env t of
             Some (n, e) \<Rightarrow> (Lit (TSlice e), fd\<lparr>fd_AliasType := Some (aliasTypeRef env n e)\<rparr>)
           | None \<Rightarrow> (t, fd)) in
      Option.bind (shapeOf env t True (b, fd)) (\<lambda>(shape, b, fd).
        Option.bind (wireFor env t) (\<lambda>wire.
          Some (b, fd\<lparr>fd_Type := shape, fd_Wire := wire\<rparr>))))"

section \<open>When they return\<close>

text \<open>The calls \<^const>\<open>shapeOf\<close> makes: the parts of a type, and the underlying type of a named one.\<close>

inductive part_of :: "go_env \<Rightarrow> go_ty \<Rightarrow> go_ty \<Rightarrow> bool" for env where
  part_named: "\<not> is_struct env (i, as) \<Longrightarrow> part_of env (Lit (ge_Underlying env (i, as))) (Named i as)"
| part_slice: "part_of env e (Lit (TSlice e))"
| part_array: "part_of env e (Lit (TArray n e))"
| part_key: "part_of env k (Lit (TMap k e))"
| part_value: "part_of env e (Lit (TMap k e))"
| part_pointer: "part_of env e (Lit (TPointer e))"

text \<open>A type with no infinite descent.\<close>

abbreviation grounded :: "go_env \<Rightarrow> go_ty \<Rightarrow> bool" where
  "grounded env \<equiv> Wellfounded.accp (part_of env)"

inductive_cases part_of_NamedE: "part_of env u (Named i as)"
inductive_cases part_of_AliasE: "part_of env u (Alias s l)"
inductive_cases part_of_LitE: "part_of env u (Lit l)"

lemma shapeOf_eqs:
  "is_struct env (i, as) \<Longrightarrow>
     shapeOf env (Named i as) isTop s = Some (keyOf env (i, as), enqueue env (i, as) (fst s), snd s)"
  "\<not> is_struct env (i, as) \<Longrightarrow> shapeOf env (Named i as) isTop s =
     Option.bind (shapeOf env (Lit (ge_Underlying env (i, as))) False s) (\<lambda>(u, s').
       Some (keyOf env (i, as) @ ''('' @ u @ '')'', s'))"
  "shapeOf env (Alias a l) isTop s = Some (ge_String env (Alias a l), s)"
  "shapeOf env (Lit (TBasic k nm)) isTop s = Some (nm, s)"
  "shapeOf env (Lit (TSlice e)) isTop s =
     Option.bind (shapeOf env e False s) (\<lambda>(elem, b, fd).
       Some (''[]'' @ elem, b, if isTop then fd\<lparr>fd_Elem := elem\<rparr> else fd))"
  "shapeOf env (Lit (TArray n e)) isTop s =
     Option.bind (shapeOf env e False s) (\<lambda>(elem, s'). Some (''['' @ dec n @ '']'' @ elem, s'))"
  "shapeOf env (Lit (TMap ky e)) isTop s =
     Option.bind (shapeOf env ky False s) (\<lambda>(k, s').
       Option.bind (shapeOf env e False s') (\<lambda>(v, b, fd).
         Some (''map['' @ k @ '']'' @ v, b,
           if isTop then fd\<lparr>fd_MapKey := k, fd_MapValue := v,
             fd_MapKeyUnderlying :=
               (case ky of
                  Named i as \<Rightarrow>
                    (case ge_Underlying env (i, as) of TBasic _ nm \<Rightarrow> nm | _ \<Rightarrow> fd_MapKeyUnderlying fd)
                | _ \<Rightarrow> fd_MapKeyUnderlying fd)\<rparr>
           else fd)))"
  "shapeOf env (Lit (TPointer e)) isTop s =
     Option.bind (shapeOf env e False s) (\<lambda>(p, s'). Some (''*'' @ p, s'))"
  "shapeOf env (Lit (TInterface emp nm)) isTop s =
     Some (if emp then ''any'' else ge_String env (Lit (TInterface emp nm)), s)"
  "shapeOf env (Lit (TChan e)) isTop s = Some (ge_String env (Lit (TChan e)), s)"
  "shapeOf env (Lit (TStruct fs)) isTop s = Some (ge_String env (Lit (TStruct fs)), s)"
  "shapeOf env (Lit (TSignature sg)) isTop s = Some (ge_String env (Lit (TSignature sg)), s)"
  "shapeOf env (Lit (TOther ot)) isTop s = Some (ge_String env (Lit (TOther ot)), s)"
  by (subst shapeOf.simps, simp)+

text \<open>
  What \<^const>\<open>shapeOf\<close> computes, as a relation: the tree its string spells and the struct types it
  enqueues, in order.
\<close>

inductive shaped :: "go_env \<Rightarrow> go_ty \<Rightarrow> shape_tree \<Rightarrow> named list \<Rightarrow> bool" for env where
  shaped_struct: "is_struct env (i, as) \<Longrightarrow> shaped env (Named i as) (Ident (keyOf env (i, as))) [(i, as)]"
| shaped_named: "\<not> is_struct env (i, as) \<Longrightarrow> shaped env (Lit (ge_Underlying env (i, as))) tr ns \<Longrightarrow>
    shaped env (Named i as) (Ident (keyOf env (i, as) @ ''('' @ render tr @ '')'')) ns"
| shaped_alias: "shaped env (Alias a l) (Ident (ge_String env (Alias a l))) []"
| shaped_basic: "shaped env (Lit (TBasic k nm)) (Ident nm) []"
| shaped_slice: "shaped env e tr ns \<Longrightarrow> shaped env (Lit (TSlice e)) (SliceOf tr) ns"
| shaped_array: "shaped env e tr ns \<Longrightarrow> shaped env (Lit (TArray n e)) (ArrayOf n tr) ns"
| shaped_map: "shaped env ky trk ks \<Longrightarrow> shaped env e trv vs \<Longrightarrow>
    shaped env (Lit (TMap ky e)) (MapOf trk trv) (ks @ vs)"
| shaped_pointer: "shaped env e tr ns \<Longrightarrow> shaped env (Lit (TPointer e)) (Pointer tr) ns"
| shaped_interface: "shaped env (Lit (TInterface emp nm))
    (Ident (if emp then ''any'' else ge_String env (Lit (TInterface emp nm)))) []"
| shaped_chan: "shaped env (Lit (TChan e)) (Ident (ge_String env (Lit (TChan e)))) []"
| shaped_lit_struct: "shaped env (Lit (TStruct fs)) (Ident (ge_String env (Lit (TStruct fs)))) []"
| shaped_signature: "shaped env (Lit (TSignature sg)) (Ident (ge_String env (Lit (TSignature sg)))) []"
| shaped_other: "shaped env (Lit (TOther ot)) (Ident (ge_String env (Lit (TOther ot)))) []"

lemma grounded_shaped: "grounded env t \<Longrightarrow> \<exists>tr ns. shaped env t tr ns"
proof (induction rule: accp_induct_rule)
  case (1 t)
  note IH = 1(2)
  show ?case
  proof (cases t)
    case (Named i as)
    then show ?thesis
      using IH [of "Lit (ge_Underlying env (i, as))"]
      by (cases "is_struct env (i, as)") (blast intro: shaped.intros part_of.intros)+
  next
    case (Alias a l)
    then show ?thesis by (blast intro: shaped.intros)
  next
    case (Lit l)
    then show ?thesis using IH by (cases l) (blast intro: shaped.intros part_of.intros)+
  qed
qed

lemma shaped_grounded: "shaped env t tr ns \<Longrightarrow> grounded env t"
  by (induction rule: shaped.induct)
    (rule accp.accI; auto elim: part_of_NamedE part_of_AliasE part_of_LitE)+

lemma shaped_struct_named: "shaped env t tr ns \<Longrightarrow> n \<in> set ns \<Longrightarrow> is_struct env n"
  by (induction rule: shaped.induct) auto

text \<open>The fields \<^const>\<open>shapeOf\<close> fills at the top.\<close>

definition top_parts :: "go_env \<Rightarrow> go_ty \<Rightarrow> shape_tree \<Rightarrow> field_decl \<Rightarrow> field_decl" where
  "top_parts env t tr fd =
     (case t of
        Lit (TSlice _) \<Rightarrow> (case tr of SliceOf e \<Rightarrow> fd\<lparr>fd_Elem := render e\<rparr> | _ \<Rightarrow> fd)
      | Lit (TMap ky _) \<Rightarrow>
          (case tr of
             MapOf k v \<Rightarrow> fd\<lparr>fd_MapKey := render k, fd_MapValue := render v,
               fd_MapKeyUnderlying :=
                 (case ky of
                    Named i as \<Rightarrow>
                      (case ge_Underlying env (i, as) of TBasic _ nm \<Rightarrow> nm | _ \<Rightarrow> fd_MapKeyUnderlying fd)
                  | _ \<Rightarrow> fd_MapKeyUnderlying fd)\<rparr>
           | _ \<Rightarrow> fd)
      | _ \<Rightarrow> fd)"

lemma shapeOf_shaped:
  "shaped env t tr ns \<Longrightarrow>
     shapeOf env t isTop (b, fd) =
       Some (render tr, fold (enqueue env) ns b, if isTop then top_parts env t tr fd else fd)"
  by (induction arbitrary: isTop b fd rule: shaped.induct) (simp_all add: shapeOf_eqs top_parts_def)

lemma shapeOf_grounded:
  assumes "shapeOf env t isTop s = Some r"
  shows "grounded env t"
  using assms
proof (induction rule: shapeOf.raw_induct [rotated, consumes 1, case_names step])
  case (step f env t isTop s r)
  show ?case
  proof (rule accp.accI)
    fix u
    assume "part_of env u t"
    then show "grounded env u"
      using step(2) by cases (auto simp: bind_eq_Some_conv intro: step(1))
  qed
qed

text \<open>\<^const>\<open>shapeOf\<close> returns exactly on the types with no infinite descent.\<close>

lemma shapeOf_returns_iff: "(\<exists>r. shapeOf env t isTop s = Some r) \<longleftrightarrow> grounded env t"
  using shapeOf_grounded grounded_shaped shapeOf_shaped
  by (metis surj_pair)

lemma shaped_exists:
  assumes "shapeOf env t isTop (b, fd) = Some r"
  obtains tr ns where "shaped env t tr ns"
    and "r = (render tr, fold (enqueue env) ns b, if isTop then top_parts env t tr fd else fd)"
proof -
  obtain tr ns where "shaped env t tr ns" using grounded_shaped [OF shapeOf_grounded [OF assms]] by blast
  then show thesis using that [of tr ns] shapeOf_shaped [of env t tr ns isTop b fd] assms by simp
qed

lemma wireFor_eqs:
  "wireFor env (Named i as) =
     (if is_struct env (i, as) then Some schema_WireLengthDelim
      else wireFor env (Lit (ge_Underlying env (i, as))))"
  "wireFor env (Lit (TPointer e)) = wireFor env e"
  by (subst wireFor.simps, simp)+

lemma wireFor_flat:
  "(\<nexists>e. l = TPointer e) \<Longrightarrow> \<exists>w. wireFor env (Lit l) = Some w" "\<exists>w. wireFor env (Alias a m) = Some w"
  by (subst wireFor.simps, simp split: go_lit.split)+

lemma wireFor_grounded: "grounded env t \<Longrightarrow> \<exists>w. wireFor env t = Some w"
proof (induction rule: accp_induct_rule)
  case (1 t)
  show ?case
  proof (cases t)
    case (Named i as)
    then show ?thesis
      using 1(2) [of "Lit (ge_Underlying env (i, as))"] part_named [of env i as]
      by (cases "is_struct env (i, as)") (simp_all add: wireFor_eqs)
  next
    case (Lit l)
    show ?thesis
    proof (cases "\<exists>e. l = TPointer e")
      case True
      then obtain e where t: "t = Lit (TPointer e)" using Lit by blast
      then show ?thesis using 1(2) [of e] part_pointer [of env e] by (simp add: wireFor_eqs)
    qed (simp add: Lit wireFor_flat)
  qed (simp add: wireFor_flat)
qed

text \<open>The type whose shape is taken: behind one pointer, and a slice for a named slice type.\<close>

definition field_core :: "go_env \<Rightarrow> go_ty \<Rightarrow> go_ty" where
  "field_core env t =
     (let t = strip_pointer t in
      case slice_alias env t of Some (n, e) \<Rightarrow> Lit (TSlice e) | None \<Rightarrow> t)"

definition field_start :: "go_env \<Rightarrow> go_ty \<Rightarrow> field_decl \<Rightarrow> field_decl" where
  "field_start env t fd =
     (let fd = (case t of Lit (TPointer _) \<Rightarrow> fd\<lparr>fd_Optional := True\<rparr> | _ \<Rightarrow> fd) in
      case slice_alias env (strip_pointer t) of
        Some (n, e) \<Rightarrow> fd\<lparr>fd_AliasType := Some (aliasTypeRef env n e)\<rparr> | None \<Rightarrow> fd)"

lemma field_start_keeps [simp]:
  "fd_CycleBreak (field_start env t fd) = fd_CycleBreak fd" "fd_Custom (field_start env t fd) = fd_Custom fd"
  by (auto simp: field_start_def Let_def split: go_ty.split go_lit.split option.split)

lemma fillTypeShape_core:
  "fillTypeShape env t (b, fd) =
     Option.bind (shapeOf env (field_core env t) True (b, field_start env t fd)) (\<lambda>(shape, b, fd).
        Option.bind (wireFor env (field_core env t)) (\<lambda>wire.
          Some (b, fd\<lparr>fd_Type := shape, fd_Wire := wire\<rparr>)))"
  unfolding fillTypeShape_def field_core_def field_start_def
  by (simp add: Let_def split: option.split prod.split)

lemma fillTypeShape_returns_grounded:
  "(\<exists>r. fillTypeShape env t (b, fd) = Some r) \<longleftrightarrow> grounded env (field_core env t)"
proof -
  note fd' = fillTypeShape_core [of env t b fd]
  show ?thesis
  proof
    assume "grounded env (field_core env t)"
    then obtain tr ns w where "shaped env (field_core env t) tr ns" "wireFor env (field_core env t) = Some w"
      using grounded_shaped wireFor_grounded by blast
    then show "\<exists>r. fillTypeShape env t (b, fd) = Some r" by (simp add: fd' shapeOf_shaped)
  qed (auto simp: fd' bind_eq_Some_conv dest: shapeOf_grounded)
qed

text \<open>
  C32: Filling in a field's shape returns exactly when its type has no infinite descent through
  pointers, slices, arrays, maps and the underlying types of named non-struct types; a struct ends the
  descent. The Go compiler accepts types without that property.
\<close>

theorem fillTypeShape_returns_iff:
  "(\<exists>r. fillTypeShape env t (b, fd) = Some r) \<longleftrightarrow> grounded env (field_core env t)"
  by (rule fillTypeShape_returns_grounded)

text \<open>\<^verbatim>\<open>type T []T\<close> is legal Go; a field of that type makes the schema tools recurse for ever.\<close>

lemma ungrounded_cycle:
  assumes "part_of env u t" "part_of env t u"
  shows "\<not> grounded env t"
proof
  assume "grounded env t"
  then show False
    using assms
  proof (induction arbitrary: u rule: accp_induct_rule)
    case (1 t)
    from 1(2) [OF 1(3), of t] 1(3,4) show ?case by blast
  qed
qed

theorem recursive_slice_diverges:
  assumes "ge_Underlying env (i, []) = TSlice (Named i [])"
  shows "fillTypeShape env (Named i []) (b, fd) = None"
proof -
  have "part_of env (Lit (TSlice (Named i []))) (Named i [])"
    using part_named [of env i "[]"] assms by (simp add: is_struct_def struct_fields_def)
  then have "\<not> grounded env (Lit (TSlice (Named i [])))"
    by (rule ungrounded_cycle [OF part_slice])
  moreover have "field_core env (Named i []) = Lit (TSlice (Named i []))"
    using assms by (simp add: field_core_def slice_alias_def)
  ultimately show ?thesis
    using fillTypeShape_returns_grounded [of env "Named i []" b fd] by (metis not_None_eq)
qed


end
