(* ===== verification/Discover.thy ===== *)
theory Discover
  imports Field_Shape "HOL-Library.Product_Lexorder"
begin

text \<open>
  \<^verbatim>\<open>tools/gsbmschema/discover.go\<close>: from a struct's fields to its declaration. A builder step returns
  \<open>None\<close> when the Go call would not return. Issues keep their code and the names their messages carry;
  the text of a parse error is not kept.
\<close>

definition add_issues :: "issue list \<Rightarrow> builder \<Rightarrow> builder" where
  "add_issues is b = b\<lparr>bd_issues := bd_issues b @ is\<rparr>"

text \<open>\<^verbatim>\<open>parseMarkers\<close> with its error recorded, as every caller does.\<close>

definition read_markers :: "comment_group \<Rightarrow> builder \<Rightarrow> markers \<times> builder" where
  "read_markers doc b =
     (case parseMarkers doc of
        (m, None) \<Rightarrow> (m, b)
      | (m, Some e) \<Rightarrow> (m, add_issue (issue_of ''marker/parse'' []) b))"

definition who_of :: "go_env \<Rightarrow> named \<Rightarrow> go_var \<Rightarrow> string" where
  "who_of env n f = to_Name (Obj env n) @ ''.'' @ var_Name f"

section \<open>The fields of an \<^verbatim>\<open>id_ref\<close>\<close>

fun idref_args :: "idref_error \<Rightarrow> string list" where
  "idref_args TargetNotNamed = []"
| "idref_args (TargetNotStruct nm) = [nm]"
| "idref_args (TargetBadTag nm f e) = [nm, f]"
| "idref_args (TargetBadType nm f t) = [nm, f, t]"
| "idref_args (TargetNoID nm) = [nm]"

definition foreign_unexported_type :: "go_env \<Rightarrow> string \<Rightarrow> go_ty \<Rightarrow> bool" where
  "foreign_unexported_type env ownerPkg t =
     (case t of
        Named i as \<Rightarrow>
          \<not> to_Exported (Obj env (i, as)) \<and> pkg_path_of env (i, as) \<noteq> [] \<and>
          ownerPkg \<noteq> pkg_path_of env (i, as)
      | _ \<Rightarrow> False)"

text \<open>What the ID field's type and override put into the declaration.\<close>

definition adopt_id_type ::
  "go_env \<Rightarrow> string \<Rightarrow> go_ty \<Rightarrow> string \<Rightarrow> builder \<times> field_decl \<Rightarrow> (builder \<times> field_decl) option"
where
  "adopt_id_type env who idType idOverride s =
     Option.bind (wireFor env idType) (\<lambda>wire.
       Option.bind (shapeOf env idType False (fst s, (snd s)\<lparr>fd_Wire := wire\<rparr>)) (\<lambda>(shape, b, fd).
         let fd = fd\<lparr>fd_Type := fd_Type fd @ ''/id:'' @ shape\<rparr> in
         if idOverride = [] then Some (b, fd)
         else (case WireOverrideCompat (Some (width_view env idType)) idOverride of
             Inl _ \<Rightarrow> Some (add_issue (issue_of ''tag/type-width-mismatch'' [who, idOverride]) b, fd)
           | Inr _ \<Rightarrow> Some (b, fd\<lparr>fd_WireOverride := idOverride\<rparr>))))"

definition resolveIDRefField ::
  "go_env \<Rightarrow> named \<Rightarrow> go_var \<Rightarrow> builder \<times> field_decl \<Rightarrow> (builder \<times> field_decl) option"
where
  "resolveIDRefField env n f s =
     (case var_Type f of
        Lit (TPointer p) \<Rightarrow>
          (let (b, fd) = s; who = who_of env n f; ownerPkg = pkg_path_of env n in
           case LookupIDRefField env p of
             Inl e \<Rightarrow> Some (add_issue (issue_of ''idref/missing-id-tag'' (who # idref_args e)) b, fd)
           | Inr (idField, idOverride) \<Rightarrow>
               if \<not> var_Exported idField \<and> ownerPkg \<noteq> pkgPath env p
               then Some (add_issue (issue_of ''idref/unexported-id-field'' [who, var_Name idField]) b, fd)
               else if foreign_unexported_type env ownerPkg (var_Type idField)
               then Some (add_issue (issue_of ''idref/unexported-id-type'' [who, var_Name idField]) b, fd)
               else adopt_id_type env who (var_Type idField) idOverride (b, fd))
      | _ \<Rightarrow> Some s)"

section \<open>One field\<close>

text \<open>The checks between parsing a tag and building the field: the issue that rejects it, if any.\<close>

definition field_guard :: "go_env \<Rightarrow> string \<Rightarrow> go_ty \<Rightarrow> field_tag \<Rightarrow> markers \<Rightarrow> issue option" where
  "field_guard env who t ft fm =
     (let cycleBreak = mk_cycleBreakViaID fm \<or> ft_CycleBreakViaID ft in
      if mk_cycleBreakViaID fm \<and> ft_Custom ft \<noteq> []
      then Some (issue_of ''tag/parse'' [who, ''custom'', ft_Custom ft])
      else if mk_cycleBreakViaID fm \<and> ft_WireOverride ft \<noteq> []
      then Some (issue_of ''tag/parse'' [who, ''type'', ft_WireOverride ft])
      else if cycleBreak \<and> \<not> isPointerToStruct env t
      then Some (issue_of ''tag/bad-id-ref'' [who, ge_String env t])
      else if ft_WireOverride ft \<noteq> [] \<and>
        (case WireOverrideCompat (Some (width_view env t)) (ft_WireOverride ft) of
           Inl _ \<Rightarrow> True | Inr _ \<Rightarrow> False)
      then Some (issue_of ''tag/type-width-mismatch'' [who, dec_u32 (ft_Tag ft), ft_WireOverride ft])
      else None)"

definition new_field :: "string \<Rightarrow> field_tag \<Rightarrow> bool \<Rightarrow> field_decl" where
  "new_field nm ft cycleBreak =
     \<lparr>fd_Name = nm, fd_Tag = ft_Tag ft, fd_Type = [], fd_Wire = [], fd_Optional = False,
      fd_Deprecated = ft_Deprecated ft, fd_CompatWrite = ft_CompatWrite ft, fd_CycleBreak = cycleBreak,
      fd_MapKey = [], fd_MapValue = [], fd_Elem = [], fd_MapKeyUnderlying = [],
      fd_Custom = ft_Custom ft, fd_WireOverride = ft_WireOverride ft, fd_AliasType = None,
      fd_FlattenedFrom = [], fd_FlattenedFromPointer = False\<rparr>"

text \<open>A field with a custom codec: only a pointer is looked through.\<close>

definition custom_field ::
  "go_env \<Rightarrow> string \<Rightarrow> go_ty \<Rightarrow> field_decl \<Rightarrow> builder \<Rightarrow> builder \<times> field_decl option"
where
  "custom_field env who t fd b =
     (let fd = (case t of Lit (TPointer _) \<Rightarrow> fd\<lparr>fd_Optional := True\<rparr> | _ \<Rightarrow> fd);
          fieldType = strip_pointer t;
          composite = (case Underlying env fieldType of
             TSlice _ \<Rightarrow> True | TMap _ _ \<Rightarrow> True | TArray _ _ \<Rightarrow> True | _ \<Rightarrow> False) in
      if composite
      then (add_issue (issue_of ''field/custom-composite''
              [who, fd_Custom fd, ge_String env fieldType]) b, None)
      else (b, Some (fd\<lparr>fd_Type := ge_String env fieldType\<rparr>)))"

definition buildFieldDecl ::
  "go_env \<Rightarrow> named \<Rightarrow> go_var \<Rightarrow> ast_field list option \<Rightarrow> builder \<Rightarrow> (builder \<times> field_decl option) option"
where
  "buildFieldDecl env n f ast b =
     (let who = who_of env n f; t = var_Type f in
      case ParseFieldTag (var_BinTag f) of
        Inl _ \<Rightarrow> Some (add_issue (issue_of ''tag/parse'' [who]) b, None)
      | Inr ft \<Rightarrow>
          (let (fm, b) = read_markers (case findFieldDoc ast (var_Name f) of Some d \<Rightarrow> d | None \<Rightarrow> None) b in
           if mk_trackPresence fm
           then Some (add_issue (issue_of ''marker/track-presence-misplaced'' [who]) b, None)
           else if mk_borrowStrings fm
           then Some (add_issue (issue_of ''marker/borrow-strings-misplaced'' [who]) b, None)
           else if \<not> ft_Set ft then Some (add_issue (issue_of ''tag/missing'' [who]) b, None)
           else if ft_Skip ft then Some (b, None)
           else (case field_guard env who t ft fm of
               Some i \<Rightarrow> Some (add_issue i b, None)
             | None \<Rightarrow>
                 (let cycleBreak = mk_cycleBreakViaID fm \<or> ft_CycleBreakViaID ft;
                      fd = new_field (var_Name f) ft cycleBreak in
                  if ft_Custom ft \<noteq> [] then Some (custom_field env who t fd b)
                  else Option.bind (fillTypeShape env t (b, fd)) (\<lambda>s.
                    Option.bind (if cycleBreak then resolveIDRefField env n f s else Some s) (\<lambda>(b, fd).
                      Some (add_issues (checkSupportedType env who t t 0 0) b, Some fd)))))))"

section \<open>Access from the outer package\<close>

text \<open>
  \<^verbatim>\<open>collectForeignUnexportedNamed\<close>: the walk with its call stack as a list of types still to visit.
\<close>

definition unwraps :: "go_lit \<Rightarrow> bool" where
  "unwraps l =
     (case l of TSlice _ \<Rightarrow> True | TArray _ _ \<Rightarrow> True | TMap _ _ \<Rightarrow> True | TChan _ \<Rightarrow> True
      | TPointer _ \<Rightarrow> True | _ \<Rightarrow> False)"

partial_function (option) foreign_walk ::
  "go_env \<Rightarrow> string \<Rightarrow> go_ty list \<Rightarrow> named list \<times> named list \<Rightarrow> (named list \<times> named list) option"
where
  "foreign_walk env ownerPkg ts s =
     (case ts of
        [] \<Rightarrow> Some s
      | t # ts \<Rightarrow>
          (case t of
             Named i as \<Rightarrow>
               if (i, as) \<in> set (fst s) then foreign_walk env ownerPkg ts s
               else foreign_walk env ownerPkg
                 (as @ (if unwraps (ge_Underlying env (i, as)) then [Lit (ge_Underlying env (i, as))] else []) @ ts)
                 ((i, as) # fst s,
                  if foreign_unexported_type env ownerPkg t then snd s @ [(i, as)] else snd s)
           | Alias _ _ \<Rightarrow> foreign_walk env ownerPkg ts s
           | Lit l \<Rightarrow>
               (case l of
                  TPointer e \<Rightarrow> foreign_walk env ownerPkg (e # ts) s
                | TSlice e \<Rightarrow> foreign_walk env ownerPkg (e # ts) s
                | TArray _ e \<Rightarrow> foreign_walk env ownerPkg (e # ts) s
                | TMap k e \<Rightarrow> foreign_walk env ownerPkg (k # e # ts) s
                | TChan e \<Rightarrow> foreign_walk env ownerPkg (e # ts) s
                | _ \<Rightarrow> foreign_walk env ownerPkg ts s)))"

definition collectForeignUnexportedNamed :: "go_env \<Rightarrow> go_ty \<Rightarrow> string \<Rightarrow> named list option" where
  "collectForeignUnexportedNamed env t ownerPkg = map_option snd (foreign_walk env ownerPkg [t] ([], []))"

definition checkFlattenedFieldAccessible ::
  "go_env \<Rightarrow> named \<Rightarrow> go_var \<Rightarrow> string list \<Rightarrow> builder \<Rightarrow> builder option"
where
  "checkFlattenedFieldAccessible env owner f chain b =
     (let ownerPkg = pkg_path_of env owner;
          fieldPkg = (case var_Pkg f of None \<Rightarrow> [] | Some p \<Rightarrow> p);
          path = join_with ''.'' chain @ ''.'' @ var_Name f;
          b = (if fieldPkg \<noteq> [] \<and> fieldPkg \<noteq> ownerPkg \<and> \<not> var_Exported f
               then add_issue (issue_of ''field/anonymous-unexported-field''
                      [to_Name (Obj env owner), path]) b
               else b) in
      Option.bind (collectForeignUnexportedNamed env (var_Type f) ownerPkg) (\<lambda>ns.
        Some (add_issues (map (\<lambda>n. issue_of ''field/anonymous-unexported-type''
          [to_Name (Obj env owner), path, to_Name (Obj env n), pkg_path_of env n]) ns) b)))"

definition checkIntermediateEmbedAccessible ::
  "go_env \<Rightarrow> named \<Rightarrow> named \<Rightarrow> string list \<Rightarrow> builder \<Rightarrow> builder"
where
  "checkIntermediateEmbedAccessible env owner n chain b =
     (let ownerPkg = pkg_path_of env owner; typePkg = pkg_path_of env n in
      if typePkg = [] \<or> typePkg = ownerPkg \<or> to_Exported (Obj env n) then b
      else add_issue (issue_of ''field/anonymous-unexported-type''
             [to_Name (Obj env owner), join_with ''.'' chain, to_Name (Obj env n), typePkg]) b)"

section \<open>Embedded structs\<close>

text \<open>The doc comment and the AST of a named struct, as far as its package is loaded.\<close>

definition struct_doc :: "go_env \<Rightarrow> go_package list \<Rightarrow> named \<Rightarrow> comment_group \<times> ast_field list option" where
  "struct_doc env ps n =
     (case findPackage ps (to_Pkg (Obj env n)) of
        None \<Rightarrow> (None, None)
      | Some p \<Rightarrow>
          (case findStructDoc p (to_Name (Obj env n)) of
             None \<Rightarrow> (None, None)
           | Some (doc, st) \<Rightarrow> (doc, Some st)))"

record embed =
  em_Named :: named
  em_Fields :: "go_var list"
  em_Ast :: "ast_field list option"
  em_Reserved :: "u32 list"
  em_Pointer :: bool

text \<open>\<^verbatim>\<open>flattenAnonymous\<close> up to its recursive call: the struct to walk into, if the embed is accepted.\<close>

definition flattenAnonymous ::
  "go_env \<Rightarrow> go_package list \<Rightarrow> named \<Rightarrow> go_var \<Rightarrow> string list \<Rightarrow> named list \<Rightarrow> builder \<Rightarrow>
   builder \<times> embed option"
where
  "flattenAnonymous env ps owner f chain visited b =
     (let isPtr = (case var_Type f of Lit (TPointer _) \<Rightarrow> True | _ \<Rightarrow> False);
          t = strip_pointer (var_Type f);
          own = to_Name (Obj env owner) in
      case t of
        Named i as \<Rightarrow>
          (let n = (i, as); nm = to_Name (Obj env n) in
           case struct_fields (ge_Underlying env n) of
             None \<Rightarrow> (add_issue (issue_of ''field/anonymous-non-struct'' [own, nm]) b, None)
           | Some inner \<Rightarrow>
               if as \<noteq> []
               then (add_issue (issue_of ''field/anonymous-generic'' [own, ge_String env t]) b, None)
               else if n \<in> set visited
               then (add_issue (issue_of ''field/embed-cycle'' (own # chain @ [nm])) b, None)
               else (case struct_doc env ps n of (doc, ast) \<Rightarrow>
                 (case read_markers doc b of (m, b) \<Rightarrow>
                    if mk_opaque m
                    then (add_issue (issue_of ''field/anonymous-opaque'' [own, nm]) b, None)
                    else (checkIntermediateEmbedAccessible env owner n (chain @ [nm]) b,
                      Some \<lparr>em_Named = n, em_Fields = inner, em_Ast = ast, em_Reserved = mk_reserved m,
                        em_Pointer = isPtr\<rparr>))))
      | _ \<Rightarrow> (add_issue (issue_of ''field/anonymous-non-struct'' [own, ge_String env t]) b, None))"

text \<open>The markers of an embedded field itself; \<open>True\<close> when the field is skipped.\<close>

definition embed_markers ::
  "go_env \<Rightarrow> named \<Rightarrow> go_var \<Rightarrow> ast_field list option \<Rightarrow> builder \<Rightarrow> builder \<times> bool"
where
  "embed_markers env owner f ast b =
     (case findAnonymousFieldDoc ast (var_Name f) of
        None \<Rightarrow> (b, False)
      | Some adoc \<Rightarrow>
          (case read_markers adoc b of (am, b) \<Rightarrow>
             if mk_trackPresence am
             then (add_issue (issue_of ''marker/track-presence-misplaced'' [who_of env owner f]) b, True)
             else if mk_borrowStrings am
             then (add_issue (issue_of ''marker/borrow-strings-misplaced'' [who_of env owner f]) b, True)
             else (b, False)))"

text \<open>The arguments of one level of the walk, and what it collects.\<close>

record frame =
  fr_Ast :: "ast_field list option"
  fr_Chain :: "string list"
  fr_Pointer :: bool
  fr_Visited :: "named list"

record collected =
  cl_Builder :: builder
  cl_Out :: "field_decl list"
  cl_Reserved :: "u32 list"

definition embed_frame :: "go_env \<Rightarrow> frame \<Rightarrow> embed \<Rightarrow> frame" where
  "embed_frame env fr e =
     \<lparr>fr_Ast = em_Ast e, fr_Chain = fr_Chain fr @ [to_Name (Obj env (em_Named e))],
      fr_Pointer = (fr_Pointer fr \<or> em_Pointer e), fr_Visited = em_Named e # fr_Visited fr\<rparr>"

text \<open>An embedded field: what to walk into, if anything.\<close>

definition open_embed ::
  "go_env \<Rightarrow> go_package list \<Rightarrow> named \<Rightarrow> go_var \<Rightarrow> frame \<Rightarrow> builder \<Rightarrow> builder \<times> embed option"
where
  "open_embed env ps owner f fr b =
     (case embed_markers env owner f (fr_Ast fr) b of (b, skip) \<Rightarrow>
        if skip then (b, None)
        else flattenAnonymous env ps owner f (fr_Chain fr) (fr_Visited fr) b)"

text \<open>A named field: its declaration, with the path of embeds it was found behind.\<close>

definition named_field ::
  "go_env \<Rightarrow> named \<Rightarrow> go_var \<Rightarrow> frame \<Rightarrow> collected \<Rightarrow> collected option"
where
  "named_field env owner f fr s =
     Option.bind (buildFieldDecl env owner f (fr_Ast fr) (cl_Builder s)) (\<lambda>(b, fdo).
       case fdo of
         None \<Rightarrow> Some (s\<lparr>cl_Builder := b\<rparr>)
       | Some fd \<Rightarrow>
           if fr_Chain fr = [] then Some (s\<lparr>cl_Builder := b, cl_Out := cl_Out s @ [fd]\<rparr>)
           else Option.bind (checkFlattenedFieldAccessible env owner f (fr_Chain fr) b) (\<lambda>b.
             Some (s\<lparr>cl_Builder := b,
               cl_Out := cl_Out s @
                 [fd\<lparr>fd_FlattenedFrom := join_with ''.'' (fr_Chain fr),
                    fd_FlattenedFromPointer := fr_Pointer fr\<rparr>]\<rparr>)))"

partial_function (option) collectStructFields ::
  "go_env \<times> go_package list \<times> named \<Rightarrow> go_var list \<Rightarrow> frame \<Rightarrow> collected \<Rightarrow> collected option"
where
  "collectStructFields ctx fs fr s =
     (case ctx of (env, ps, owner) \<Rightarrow>
        (case fs of
           [] \<Rightarrow> Some s
         | f # fs \<Rightarrow>
             if var_Anonymous f then
               (case open_embed env ps owner f fr (cl_Builder s) of
                  (b, None) \<Rightarrow> collectStructFields ctx fs fr (s\<lparr>cl_Builder := b\<rparr>)
                | (b, Some e) \<Rightarrow>
                    Option.bind
                      (collectStructFields ctx (em_Fields e) (embed_frame env fr e)
                         (s\<lparr>cl_Builder := b, cl_Reserved := cl_Reserved s @ em_Reserved e\<rparr>))
                      (\<lambda>s. collectStructFields ctx fs fr s))
             else
               Option.bind (named_field env owner f fr s) (\<lambda>s. collectStructFields ctx fs fr s)))"

end
