(* ===== verification/Schema_Hash.thy ===== *)
theory Schema_Hash
  imports Schema_Types
begin

text \<open>
  \<^verbatim>\<open>tools/gsbmschema/hash.go\<close>: the canonical text of a schema and the hint derived from it. SHA-256 is
  a parameter.
\<close>

section \<open>The code\<close>

definition nl :: char where "nl = CHR 0x0A"

definition kv :: "(string \<times> string) list \<Rightarrow> string" where
  "kv ps = join_with '' '' (map (\<lambda>(k, v). k @ ''='' @ v) ps)"

definition aliasTypeKey :: "type_ref option \<Rightarrow> string" where
  "aliasTypeKey r =
     (case r of
        None \<Rightarrow> []
      | Some t \<Rightarrow>
          (case tr_under t of
             None \<Rightarrow> ref_key t
           | Some u \<Rightarrow> ref_key t @ ''('' @ ref_key u @ '')''))"

definition field_pairs :: "field_decl \<Rightarrow> (string \<times> string) list" where
  "field_pairs f =
     [(''tag'', dec_u32 (fd_Tag f)), (''name'', fd_Name f), (''type'', fd_Type f),
      (''wire'', fd_Wire f), (''optional'', show_bool (fd_Optional f)),
      (''deprecated'', show_bool (fd_Deprecated f)), (''compatWrite'', show_bool (fd_CompatWrite f)),
      (''cycleBreak'', show_bool (fd_CycleBreak f)), (''mapKey'', fd_MapKey f),
      (''mapValue'', fd_MapValue f), (''mapKeyUnderlying'', fd_MapKeyUnderlying f),
      (''elem'', fd_Elem f), (''custom'', fd_Custom f), (''wireOverride'', fd_WireOverride f),
      (''aliasType'', aliasTypeKey (fd_AliasType f)), (''flattenedFrom'', fd_FlattenedFrom f),
      (''flattenedFromPointer'', show_bool (fd_FlattenedFromPointer f))]"

definition field_line :: "field_decl \<Rightarrow> string" where
  "field_line f = ''  field '' @ kv (field_pairs f) @ [nl]"

definition reserved_line :: "u32 \<Rightarrow> string" where
  "reserved_line t = ''  reserved='' @ dec_u32 t @ [nl]"

definition struct_pairs :: "struct_decl \<Rightarrow> (string \<times> string) list" where
  "struct_pairs sd =
     [(''struct'', ref_key (sd_Type sd)), (''opaque'', show_bool (sd_Opaque sd)),
      (''generic'', join_with '','' (sd_Generic sd))]"

definition struct_text :: "struct_decl \<Rightarrow> string" where
  "struct_text sd =
     kv (struct_pairs sd) @ [nl] @ concat (map reserved_line (sd_Reserved sd)) @
     concat (map field_line (sd_Fields sd))"

definition root_line :: "type_ref \<Rightarrow> string" where
  "root_line r = ''root='' @ ref_key r @ [nl]"

definition canonicalize :: "schema \<Rightarrow> string" where
  "canonicalize s =
     ''fmtVer='' @ dec schema_FmtVer @ [nl] @ concat (map root_line (sc_Roots s)) @
     concat (map struct_text (sc_Structs s))"

text \<open>\<^verbatim>\<open>binary.BigEndian.Uint16\<close> of the first two bytes of the sum.\<close>

definition ComputeSchemaHint :: "(string \<Rightarrow> byte list) \<Rightarrow> schema \<Rightarrow> u16" where
  "ComputeSchemaHint sha256 s =
     (let sum = sha256 (canonicalize s) in push_bit 8 (ucast (sum ! 0)) OR ucast (sum ! 1))"

section \<open>What the text determines\<close>

definition plain :: "string \<Rightarrow> bool" where
  "plain s \<longleftrightarrow> CHR '' '' \<notin> set s \<and> nl \<notin> set s"

lemma plain_simps [simp]:
  "plain []" "plain (s @ t) \<longleftrightarrow> plain s \<and> plain t" "plain (show_bool b)"
  "plain (c # s) \<longleftrightarrow> c \<noteq> CHR '' '' \<and> c \<noteq> nl \<and> plain s"
  by (auto simp: plain_def show_bool_def nl_def)

lemma plain_dec [simp]: "plain (dec n)"
  using dec_digits [of n] by (auto simp: plain_def nl_def list_all_iff is_digit_def)

lemma plain_dec_u32 [simp]: "plain (dec_u32 w)"
  by (simp add: dec_u32_def)

lemma show_bool_inj: "show_bool a = show_bool b \<longleftrightarrow> a = b"
  by (auto simp: show_bool_def)

lemma dec_u32_inj: "dec_u32 a = dec_u32 b \<longleftrightarrow> a = b"
  by (metis option.inject parse_dec)

definition plain_field :: "field_decl \<Rightarrow> bool" where
  "plain_field f \<longleftrightarrow> list_all (\<lambda>(k, v). plain v) (field_pairs f)"

definition plain_struct :: "struct_decl \<Rightarrow> bool" where
  "plain_struct sd \<longleftrightarrow>
     plain (ref_key (sd_Type sd)) \<and>
     list_all (\<lambda>g. plain g \<and> g \<noteq> [] \<and> CHR '','' \<notin> set g) (sd_Generic sd) \<and>
     list_all plain_field (sd_Fields sd)"

definition plain_schema :: "schema \<Rightarrow> bool" where
  "plain_schema s \<longleftrightarrow>
     list_all (\<lambda>r. plain (ref_key r)) (sc_Roots s) \<and> list_all plain_struct (sc_Structs s)"

text \<open>Agreement on everything but justifications, markers of the Go side and the snapshot's own numbers.\<close>

definition same_field :: "field_decl \<Rightarrow> field_decl \<Rightarrow> bool" where
  "same_field f g \<longleftrightarrow>
     f\<lparr>fd_AliasType := None\<rparr> = g\<lparr>fd_AliasType := None\<rparr> \<and>
     aliasTypeKey (fd_AliasType f) = aliasTypeKey (fd_AliasType g)"

definition same_struct :: "struct_decl \<Rightarrow> struct_decl \<Rightarrow> bool" where
  "same_struct a b \<longleftrightarrow>
     ref_key (sd_Type a) = ref_key (sd_Type b) \<and> sd_Opaque a = sd_Opaque b \<and>
     sd_Generic a = sd_Generic b \<and> sd_Reserved a = sd_Reserved b \<and>
     list_all2 same_field (sd_Fields a) (sd_Fields b)"

definition same_hashed :: "schema \<Rightarrow> schema \<Rightarrow> bool" where
  "same_hashed s t \<longleftrightarrow>
     map ref_key (sc_Roots s) = map ref_key (sc_Roots t) \<and>
     list_all2 same_struct (sc_Structs s) (sc_Structs t)"

lemma same_field_pairs: "same_field f g \<longleftrightarrow> field_pairs f = field_pairs g"
  by (cases f; cases g) (auto simp: same_field_def field_pairs_def show_bool_inj dec_u32_inj)

section \<open>Lines\<close>

text \<open>A text of lines is the list of its lines; the hint's text as such a list.\<close>

definition unlines :: "string list \<Rightarrow> string" where
  "unlines ls = concat (map (\<lambda>l. l @ [nl]) ls)"

lemma unlines_simps [simp]:
  "unlines [] = []" "unlines (l # ls) = l @ nl # unlines ls" "unlines (ls @ ms) = unlines ls @ unlines ms"
  by (simp_all add: unlines_def)

lemma line_cut: "nl \<notin> set l \<Longrightarrow> nl \<notin> set m \<Longrightarrow> l @ nl # r = m @ nl # t \<longleftrightarrow> l = m \<and> r = t"
  by (metis split_on_append append_same_eq list.inject same_append_eq)

lemma unlines_inj:
  "list_all (\<lambda>l. nl \<notin> set l) ls \<Longrightarrow> list_all (\<lambda>l. nl \<notin> set l) ms \<Longrightarrow> unlines ls = unlines ms \<longleftrightarrow> ls = ms"
proof (induction ls arbitrary: ms)
  case Nil
  then show ?case by (cases ms) auto
next
  case (Cons l ls)
  then show ?case by (cases ms) (auto simp: line_cut)
qed

lemma kv_inj:
  assumes "list_all (\<lambda>(k, v). plain k \<and> plain v) ps" and "list_all (\<lambda>(k, v). plain k \<and> plain v) qs"
    and "map fst ps = map fst qs" and "ps \<noteq> []"
  shows "kv ps = kv qs \<longleftrightarrow> ps = qs"
proof
  assume eq: "kv ps = kv qs"
  let ?f = "\<lambda>(k, v). k @ ''='' @ v :: string"
  have sp: "\<forall>p\<in>set (map ?f xs). CHR '' '' \<notin> set p" if "list_all (\<lambda>(k, v). plain k \<and> plain v) xs" for xs
    using that by (auto simp: list_all_iff plain_def)
  have "qs \<noteq> []" using assms(3,4) by auto
  then have "map ?f ps = map ?f qs"
    using eq split_on_join [OF _ sp [OF assms(1)]] split_on_join [OF _ sp [OF assms(2)]] assms(4)
    unfolding kv_def by (metis Nil_is_map_conv)
  with assms(3) show "ps = qs"
    by (induction ps qs rule: list_induct2') (auto split: prod.splits)
qed simp

definition inner_lines :: "struct_decl \<Rightarrow> string list" where
  "inner_lines sd =
     map (\<lambda>t. ''  reserved='' @ dec_u32 t) (sd_Reserved sd) @
     map (\<lambda>f. ''  field '' @ kv (field_pairs f)) (sd_Fields sd)"

definition struct_lines :: "struct_decl \<Rightarrow> string list" where
  "struct_lines sd = kv (struct_pairs sd) # inner_lines sd"

definition canon_lines :: "schema \<Rightarrow> string list" where
  "canon_lines s =
     (''fmtVer='' @ dec schema_FmtVer) # map (\<lambda>r. ''root='' @ ref_key r) (sc_Roots s) @
     concat (map struct_lines (sc_Structs s))"

lemma canonicalize_lines: "canonicalize s = unlines (canon_lines s)"
proof -
  have r: "concat (map reserved_line ts) = unlines (map (\<lambda>t. ''  reserved='' @ dec_u32 t) ts)" for ts
    by (induction ts) (simp_all add: reserved_line_def)
  have f: "concat (map field_line fs) = unlines (map (\<lambda>f. ''  field '' @ kv (field_pairs f)) fs)" for fs
    by (induction fs) (simp_all add: field_line_def)
  have "struct_text sd = unlines (struct_lines sd)" for sd
    by (simp add: struct_text_def struct_lines_def inner_lines_def r f)
  then have "concat (map struct_text sds) = unlines (concat (map struct_lines sds))" for sds
    by (induction sds) simp_all
  moreover have "concat (map root_line rs) = unlines (map (\<lambda>r. ''root='' @ ref_key r) rs)" for rs
    by (induction rs) (simp_all add: root_line_def)
  ultimately show ?thesis by (simp add: canonicalize_def canon_lines_def)
qed
section \<open>Reading the lines back\<close>

lemma cut_at:
  assumes "list_all (\<lambda>x. \<not> P x) t" and "r = [] \<or> P (hd r)"
    and "list_all (\<lambda>x. \<not> P x) t'" and "r' = [] \<or> P (hd r')" and "t @ r = t' @ r'"
  shows "t = t' \<and> r = r'"
proof -
  have "takeWhile (\<lambda>x. \<not> P x) (u @ s) = u" if "list_all (\<lambda>x. \<not> P x) u" "s = [] \<or> P (hd s)" for u s
    using that by (induction u) (auto, cases s, auto)
  then have "t = t'" using assms by metis
  then show ?thesis using assms(5) by simp
qed

lemma blocks_inj:
  assumes "\<And>x. P (h x)" and "\<And>x. list_all (\<lambda>l. \<not> P l) (t x)"
    and "concat (map (\<lambda>x. h x # t x) xs) = concat (map (\<lambda>x. h x # t x) ys)"
  shows "list_all2 (\<lambda>x y. h x = h y \<and> t x = t y) xs ys"
  using assms(3)
proof (induction xs arbitrary: ys)
  case Nil
  then show ?case by (cases ys) auto
next
  case (Cons x xs)
  obtain y ys' where ys: "ys = y # ys'" using Cons.prems by (cases ys) auto
  let ?c = "\<lambda>zs. concat (map (\<lambda>x. h x # t x) zs)"
  have start: "?c zs = [] \<or> P (hd (?c zs))" for zs using assms(1) by (cases zs) auto
  have "h x = h y" "t x @ ?c xs = t y @ ?c ys'" using Cons.prems ys by auto
  then show ?case
    using cut_at [OF assms(2) start assms(2) start] Cons.IH ys by auto
qed

lemma plain_no_nl: "plain s \<Longrightarrow> nl \<notin> set s" by (simp add: plain_def)

lemma field_line_inj:
  assumes "plain_field f" and "plain_field g"
  shows "kv (field_pairs f) = kv (field_pairs g) \<longleftrightarrow> same_field f g"
  unfolding same_field_pairs
proof (rule kv_inj)
  show "list_all (\<lambda>(k, v). plain k \<and> plain v) (field_pairs f)"
    and "list_all (\<lambda>(k, v). plain k \<and> plain v) (field_pairs g)"
    using assms by (simp_all add: plain_field_def field_pairs_def nl_def)
qed (simp_all add: field_pairs_def)

lemma generic_plain: "list_all plain gs \<Longrightarrow> plain (join_with '','' gs)"
  by (induction "'','' :: string" gs rule: join_with.induct) (auto simp: nl_def)

lemma generic_split:
  assumes "list_all (\<lambda>g. plain g \<and> g \<noteq> [] \<and> CHR '','' \<notin> set g) gs"
  shows "gs = (if join_with '','' gs = [] then [] else split_on (CHR '','') (join_with '','' gs))"
proof (cases gs)
  case (Cons g hs)
  then have "split_on (CHR '','') (join_with '','' gs) = gs"
    using assms by (intro split_on_join) (auto simp: list_all_iff)
  moreover have "join_with '','' gs \<noteq> []" using Cons assms by (cases hs) auto
  ultimately show ?thesis by simp
qed simp

lemma generic_inj:
  assumes "list_all (\<lambda>g. plain g \<and> g \<noteq> [] \<and> CHR '','' \<notin> set g) gs"
    and "list_all (\<lambda>g. plain g \<and> g \<noteq> [] \<and> CHR '','' \<notin> set g) hs"
  shows "join_with '','' gs = join_with '','' hs \<longleftrightarrow> gs = hs"
  using generic_split [OF assms(1)] generic_split [OF assms(2)] by metis

lemma struct_header_inj:
  assumes "plain_struct a" and "plain_struct b"
  shows "kv (struct_pairs a) = kv (struct_pairs b) \<longleftrightarrow>
     ref_key (sd_Type a) = ref_key (sd_Type b) \<and> sd_Opaque a = sd_Opaque b \<and> sd_Generic a = sd_Generic b"
proof -
  have g: "plain (join_with '','' (sd_Generic s))" if "plain_struct s" for s
    using that by (intro generic_plain) (auto simp: plain_struct_def list_all_iff)
  have "kv (struct_pairs a) = kv (struct_pairs b) \<longleftrightarrow> struct_pairs a = struct_pairs b"
    by (rule kv_inj) (use assms g in \<open>simp_all add: plain_struct_def struct_pairs_def nl_def\<close>)
  also have "\<dots> \<longleftrightarrow> ref_key (sd_Type a) = ref_key (sd_Type b) \<and> sd_Opaque a = sd_Opaque b \<and>
      join_with '','' (sd_Generic a) = join_with '','' (sd_Generic b)"
    by (simp add: struct_pairs_def show_bool_inj)
  finally show ?thesis using generic_inj assms by (auto simp: plain_struct_def)
qed

lemma map_eq_iff_list_all2: "map f xs = map g ys \<longleftrightarrow> list_all2 (\<lambda>x y. f x = g y) xs ys"
  by (induction xs ys rule: list_induct2') auto

lemma inner_lines_split:
  "inner_lines a = inner_lines b \<longleftrightarrow>
     map (\<lambda>t. ''  reserved='' @ dec_u32 t) (sd_Reserved a) = map (\<lambda>t. ''  reserved='' @ dec_u32 t) (sd_Reserved b) \<and>
     map (\<lambda>f. ''  field '' @ kv (field_pairs f)) (sd_Fields a) = map (\<lambda>f. ''  field '' @ kv (field_pairs f)) (sd_Fields b)"
    (is "_ \<longleftrightarrow> ?r a = ?r b \<and> ?f a = ?f b")
proof
  let ?P = "\<lambda>l :: string. l ! 2 = CHR ''f''"
  have no: "list_all (\<lambda>l. \<not> ?P l) (?r s)" and yes: "?f s = [] \<or> ?P (hd (?f s))" for s
    by (simp add: list_all_iff) (cases "sd_Fields s"; simp)
  assume "inner_lines a = inner_lines b"
  then have "?r a @ ?f a = ?r b @ ?f b" by (simp only: inner_lines_def)
  from cut_at [where P = ?P, OF no yes no yes this] show "?r a = ?r b \<and> ?f a = ?f b" .
qed (simp only: inner_lines_def)

lemma inner_lines_inj:
  assumes "list_all plain_field (sd_Fields a)" and "list_all plain_field (sd_Fields b)"
  shows "inner_lines a = inner_lines b \<longleftrightarrow>
     sd_Reserved a = sd_Reserved b \<and> list_all2 same_field (sd_Fields a) (sd_Fields b)"
proof -
  have "list_all2 (\<lambda>f g. ''  field '' @ kv (field_pairs f) = ''  field '' @ kv (field_pairs g))
      (sd_Fields a) (sd_Fields b) \<longleftrightarrow> list_all2 same_field (sd_Fields a) (sd_Fields b)"
    by (rule list.rel_cong) (use assms in \<open>auto simp: field_line_inj list_all_iff\<close>)
  moreover have "list_all2 (\<lambda>t u. ''  reserved='' @ dec_u32 t = ''  reserved='' @ dec_u32 u)
      (sd_Reserved a) (sd_Reserved b) \<longleftrightarrow> sd_Reserved a = sd_Reserved b"
    by (simp add: dec_u32_inj list.rel_eq)
  ultimately show ?thesis unfolding inner_lines_split map_eq_iff_list_all2 by blast
qed

lemma kv_no_nl: "list_all (\<lambda>(k, v). plain k \<and> plain v) ps \<Longrightarrow> nl \<notin> set (kv ps)"
proof -
  have "nl \<notin> set (join_with '' '' qs)" if "\<forall>q\<in>set qs. nl \<notin> set q" for qs
    using that by (induction "'' '' :: string" qs rule: join_with.induct) (auto simp: nl_def)
  moreover assume "list_all (\<lambda>(k, v). plain k \<and> plain v) ps"
  then have "\<forall>q\<in>set (map (\<lambda>(k, v). k @ ''='' @ v) ps). nl \<notin> set q"
    by (auto simp: list_all_iff plain_def nl_def)
  ultimately show ?thesis unfolding kv_def by blast
qed

lemma field_pairs_plain: "plain_field f \<Longrightarrow> list_all (\<lambda>(k, v). plain k \<and> plain v) (field_pairs f)"
  by (simp add: plain_field_def field_pairs_def nl_def)

lemma struct_pairs_plain:
  assumes "plain_struct s"
  shows "list_all (\<lambda>(k, v). plain k \<and> plain v) (struct_pairs s)"
proof -
  have "plain (join_with '','' (sd_Generic s))"
    using assms by (intro generic_plain) (auto simp: plain_struct_def list_all_iff)
  then show ?thesis using assms by (simp add: plain_struct_def struct_pairs_def nl_def)
qed

lemma struct_lines_no_nl: "plain_struct s \<Longrightarrow> list_all (\<lambda>l. nl \<notin> set l) (struct_lines s)"
proof -
  assume p: "plain_struct s"
  have n: "nl \<notin> set ''  reserved=''" "nl \<notin> set ''  field ''" by (simp_all add: nl_def)
  have "nl \<notin> set (kv (field_pairs f))" if "f \<in> set (sd_Fields s)" for f
    using p that by (intro kv_no_nl field_pairs_plain) (auto simp: plain_struct_def list_all_iff)
  moreover have "nl \<notin> set (dec_u32 t)" for t by (rule plain_no_nl) simp
  ultimately have "list_all (\<lambda>l. nl \<notin> set l) (inner_lines s)"
    using n by (auto simp: inner_lines_def list_all_iff nl_def)
  then show ?thesis using kv_no_nl [OF struct_pairs_plain [OF p]] by (simp add: struct_lines_def)
qed

lemma canon_lines_no_nl: "plain_schema s \<Longrightarrow> list_all (\<lambda>l. nl \<notin> set l) (canon_lines s)"
proof -
  assume p: "plain_schema s"
  have n: "nl \<notin> set ''root=''" "nl \<notin> set (''fmtVer='' @ dec schema_FmtVer)"
    using plain_no_nl [OF plain_dec] by (simp_all add: nl_def)
  have "nl \<notin> set (ref_key r)" if "r \<in> set (sc_Roots s)" for r
    using p that by (intro plain_no_nl) (auto simp: plain_schema_def list_all_iff)
  moreover have "list_all (\<lambda>l. nl \<notin> set l) (concat (map struct_lines (sc_Structs s)))"
    using p struct_lines_no_nl by (auto simp: plain_schema_def list_all_iff)
  ultimately show ?thesis
    using n by (auto simp: canon_lines_def list_all_iff nl_def)
qed

lemma canon_lines_split:
  "canon_lines s = canon_lines t \<longleftrightarrow>
     map ref_key (sc_Roots s) = map ref_key (sc_Roots t) \<and>
     list_all2 (\<lambda>a b. kv (struct_pairs a) = kv (struct_pairs b) \<and> inner_lines a = inner_lines b)
       (sc_Structs s) (sc_Structs t)"
  (is "?l \<longleftrightarrow> ?r \<and> ?b")
proof -
  let ?P = "\<lambda>l :: string. l \<noteq> [] \<and> hd l = CHR ''s''"
  let ?roots = "\<lambda>s. map (\<lambda>r. ''root='' @ ref_key r) (sc_Roots s)"
  let ?structs = "\<lambda>s. concat (map struct_lines (sc_Structs s))"
  have head: "?P (kv (struct_pairs a))" for a by (simp add: kv_def struct_pairs_def)
  have inner: "list_all (\<lambda>l. \<not> ?P l) (inner_lines a)" for a
    by (auto simp: inner_lines_def list_all_iff)
  have no: "list_all (\<lambda>l. \<not> ?P l) (?roots s)" for s by (simp add: list_all_iff)
  have yes: "?structs s = [] \<or> ?P (hd (?structs s))" for s
    using head by (cases "sc_Structs s") (auto simp: struct_lines_def)
  have lines: "struct_lines = (\<lambda>a. kv (struct_pairs a) # inner_lines a)"
    by (rule ext) (simp add: struct_lines_def)
  have rejoin: "concat (map (\<lambda>a. kv (struct_pairs a) # inner_lines a) xs) =
      concat (map (\<lambda>a. kv (struct_pairs a) # inner_lines a) ys)"
    if "list_all2 (\<lambda>a b. kv (struct_pairs a) = kv (struct_pairs b) \<and> inner_lines a = inner_lines b) xs ys"
    for xs ys using that by induction auto
  have "?l \<longleftrightarrow> ?roots s @ ?structs s = ?roots t @ ?structs t" by (simp add: canon_lines_def)
  also have "\<dots> \<longleftrightarrow> ?roots s = ?roots t \<and> ?structs s = ?structs t"
    by (rule iffI, rule cut_at [where P = ?P, OF no yes no yes], assumption, simp only:)
  also have "?structs s = ?structs t \<longleftrightarrow> ?b"
    unfolding lines
    by (rule iffI, rule blocks_inj [where P = ?P and h = "\<lambda>a. kv (struct_pairs a)" and t = inner_lines,
          OF head inner], assumption, rule rejoin, assumption)
  also have "?roots s = ?roots t \<longleftrightarrow> ?r" by (simp add: map_eq_iff_list_all2)
  finally show ?thesis .
qed

text \<open>
  C40: What the schema hint depends on. For schemas whose names and types contain no blank or newline,
  the canonical text is the same exactly if the schemas have the same roots and the same structs in
  order, with the same identity, opacity, type parameters, reserved tags and fields (in every
  attribute of a field, the alias by its key): nothing of this is lost, and
  neither the marker flags of the Go side nor an \<^verbatim>\<open>//gsbm:allow-breaking\<close> justification nor the
  format version and hint of the snapshot enter. Schemas that agree so get the same hint.
\<close>

theorem canonicalize_exact:
  assumes "plain_schema s" and "plain_schema t"
  shows "(canonicalize s = canonicalize t \<longleftrightarrow> same_hashed s t) \<and>
    (same_hashed s t \<longrightarrow> ComputeSchemaHint sha256 s = ComputeSchemaHint sha256 t)"
proof -
  have "canonicalize s = canonicalize t \<longleftrightarrow> canon_lines s = canon_lines t"
    unfolding canonicalize_lines by (rule unlines_inj) (simp_all add: assms canon_lines_no_nl)
  also have "\<dots> \<longleftrightarrow> same_hashed s t"
    unfolding canon_lines_split same_hashed_def
  proof (rule conj_cong [OF refl], rule list.rel_cong [OF refl refl])
    fix a b assume "a \<in> set (sc_Structs s)" "b \<in> set (sc_Structs t)"
    then have p: "plain_struct a" "plain_struct b"
      using assms by (auto simp: plain_schema_def list_all_iff)
    then have "list_all plain_field (sd_Fields a)" "list_all plain_field (sd_Fields b)"
      by (simp_all add: plain_struct_def)
    then show "(kv (struct_pairs a) = kv (struct_pairs b) \<and> inner_lines a = inner_lines b) = same_struct a b"
      unfolding struct_header_inj [OF p] by (simp add: inner_lines_inj same_struct_def)
  qed
  finally have "canonicalize s = canonicalize t \<longleftrightarrow> same_hashed s t" .
  then show ?thesis unfolding ComputeSchemaHint_def by metis
qed


text \<open>A schema of one struct with one field.\<close>

definition hash_schema :: "bool \<Rightarrow> string \<Rightarrow> schema" where
  "hash_schema borrow ty = \<lparr>sc_FmtVer = 1, sc_SchemaHint = 0, sc_Roots = [TypeRef ''p'' ''S'' [] None],
     sc_Structs = [\<lparr>sd_Type = TypeRef ''p'' ''S'' [] None,
       sd_Fields = [\<lparr>fd_Name = ''A'', fd_Tag = 1, fd_Type = ty, fd_Wire = ''varint'',
         fd_Optional = False, fd_Deprecated = False, fd_CompatWrite = False, fd_CycleBreak = False,
         fd_MapKey = [], fd_MapValue = [], fd_Elem = [], fd_MapKeyUnderlying = [], fd_Custom = [],
         fd_WireOverride = [], fd_AliasType = None, fd_FlattenedFrom = [],
         fd_FlattenedFromPointer = False\<rparr>],
       sd_Reserved = [3], sd_Opaque = False, sd_Generic = [], sd_AllowBreaking = [],
       sd_TrackPresence = False, sd_BorrowStrings = borrow\<rparr>]\<rparr>"

theorem canonicalize_exact_witness:
  "canonicalize (hash_schema True ''int'') = canonicalize (hash_schema False ''int'') \<and>
   canonicalize (hash_schema True ''int'') \<noteq> canonicalize (hash_schema True ''bool'') \<and>
   ComputeSchemaHint (\<lambda>_. replicate 32 7) (hash_schema True ''int'') =
     ComputeSchemaHint (\<lambda>_. replicate 32 7) (hash_schema False ''int'')"
proof -
  have p: "plain_schema (hash_schema b ty)" if "ty \<in> {''int'', ''bool''}" for b ty
    using that by (auto simp: plain_schema_def plain_struct_def plain_field_def field_pairs_def
        aliasTypeKey_def hash_schema_def nl_def)
  have "same_hashed (hash_schema True ''int'') (hash_schema False ''int'')"
    and "\<not> same_hashed (hash_schema True ''int'') (hash_schema True ''bool'')"
    by (simp_all add: same_hashed_def same_struct_def same_field_def hash_schema_def)
  then show ?thesis
    using canonicalize_exact [OF p p, of "''int''" "''int''" True False]
      canonicalize_exact [OF p p, of "''int''" "''bool''" True True] by blast
qed

end
