(* ===== verification/Build_Schema.thy ===== *)
theory Build_Schema
  imports Discover Schema_Hash
begin

text \<open>
  \<^verbatim>\<open>tools/gsbmschema/discover.go\<close>: roots, the walk over the closure and the schema it returns, and
  \<^verbatim>\<open>Analyze\<close> of \<^verbatim>\<open>runner.go\<close>. The iteration order of the map \<^verbatim>\<open>seen\<close> is a parameter.
\<close>

section \<open>Tag collisions\<close>

definition flattened :: "field_decl \<Rightarrow> bool" where
  "flattened fd \<longleftrightarrow> fd_FlattenedFrom fd \<noteq> []"

definition describeFieldOrigin :: "field_decl \<Rightarrow> string list" where
  "describeFieldOrigin fd =
     (if fd_FlattenedFrom fd = [] then [''direct field'', fd_Name fd]
      else [''field'', fd_Name fd, fd_FlattenedFrom fd])"

definition formatTagCollision :: "string \<Rightarrow> field_decl \<Rightarrow> field_decl \<Rightarrow> string list" where
  "formatTagCollision owner a b =
     [owner, dec_u32 (fd_Tag a)] @ describeFieldOrigin a @ describeFieldOrigin b"

text \<open>The loop over the collected fields: the first index of each tag, the dropped indices, the issues.\<close>

record collision_state =
  cs_First :: "u32 \<Rightarrow> nat option"
  cs_Drop :: "nat list"
  cs_Issues :: "issue list"

definition collide :: "string \<Rightarrow> field_decl list \<Rightarrow> nat \<Rightarrow> collision_state \<Rightarrow> collision_state" where
  "collide owner fs i s =
     (let c = fs ! i in
      if fd_Tag c = 0 then s
      else (case cs_First s (fd_Tag c) of
          None \<Rightarrow> s\<lparr>cs_First := (cs_First s)(fd_Tag c \<mapsto> i)\<rparr>
        | Some j \<Rightarrow>
            (let prev = fs ! j in
             if \<not> flattened prev \<and> \<not> flattened c then s
             else s\<lparr>cs_Issues := cs_Issues s @
                      [issue_of ''field/tag-collision'' (formatTagCollision owner prev c)],
                    cs_Drop := (if flattened c then i # cs_Drop s
                      else if flattened prev then j # cs_Drop s else cs_Drop s)\<rparr>)))"

definition scan_collisions :: "string \<Rightarrow> field_decl list \<Rightarrow> collision_state" where
  "scan_collisions owner fs =
     fold (collide owner fs) [0..<length fs] \<lparr>cs_First = Map.empty, cs_Drop = [], cs_Issues = []\<rparr>"

definition checkFlattenedTagCollisions :: "string \<Rightarrow> field_decl list \<Rightarrow> field_decl list \<times> issue list" where
  "checkFlattenedTagCollisions owner fs =
     (let s = scan_collisions owner fs in
      (map ((!) fs) (filter (\<lambda>i. i \<notin> set (cs_Drop s)) [0..<length fs]), cs_Issues s))"

section \<open>The closure\<close>

definition top_frame :: "ast_field list option \<Rightarrow> frame" where
  "top_frame ast = \<lparr>fr_Ast = ast, fr_Chain = [], fr_Pointer = False, fr_Visited = []\<rparr>"

definition new_struct :: "go_env \<Rightarrow> named \<Rightarrow> markers \<Rightarrow> struct_decl" where
  "new_struct env n tm =
     \<lparr>sd_Type = refOf env n, sd_Fields = [], sd_Reserved = mk_reserved tm, sd_Opaque = mk_opaque tm,
      sd_Generic = to_TypeParams (Obj env n), sd_AllowBreaking = mk_allowBreaking tm,
      sd_TrackPresence = mk_trackPresence tm, sd_BorrowStrings = mk_borrowStrings tm\<rparr>"

definition put_struct :: "string \<Rightarrow> struct_decl \<Rightarrow> builder \<Rightarrow> builder" where
  "put_struct k sd b = b\<lparr>bd_seen := AList.update k (Some sd) (bd_seen b)\<rparr>"

definition flatten :: "go_env \<Rightarrow> go_package list \<Rightarrow> named \<Rightarrow> builder \<Rightarrow> builder option" where
  "flatten env ps n b =
     (let k = keyOf env n in
      case struct_fields (ge_Underlying env n) of
        None \<Rightarrow> Some (b\<lparr>bd_seen := AList.delete k (bd_seen b)\<rparr>)
      | Some str \<Rightarrow>
          (case struct_doc env ps n of (doc, ast) \<Rightarrow>
             (case read_markers doc b of (tm, b) \<Rightarrow>
                (let sd = new_struct env n tm; b = put_struct k sd b in
                 if mk_opaque tm then Some b
                 else Option.bind
                   (collectStructFields (env, ps, n) str (top_frame ast)
                      \<lparr>cl_Builder = b, cl_Out = [], cl_Reserved = sd_Reserved sd\<rparr>)
                   (\<lambda>s. case checkFlattenedTagCollisions (to_Name (Obj env n)) (cl_Out s) of
                      (fs, issues) \<Rightarrow>
                        Some (put_struct k (sd\<lparr>sd_Fields := fs, sd_Reserved := cl_Reserved s\<rparr>)
                          (add_issues issues (cl_Builder s))))))))"

partial_function (option) run_queue :: "go_env \<Rightarrow> go_package list \<Rightarrow> builder \<Rightarrow> builder option" where
  "run_queue env ps b =
     (case bd_queue b of
        [] \<Rightarrow> Some b
      | n # q \<Rightarrow> Option.bind (flatten env ps n (b\<lparr>bd_queue := q\<rparr>)) (\<lambda>b. run_queue env ps b))"

text \<open>The order of \<^verbatim>\<open>sortStructs\<close>, and the two sorts within a struct.\<close>

definition struct_order :: "struct_decl \<Rightarrow> string \<times> string \<times> string" where
  "struct_order sd = (tr_pkg (sd_Type sd), tr_name (sd_Type sd), ref_key (sd_Type sd))"

definition sortStructs :: "struct_decl list \<Rightarrow> struct_decl list" where
  "sortStructs = sort_key struct_order"

definition sortFields :: "field_decl list \<Rightarrow> field_decl list" where
  "sortFields = sort_key fd_Tag"

definition sortReserved :: "u32 list \<Rightarrow> u32 list" where
  "sortReserved r = remdups_adj (sort r)"

text \<open>
  \<open>order\<close> rearranges the entries of \<^verbatim>\<open>seen\<close>. Sorting structs dereferences every entry, so a nil entry
  left in the table is a panic, \<open>None\<close> as well.
\<close>

type_synonym seen_order = "(string \<times> struct_decl option) list \<Rightarrow> (string \<times> struct_decl option) list"

definition finish_struct :: "struct_decl \<Rightarrow> struct_decl" where
  "finish_struct sd = sd\<lparr>sd_Fields := sortFields (sd_Fields sd), sd_Reserved := sortReserved (sd_Reserved sd)\<rparr>"

definition BuildSchema ::
  "go_env \<Rightarrow> go_package list \<Rightarrow> seen_order \<Rightarrow> named list \<Rightarrow> (schema \<times> issue list) option"
where
  "BuildSchema env ps order roots =
     Option.bind (run_queue env ps (fold (enqueue env) roots new_builder)) (\<lambda>b.
       Option.bind (those (map snd (order (bd_seen b)))) (\<lambda>structs.
         Some (\<lparr>sc_FmtVer = schema_FmtVer, sc_SchemaHint = 0, sc_Roots = map (refOf env) roots,
             sc_Structs = map finish_struct (sortStructs structs)\<rparr>, bd_issues b)))"

section \<open>Roots\<close>

definition discover_spec ::
  "go_env \<Rightarrow> go_package \<Rightarrow> comment_group \<times> type_spec \<Rightarrow> issue list \<times> named list"
where
  "discover_spec env p dts =
     (case dts of (doc, ts) \<Rightarrow>
        (case parseMarkers doc of
           (m, Some e) \<Rightarrow> ([issue_of ''marker/parse'' []], [])
         | (m, None) \<Rightarrow>
             if \<not> mk_root m then ([], [])
             else (case pk_Lookup p (ts_Name ts) of
                 None \<Rightarrow> ([], [])
               | Some OtherObj \<Rightarrow> ([], [])
               | Some (TypeName (Named i as)) \<Rightarrow>
                   if is_struct env (i, as) then ([], [(i, as)])
                   else ([issue_of ''root/not-struct'' [ts_Name ts]], [])
               | Some (TypeName _) \<Rightarrow> ([issue_of ''root/not-named'' [ts_Name ts]], []))))"

definition Discover :: "go_env \<Rightarrow> go_package list \<Rightarrow> named list \<times> issue list" where
  "Discover env ps =
     (let rs = concat (map (\<lambda>p. if \<not> pk_TopLevel p then []
                 else map (discover_spec env p) (package_specs p)) ps) in
      (sort_key (\<lambda>n. (tr_pkg (refOf env n), tr_name (refOf env n))) (concat (map snd rs)),
       concat (map fst rs)))"

section \<open>The analysis\<close>

definition Analyze ::
  "go_env \<Rightarrow> go_package list \<Rightarrow> seen_order \<Rightarrow> (string \<Rightarrow> byte list) \<Rightarrow> (schema \<times> issue list) option"
where
  "Analyze env ps order sha256 =
     (case Discover env ps of (roots, dIssues) \<Rightarrow>
        Option.bind (BuildSchema env ps order roots) (\<lambda>(schema, bIssues).
          Option.bind (Validate schema (map pk_Path ps)) (\<lambda>vIssues.
            Some (schema\<lparr>sc_SchemaHint := ComputeSchemaHint sha256 schema\<rparr>, dIssues @ bIssues @ vIssues))))"

end
