(* ===== verification/Discover_Spec.thy ===== *)
theory Discover_Spec
  imports Build_Schema
begin

text \<open>
  What the walk over the closure does: which struct types a field mentions, which structs a struct refers
  to, and that the table the builder fills is the set reachable from the roots.
\<close>

section \<open>What a step adds to the builder\<close>

text \<open>A step enqueues a list of types and records issues, and does nothing else to the builder.\<close>

definition core :: "builder \<Rightarrow> (string \<times> struct_decl option) list \<times> named list" where
  "core b = (bd_seen b, bd_queue b)"

definition enq :: "go_env \<Rightarrow> named \<Rightarrow> (string \<times> struct_decl option) list \<times> named list \<Rightarrow>
  (string \<times> struct_decl option) list \<times> named list" where
  "enq env n c =
     (if map_of (fst c) (keyOf env n) \<noteq> None then c
      else (AList.update (keyOf env n) None (fst c), snd c @ [n]))"

definition grown_by :: "go_env \<Rightarrow> named list \<Rightarrow> builder \<Rightarrow> builder \<Rightarrow> bool" where
  "grown_by env ns b b' \<longleftrightarrow> core b' = fold (enq env) ns (core b)"

lemma core_enqueue: "core (enqueue env n b) = enq env n (core b)"
  by (simp add: enqueue_def enq_def core_def Let_def)

lemma core_fold: "core (fold (enqueue env) ns b) = fold (enq env) ns (core b)"
  by (induction ns arbitrary: b) (simp_all add: core_enqueue)

lemma core_issues [simp]: "core (add_issue i b) = core b" "core (add_issues is b) = core b"
  by (simp_all add: core_def add_issue_def add_issues_def)

lemma grown_by_refl [simp]: "grown_by env [] b b' \<longleftrightarrow> core b' = core b"
  by (simp add: grown_by_def)

lemma grown_by_trans: "grown_by env ns b c \<Longrightarrow> grown_by env ms c d \<Longrightarrow> grown_by env (ns @ ms) b d"
  by (simp add: grown_by_def)

lemma grown_by_core: "core b = core c \<Longrightarrow> core b' = core c' \<Longrightarrow> grown_by env ns b b' \<longleftrightarrow> grown_by env ns c c'"
  by (simp add: grown_by_def)

lemma grown_by_fold: "grown_by env ns b (fold (enqueue env) ns b)"
  by (simp add: grown_by_def core_fold)

lemma read_markers_core: "read_markers doc b = (m, b') \<Longrightarrow> core b' = core b"
  by (auto simp: read_markers_def split: prod.splits option.splits)

lemma read_markers_fst: "fst (read_markers doc b) = fst (parseMarkers doc)"
  by (auto simp: read_markers_def split: prod.splits option.splits)

section \<open>The structs a type mentions\<close>

definition mentions :: "go_env \<Rightarrow> go_ty \<Rightarrow> named \<Rightarrow> bool" where
  "mentions env t m \<longleftrightarrow> is_struct env m \<and> (part_of env)\<^sup>*\<^sup>* (named_ty m) t"

lemma mentions_step:
  "mentions env t m \<longleftrightarrow> is_struct env m \<and> t = named_ty m \<or> (\<exists>u. part_of env u t \<and> mentions env u m)"
  unfolding mentions_def by (metis rtranclp.cases rtranclp.rtrancl_into_rtrancl rtranclp.rtrancl_refl)

inductive_simps part_of_Named: "part_of env u (Named i as)"
inductive_simps part_of_Alias: "part_of env u (Alias a l)"
inductive_simps part_of_lits:
  "part_of env u (Lit (TBasic k nm))" "part_of env u (Lit (TSlice e))" "part_of env u (Lit (TArray n e))"
  "part_of env u (Lit (TMap k' e))" "part_of env u (Lit (TPointer e))" "part_of env u (Lit (TChan e))"
  "part_of env u (Lit (TStruct fs))" "part_of env u (Lit (TInterface x y))"
  "part_of env u (Lit (TSignature sg))" "part_of env u (Lit (TOther ot))"

lemma named_ty_simps [simp]:
  "named_ty m = Named i as \<longleftrightarrow> m = (i, as)" "named_ty m \<noteq> Alias a l" "named_ty m \<noteq> Lit l"
  "Named i as = named_ty m \<longleftrightarrow> m = (i, as)" "Alias a l \<noteq> named_ty m" "Lit l \<noteq> named_ty m"
  by (auto simp: named_ty_def prod_eq_iff)

lemma mentions_eqs:
  "is_struct env (i, as) \<Longrightarrow> mentions env (Named i as) m \<longleftrightarrow> m = (i, as)"
  "\<not> is_struct env (i, as) \<Longrightarrow>
     mentions env (Named i as) m \<longleftrightarrow> mentions env (Lit (ge_Underlying env (i, as))) m"
  "\<not> mentions env (Alias a l) m"
  "\<not> mentions env (Lit (TBasic k nm)) m"
  "mentions env (Lit (TSlice e)) m \<longleftrightarrow> mentions env e m"
  "mentions env (Lit (TArray n e)) m \<longleftrightarrow> mentions env e m"
  "mentions env (Lit (TMap k' e)) m \<longleftrightarrow> mentions env k' m \<or> mentions env e m"
  "mentions env (Lit (TPointer e)) m \<longleftrightarrow> mentions env e m"
  "\<not> mentions env (Lit (TChan e)) m" "\<not> mentions env (Lit (TStruct fs)) m"
  "\<not> mentions env (Lit (TInterface x y)) m" "\<not> mentions env (Lit (TSignature sg)) m"
  "\<not> mentions env (Lit (TOther ot)) m"
  by (subst mentions_step; auto simp: part_of_Named part_of_Alias part_of_lits)+

lemma shaped_mentions: "shaped env t tr ns \<Longrightarrow> set ns = {m. mentions env t m}"
  by (induction rule: shaped.induct) (auto simp: mentions_eqs)

section \<open>One field\<close>

lemma fillTypeShape_grown:
  assumes "fillTypeShape env t (b, fd) = Some (b', fd')"
  shows "\<exists>tr ns. shaped env (field_core env t) tr ns \<and> grown_by env ns b b' \<and> fd_Type fd' = render tr"
proof -
  note eq = fillTypeShape_core [of env t b fd]
  with assms obtain r where r: "shapeOf env (field_core env t) True (b, field_start env t fd) = Some r"
    by (auto simp: bind_eq_Some_conv)
  from shaped_exists [OF r] obtain tr ns where
    sh: "shaped env (field_core env t) tr ns"
    and "r = (render tr, fold (enqueue env) ns b, top_parts env (field_core env t) tr (field_start env t fd))"
    by auto
  then have "b' = fold (enqueue env) ns b \<and> fd_Type fd' = render tr"
    using assms eq r by (auto simp: bind_eq_Some_conv)
  then show ?thesis using sh grown_by_fold by blast
qed

lemma byte_mentions: "isBasicByte e \<Longrightarrow> \<not> mentions env e m"
  by (auto simp: isBasicByte_def mentions_eqs split: go_ty.splits go_lit.splits)

lemma id_lit_mentions: "id_lit_ok l \<Longrightarrow> \<not> mentions env (Lit l) m"
  by (cases l) (simp_all add: id_lit_ok_def mentions_eqs byte_mentions)

lemma id_type_mentions: "isIDRefFieldType env t \<Longrightarrow> \<not> mentions env t m"
proof (cases t)
  case (Named i as)
  assume "isIDRefFieldType env t"
  then have l: "id_lit_ok (ge_Underlying env (i, as))" using Named by (simp add: isIDRefFieldType_def)
  then have "\<not> is_struct env (i, as)" by (auto simp: is_struct_lit id_lit_ok_def)
  then show ?thesis using id_lit_mentions [OF l] Named by (simp add: mentions_eqs)
qed (simp_all add: mentions_eqs isIDRefFieldType_def id_lit_mentions)

lemma find_id_field_type:
  "find_id_field env nm fs perr = Inr (f, ov) \<Longrightarrow> f \<in> set fs \<and> isIDRefFieldType env (var_Type f)"
  by (induction env nm fs perr rule: find_id_field.induct) (auto split: sum.splits if_splits)

lemma LookupIDRefField_type:
  "LookupIDRefField env p = Inr (f, ov) \<Longrightarrow> isIDRefFieldType env (var_Type f)"
  by (auto simp: LookupIDRefField_def split: go_ty.splits option.splits dest: find_id_field_type)

lemma id_shapeOf_core:
  assumes "isIDRefFieldType env t" "shapeOf env t False (b, fd) = Some (sh, b', fd')"
  shows "core b' = core b \<and> fd' = fd"
proof -
  from shaped_exists [OF assms(2)] obtain tr ns where
    sh: "shaped env t tr ns" and r: "(sh, b', fd') = (render tr, fold (enqueue env) ns b, fd)" by auto
  then have "ns = []" using shaped_mentions [OF sh] id_type_mentions [OF assms(1)] by auto
  then show ?thesis using r by simp
qed

definition id_extended :: "string \<Rightarrow> string \<Rightarrow> bool" where
  "id_extended s s' \<longleftrightarrow> s' = s \<or> (\<exists>sh. s' = s @ ''/id:'' @ sh)"

lemma adopt_id_type_grown:
  assumes "isIDRefFieldType env t" "adopt_id_type env who t ov (b, fd) = Some (b', fd')"
  shows "core b' = core b \<and> id_extended (fd_Type fd) (fd_Type fd') \<and> fd_CycleBreak fd' = fd_CycleBreak fd"
proof -
  from assms(2) obtain wire sh b1 fd1 where
    sh: "shapeOf env t False (b, fd\<lparr>fd_Wire := wire\<rparr>) = Some (sh, b1, fd1)"
    and r: "core b' = core b1" "fd_Type fd' = fd_Type fd1 @ ''/id:'' @ sh"
      "fd_CycleBreak fd' = fd_CycleBreak fd1"
    by (auto simp: adopt_id_type_def bind_eq_Some_conv Let_def split: if_splits sum.splits)
  then show ?thesis using id_shapeOf_core [OF assms(1) sh] by (auto simp: id_extended_def)
qed

lemma resolveIDRefField_grown:
  assumes "resolveIDRefField env n f (b, fd) = Some (b', fd')"
  shows "core b' = core b \<and> id_extended (fd_Type fd) (fd_Type fd') \<and> fd_CycleBreak fd' = fd_CycleBreak fd"
proof (cases "\<exists>p. var_Type f = Lit (TPointer p)")
  case True
  then obtain p where p: "var_Type f = Lit (TPointer p)" by blast
  show ?thesis
  proof (cases "LookupIDRefField env p")
    case (Inl e)
    then show ?thesis using assms p by (auto simp: resolveIDRefField_def Let_def id_extended_def)
  next
    case (Inr r)
    obtain idf ov where r: "r = (idf, ov)" by (cases r)
    have ty: "isIDRefFieldType env (var_Type idf)" using LookupIDRefField_type Inr r by blast
    from assms p Inr r show ?thesis
      by (auto simp: resolveIDRefField_def Let_def id_extended_def [of x x for x]
          split: if_splits dest: adopt_id_type_grown [OF ty])
  qed
next
  case False
  then show ?thesis
    using assms by (auto simp: resolveIDRefField_def id_extended_def split: go_ty.splits go_lit.splits)
qed

text \<open>The fields whose type is looked into: those that pass the checks and have no custom codec.\<close>

definition field_markers :: "go_var \<Rightarrow> ast_field list option \<Rightarrow> markers" where
  "field_markers f ast =
     fst (parseMarkers (case findFieldDoc ast (var_Name f) of Some d \<Rightarrow> d | None \<Rightarrow> None))"

definition shaped_field :: "go_env \<Rightarrow> named \<Rightarrow> go_var \<Rightarrow> ast_field list option \<Rightarrow> bool" where
  "shaped_field env n f ast \<longleftrightarrow>
     (case ParseFieldTag (var_BinTag f) of
        Inl _ \<Rightarrow> False
      | Inr ft \<Rightarrow>
          \<not> mk_trackPresence (field_markers f ast) \<and> \<not> mk_borrowStrings (field_markers f ast) \<and>
          ft_Set ft \<and> \<not> ft_Skip ft \<and> ft_Custom ft = [] \<and>
          field_guard env (who_of env n f) (var_Type f) ft (field_markers f ast) = None)"

lemma custom_field_core: "custom_field env who t fd b = (b', fdo) \<Longrightarrow> core b' = core b"
  by (auto simp: custom_field_def Let_def split: if_splits)

lemma buildFieldDecl_shaped:
  assumes "shaped_field env n f ast" "buildFieldDecl env n f ast b = Some (b', fdo)"
  obtains tr ns fd where "shaped env (field_core env (var_Type f)) tr ns" "grown_by env ns b b'"
    "fdo = Some fd" "id_extended (render tr) (fd_Type fd)"
proof -
  obtain ft where ft: "ParseFieldTag (var_BinTag f) = Inr ft"
    using assms(1) by (auto simp: shaped_field_def split: sum.splits)
  obtain fm b1 where m: "read_markers (case findFieldDoc ast (var_Name f) of Some d \<Rightarrow> d | None \<Rightarrow> None) b = (fm, b1)"
    by (cases "read_markers (case findFieldDoc ast (var_Name f) of Some d \<Rightarrow> d | None \<Rightarrow> None) b")
  have fm: "fm = field_markers f ast"
    using read_markers_fst [of "case findFieldDoc ast (var_Name f) of Some d \<Rightarrow> d | None \<Rightarrow> None" b] m
    by (simp add: field_markers_def)
  let ?fd = "new_field (var_Name f) ft (mk_cycleBreakViaID fm \<or> ft_CycleBreakViaID ft)"
  from assms ft m fm obtain b2 fd2 fd b3 where
    fill: "fillTypeShape env (var_Type f) (b1, ?fd) = Some (b2, fd2)"
    and id: "(if mk_cycleBreakViaID fm \<or> ft_CycleBreakViaID ft then resolveIDRefField env n f (b2, fd2)
        else Some (b2, fd2)) = Some (b3, fd)"
    and b': "b' = add_issues (checkSupportedType env (who_of env n f) (var_Type f) (var_Type f) 0 0) b3"
    "fdo = Some fd"
    by (auto simp: buildFieldDecl_def shaped_field_def Let_def bind_eq_Some_conv)
  from fillTypeShape_grown [OF fill] obtain tr ns where
    sh: "shaped env (field_core env (var_Type f)) tr ns" and g: "grown_by env ns b1 b2" "fd_Type fd2 = render tr"
    by blast
  have "core b3 = core b2 \<and> id_extended (render tr) (fd_Type fd)"
    using id resolveIDRefField_grown [of env n f b2 fd2 b3 fd] g(2)
    by (auto simp: id_extended_def [of x x for x] split: if_splits)
  moreover have "grown_by env ns b b'"
    using g(1) read_markers_core [OF m] b'(1) calculation by (simp add: grown_by_def)
  ultimately show thesis using that sh b'(2) by blast
qed

lemma buildFieldDecl_unshaped:
  assumes "\<not> shaped_field env n f ast" "buildFieldDecl env n f ast b = Some (b', fdo)"
  shows "core b' = core b"
proof -
  obtain fm b1 where m: "read_markers (case findFieldDoc ast (var_Name f) of Some d \<Rightarrow> d | None \<Rightarrow> None) b = (fm, b1)"
    by (cases "read_markers (case findFieldDoc ast (var_Name f) of Some d \<Rightarrow> d | None \<Rightarrow> None) b")
  have fm: "fm = field_markers f ast"
    using read_markers_fst [of "case findFieldDoc ast (var_Name f) of Some d \<Rightarrow> d | None \<Rightarrow> None" b] m
    by (simp add: field_markers_def)
  show ?thesis
  proof (cases "ParseFieldTag (var_BinTag f)")
    case (Inl e)
    then show ?thesis using assms(2) by (auto simp: buildFieldDecl_def)
  next
    case (Inr ft)
    let ?g = "field_guard env (who_of env n f) (var_Type f) ft fm"
    consider "mk_trackPresence fm" | "\<not> mk_trackPresence fm" "mk_borrowStrings fm"
      | "\<not> mk_trackPresence fm" "\<not> mk_borrowStrings fm" "\<not> ft_Set ft"
      | "\<not> mk_trackPresence fm" "\<not> mk_borrowStrings fm" "ft_Set ft" "ft_Skip ft"
      | i where "\<not> mk_trackPresence fm" "\<not> mk_borrowStrings fm" "ft_Set ft" "\<not> ft_Skip ft" "?g = Some i"
      | "\<not> mk_trackPresence fm" "\<not> mk_borrowStrings fm" "ft_Set ft" "\<not> ft_Skip ft" "?g = None"
          "ft_Custom ft \<noteq> []"
      using assms(1) Inr fm by (auto simp: shaped_field_def)
    then show ?thesis
      using assms(2) Inr m read_markers_core [OF m]
      by cases (auto simp: buildFieldDecl_def Let_def dest: custom_field_core)
  qed
qed

lemma buildFieldDecl_grown:
  assumes "buildFieldDecl env n f ast b = Some (b', fdo)"
  shows "\<exists>ns. grown_by env ns b b' \<and>
     set ns = {m. shaped_field env n f ast \<and> mentions env (field_core env (var_Type f)) m}"
proof (cases "shaped_field env n f ast")
  case True
  from buildFieldDecl_shaped [OF True assms] obtain tr ns where
    "shaped env (field_core env (var_Type f)) tr ns" "grown_by env ns b b'" by blast
  then show ?thesis using True shaped_mentions by (intro exI [of _ ns]) simp
next
  case False
  then show ?thesis using buildFieldDecl_unshaped [OF False assms] by (auto intro!: exI [of _ "[]"])
qed


section \<open>The fields of a struct\<close>

definition opened :: "go_env \<times> go_package list \<times> named \<Rightarrow> go_var \<Rightarrow> frame \<Rightarrow> embed option" where
  "opened ctx f fr = (case ctx of (env, ps, owner) \<Rightarrow> snd (open_embed env ps owner f fr new_builder))"

text \<open>The named fields of a struct and of the structs it embeds, each with the frame it is met in.\<close>

inductive walked ::
  "go_env \<times> go_package list \<times> named \<Rightarrow> go_var list \<Rightarrow> frame \<Rightarrow> go_var \<Rightarrow> frame \<Rightarrow> bool" for ctx where
  walked_here: "f \<in> set fs \<Longrightarrow> \<not> var_Anonymous f \<Longrightarrow> walked ctx fs fr f fr"
| walked_embed: "f \<in> set fs \<Longrightarrow> var_Anonymous f \<Longrightarrow> opened ctx f fr = Some e \<Longrightarrow>
    walked ctx (em_Fields e) (embed_frame (fst ctx) fr e) g fr' \<Longrightarrow> walked ctx fs fr g fr'"

lemma embed_markers_core:
  "embed_markers env owner f ast b = (b', skip) \<Longrightarrow>
     core b' = core b \<and> skip = snd (embed_markers env owner f ast c)"
proof -
  assume a: "embed_markers env owner f ast b = (b', skip)"
  show ?thesis
  proof (cases "findAnonymousFieldDoc ast (var_Name f)")
    case (Some doc)
    obtain m b1 c1 where m: "read_markers doc b = (m, b1)" "read_markers doc c = (m, c1)"
      using read_markers_fst [of doc b] read_markers_fst [of doc c] by (metis prod.collapse)
    then show ?thesis
      using a Some read_markers_core [OF m(1)] by (auto simp: embed_markers_def split: if_splits)
  qed (use a in \<open>auto simp: embed_markers_def\<close>)
qed

lemma intermediate_core [simp]:
  "core (checkIntermediateEmbedAccessible env owner n pre b) = core b"
  by (simp add: checkIntermediateEmbedAccessible_def Let_def)

lemma flattenAnonymous_core:
  "flattenAnonymous env ps owner f pre visited b = (b', eo) \<Longrightarrow>
     core b' = core b \<and> eo = snd (flattenAnonymous env ps owner f pre visited c)"
proof -
  assume a: "flattenAnonymous env ps owner f pre visited b = (b', eo)"
  show ?thesis
  proof (cases "strip_pointer (var_Type f)")
    case (Named i as)
    show ?thesis
    proof (cases "struct_fields (ge_Underlying env (i, as))")
      case None
      then show ?thesis using a Named by (auto simp: flattenAnonymous_def Let_def)
    next
      case (Some inner)
      obtain doc ast where d: "struct_doc env ps (i, as) = (doc, ast)" by fastforce
      obtain m b1 c1 where m: "read_markers doc b = (m, b1)" "read_markers doc c = (m, c1)"
        using read_markers_fst [of doc b] read_markers_fst [of doc c] by (metis prod.collapse)
      show ?thesis
        using a Named Some d m read_markers_core [OF m(1)]
        by (auto simp: flattenAnonymous_def Let_def split: if_splits)
    qed
  qed (use a in \<open>auto simp: flattenAnonymous_def Let_def\<close>)
qed

lemma open_embed_core:
  assumes "open_embed env ps owner f fr b = (b', eo)"
  shows "core b' = core b \<and> eo = opened (env, ps, owner) f fr"
proof -
  obtain b1 skip where m: "embed_markers env owner f (fr_Ast fr) b = (b1, skip)" by fastforce
  obtain c1 skip' where mc: "embed_markers env owner f (fr_Ast fr) new_builder = (c1, skip')" by fastforce
  note em = embed_markers_core [OF m, of new_builder]
  show ?thesis
    using assms m mc em flattenAnonymous_core [of env ps owner f "fr_Chain fr" "fr_Visited fr" b1 b' eo c1]
    by (auto simp: open_embed_def opened_def split: if_splits)
qed

lemma checkFlattened_core: "checkFlattenedFieldAccessible env owner f pre b = Some b' \<Longrightarrow> core b' = core b"
  by (auto simp: checkFlattenedFieldAccessible_def Let_def bind_eq_Some_conv)

lemma named_field_grown:
  assumes "named_field env owner f fr s = Some s'"
  shows "\<exists>ns. grown_by env ns (cl_Builder s) (cl_Builder s') \<and>
     set ns = {m. shaped_field env owner f (fr_Ast fr) \<and> mentions env (field_core env (var_Type f)) m}"
proof -
  from assms obtain b fdo where b: "buildFieldDecl env owner f (fr_Ast fr) (cl_Builder s) = Some (b, fdo)"
    by (auto simp: named_field_def bind_eq_Some_conv)
  have "core (cl_Builder s') = core b"
    using assms b
    by (auto simp: named_field_def bind_eq_Some_conv split: option.splits if_splits dest: checkFlattened_core)
  then show ?thesis using buildFieldDecl_grown [OF b] by (simp add: grown_by_def)
qed

text \<open>The structs a walk over fields refers to.\<close>

definition field_targets ::
  "go_env \<times> go_package list \<times> named \<Rightarrow> go_var list \<Rightarrow> frame \<Rightarrow> named set" where
  "field_targets ctx fs fr =
     {m. \<exists>g fr'. walked ctx fs fr g fr' \<and> shaped_field (fst ctx) (snd (snd ctx)) g (fr_Ast fr') \<and>
       mentions (fst ctx) (field_core (fst ctx) (var_Type g)) m}"

lemma walked_Nil: "\<not> walked ctx [] fr g fr'"
  by (auto elim: walked.cases)

lemma walked_Cons:
  "walked ctx (f # fs) fr g fr' \<longleftrightarrow>
     walked ctx fs fr g fr' \<or> (\<not> var_Anonymous f \<and> g = f \<and> fr' = fr) \<or>
     (var_Anonymous f \<and> (\<exists>e. opened ctx f fr = Some e \<and>
        walked ctx (em_Fields e) (embed_frame (fst ctx) fr e) g fr'))"
proof
  assume "walked ctx (f # fs) fr g fr'"
  then show "walked ctx fs fr g fr' \<or> (\<not> var_Anonymous f \<and> g = f \<and> fr' = fr) \<or>
     (var_Anonymous f \<and> (\<exists>e. opened ctx f fr = Some e \<and>
        walked ctx (em_Fields e) (embed_frame (fst ctx) fr e) g fr'))"
    by cases (auto intro: walked.intros)
next
  assume "walked ctx fs fr g fr' \<or> (\<not> var_Anonymous f \<and> g = f \<and> fr' = fr) \<or>
     (var_Anonymous f \<and> (\<exists>e. opened ctx f fr = Some e \<and>
        walked ctx (em_Fields e) (embed_frame (fst ctx) fr e) g fr'))"
  moreover have "walked ctx fs fr g fr' \<Longrightarrow> walked ctx (f # fs) fr g fr'"
    by (erule walked.cases) (auto intro: walked.intros)
  ultimately show "walked ctx (f # fs) fr g fr'" by (auto intro: walked.intros)
qed

lemma field_targets_Nil: "field_targets ctx [] fr = {}"
  by (simp add: field_targets_def walked_Nil)

lemma field_targets_Cons:
  "field_targets ctx (f # fs) fr =
     (if var_Anonymous f then
        (case opened ctx f fr of
           None \<Rightarrow> {} | Some e \<Rightarrow> field_targets ctx (em_Fields e) (embed_frame (fst ctx) fr e))
      else {m. shaped_field (fst ctx) (snd (snd ctx)) f (fr_Ast fr) \<and>
        mentions (fst ctx) (field_core (fst ctx) (var_Type f)) m}) \<union> field_targets ctx fs fr"
  by (auto simp: field_targets_def walked_Cons split: option.splits)

lemma collect_grown:
  "collectStructFields ctx fs fr s = Some s' \<Longrightarrow>
     \<exists>ns. grown_by (fst ctx) ns (cl_Builder s) (cl_Builder s') \<and> set ns = field_targets ctx fs fr"
proof (induction rule: collectStructFields.raw_induct [rotated, consumes 1, case_names step])
  case (step rec ctx fs fr s s')
  obtain env ps owner where ctx: "ctx = (env, ps, owner)" by (cases ctx)
  show ?case
  proof (cases fs)
    case Nil
    then show ?thesis
      using step(2) ctx by (auto simp: field_targets_Nil intro!: exI [of _ "[]"])
  next
    case (Cons f fs1)
    show ?thesis
    proof (cases "var_Anonymous f")
      case True
      obtain b eo where o: "open_embed env ps owner f fr (cl_Builder s) = (b, eo)" by fastforce
      note oc = open_embed_core [OF o]
      show ?thesis
      proof (cases eo)
        case None
        then have "rec ctx fs1 fr (s\<lparr>cl_Builder := b\<rparr>) = Some s'"
          using step(2) ctx Cons True o by simp
        from step(1) [OF this] obtain ns where
          "grown_by env ns b (cl_Builder s')" "set ns = field_targets ctx fs1 fr" using ctx by auto
        then show ?thesis
          using oc None True ctx by (intro exI [of _ ns]) (simp add: Cons field_targets_Cons grown_by_def)
      next
        case (Some e)
        then obtain s1 where
          r1: "rec ctx (em_Fields e) (embed_frame env fr e)
            (s\<lparr>cl_Builder := b, cl_Reserved := cl_Reserved s @ em_Reserved e\<rparr>) = Some s1"
          and r2: "rec ctx fs1 fr s1 = Some s'"
          using step(2) ctx Cons True o by (auto simp: bind_eq_Some_conv)
        from step(1) [OF r1] obtain ns where
          ns: "grown_by env ns b (cl_Builder s1)" "set ns = field_targets ctx (em_Fields e) (embed_frame env fr e)"
          using ctx by auto
        from step(1) [OF r2] obtain ms where
          ms: "grown_by env ms (cl_Builder s1) (cl_Builder s')" "set ms = field_targets ctx fs1 fr"
          using ctx by auto
        have "opened ctx f fr = Some e" using oc Some ctx by simp
        then show ?thesis
          using oc True ctx ns ms grown_by_trans [OF ns(1) ms(1)]
          by (intro exI [of _ "ns @ ms"]) (simp add: Cons field_targets_Cons grown_by_def)
      qed
    next
      case False
      then obtain s1 where
        r1: "named_field env owner f fr s = Some s1" and r2: "rec ctx fs1 fr s1 = Some s'"
        using step(2) ctx Cons by (auto simp: bind_eq_Some_conv)
      from named_field_grown [OF r1] obtain ns where
        ns: "grown_by env ns (cl_Builder s) (cl_Builder s1)"
          "set ns = {m. shaped_field env owner f (fr_Ast fr) \<and> mentions env (field_core env (var_Type f)) m}"
        by blast
      from step(1) [OF r2] obtain ms where
        ms: "grown_by env ms (cl_Builder s1) (cl_Builder s')" "set ms = field_targets ctx fs1 fr"
        using ctx by auto
      show ?thesis
        using False ctx ns(2) ms(2) grown_by_trans [OF ns(1) ms(1)]
        by (intro exI [of _ "ns @ ms"]) (simp add: Cons field_targets_Cons)
    qed
  qed
qed


end
