(* ===== verification/Closure.thy ===== *)
theory Closure
  imports Discover_Spec
begin

text \<open>
  The table the builder fills is the set of structs reachable from the roots, each once and none left a
  placeholder; the schema does not depend on the order Go iterates the table in.
\<close>

section \<open>References between structs\<close>

definition struct_refers :: "go_env \<Rightarrow> go_package list \<Rightarrow> named \<Rightarrow> named \<Rightarrow> bool" where
  "struct_refers env ps n m \<longleftrightarrow>
     (case struct_fields (ge_Underlying env n) of
        None \<Rightarrow> False
      | Some str \<Rightarrow>
          (case struct_doc env ps n of (doc, ast) \<Rightarrow>
             \<not> mk_opaque (fst (parseMarkers doc)) \<and> m \<in> field_targets (env, ps, n) str (top_frame ast)))"

definition closure_of :: "go_env \<Rightarrow> go_package list \<Rightarrow> named list \<Rightarrow> named set" where
  "closure_of env ps roots = {m. \<exists>r\<in>set roots. (struct_refers env ps)\<^sup>*\<^sup>* r m}"

lemma closure_root: "r \<in> set roots \<Longrightarrow> r \<in> closure_of env ps roots"
  by (auto simp: closure_of_def)

lemma closure_step: "n \<in> closure_of env ps roots \<Longrightarrow> struct_refers env ps n m \<Longrightarrow> m \<in> closure_of env ps roots"
  by (auto simp: closure_of_def intro: rtranclp.rtrancl_into_rtrancl)

lemma refers_struct: "struct_refers env ps n m \<Longrightarrow> is_struct env m"
  by (auto simp: struct_refers_def field_targets_def mentions_def split: option.splits prod.splits)

lemma closure_struct:
  "\<forall>r\<in>set roots. is_struct env r \<Longrightarrow> n \<in> closure_of env ps roots \<Longrightarrow> is_struct env n"
  unfolding closure_of_def by (auto elim: rtranclp.cases dest: refers_struct)

section \<open>Enqueueing\<close>

definition keys_of :: "(string \<times> struct_decl option) list \<times> named list \<Rightarrow> string set" where
  "keys_of c = dom (map_of (fst c))"

lemma enq_facts:
  "keys_of (enq env n c) = insert (keyOf env n) (keys_of c)"
  "set (snd (enq env n c)) = set (snd c) \<union> (if keyOf env n \<in> keys_of c then {} else {n})"
  "map_of (fst (enq env n c)) = (if keyOf env n \<in> keys_of c then map_of (fst c)
     else (map_of (fst c))(keyOf env n \<mapsto> None))"
  "distinct (map fst (fst c)) \<Longrightarrow> distinct (map fst (fst (enq env n c)))"
  by (auto simp: enq_def keys_of_def update_conv' distinct_update)

text \<open>What the table may hold, and what every step keeps.\<close>

definition table_ok :: "go_env \<Rightarrow> (string \<times> struct_decl option) list \<times> named list \<Rightarrow> bool" where
  "table_ok env c \<longleftrightarrow>
     distinct (map fst (fst c)) \<and>
     (\<forall>k. map_of (fst c) k = Some None \<longrightarrow> (\<exists>n\<in>set (snd c). keyOf env n = k)) \<and>
     (\<forall>k sd. map_of (fst c) k = Some (Some sd) \<longrightarrow> ref_key (sd_Type sd) = k)"

lemma enq_table_ok: "table_ok env c \<Longrightarrow> table_ok env (enq env n c)"
  unfolding table_ok_def using enq_facts [where env = env and n = n and c = c] by (auto split: if_splits)

lemma fold_enq_table_ok: "table_ok env c \<Longrightarrow> table_ok env (fold (enq env) ns c)"
  by (induction ns arbitrary: c) (simp_all add: enq_table_ok)

lemma fold_enq_keys: "keys_of (fold (enq env) ns c) = keys_of c \<union> keyOf env ` set ns"
  by (induction ns arbitrary: c) (auto simp: enq_facts)

lemma fold_enq_queue:
  "set (snd c) \<subseteq> set (snd (fold (enq env) ns c)) \<and> set (snd (fold (enq env) ns c)) \<subseteq> set (snd c) \<union> set ns"
proof (induction ns arbitrary: c)
  case (Cons n ns)
  show ?case using Cons.IH [of "enq env n c"] enq_facts(2) [of env n c] by (auto split: if_splits)
qed simp

lemma fold_enq_new:
  "k \<in> keys_of (fold (enq env) ns c) \<Longrightarrow> k \<notin> keys_of c \<Longrightarrow>
     \<exists>n\<in>set (snd (fold (enq env) ns c)). keyOf env n = k"
proof (induction ns arbitrary: c)
  case (Cons n ns)
  show ?case
  proof (cases "k = keyOf env n")
    case True
    then have "n \<in> set (snd (enq env n c))" using Cons.prems enq_facts(2) [of env n c] by simp
    then show ?thesis using fold_enq_queue [of "enq env n c" env ns] True by auto
  next
    case False
    then show ?thesis using Cons.IH [of "enq env n c"] Cons.prems enq_facts(1) [of env n c] by simp
  qed
qed simp

section \<open>One struct\<close>

lemma core_put [simp]: "core (put_struct k sd b) = (AList.update k (Some sd) (bd_seen b), bd_queue b)"
  by (simp add: core_def put_struct_def)

lemma flatten_grown:
  assumes "is_struct env n" "flatten env ps n b = Some b'"
  shows "\<exists>ns sd0 sd. set ns = {m. struct_refers env ps n m} \<and>
     sd_Type sd0 = refOf env n \<and> sd_Type sd = refOf env n \<and>
     (let c = fold (enq env) ns (AList.update (keyOf env n) (Some sd0) (bd_seen b), bd_queue b) in
      core b' = (AList.update (keyOf env n) (Some sd) (fst c), snd c))"
proof -
  let ?k = "keyOf env n"
  obtain str where str: "struct_fields (ge_Underlying env n) = Some str"
    using assms(1) by (auto simp: is_struct_def)
  obtain doc ast where d: "struct_doc env ps n = (doc, ast)" by fastforce
  obtain tm b1 where m: "read_markers doc b = (tm, b1)" by fastforce
  have tm: "tm = fst (parseMarkers doc)" using read_markers_fst [of doc b] m by simp
  have b1: "core b1 = core b" by (rule read_markers_core [OF m])
  then have seen1: "bd_seen b1 = bd_seen b" "bd_queue b1 = bd_queue b" by (simp_all add: core_def)
  let ?sd = "new_struct env n tm"
  have ty: "sd_Type ?sd = refOf env n" by (simp add: new_struct_def)
  show ?thesis
  proof (cases "mk_opaque tm")
    case True
    then have "core b' = (AList.update ?k (Some ?sd) (bd_seen b), bd_queue b)"
      using assms(2) str d m seen1 by (auto simp: flatten_def Let_def)
    moreover have "{m. struct_refers env ps n m} = {}"
      using True str d tm by (auto simp: struct_refers_def)
    moreover have "AList.update ?k (Some ?sd) (AList.update ?k (Some ?sd) (bd_seen b)) =
        AList.update ?k (Some ?sd) (bd_seen b)"
      by (induction "bd_seen b") (auto simp: AList.update.simps)
    ultimately show ?thesis
      using ty by (intro exI [of _ "[]"] exI [of _ ?sd]) simp
  next
    case False
    let ?b2 = "put_struct ?k ?sd b1"
    let ?s0 = "\<lparr>cl_Builder = ?b2, cl_Out = [], cl_Reserved = sd_Reserved ?sd\<rparr>"
    from False assms(2) str d m obtain s where
      s: "collectStructFields (env, ps, n) str (top_frame ast) ?s0 = Some s"
      and b': "b' = put_struct ?k
        (?sd\<lparr>sd_Fields := fst (checkFlattenedTagCollisions (to_Name (Obj env n)) (cl_Out s)),
          sd_Reserved := cl_Reserved s\<rparr>)
        (add_issues (snd (checkFlattenedTagCollisions (to_Name (Obj env n)) (cl_Out s))) (cl_Builder s))"
      by (auto simp: flatten_def Let_def bind_eq_Some_conv case_prod_unfold)
    from collect_grown [OF s] obtain ns where
      ns: "grown_by env ns ?b2 (cl_Builder s)" "set ns = field_targets (env, ps, n) str (top_frame ast)"
      by auto
    have "set ns = {m. struct_refers env ps n m}"
      using ns(2) False str d tm by (auto simp: struct_refers_def)
    moreover have "core (cl_Builder s) =
        fold (enq env) ns (AList.update ?k (Some ?sd) (bd_seen b), bd_queue b)"
      using ns(1) seen1 by (simp add: grown_by_def)
    then have "bd_seen (cl_Builder s) = fst (fold (enq env) ns (AList.update ?k (Some ?sd) (bd_seen b), bd_queue b))"
      "bd_queue (cl_Builder s) = snd (fold (enq env) ns (AList.update ?k (Some ?sd) (bd_seen b), bd_queue b))"
      by (auto simp: core_def prod_eq_iff)
    moreover have "sd_Type (?sd\<lparr>sd_Fields := fs, sd_Reserved := rs\<rparr>) = refOf env n" for fs rs
      using ty by simp
    ultimately have "set ns = {m. struct_refers env ps n m} \<and> sd_Type ?sd = refOf env n \<and>
        sd_Type (?sd\<lparr>sd_Fields := fst (checkFlattenedTagCollisions (to_Name (Obj env n)) (cl_Out s)),
          sd_Reserved := cl_Reserved s\<rparr>) = refOf env n \<and>
        (let c = fold (enq env) ns (AList.update ?k (Some ?sd) (bd_seen b), bd_queue b) in
         core b' = (AList.update ?k
           (Some (?sd\<lparr>sd_Fields := fst (checkFlattenedTagCollisions (to_Name (Obj env n)) (cl_Out s)),
             sd_Reserved := cl_Reserved s\<rparr>)) (fst c), snd c))"
      using ty by (simp add: b' add_issues_def)
    then show ?thesis by blast
  qed
qed

section \<open>The whole walk\<close>

definition closure_inv :: "go_env \<Rightarrow> go_package list \<Rightarrow> named list \<Rightarrow> builder \<Rightarrow> bool" where
  "closure_inv env ps roots b \<longleftrightarrow>
     table_ok env (core b) \<and>
     set (bd_queue b) \<subseteq> closure_of env ps roots \<and>
     keys_of (core b) \<subseteq> keyOf env ` closure_of env ps roots \<and>
     keyOf env ` set roots \<subseteq> keys_of (core b) \<and>
     keyOf env ` set (bd_queue b) \<subseteq> keys_of (core b) \<and>
     (inj_on (keyOf env) (closure_of env ps roots) \<longrightarrow>
        (\<forall>n\<in>closure_of env ps roots. keyOf env n \<in> keys_of (core b) \<longrightarrow>
           n \<in> set (bd_queue b) \<or> (\<forall>m. struct_refers env ps n m \<longrightarrow> keyOf env m \<in> keys_of (core b))))"

lemma core_simps [simp]: "fst (core b) = bd_seen b" "snd (core b) = bd_queue b"
  by (simp_all add: core_def)

lemma closure_inv_start: "closure_inv env ps roots (fold (enqueue env) roots new_builder)"
proof -
  let ?b = "fold (enqueue env) roots new_builder"
  let ?R = "closure_of env ps roots"
  have c: "core ?b = fold (enq env) roots ([], [])" by (simp add: core_fold) (simp add: core_def new_builder_def)
  have ok: "table_ok env (core ?b)" unfolding c by (rule fold_enq_table_ok) (simp add: table_ok_def)
  have keys: "keys_of (core ?b) = keyOf env ` set roots"
    unfolding c fold_enq_keys by (simp add: keys_of_def)
  have q: "set (bd_queue ?b) \<subseteq> set roots" using fold_enq_queue [of "([], [])" env roots] c
    by (metis core_simps(2) list.set(1) snd_conv sup_bot_left)
  have all: "n \<in> set (bd_queue ?b)" if "n \<in> ?R" "inj_on (keyOf env) ?R" "keyOf env n \<in> keys_of (core ?b)" for n
  proof -
    note h = that
    have "\<exists>m\<in>set (snd (fold (enq env) roots ([], []))). keyOf env m = keyOf env n"
      by (rule fold_enq_new) (use h(3) c in \<open>simp_all add: keys_of_def\<close>)
    then obtain m where m: "m \<in> set (bd_queue ?b)" "keyOf env m = keyOf env n"
      unfolding c [symmetric] by auto
    then have "m \<in> ?R" using q closure_root by blast
    then show ?thesis using m h by (metis inj_onD)
  qed
  show ?thesis
    using ok keys q all closure_root [of _ roots env ps] by (auto simp: closure_inv_def)
qed

lemma closure_inv_step:
  assumes inv: "closure_inv env ps roots b" and q: "bd_queue b = n # q"
    and st: "\<forall>r\<in>set roots. is_struct env r"
    and fl: "flatten env ps n (b\<lparr>bd_queue := q\<rparr>) = Some b'"
  shows "closure_inv env ps roots b'"
proof -
  let ?R = "closure_of env ps roots"
  let ?k = "keyOf env n"
  have nR: "n \<in> ?R" and kin: "?k \<in> keys_of (core b)" using inv q by (auto simp: closure_inv_def)
  have "is_struct env n" by (rule closure_struct [OF st nR])
  from flatten_grown [OF this fl] obtain ns sd0 sd where
    ns: "set ns = {m. struct_refers env ps n m}"
    and ty: "sd_Type sd0 = refOf env n" "sd_Type sd = refOf env n"
    and b': "core b' = (AList.update ?k (Some sd) (fst (fold (enq env) ns (AList.update ?k (Some sd0) (bd_seen b), q))),
      snd (fold (enq env) ns (AList.update ?k (Some sd0) (bd_seen b), q)))"
    by (auto simp: Let_def)
  define c0 where "c0 = (AList.update ?k (Some sd0) (bd_seen b), q)"
  define c where "c = fold (enq env) ns c0"
  have cb: "core b' = (AList.update ?k (Some sd) (fst c), snd c)" using b' by (simp add: c_def c0_def)
  have key: "keyOf env n = ref_key (refOf env n)" by (simp add: keyOf_def)
  have ok0: "table_ok env c0"
    using inv q ty key by (auto simp: closure_inv_def table_ok_def c0_def update_conv' distinct_update)
  have keys0: "keys_of c0 = keys_of (core b)" using kin by (auto simp: keys_of_def c0_def update_conv')
  have ok: "table_ok env c" unfolding c_def by (rule fold_enq_table_ok [OF ok0])
  have keys: "keys_of c = keys_of (core b) \<union> keyOf env ` set ns" by (simp add: c_def fold_enq_keys keys0)
  have keys': "keys_of (core b') = keys_of c"
    using cb kin keys by (auto simp: keys_of_def update_conv')
  have queue: "set q \<subseteq> set (snd c)" "set (snd c) \<subseteq> set q \<union> set ns"
    using fold_enq_queue [of c0 env ns] by (simp_all add: c_def c0_def)
  have queue': "bd_queue b' = snd c" using cb by (metis core_simps(2) snd_conv)
  have nsR: "set ns \<subseteq> ?R" using ns closure_step [OF nR] by auto
  have tab: "table_ok env (core b')"
    using ok ty key by (auto simp: cb table_ok_def update_conv' distinct_update)
  have closed: "m \<in> set (snd c) \<or> (\<forall>m'. struct_refers env ps m m' \<longrightarrow> keyOf env m' \<in> keys_of c)"
    if inj: "inj_on (keyOf env) ?R" and m: "m \<in> ?R" "keyOf env m \<in> keys_of c" for m
  proof (cases "keyOf env m \<in> keys_of (core b)")
    case True
    then consider "m = n" | "m \<in> set q" | "\<forall>m'. struct_refers env ps m m' \<longrightarrow> keyOf env m' \<in> keys_of (core b)"
      using inv m inj q by (auto simp: closure_inv_def)
    then show ?thesis using ns keys queue by cases auto
  next
    case False
    then obtain m1 where m1: "m1 \<in> set (snd c)" "keyOf env m1 = keyOf env m"
      using fold_enq_new [of "keyOf env m" env ns c0] m(2) keys0 by (auto simp: c_def)
    then have "m1 \<in> ?R" using queue nsR inv q by (auto simp: closure_inv_def)
    then show ?thesis using m1 inj m(1) by (metis inj_onD)
  qed
  show ?thesis
    unfolding closure_inv_def
  proof (intro conjI)
    show "table_ok env (core b')" by (rule tab)
    show "set (bd_queue b') \<subseteq> ?R" using queue nsR inv q queue' by (auto simp: closure_inv_def)
    show "keys_of (core b') \<subseteq> keyOf env ` ?R" using keys' keys nsR inv by (auto simp: closure_inv_def)
    show "keyOf env ` set roots \<subseteq> keys_of (core b')" using keys' keys inv by (auto simp: closure_inv_def)
    show "keyOf env ` set (bd_queue b') \<subseteq> keys_of (core b')"
    proof -
      have "keyOf env ` set (snd c) \<subseteq> keyOf env ` set q \<union> keyOf env ` set ns" using queue(2) by blast
      moreover have "keyOf env ` set q \<subseteq> keys_of (core b)" using inv q by (simp add: closure_inv_def)
      ultimately show ?thesis using keys' keys queue' by auto
    qed
    show "inj_on (keyOf env) ?R \<longrightarrow> (\<forall>n\<in>?R. keyOf env n \<in> keys_of (core b') \<longrightarrow>
        n \<in> set (bd_queue b') \<or> (\<forall>m. struct_refers env ps n m \<longrightarrow> keyOf env m \<in> keys_of (core b')))"
      using closed keys' queue' by auto
  qed
qed

lemma run_queue_inv:
  "run_queue env ps b = Some b' \<Longrightarrow> closure_inv env ps roots b \<Longrightarrow> \<forall>r\<in>set roots. is_struct env r \<Longrightarrow>
     closure_inv env ps roots b' \<and> bd_queue b' = []"
proof (induction rule: run_queue.raw_induct [rotated, consumes 1, case_names step])
  case (step rec env ps b b')
  show ?case
  proof (cases "bd_queue b")
    case Nil
    then show ?thesis using step by auto
  next
    case (Cons n q)
    then obtain b1 where b1: "flatten env ps n (b\<lparr>bd_queue := q\<rparr>) = Some b1" "rec env ps b1 = Some b'"
      using step(2) by (auto simp: bind_eq_Some_conv)
    show ?thesis by (rule step(1) [OF b1(2) closure_inv_step [OF step(3) Cons step(4) b1(1)] step(4)])
  qed
qed

text \<open>The table when the queue has run dry.\<close>

lemma table_final:
  assumes run: "run_queue env ps (fold (enqueue env) roots new_builder) = Some b"
    and st: "\<forall>r\<in>set roots. is_struct env r"
  shows "distinct (map fst (bd_seen b))" and "\<forall>k x. (k, x) \<in> set (bd_seen b) \<longrightarrow> (\<exists>sd. x = Some sd \<and> ref_key (sd_Type sd) = k)"
    and "fst ` set (bd_seen b) \<subseteq> keyOf env ` closure_of env ps roots"
    and "inj_on (keyOf env) (closure_of env ps roots) \<Longrightarrow>
      fst ` set (bd_seen b) = keyOf env ` closure_of env ps roots"
proof -
  let ?R = "closure_of env ps roots"
  have inv: "closure_inv env ps roots b" and q: "bd_queue b = []"
    using run_queue_inv [OF run closure_inv_start st] by auto
  show d: "distinct (map fst (bd_seen b))" using inv by (simp add: closure_inv_def table_ok_def)
  have mem: "map_of (bd_seen b) k = Some x \<longleftrightarrow> (k, x) \<in> set (bd_seen b)" for k x
    using d by (metis map_of_SomeD map_of_is_SomeI)
  show "\<forall>k x. (k, x) \<in> set (bd_seen b) \<longrightarrow> (\<exists>sd. x = Some sd \<and> ref_key (sd_Type sd) = k)"
  proof (intro allI impI)
    fix k x
    assume "(k, x) \<in> set (bd_seen b)"
    then show "\<exists>sd. x = Some sd \<and> ref_key (sd_Type sd) = k"
      using inv q mem by (cases x) (auto simp: closure_inv_def table_ok_def)
  qed
  have dom: "keys_of (core b) = fst ` set (bd_seen b)" by (simp add: keys_of_def dom_map_of_conv_image_fst)
  have root: "r \<in> set roots \<Longrightarrow> keyOf env r \<in> keys_of (core b)" for r
    using inv by (auto simp: closure_inv_def)
  have next_in: "keyOf env m \<in> keys_of (core b)"
    if "inj_on (keyOf env) ?R" "n \<in> ?R" "keyOf env n \<in> keys_of (core b)" "struct_refers env ps n m" for n m
    using inv q that by (cases m) (simp add: closure_inv_def)
  show sub: "fst ` set (bd_seen b) \<subseteq> keyOf env ` ?R"
    using inv by (simp add: closure_inv_def flip: dom)
  assume inj: "inj_on (keyOf env) ?R"
  have "keyOf env m \<in> keys_of (core b)" if "(struct_refers env ps)\<^sup>*\<^sup>* r m" "r \<in> set roots" for r m
    using that
  proof (induction rule: rtranclp_induct)
    case base
    then show ?case using root by blast
  next
    case (step y z)
    then have "y \<in> ?R" unfolding closure_of_def by blast
    then show ?case using next_in [OF inj] step by blast
  qed
  then have "keyOf env ` ?R \<subseteq> fst ` set (bd_seen b)" unfolding dom closure_of_def by blast
  then show "fst ` set (bd_seen b) = keyOf env ` ?R" using sub by blast
qed

end
