(* ===== verification/Discover_Returns.thy ===== *)
theory Discover_Returns
  imports Closure
begin

text \<open>
  The schema analysis returns on every program whose types are finitely many and have no infinite
  descent: every queued struct is flattened in the end, and the validation behind it returns too.
\<close>

section \<open>Finite programs\<close>

text \<open>The named types written in a type; an alias is never looked through.\<close>

primrec names_in :: "go_ty \<Rightarrow> named set"
  and names_lit :: "go_lit \<Rightarrow> named set"
  and names_var :: "go_var \<Rightarrow> named set"
where
  "names_in (Named i as) = insert (i, as) (\<Union> (set (map names_in as)))"
| "names_in (Alias a l) = {}"
| "names_in (Lit l) = names_lit l"
| "names_lit (TBasic k nm) = {}"
| "names_lit (TPointer e) = names_in e"
| "names_lit (TSlice e) = names_in e"
| "names_lit (TArray n e) = names_in e"
| "names_lit (TMap k e) = names_in k \<union> names_in e"
| "names_lit (TChan e) = names_in e"
| "names_lit (TStruct fs) = \<Union> (set (map names_var fs))"
| "names_lit (TInterface b s) = {}"
| "names_lit (TSignature s) = {}"
| "names_lit (TOther s) = {}"
| "names_var (Var nm p ex anon t tag) = names_in t"

text \<open>
  The named types of a program: finitely many, and all that occur in one of them. The Go compiler
  rejects generic types that would have infinitely many instances.
\<close>

definition go_program :: "go_env \<Rightarrow> go_package list \<Rightarrow> named set \<Rightarrow> bool" where
  "go_program env ps U \<longleftrightarrow>
     finite U \<and>
     (\<forall>n\<in>U. names_in (named_ty n) \<subseteq> U \<and> names_lit (ge_Underlying env n) \<subseteq> U) \<and>
     (\<forall>p\<in>set ps. \<forall>nm t. pk_Lookup p nm = Some (TypeName t) \<longrightarrow> names_in t \<subseteq> U)"

definition all_grounded :: "go_env \<Rightarrow> named set \<Rightarrow> bool" where
  "all_grounded env U \<longleftrightarrow> (\<forall>n\<in>U. grounded env (named_ty n))"

lemma names_var_type: "names_var f = names_in (var_Type f)"
  by (cases f) simp

lemma struct_fields_names:
  assumes "go_program env ps U" "n \<in> U" "struct_fields (ge_Underlying env n) = Some fs" "f \<in> set fs"
  shows "names_in (var_Type f) \<subseteq> U"
proof -
  have "ge_Underlying env n = TStruct fs"
    using assms(3) by (auto simp: struct_fields_def split: go_lit.splits)
  moreover have "names_lit (ge_Underlying env n) \<subseteq> U" using assms(1,2) by (simp add: go_program_def)
  ultimately show ?thesis using assms(4) by (auto simp: names_var_type)
qed

lemma strip_pointer_names: "names_in (strip_pointer t) = names_in t"
  by (cases t) (auto split: go_lit.split)

section \<open>Types without infinite descent\<close>

lemma grounded_part: "grounded env t \<Longrightarrow> part_of env u t \<Longrightarrow> grounded env u"
  by (rule accp_downward)

lemma grounded_lits [simp]:
  "grounded env (Alias a l)" "grounded env (Lit (TBasic k nm))" "grounded env (Lit (TChan e))"
  "grounded env (Lit (TStruct fs))" "grounded env (Lit (TInterface x y))"
  "grounded env (Lit (TSignature sg))" "grounded env (Lit (TOther ot))"
  by (rule accp.accI; simp add: part_of_Alias part_of_lits)+

lemma grounded_step [simp]:
  "grounded env (Lit (TPointer e)) \<longleftrightarrow> grounded env e" "grounded env (Lit (TSlice e)) \<longleftrightarrow> grounded env e"
  "grounded env (Lit (TArray n e)) \<longleftrightarrow> grounded env e"
  "grounded env (Lit (TMap k e)) \<longleftrightarrow> grounded env k \<and> grounded env e"
  by (auto intro!: accp.accI [of "part_of env" "Lit l" for l] simp: part_of_lits
      dest: grounded_part [OF _ part_pointer] grounded_part [OF _ part_slice] grounded_part [OF _ part_array]
        grounded_part [OF _ part_key] grounded_part [OF _ part_value])

lemma grounded_struct: "is_struct env n \<Longrightarrow> grounded env (named_ty n)"
  unfolding named_ty_def by (rule accp.accI) (simp add: part_of_Named)

lemma grounded_names: "all_grounded env U \<Longrightarrow> names_in t \<subseteq> U \<Longrightarrow> grounded env t"
proof (induction "size t" arbitrary: t rule: less_induct)
  case less
  show ?case
  proof (cases t)
    case (Named i as)
    then have "(i, as) \<in> U" using less.prems(2) by simp
    then show ?thesis using less.prems(1) Named by (auto simp: all_grounded_def named_ty_def)
  next
    case (Lit l)
    then show ?thesis using less by (cases l) auto
  qed simp
qed

lemma field_core_grounded: "grounded env t \<Longrightarrow> grounded env (field_core env t)"
proof -
  assume g: "grounded env t"
  have s: "grounded env (strip_pointer t)"
    using g by (cases t) (auto split: go_lit.split)
  show ?thesis
  proof (cases "slice_alias env (strip_pointer t)")
    case (Some r)
    then obtain i as e where "strip_pointer t = Named i as" "ge_Underlying env (i, as) = TSlice e"
      "snd r = e"
      by (auto simp: slice_alias_def split: go_ty.splits go_lit.splits if_splits)
    moreover from this have "part_of env (Lit (TSlice e)) (Named i as)"
      using part_named [of env i as] by (simp add: is_struct_lit)
    ultimately show ?thesis
      using s grounded_part [of env "Named i as" "Lit (TSlice e)"] Some
      by (auto simp: field_core_def split: prod.splits)
  qed (use s in \<open>simp add: field_core_def\<close>)
qed

lemma byte_grounded: "isBasicByte e \<Longrightarrow> grounded env e"
  by (auto simp: isBasicByte_def split: go_ty.splits go_lit.splits)

lemma id_lit_grounded: "id_lit_ok l \<Longrightarrow> grounded env (Lit l)"
  by (cases l) (simp_all add: id_lit_ok_def byte_grounded)

lemma id_type_grounded: "isIDRefFieldType env t \<Longrightarrow> grounded env t"
proof (cases t)
  case (Named i as)
  assume "isIDRefFieldType env t"
  then have "grounded env (Lit (ge_Underlying env (i, as)))"
    using Named by (simp add: isIDRefFieldType_def id_lit_grounded)
  then show ?thesis unfolding Named using accp.accI [of "part_of env" "Named i as"] by (auto simp: part_of_Named)
qed (simp_all add: isIDRefFieldType_def id_lit_grounded)

section \<open>The steps return\<close>

lemma fillTypeShape_returns: "grounded env t \<Longrightarrow> \<exists>b' fd'. fillTypeShape env t (b, fd) = Some (b', fd')"
  using fillTypeShape_returns_grounded [of env t b fd] field_core_grounded [of env t]
  by (metis surj_pair)

lemma resolveIDRefField_returns: "\<exists>b' fd'. resolveIDRefField env n f (b, fd) = Some (b', fd')"
proof (cases "\<exists>p. var_Type f = Lit (TPointer p)")
  case True
  then obtain p where p: "var_Type f = Lit (TPointer p)" by blast
  show ?thesis
  proof (cases "LookupIDRefField env p")
    case (Inr r)
    obtain idf ov where r: "r = (idf, ov)" by (cases r)
    have g: "grounded env (var_Type idf)" using id_type_grounded LookupIDRefField_type Inr r by blast
    obtain w where w: "wireFor env (var_Type idf) = Some w" using wireFor_grounded [OF g] by blast
    obtain sh b1 fd1 where
      "shapeOf env (var_Type idf) False (b, fd\<lparr>fd_Wire := w\<rparr>) = Some (sh, b1, fd1)"
      using shapeOf_returns_iff [of env "var_Type idf" False "(b, fd\<lparr>fd_Wire := w\<rparr>)"] g
      by (metis surj_pair)
    then have "\<exists>b' fd'. adopt_id_type env (who_of env n f) (var_Type idf) ov (b, fd) = Some (b', fd')"
      using w by (auto simp: adopt_id_type_def Let_def split: sum.split)
    then show ?thesis using p Inr r by (simp add: resolveIDRefField_def Let_def)
  qed (simp add: p resolveIDRefField_def Let_def)
qed (auto simp: resolveIDRefField_def split: go_ty.split go_lit.split)

lemma buildFieldDecl_returns:
  assumes "grounded env (var_Type f)"
  shows "buildFieldDecl env n f ast b \<noteq> None"
proof -
  have rest: "Option.bind (fillTypeShape env (var_Type f) (c, fd)) (\<lambda>s.
      Option.bind (if cb then resolveIDRefField env n f s else Some s) (\<lambda>(b, fd).
        Some (add_issues is b, Some fd))) \<noteq> None" for c fd cb "is"
  proof -
    obtain b1 fd1 where 1: "fillTypeShape env (var_Type f) (c, fd) = Some (b1, fd1)"
      using fillTypeShape_returns [OF assms] by blast
    obtain b2 fd2 where "resolveIDRefField env n f (b1, fd1) = Some (b2, fd2)"
      using resolveIDRefField_returns by blast
    then show ?thesis using 1 by simp
  qed
  show ?thesis
    unfolding buildFieldDecl_def Let_def
    by (simp only: rest option.simps not_False_eq_True if_cancel split: sum.split prod.split option.split if_split)
      simp
qed

lemma foreign_walk_eqs:
  "foreign_walk env own [] s = Some s"
  "foreign_walk env own (Alias a l # ts) s = foreign_walk env own ts s"
  "foreign_walk env own (Named i as # ts) s =
     (if (i, as) \<in> set (fst s) then foreign_walk env own ts s
      else foreign_walk env own
        (as @ (if unwraps (ge_Underlying env (i, as)) then [Lit (ge_Underlying env (i, as))] else []) @ ts)
        ((i, as) # fst s,
         if foreign_unexported_type env own (Named i as) then snd s @ [(i, as)] else snd s))"
  by (subst foreign_walk.simps, simp)+

lemma foreign_walk_lit:
  "\<exists>us. foreign_walk env own (Lit l # ts) s = foreign_walk env own (us @ ts) s \<and>
     \<Union> (set (map names_in us)) \<subseteq> names_lit l \<and>
     sum_list (map size us) + length us < size (Lit l) + 1"
proof (cases l)
  case (TPointer e)
  then show ?thesis by (subst foreign_walk.simps) (auto intro!: exI [of _ "[e]"])
next
  case (TSlice e)
  then show ?thesis by (subst foreign_walk.simps) (auto intro!: exI [of _ "[e]"])
next
  case (TArray n e)
  then show ?thesis by (subst foreign_walk.simps) (auto intro!: exI [of _ "[e]"])
next
  case (TMap k e)
  then show ?thesis by (subst foreign_walk.simps) (auto intro!: exI [of _ "[k, e]"])
next
  case (TChan e)
  then show ?thesis by (subst foreign_walk.simps) (auto intro!: exI [of _ "[e]"])
qed (subst foreign_walk.simps, auto intro!: exI [of _ "[]"])+

lemma foreign_walk_returns:
  assumes U: "go_program env ps U"
  shows "\<Union> (set (map names_in ts)) \<subseteq> U \<Longrightarrow> \<exists>r. foreign_walk env own ts s = Some r"
proof (induction "(ts, s)" arbitrary: ts s
    rule: wf_induct_rule [OF wf_measures [of "[\<lambda>(ts, s). card (U - set (fst s)),
      \<lambda>(ts, s). sum_list (map size ts) + length ts]"]])
  case (1 ts s)
  note IH = 1(1) and names = 1(2)
  have fin: "finite U" using U by (simp add: go_program_def)
  show ?case
  proof (cases ts)
    case Nil
    then show ?thesis by (simp add: foreign_walk_eqs)
  next
    case (Cons t ts1)
    show ?thesis
    proof (cases t)
      case (Named i as)
      show ?thesis
      proof (cases "(i, as) \<in> set (fst s)")
        case True
        then show ?thesis using IH [of ts1 s] names Cons Named by (simp add: foreign_walk_eqs)
      next
        case False
        let ?u = "if unwraps (ge_Underlying env (i, as)) then [Lit (ge_Underlying env (i, as))] else []"
        let ?s = "((i, as) # fst s,
          if foreign_unexported_type env own (Named i as) then snd s @ [(i, as)] else snd s)"
        have inU: "(i, as) \<in> U" using names Cons Named by simp
        then have "card (U - set (fst ?s)) < card (U - set (fst s))"
          using fin False by (intro psubset_card_mono) auto
        moreover have "names_lit (ge_Underlying env (i, as)) \<subseteq> U" using U inU by (simp add: go_program_def)
        then have "\<Union> (set (map names_in (as @ ?u @ ts1))) \<subseteq> U" using names Cons Named by auto
        ultimately have "\<exists>r. foreign_walk env own (as @ ?u @ ts1) ?s = Some r"
          using IH [of "as @ ?u @ ts1" ?s] by simp
        then show ?thesis using Cons Named False by (simp add: foreign_walk_eqs)
      qed
    next
      case (Alias a l)
      then show ?thesis using IH [of ts1 s] names Cons by (simp add: foreign_walk_eqs)
    next
      case (Lit l)
      obtain us where us: "foreign_walk env own (Lit l # ts1) s = foreign_walk env own (us @ ts1) s"
        "\<Union> (set (map names_in us)) \<subseteq> names_lit l" "sum_list (map size us) + length us < size (Lit l) + 1"
        using foreign_walk_lit by blast
      have "\<exists>r. foreign_walk env own (us @ ts1) s = Some r"
        by (rule IH) (use us(2,3) names Cons Lit in auto)
      then show ?thesis using us(1) Cons Lit by simp
    qed
  qed
qed

lemma checkFlattened_returns:
  assumes "go_program env ps U" "names_in (var_Type f) \<subseteq> U"
  shows "checkFlattenedFieldAccessible env owner f pre b \<noteq> None"
proof -
  have "collectForeignUnexportedNamed env (var_Type f) own \<noteq> None" for own
    using foreign_walk_returns [OF assms(1), of "[var_Type f]" own "([], [])"] assms(2)
    by (auto simp: collectForeignUnexportedNamed_def)
  then show ?thesis by (auto simp: checkFlattenedFieldAccessible_def Let_def bind_eq_None_conv)
qed

lemma named_field_returns:
  assumes U: "go_program env ps U" "all_grounded env U" and f: "names_in (var_Type f) \<subseteq> U"
  shows "named_field env owner f fr s \<noteq> None"
proof -
  obtain b fdo where b: "buildFieldDecl env owner f (fr_Ast fr) (cl_Builder s) = Some (b, fdo)"
    using buildFieldDecl_returns [OF grounded_names [OF U(2) f], of owner "fr_Ast fr" "cl_Builder s"]
    by auto
  obtain b1 where "checkFlattenedFieldAccessible env owner f (fr_Chain fr) b = Some b1"
    using checkFlattened_returns [OF U(1) f, of owner "fr_Chain fr" b] by blast
  then show ?thesis using b by (simp add: named_field_def split: option.split)
qed

lemma flattenAnonymous_embed:
  assumes "flattenAnonymous env ps owner f pre visited b = (b', Some e)"
  shows "em_Named e \<notin> set visited \<and> em_Named e \<in> names_in (var_Type f) \<and>
     struct_fields (ge_Underlying env (em_Named e)) = Some (em_Fields e)"
proof (cases "strip_pointer (var_Type f)")
  case (Named i as)
  then have "names_in (var_Type f) = names_in (Named i as)" using strip_pointer_names [of "var_Type f"] by simp
  then have "(i, as) \<in> names_in (var_Type f)" by simp
  then show ?thesis
    using assms Named
    by (auto simp: flattenAnonymous_def Let_def split: option.splits if_splits prod.splits)
qed (use assms in \<open>auto simp: flattenAnonymous_def Let_def\<close>)

lemma opened_embed:
  assumes "opened (env, ps, owner) f fr = Some e"
  shows "em_Named e \<notin> set (fr_Visited fr) \<and> em_Named e \<in> names_in (var_Type f) \<and>
     struct_fields (ge_Underlying env (em_Named e)) = Some (em_Fields e)"
proof -
  obtain b skip where m: "embed_markers env owner f (fr_Ast fr) new_builder = (b, skip)" by fastforce
  obtain b' eo where f: "flattenAnonymous env ps owner f (fr_Chain fr) (fr_Visited fr) b = (b', eo)" by fastforce
  have "eo = Some e" using assms m f by (auto simp: opened_def open_embed_def split: if_splits)
  then show ?thesis using flattenAnonymous_embed f by blast
qed

lemma collect_returns:
  assumes U: "go_program env ps U" "all_grounded env U"
  shows "(\<forall>f\<in>set fs. names_in (var_Type f) \<subseteq> U) \<Longrightarrow> collectStructFields (env, ps', owner) fs fr s \<noteq> None"
proof (induction "(fs, fr)" arbitrary: fs fr s
    rule: wf_induct_rule [OF wf_measures [of "[\<lambda>(fs, fr). card (U - set (fr_Visited fr)), \<lambda>(fs, fr). length fs]"]])
  case (1 fs fr)
  note IH = 1(1) and names = 1(2)
  show ?case
  proof (cases fs)
    case Nil
    then show ?thesis by (subst collectStructFields.simps) simp
  next
    case (Cons f fs1)
    have tail: "collectStructFields (env, ps', owner) fs1 fr s \<noteq> None" for s
      by (rule IH) (use names Cons in auto)
    show ?thesis
    proof (cases "var_Anonymous f")
      case True
      obtain b eo where o: "open_embed env ps' owner f fr (cl_Builder s) = (b, eo)" by fastforce
      show ?thesis
      proof (cases eo)
        case None
        then show ?thesis
          using Cons True o tail by (subst collectStructFields.simps) simp
      next
        case (Some e)
        then have "opened (env, ps', owner) f fr = Some e" using open_embed_core [OF o] by simp
        note e = opened_embed [OF this]
        have eU: "em_Named e \<in> U" using e names Cons by auto
        have "card (U - set (fr_Visited (embed_frame env fr e))) < card (U - set (fr_Visited fr))"
          using e eU U(1) by (intro psubset_card_mono) (auto simp: go_program_def embed_frame_def)
        moreover have "\<forall>f\<in>set (em_Fields e). names_in (var_Type f) \<subseteq> U"
          using struct_fields_names [OF U(1) eU] e by blast
        ultimately have "collectStructFields (env, ps', owner) (em_Fields e) (embed_frame env fr e) s' \<noteq> None" for s'
          by (intro IH) auto
        then show ?thesis
          using Cons True o Some tail by (subst collectStructFields.simps) (simp add: bind_eq_None_conv)
      qed
    next
      case False
      have "named_field env owner f fr s \<noteq> None" by (rule named_field_returns [OF U]) (use names Cons in auto)
      then show ?thesis
        using Cons False tail by (subst collectStructFields.simps) (simp add: bind_eq_None_conv)
    qed
  qed
qed

section \<open>The queue runs dry\<close>

lemma part_of_names: "part_of env u t \<Longrightarrow> go_program env ps U \<Longrightarrow> names_in t \<subseteq> U \<Longrightarrow> names_in u \<subseteq> U"
  by (induction rule: part_of.induct) (auto simp: go_program_def)

lemma mentions_names:
  assumes "go_program env ps U" "names_in t \<subseteq> U" "mentions env t m"
  shows "m \<in> U"
proof -
  have "(part_of env)\<^sup>*\<^sup>* (named_ty m) t" using assms(3) by (simp add: mentions_def)
  then have "names_in (named_ty m) \<subseteq> U"
    using assms(2)
  proof (induction rule: converse_rtranclp_induct)
    case (step y z)
    then show ?case using part_of_names [OF _ assms(1)] by blast
  qed
  then show ?thesis by (cases m) (simp add: named_ty_def)
qed

lemma field_core_names:
  assumes "go_program env ps U" "names_in t \<subseteq> U"
  shows "names_in (field_core env t) \<subseteq> U"
proof -
  have s: "names_in (strip_pointer t) \<subseteq> U" using assms(2) by (simp add: strip_pointer_names)
  show ?thesis
  proof (cases "slice_alias env (strip_pointer t)")
    case (Some r)
    then obtain i as e where r: "strip_pointer t = Named i as" "ge_Underlying env (i, as) = TSlice e" "snd r = e"
      by (auto simp: slice_alias_def split: go_ty.splits go_lit.splits if_splits)
    then have "(i, as) \<in> U" using s by simp
    then have "names_lit (TSlice e) \<subseteq> U" using assms(1) r(2) unfolding go_program_def by metis
    then show ?thesis using Some r by (auto simp: field_core_def split: prod.splits)
  qed (use s in \<open>simp add: field_core_def\<close>)
qed

lemma walked_names:
  "walked ctx fs fr g fr' \<Longrightarrow> go_program (fst ctx) ps U \<Longrightarrow> \<forall>f\<in>set fs. names_in (var_Type f) \<subseteq> U \<Longrightarrow>
     names_in (var_Type g) \<subseteq> U"
proof (induction rule: walked.induct)
  case (walked_embed f fs fr e g fr')
  obtain env ps' owner where ctx: "ctx = (env, ps', owner)" by (cases ctx)
  note e = opened_embed [OF walked_embed(3) [unfolded ctx]]
  then have "em_Named e \<in> U" using walked_embed by blast
  then have "\<forall>f\<in>set (em_Fields e). names_in (var_Type f) \<subseteq> U"
    using struct_fields_names [of env ps U "em_Named e"] e walked_embed(6) ctx by auto
  then show ?case using walked_embed by blast
qed simp

lemma refers_names:
  assumes "go_program env ps U" "n \<in> U" "struct_refers env ps n m"
  shows "m \<in> U"
proof -
  obtain str doc ast where str: "struct_fields (ge_Underlying env n) = Some str"
    and m: "m \<in> field_targets (env, ps, n) str (top_frame ast)"
    using assms(3) by (auto simp: struct_refers_def split: option.splits prod.splits)
  have "\<forall>f\<in>set str. names_in (var_Type f) \<subseteq> U" using struct_fields_names [OF assms(1,2) str] by blast
  moreover obtain g fr' where "walked (env, ps, n) str (top_frame ast) g fr'"
    and g: "mentions env (field_core env (var_Type g)) m"
    using m unfolding field_targets_def by auto
  ultimately have "names_in (var_Type g) \<subseteq> U"
    using walked_names [of "(env, ps, n)" str "top_frame ast" g fr' ps U] assms(1) by simp
  then show ?thesis using mentions_names [OF assms(1) field_core_names [OF assms(1)] g] by simp
qed

lemma closure_names:
  assumes "go_program env ps U" "set roots \<subseteq> U"
  shows "closure_of env ps roots \<subseteq> U"
proof
  fix m
  assume "m \<in> closure_of env ps roots"
  then obtain r where r: "r \<in> U" "(struct_refers env ps)\<^sup>*\<^sup>* r m" using assms(2) unfolding closure_of_def by blast
  from r(2,1) show "m \<in> U" by (induction rule: rtranclp_induct) (blast intro: refers_names [OF assms(1)])+
qed

lemma flatten_returns:
  assumes U: "go_program env ps U" "all_grounded env U" and n: "n \<in> U"
  shows "flatten env ps n b \<noteq> None"
proof (cases "struct_fields (ge_Underlying env n)")
  case (Some str)
  have "\<forall>f\<in>set str. names_in (var_Type f) \<subseteq> U" using struct_fields_names [OF U(1) n Some] by blast
  then have c: "collectStructFields (env, ps, n) str fr s \<noteq> None" for fr s by (rule collect_returns [OF U])
  have "Option.bind (collectStructFields (env, ps, n) str fr s) (\<lambda>s. Some (g s)) \<noteq> None" for fr s
      and g :: "collected \<Rightarrow> builder"
    using c [of fr s] by auto
  then show ?thesis
    using Some by (simp add: flatten_def Let_def case_prod_unfold)
qed (simp add: flatten_def)

text \<open>The entries still to be made and the entries in the queue.\<close>

definition work_left :: "string set \<Rightarrow> (string \<times> struct_decl option) list \<times> named list \<Rightarrow> nat" where
  "work_left K c = card (K - keys_of c) + length (snd c)"

lemma enq_work:
  assumes "finite K" "keyOf env n \<in> K"
  shows "work_left K (enq env n c) = work_left K c"
proof (cases "keyOf env n \<in> keys_of c")
  case True
  then show ?thesis by (auto simp: work_left_def enq_def keys_of_def)
next
  case False
  have "K - keys_of (enq env n c) = (K - keys_of c) - {keyOf env n}" using enq_facts(1) [of env n c] by auto
  moreover have "0 < card (K - keys_of c)" using assms False by (auto simp: card_gt_0_iff)
  moreover have "length (snd (enq env n c)) = Suc (length (snd c))"
    using False by (auto simp: enq_def keys_of_def)
  ultimately show ?thesis using assms False by (simp add: work_left_def card_Diff_singleton_if)
qed

lemma fold_enq_work:
  "finite K \<Longrightarrow> keyOf env ` set ns \<subseteq> K \<Longrightarrow> work_left K (fold (enq env) ns c) = work_left K c"
  by (induction ns arbitrary: c) (simp_all add: enq_work)

lemma flatten_work:
  assumes "finite K" "is_struct env n" "flatten env ps n (b\<lparr>bd_queue := q\<rparr>) = Some b'"
    and "bd_queue b = n # q" "keyOf env n \<in> keys_of (core b)" "\<And>m. struct_refers env ps n m \<Longrightarrow> keyOf env m \<in> K"
  shows "work_left K (core b') < work_left K (core b)"
proof -
  let ?k = "keyOf env n"
  from flatten_grown [OF assms(2,3)] obtain ns sd0 sd where
    ns: "set ns = {m. struct_refers env ps n m}"
    and b': "core b' = (AList.update ?k (Some sd) (fst (fold (enq env) ns (AList.update ?k (Some sd0) (bd_seen b), q))),
      snd (fold (enq env) ns (AList.update ?k (Some sd0) (bd_seen b), q)))"
    by (auto simp: Let_def)
  let ?c0 = "(AList.update ?k (Some sd0) (bd_seen b), q)"
  have keys0: "keys_of ?c0 = keys_of (core b)" using assms(5) by (auto simp: keys_of_def update_conv')
  have "?k \<in> keys_of (fold (enq env) ns ?c0)" using assms(5) by (simp add: fold_enq_keys keys0)
  then have "keys_of (core b') = keys_of (fold (enq env) ns ?c0)" by (auto simp: b' keys_of_def update_conv')
  then have "work_left K (core b') = work_left K (fold (enq env) ns ?c0)" by (simp add: work_left_def b')
  also have "\<dots> = work_left K ?c0" by (rule fold_enq_work) (use assms(1,6) ns in auto)
  also have "\<dots> < work_left K (core b)" using assms(4) keys0 by (simp add: work_left_def)
  finally show ?thesis .
qed

lemma run_queue_returns:
  assumes U: "go_program env ps U" "all_grounded env U"
    and roots: "set roots \<subseteq> U" "\<forall>r\<in>set roots. is_struct env r"
  shows "closure_inv env ps roots b \<Longrightarrow> run_queue env ps b \<noteq> None"
proof (induction "work_left (keyOf env ` U) (core b)" arbitrary: b rule: less_induct)
  case less
  show ?case
  proof (cases "bd_queue b")
    case Nil
    then show ?thesis by (subst run_queue.simps) simp
  next
    case (Cons n q)
    have nR: "n \<in> closure_of env ps roots" using less.prems Cons by (simp add: closure_inv_def)
    then have n: "n \<in> U" "is_struct env n"
      using closure_names [OF U(1) roots(1)] closure_struct [OF roots(2)] by auto
    have kn: "keyOf env n \<in> keys_of (core b)" using less.prems Cons by (simp add: closure_inv_def)
    obtain b1 where b1: "flatten env ps n (b\<lparr>bd_queue := q\<rparr>) = Some b1"
      using flatten_returns [OF U n(1), of "b\<lparr>bd_queue := q\<rparr>"] by blast
    have "work_left (keyOf env ` U) (core b1) < work_left (keyOf env ` U) (core b)"
    proof (rule flatten_work [OF _ n(2) b1 Cons kn])
      show "finite (keyOf env ` U)" using U(1) by (simp add: go_program_def)
      show "keyOf env m \<in> keyOf env ` U" if "struct_refers env ps n m" for m
        using refers_names [OF U(1) n(1) that] by simp
    qed
    then have "run_queue env ps b1 \<noteq> None"
      using less.hyps closure_inv_step [OF less.prems Cons roots(2) b1] by blast
    then show ?thesis using Cons b1 by (subst run_queue.simps) simp
  qed
qed


end
