(* ===== verification/Validate_Spec.thy ===== *)
theory Validate_Spec
  imports Validate
begin

text \<open>
  What \<^verbatim>\<open>Validate\<close> decides: it terminates on every schema, and reports nothing exactly for the schemas
  whose structs obey the rules and whose reference graph has no cycle reachable from a root.
\<close>

section \<open>The reference graph\<close>

definition refs_edge :: "(string \<Rightarrow> struct_decl option) \<Rightarrow> (string \<times> string) set" where
  "refs_edge byKey =
     {(a, b). \<exists>sd fd. byKey a = Some sd \<and> (fd, b) \<in> set (out_refs (\<lambda>k. byKey k \<noteq> None) sd)}"

lemma collectRefs_keys: "n \<in> set (collectRefs isKey s) \<Longrightarrow> isKey n"
proof (induction isKey s rule: collectRefs.induct)
  case (1 isKey s)
  note unfold = 1(4) [unfolded collectRefs.simps [of isKey s] Let_def]
  consider "strip_stars s = []" | "strip_stars s \<noteq> []" "has_prefix ''map['' (strip_stars s)"
    | "strip_stars s \<noteq> []" "\<not> has_prefix ''map['' (strip_stars s)" by blast
  then show ?case
  proof cases
    case 2
    then show ?thesis
      using unfold 1(1) [OF refl] 1(2) [OF refl]
      by (cases "matchBracket (strip_stars s) 3") (auto simp del: dropWhile_eq_Nil_conv)
  next
    case 3
    then show ?thesis
      using unfold 1(3) [OF refl]
      by (cases "after_bracket (strip_stars s)")
        (auto simp del: dropWhile_eq_Nil_conv split: if_splits)
  qed (use unfold in simp)
qed

lemma out_refs_keys: "(fd, n) \<in> set (out_refs isKey sd) \<Longrightarrow> isKey n"
  by (auto simp: out_refs_def referencedKeys_def dest: collectRefs_keys split: if_splits)

lemma refs_edge_out:
  "byKey a = Some sd \<Longrightarrow> (a, b) \<in> refs_edge byKey \<longleftrightarrow> b \<in> snd ` set (out_refs (\<lambda>k. byKey k \<noteq> None) sd)"
  by (force simp: refs_edge_def)

lemma refs_edge_dom: "(a, b) \<in> refs_edge byKey \<Longrightarrow> byKey a \<noteq> None \<and> byKey b \<noteq> None"
  by (auto simp: refs_edge_def dest: out_refs_keys)

section \<open>The walk terminates\<close>

definition unseen :: "(string \<Rightarrow> struct_decl option) \<Rightarrow> dfs_state \<Rightarrow> string set" where
  "unseen byKey st = {k \<in> dom byKey. st k = Unseen}"

lemma dfs_refs_total:
  assumes "\<And>n es st1. unseen byKey st1 \<subseteq> U \<Longrightarrow> st1 n = Unseen \<Longrightarrow> byKey n \<noteq> None \<Longrightarrow>
      \<exists>r st2. visit n es st1 = Some (r, st2) \<and> unseen byKey st2 \<subseteq> U"
    and "\<forall>(fd, n)\<in>set rs. byKey n \<noteq> None" and "unseen byKey st \<subseteq> U"
  shows "\<exists>r st'. dfs_refs visit ns es rs st = Some (r, st') \<and> unseen byKey st' \<subseteq> U"
  using assms(2,3)
proof (induction rs arbitrary: st)
  case (Cons x rs)
  obtain fd n where x: "x = (fd, n)" by (cases x)
  have "\<exists>r st1. (case st n of Unseen \<Rightarrow> visit n (es @ [fd]) st
      | OnStack \<Rightarrow> Some (cycle_issue ns es fd n, st) | Done \<Rightarrow> Some ([], st)) = Some (r, st1) \<and>
      unseen byKey st1 \<subseteq> U"
    using assms(1) [of st n "es @ [fd]"] Cons.prems x by (cases "st n") auto
  then obtain r st1 where 1: "(case st n of Unseen \<Rightarrow> visit n (es @ [fd]) st
      | OnStack \<Rightarrow> Some (cycle_issue ns es fd n, st) | Done \<Rightarrow> Some ([], st)) = Some (r, st1)"
      "unseen byKey st1 \<subseteq> U" by blast
  obtain r2 st2 where "dfs_refs visit ns es rs st1 = Some (r2, st2)" "unseen byKey st2 \<subseteq> U"
    using Cons.IH [OF _ 1(2)] Cons.prems(1) by auto
  then show ?case using 1 x by simp
qed simp

lemma dfs_total:
  assumes "finite (dom byKey)" and "card (unseen byKey (st(key := OnStack))) < d"
  shows "\<exists>r st'. dfs byKey d ns key es st = Some (r, st') \<and> unseen byKey st' \<subseteq> unseen byKey st"
  using assms(2)
proof (induction d arbitrary: ns key es st)
  case (Suc d)
  show ?case
  proof (cases "byKey key")
    case (Some sd)
    let ?st = "st(key := OnStack)" and ?isKey = "\<lambda>k. byKey k \<noteq> None"
    have visit: "\<exists>r st2. dfs byKey d (ns @ [key]) n es' st1 = Some (r, st2) \<and>
        unseen byKey st2 \<subseteq> unseen byKey ?st"
      if "unseen byKey st1 \<subseteq> unseen byKey ?st" "st1 n = Unseen" "byKey n \<noteq> None" for n es' st1
    proof -
      have fin: "finite (unseen byKey st')" for st'
        using assms(1) by (rule finite_subset [rotated]) (auto simp: unseen_def)
      have "unseen byKey (st1(n := OnStack)) \<subset> unseen byKey st1"
        using that(2,3) by (auto simp: unseen_def)
      then have "card (unseen byKey (st1(n := OnStack))) < card (unseen byKey st1)"
        by (rule psubset_card_mono [OF fin])
      also have "\<dots> \<le> card (unseen byKey ?st)" using that(1) by (rule card_mono [OF fin])
      finally have "card (unseen byKey (st1(n := OnStack))) < d" using Suc.prems by linarith
      from Suc.IH [OF this] show ?thesis using that(1) by blast
    qed
    have "\<exists>r st'. dfs_refs (dfs byKey d (ns @ [key])) (ns @ [key]) es (out_refs ?isKey sd) ?st =
        Some (r, st') \<and> unseen byKey st' \<subseteq> unseen byKey ?st"
      by (rule dfs_refs_total) (use visit out_refs_keys [of _ _ ?isKey] in auto)
    then obtain r st' where "dfs_refs (dfs byKey d (ns @ [key])) (ns @ [key]) es (out_refs ?isKey sd) ?st =
        Some (r, st')" "unseen byKey st' \<subseteq> unseen byKey ?st" by blast
    moreover have "unseen byKey (st'(key := Done)) \<subseteq> unseen byKey st'"
      and "unseen byKey ?st \<subseteq> unseen byKey st" by (auto simp: unseen_def)
    ultimately show ?thesis using Some by auto
  qed auto
qed simp

lemma walk_roots_total:
  assumes "finite (dom byKey)" and "card (dom byKey) < d"
  shows "\<exists>r st'. walk_roots byKey d rs st = Some (r, st')"
proof (induction rs arbitrary: st)
  case (Cons r rs)
  have "unseen byKey (st(ref_key r := OnStack)) \<subseteq> dom byKey" by (auto simp: unseen_def)
  then have "card (unseen byKey (st(ref_key r := OnStack))) < d"
    using card_mono [OF assms(1)] assms(2) by (meson le_less_trans)
  from dfs_total [OF assms(1) this, of "[]" "[]"] obtain f st1
    where "dfs byKey d [] (ref_key r) [] st = Some (f, st1)" by blast
  then show ?case using Cons.IH [of st1] by auto
qed simp

lemma byKey_finite:
  shows "finite (dom (index_by_key ss))" and "card (dom (index_by_key ss)) \<le> length ss"
proof -
  have d: "dom (index_by_key ss) = (\<lambda>s. ref_key (sd_Type s)) ` set ss"
    by (rule set_eqI) (simp only: index_by_key_def domIff index_by_None_iff not_not)
  show "finite (dom (index_by_key ss))" unfolding d by simp
  show "card (dom (index_by_key ss)) \<le> length ss"
    unfolding d using card_image_le card_length le_trans by (metis List.finite_set)
qed

text \<open>
  The cycle check always returns: the depth of its recursion never exceeds the number of structs,
  however the structs refer to each other and whatever roots are given.
\<close>

theorem Validate_terminates: "\<exists>issues. Validate s pkgs = Some issues"
proof -
  have "\<exists>r st'. walk_roots (index_by_key (sc_Structs s)) (Suc (length (sc_Structs s))) (sc_Roots s)
      (\<lambda>_. Unseen) = Some (r, st')"
    using walk_roots_total [OF byKey_finite(1)] byKey_finite(2) by (metis le_imp_less_Suc)
  then show ?thesis by (auto simp: Validate_def validateNoCycles_def)
qed

section \<open>The rules of one struct\<close>

definition struct_valid :: "string list \<Rightarrow> struct_decl \<Rightarrow> bool" where
  "struct_valid pkgs sd \<longleftrightarrow>
     (pkgs = [] \<or> tr_pkg (sd_Type sd) = [] \<or> tr_pkg (sd_Type sd) \<in> set pkgs) \<and>
     (if sd_Opaque sd then \<not> sd_TrackPresence sd \<and> \<not> sd_BorrowStrings sd
      else sd_Generic sd = [] \<and> distinct (map fd_Tag (sd_Fields sd)) \<and>
        (\<forall>fd\<in>set (sd_Fields sd).
           fd_Tag fd \<noteq> 0 \<and> fd_Tag fd \<notin> set (sd_Reserved sd) \<and>
           (fd_MapKey fd \<noteq> [] \<longrightarrow> isAcceptableMapKey (fd_MapKey fd)) \<and>
           (is_composite (fd_Type fd) \<longrightarrow>
              fd_Custom fd = [] \<and> (fd_Optional fd \<longrightarrow> fd_Type fd \<in> {''[]byte'', ''[]uint8''}))))"

lemma field_issues_Nil:
  "field_issues sd seen fd = [] \<longleftrightarrow>
     seen (fd_Tag fd) = None \<and> fd_Tag fd \<noteq> 0 \<and> fd_Tag fd \<notin> set (sd_Reserved sd) \<and>
     (fd_MapKey fd \<noteq> [] \<longrightarrow> isAcceptableMapKey (fd_MapKey fd)) \<and>
     (is_composite (fd_Type fd) \<longrightarrow>
        fd_Custom fd = [] \<and> (fd_Optional fd \<longrightarrow> fd_Type fd \<in> {''[]byte'', ''[]uint8''}))"
  by (auto simp: field_issues_def Let_def split: option.splits)

lemma fields_issues_Nil:
  "fields_issues sd seen fds = [] \<longleftrightarrow>
     (\<forall>fd\<in>set fds. field_issues sd (\<lambda>_. None) fd = []) \<and> distinct (map fd_Tag fds) \<and>
     (\<forall>fd\<in>set fds. seen (fd_Tag fd) = None)"
proof (induction fds arbitrary: seen)
  case (Cons fd fds)
  have "field_issues sd seen fd = [] \<longleftrightarrow> field_issues sd (\<lambda>_. None) fd = [] \<and> seen (fd_Tag fd) = None"
    by (auto simp only: field_issues_Nil)
  moreover have "(\<forall>x\<in>set fds. (seen(fd_Tag fd \<mapsto> fd_Name fd)) (fd_Tag x) = None) \<longleftrightarrow>
      fd_Tag fd \<notin> fd_Tag ` set fds \<and> (\<forall>x\<in>set fds. seen (fd_Tag x) = None)"
    by (auto simp: image_iff)
  ultimately show ?case
    unfolding fields_issues.simps append_is_Nil_conv Cons.IH list.map distinct.simps set_map list.set
      ball_simps by blast
qed simp

lemma validateStruct_Nil: "validateStruct sd pkgs (pkgs \<noteq> []) = [] \<longleftrightarrow> struct_valid pkgs sd"
  by (auto simp: validateStruct_def struct_valid_def Let_def fields_issues_Nil field_issues_Nil)

section \<open>What the walk finds\<close>

text \<open>
  \<open>on_path\<close> ties the state to the path; \<open>settled\<close> says that the finished structs only refer to
  finished ones and lie on no cycle.
\<close>

definition on_path :: "string list \<Rightarrow> dfs_state \<Rightarrow> bool" where
  "on_path ns st \<longleftrightarrow> (\<forall>k. st k = OnStack \<longleftrightarrow> k \<in> set ns)"

definition settled :: "(string \<times> string) set \<Rightarrow> dfs_state \<Rightarrow> bool" where
  "settled E st \<longleftrightarrow> (\<forall>a. st a = Done \<longrightarrow> (a, a) \<notin> E\<^sup>+ \<and> (\<forall>b. (a, b) \<in> E \<longrightarrow> st b = Done))"

definition reaches_cycle :: "(string \<times> string) set \<Rightarrow> string \<Rightarrow> bool" where
  "reaches_cycle E a \<longleftrightarrow> (\<exists>c. (a, c) \<in> E\<^sup>* \<and> (c, c) \<in> E\<^sup>+)"

definition keeps_done :: "dfs_state \<Rightarrow> dfs_state \<Rightarrow> bool" where
  "keeps_done st st' \<longleftrightarrow> (\<forall>k. st k = Done \<longrightarrow> st' k = Done)"

lemma settled_closed:
  assumes "settled E st" and "(a, b) \<in> E\<^sup>*" and "st a = Done"
  shows "st b = Done"
  using assms(2,3,1) by (induction rule: rtrancl_induct) (auto simp: settled_def)

lemma settled_no_cycle: "settled E st \<Longrightarrow> st a = Done \<Longrightarrow> \<not> reaches_cycle E a"
  unfolding reaches_cycle_def by (meson settled_closed settled_def)

lemma reaches_cycle_step: "(a, b) \<in> E \<Longrightarrow> reaches_cycle E b \<Longrightarrow> reaches_cycle E a"
  by (meson reaches_cycle_def converse_rtrancl_into_rtrancl)

lemma settled_finish:
  assumes "settled E st" and "st key = OnStack" and "\<And>b. (key, b) \<in> E \<Longrightarrow> st b = Done"
  shows "settled E (st(key := Done))"
proof -
  have "(key, key) \<notin> E\<^sup>+"
  proof
    assume "(key, key) \<in> E\<^sup>+"
    then obtain b where "(key, b) \<in> E" "(b, key) \<in> E\<^sup>*" by (metis tranclD)
    then have "st key = Done" using settled_closed [OF assms(1)] assms(3) by blast
    then show False using assms(2) by simp
  qed
  then show ?thesis using assms by (auto simp: settled_def)
qed

lemma cycle_issue_Nil: "cycle_issue ns es fd n = [] \<longleftrightarrow> n \<notin> set ns"
proof -
  have "set ns = snd ` set (enumerate 0 ns)" by (metis list.set_map map_snd_enumerate)
  then have "path_index n ns = None \<longleftrightarrow> n \<notin> set ns"
    by (force simp: path_index_def find_None_iff)
  then show ?thesis by (cases "path_index n ns") (auto simp: cycle_issue_def)
qed

text \<open>What a visit of \<open>key\<close> below the path \<open>ns\<close> guarantees.\<close>

definition visit_ok ::
  "(string \<Rightarrow> struct_decl option) \<Rightarrow> string list \<Rightarrow> string \<Rightarrow> dfs_state \<Rightarrow> issue list \<Rightarrow> dfs_state \<Rightarrow> bool" where
  "visit_ok byKey ns key st found st' \<longleftrightarrow>
     on_path ns st' \<and>
     (found \<noteq> [] \<longrightarrow> reaches_cycle (refs_edge byKey) key) \<and>
     (found = [] \<and> st key = Unseen \<and> settled (refs_edge byKey) st \<longrightarrow>
        settled (refs_edge byKey) st' \<and> keeps_done st st' \<and> (byKey key \<noteq> None \<longrightarrow> st' key = Done))"

lemma dfs_refs_spec:
  assumes visit: "\<And>n es st1 r st2. visit n es st1 = Some (r, st2) \<Longrightarrow> on_path ns st1 \<Longrightarrow> n \<notin> set ns \<Longrightarrow>
      byKey n \<noteq> None \<Longrightarrow> (key, n) \<in> refs_edge byKey \<Longrightarrow> visit_ok byKey ns n st1 r st2"
    and path: "\<And>p. p \<in> set ns \<Longrightarrow> (p, key) \<in> (refs_edge byKey)\<^sup>*"
    and rs: "\<forall>(fd, n)\<in>set rs. (key, n) \<in> refs_edge byKey"
    and run: "dfs_refs visit ns es rs st = Some (found, st')" and on: "on_path ns st"
  shows "on_path ns st' \<and> (found \<noteq> [] \<longrightarrow> reaches_cycle (refs_edge byKey) key) \<and>
     (found = [] \<and> settled (refs_edge byKey) st \<longrightarrow>
        settled (refs_edge byKey) st' \<and> keeps_done st st' \<and> (\<forall>(fd, n)\<in>set rs. st' n = Done))"
  using rs run on
proof (induction rs arbitrary: st found st')
  case (Cons x rs)
  obtain fd n where x: "x = (fd, n)" by (cases x)
  let ?E = "refs_edge byKey"
  have edge: "(key, n) \<in> ?E" using Cons.prems(1) x by simp
  let ?first = "case st n of Unseen \<Rightarrow> visit n (es @ [fd]) st
      | OnStack \<Rightarrow> Some (cycle_issue ns es fd n, st) | Done \<Rightarrow> Some ([], st)"
  obtain f1 st1 f2 where first: "?first = Some (f1, st1)"
    and rest_run: "dfs_refs visit ns es rs st1 = Some (f2, st')" and found: "found = f1 @ f2"
    using Cons.prems(2) x by (auto split: option.splits)
  have first_ok: "on_path ns st1 \<and> (f1 \<noteq> [] \<longrightarrow> reaches_cycle ?E key) \<and>
      (f1 = [] \<and> settled ?E st \<longrightarrow> settled ?E st1 \<and> keeps_done st st1 \<and> st1 n = Done)"
  proof (cases "st n")
    case Unseen
    then have "n \<notin> set ns" using Cons.prems(3) unfolding on_path_def by (metis node_state.distinct(1))
    moreover have "byKey n \<noteq> None" using refs_edge_dom [OF edge] by simp
    ultimately have "visit_ok byKey ns n st f1 st1"
      using visit [of n "es @ [fd]" st] first Unseen Cons.prems(3) edge by simp
    then show ?thesis
      using Unseen \<open>byKey n \<noteq> None\<close> reaches_cycle_step [OF edge] by (auto simp: visit_ok_def)
  next
    case OnStack
    then have "n \<in> set ns" using Cons.prems(3) by (auto simp: on_path_def)
    then have "(n, n) \<in> ?E\<^sup>+" using path edge by (meson rtrancl_into_trancl1)
    then have "reaches_cycle ?E key" using edge by (auto simp: reaches_cycle_def)
    then show ?thesis using OnStack first Cons.prems(3) cycle_issue_Nil \<open>n \<in> set ns\<close> by auto
  next
    case Done
    then show ?thesis using first Cons.prems(3) by (auto simp: keeps_done_def)
  qed
  then show ?case
    using Cons.IH [OF _ rest_run] Cons.prems(1) x found by (auto simp: keeps_done_def)
qed (auto simp: keeps_done_def)

lemma dfs_spec:
  assumes "dfs byKey d ns key es st = Some (found, st')" and "on_path ns st" and "key \<notin> set ns"
    and "\<And>p. p \<in> set ns \<Longrightarrow> (p, key) \<in> (refs_edge byKey)\<^sup>*"
  shows "visit_ok byKey ns key st found st'"
  using assms
proof (induction d arbitrary: ns key es st found st')
  case (Suc d)
  let ?E = "refs_edge byKey"
  show ?case
  proof (cases "byKey key")
    case None
    then show ?thesis using Suc.prems by (auto simp: visit_ok_def keeps_done_def)
  next
    case (Some sd)
    let ?rs = "out_refs (\<lambda>k. byKey k \<noteq> None) sd" and ?st = "st(key := OnStack)"
    obtain st1 where run: "dfs_refs (dfs byKey d (ns @ [key])) (ns @ [key]) es ?rs ?st = Some (found, st1)"
      and st': "st' = st1(key := Done)"
      using Suc.prems(1) Some by (auto split: option.splits)
    have on: "on_path (ns @ [key]) ?st" using Suc.prems(2) by (auto simp: on_path_def)
    have path: "(p, key) \<in> ?E\<^sup>*" if "p \<in> set (ns @ [key])" for p
      using Suc.prems(4) that by auto
    have edges: "\<forall>(fd, n)\<in>set ?rs. (key, n) \<in> ?E"
      using Some by (auto simp: refs_edge_def)
    have spec: "on_path (ns @ [key]) st1 \<and> (found \<noteq> [] \<longrightarrow> reaches_cycle ?E key) \<and>
        (found = [] \<and> settled ?E ?st \<longrightarrow>
           settled ?E st1 \<and> keeps_done ?st st1 \<and> (\<forall>(fd, n)\<in>set ?rs. st1 n = Done))"
    proof (rule dfs_refs_spec [OF _ path edges run on])
      fix n es st1 r st2
      assume *: "dfs byKey d (ns @ [key]) n es st1 = Some (r, st2)" "on_path (ns @ [key]) st1"
        "n \<notin> set (ns @ [key])" "(key, n) \<in> ?E"
      show "visit_ok byKey (ns @ [key]) n st1 r st2"
        by (rule Suc.IH [OF *(1-3)]) (use path *(4) in \<open>meson rtrancl.rtrancl_into_rtrancl\<close>)
    qed
    have "on_path ns st'" using spec Suc.prems(3) st' by (auto simp: on_path_def)
    moreover have "settled ?E st' \<and> keeps_done st st'"
      if "found = []" "st key = Unseen" "settled ?E st"
    proof -
      have "settled ?E ?st" using that(2,3) by (fastforce simp: settled_def)
      then have 1: "settled ?E st1" "keeps_done ?st st1" "\<forall>(fd, n)\<in>set ?rs. st1 n = Done"
        using spec that(1) by auto
      have "st1 key = OnStack" using spec by (auto simp: on_path_def)
      moreover have "st1 b = Done" if "(key, b) \<in> ?E" for b
        using 1(3) that refs_edge_out [where byKey = byKey, OF Some] by auto
      ultimately have "settled ?E st'" unfolding st' by (rule settled_finish [OF 1(1)])
      then show ?thesis using 1(2) st' that(2) by (auto simp: keeps_done_def)
    qed
    moreover have "st' key = Done" using st' by simp
    moreover have "found \<noteq> [] \<longrightarrow> reaches_cycle ?E key" using spec by blast
    ultimately show ?thesis unfolding visit_ok_def by blast
  qed
qed simp

text \<open>A root that is finished already is walked again; nothing is found and nothing changes.\<close>

lemma revisit:
  assumes "settled (refs_edge byKey) st" and "st key = Done" and "byKey key \<noteq> None"
  shows "dfs byKey (Suc d) [] key [] st = Some ([], st)"
proof -
  obtain sd where sd: "byKey key = Some sd" using assms(3) by blast
  have skip: "dfs_refs visit ns es rs (st(key := OnStack)) = Some ([], st(key := OnStack))"
    if "\<forall>(fd, n)\<in>set rs. n \<noteq> key \<and> st n = Done" for visit ns es rs
    using that by (induction rs) auto
  have "n \<noteq> key \<and> st n = Done" if "(key, n) \<in> refs_edge byKey" for n
    using assms(1,2) that by (auto simp: settled_def)
  then have "\<forall>(fd, n)\<in>set (out_refs (\<lambda>k. byKey k \<noteq> None) sd). n \<noteq> key \<and> st n = Done"
    using sd by (auto simp: refs_edge_def)
  note this [THEN skip]
  then show ?thesis using sd assms(2) by (simp add: fun_upd_idem)
qed

lemma walk_roots_finds:
  assumes "walk_roots byKey d rs st = Some (found, st')" and "on_path [] st" and "found \<noteq> []"
  shows "\<exists>r\<in>set rs. reaches_cycle (refs_edge byKey) (ref_key r)"
  using assms
proof (induction rs arbitrary: st found st')
  case (Cons r rs)
  obtain f1 st1 f2 where first: "dfs byKey d [] (ref_key r) [] st = Some (f1, st1)"
    and later: "walk_roots byKey d rs st1 = Some (f2, st')" and found: "found = f1 @ f2"
    using Cons.prems(1) by (auto split: option.splits)
  have "visit_ok byKey [] (ref_key r) st f1 st1"
    by (rule dfs_spec [OF first Cons.prems(2)]) auto
  then show ?case using Cons.IH [OF later] Cons.prems(3) found by (auto simp: visit_ok_def)
qed simp

lemma walk_roots_clean:
  assumes "walk_roots byKey (Suc d) rs st = Some ([], st')" and "on_path [] st"
    and "settled (refs_edge byKey) st"
  shows "settled (refs_edge byKey) st' \<and> keeps_done st st' \<and>
     (\<forall>r\<in>set rs. byKey (ref_key r) \<noteq> None \<longrightarrow> st' (ref_key r) = Done)"
  using assms
proof (induction rs arbitrary: st)
  case (Cons r rs)
  let ?E = "refs_edge byKey" and ?k = "ref_key r"
  obtain st1 where first: "dfs byKey (Suc d) [] ?k [] st = Some ([], st1)"
    and later: "walk_roots byKey (Suc d) rs st1 = Some ([], st')"
    using Cons.prems(1) by (auto simp del: dfs.simps split: option.splits)
  have "visit_ok byKey [] ?k st [] st1"
    by (rule dfs_spec [OF first Cons.prems(2)]) auto
  then have *: "on_path [] st1" "st ?k = Unseen \<Longrightarrow> settled ?E st1 \<and> keeps_done st st1 \<and>
      (byKey ?k \<noteq> None \<longrightarrow> st1 ?k = Done)"
    using Cons.prems(3) unfolding visit_ok_def by blast+
  have "settled ?E st1 \<and> keeps_done st st1 \<and> (byKey ?k \<noteq> None \<longrightarrow> st1 ?k = Done)"
  proof (cases "st ?k")
    case OnStack
    then show ?thesis using Cons.prems(2) by (auto simp: on_path_def)
  next
    case Done
    show ?thesis
    proof (cases "byKey ?k")
      case None
      then show ?thesis using first Cons.prems(3) by (auto simp: keeps_done_def)
    next
      case (Some sd)
      then have "st1 = st" using revisit [OF Cons.prems(3) Done] first by auto
      then show ?thesis using Done Cons.prems(3) by (auto simp: keeps_done_def)
    qed
  qed (rule *(2))
  then show ?case using Cons.IH [OF later *(1)] by (auto simp: keeps_done_def)
qed (auto simp: keeps_done_def)

lemma validateNoCycles_Nil:
  "validateNoCycles s = Some [] \<longleftrightarrow>
     (\<forall>r\<in>set (sc_Roots s). \<not> reaches_cycle (refs_edge (index_by_key (sc_Structs s))) (ref_key r))"
  (is "?run \<longleftrightarrow> ?free")
proof -
  let ?byKey = "index_by_key (sc_Structs s)" and ?d = "length (sc_Structs s)"
  let ?E = "refs_edge ?byKey"
  obtain found st' where walk: "walk_roots ?byKey (Suc ?d) (sc_Roots s) (\<lambda>_. Unseen) = Some (found, st')"
    using walk_roots_total [OF byKey_finite(1)] byKey_finite(2) by (metis le_imp_less_Suc)
  have run: "?run \<longleftrightarrow> found = []" using walk by (simp add: validateNoCycles_def)
  have init: "on_path [] (\<lambda>_. Unseen)" "settled ?E (\<lambda>_. Unseen)"
    by (auto simp: on_path_def settled_def)
  show ?thesis
  proof
    assume "?run"
    then have clean: "settled ?E st' \<and>
        (\<forall>r\<in>set (sc_Roots s). ?byKey (ref_key r) \<noteq> None \<longrightarrow> st' (ref_key r) = Done)"
      using walk_roots_clean [OF _ init] walk run by blast
    have "\<not> reaches_cycle ?E k" if "?byKey k = None" for k
    proof
      assume "reaches_cycle ?E k"
      then obtain c where "(k, c) \<in> ?E\<^sup>*" "(c, c) \<in> ?E\<^sup>+" unfolding reaches_cycle_def by blast
      then have "(k, c) \<in> ?E\<^sup>+" by (meson rtrancl_trancl_trancl)
      then obtain b where "(k, b) \<in> ?E" by (meson tranclD)
      then show False using refs_edge_dom [of k b ?byKey] that by simp
    qed
    then show ?free using clean settled_no_cycle by blast
  next
    assume ?free
    then show ?run using walk_roots_finds [OF walk init(1)] run by blast
  qed
qed

text \<open>
  C28: Validation is exact. It reports nothing if and only if every struct obeys the rules (its package
  is in the set when one is given; an opaque struct carries no presence or borrow marker; any other is
  not generic and has distinct, non-zero, unreserved tags, acceptable map keys, and no optional or
  custom-codec field over a composite, byte slices behind a pointer apart) and no root reaches a cycle
  of the reference graph, whose edges skip the fields that break cycles or use a custom codec.
\<close>

theorem Validate_exact:
  "Validate s pkgs = Some [] \<longleftrightarrow>
     (\<forall>sd\<in>set (sc_Structs s). struct_valid pkgs sd) \<and>
     (\<forall>r\<in>set (sc_Roots s). \<not> reaches_cycle (refs_edge (index_by_key (sc_Structs s))) (ref_key r))"
proof -
  have "Validate s pkgs = Some [] \<longleftrightarrow>
      (\<forall>sd\<in>set (sc_Structs s). validateStruct sd pkgs (pkgs \<noteq> []) = []) \<and> validateNoCycles s = Some []"
    by (auto simp: Validate_def)
  then show ?thesis by (simp only: validateStruct_Nil validateNoCycles_Nil)
qed

text \<open>A list node that refers to itself, with or without breaking the cycle.\<close>

definition list_schema :: "bool \<Rightarrow> schema" where
  "list_schema broken = \<lparr>sc_FmtVer = 1, sc_SchemaHint = 0, sc_Roots = [TypeRef ''p'' ''N'' [] None],
     sc_Structs = [\<lparr>sd_Type = TypeRef ''p'' ''N'' [] None,
       sd_Fields = [\<lparr>fd_Name = ''Next'', fd_Tag = 1, fd_Type = ''*p.N'', fd_Wire = ''length-delim'',
         fd_Optional = True, fd_Deprecated = False, fd_CompatWrite = False, fd_CycleBreak = broken,
         fd_MapKey = [], fd_MapValue = [], fd_Elem = [], fd_MapKeyUnderlying = [], fd_Custom = [],
         fd_WireOverride = [], fd_AliasType = None, fd_FlattenedFrom = [],
         fd_FlattenedFromPointer = False\<rparr>],
       sd_Reserved = [], sd_Opaque = False, sd_Generic = [], sd_AllowBreaking = [],
       sd_TrackPresence = False, sd_BorrowStrings = False\<rparr>]\<rparr>"

lemma list_schema_node:
  "index_by_key (sc_Structs (list_schema b)) k =
     (if k = ''p.N'' then Some (hd (sc_Structs (list_schema b))) else None)"
  by (simp add: index_by_key_def index_by_def list_schema_def)

lemma list_schema_edges:
  "refs_edge (index_by_key (sc_Structs (list_schema b))) = (if b then {} else {(''p.N'', ''p.N'')})"
proof -
  have "ident_ok ''p.N''" by (simp add: ident_ok_def has_prefix_def balanced_plain balanced_Nil)
  then have "collectRefs isKey ''*p.N'' = (if isKey ''p.N'' then [''p.N''] else [])" for isKey
    using collectRefs_star [of isKey "''p.N''"] collectRefs_ident [of "''p.N''" isKey] by simp
  moreover have "collectRefs isKey [] = []" for isKey by (simp add: collectRefs.simps)
  ultimately have "out_refs isKey (hd (sc_Structs (list_schema b))) =
      (if b \<or> \<not> isKey ''p.N'' then [] else [(hd (sd_Fields (hd (sc_Structs (list_schema b)))), ''p.N'')])"
    for isKey by (simp add: out_refs_def referencedKeys_def list_schema_def)
  then show ?thesis by (auto simp: refs_edge_def list_schema_node split: if_splits)
qed

theorem Validate_exact_witness:
  "Validate (list_schema True) [] = Some [] \<and> Validate (list_schema False) [] \<noteq> Some []"
proof -
  have "\<forall>sd\<in>set (sc_Structs (list_schema b)). struct_valid [] sd" for b
    by (simp add: list_schema_def struct_valid_def is_composite_def has_prefix_def)
  moreover have "\<not> reaches_cycle {} k" for k by (simp add: reaches_cycle_def)
  moreover have "reaches_cycle {(''p.N'', ''p.N'')} ''p.N''" by (auto simp: reaches_cycle_def)
  moreover have "\<forall>r\<in>set (sc_Roots (list_schema b)). ref_key r = ''p.N''" "sc_Roots (list_schema b) \<noteq> []"
    for b by (simp_all add: list_schema_def)
  ultimately show ?thesis
    using Validate_exact [of "list_schema True" "[]"] Validate_exact [of "list_schema False" "[]"]
    unfolding list_schema_edges by (metis list.set_sel(1))
qed

end
