(* ===== verification/Analyze_Spec.thy ===== *)
theory Analyze_Spec
  imports Discover_Returns Validate_Spec
begin

text \<open>
  What the schema analysis guarantees: it returns, its schema is the closure of the roots, and the order
  Go iterates its table in does not show.
\<close>

definition lawful_seen :: "seen_order \<Rightarrow> bool" where
  "lawful_seen order \<longleftrightarrow> (\<forall>xs. mset (order xs) = mset xs)"

lemma lawful_seen_set: "lawful_seen order \<Longrightarrow> set (order xs) = set xs"
  unfolding lawful_seen_def by (metis set_mset_mset)

section \<open>The schema of a finished table\<close>

lemma those_map_Some: "\<forall>x\<in>set xs. \<exists>y. x = Some y \<Longrightarrow> those xs = Some (map the xs)"
  by (induction xs) auto

lemma BuildSchema_run:
  assumes run: "run_queue env ps (fold (enqueue env) roots new_builder) = Some b"
    and st: "\<forall>r\<in>set roots. is_struct env r" and ord: "lawful_seen order"
  shows "BuildSchema env ps order roots =
     Some (\<lparr>sc_FmtVer = schema_FmtVer, sc_SchemaHint = 0, sc_Roots = map (refOf env) roots,
       sc_Structs = map finish_struct (sortStructs (map (the \<circ> snd) (order (bd_seen b))))\<rparr>, bd_issues b)"
proof -
  have "\<forall>x\<in>set (map snd (order (bd_seen b))). \<exists>y. x = Some y"
    using table_final(2) [OF run st] lawful_seen_set [OF ord, of "bd_seen b"] by fastforce
  then show ?thesis by (simp add: BuildSchema_def run those_map_Some)
qed

lemma BuildSchema_runs:
  "BuildSchema env ps order roots = Some r \<Longrightarrow>
     \<exists>b. run_queue env ps (fold (enqueue env) roots new_builder) = Some b"
  by (auto simp: BuildSchema_def bind_eq_Some_conv)

lemma finish_type [simp]: "sd_Type (finish_struct sd) = sd_Type sd"
  by (simp add: finish_struct_def)

lemma finish_order [simp]: "struct_order (finish_struct sd) = struct_order sd"
  by (simp add: struct_order_def)

lemma table_keys:
  assumes "run_queue env ps (fold (enqueue env) roots new_builder) = Some b"
    and "\<forall>r\<in>set roots. is_struct env r"
  shows "map (\<lambda>e. ref_key (sd_Type (the (snd e)))) (bd_seen b) = map fst (bd_seen b)"
  using table_final(2) [OF assms] by fastforce

text \<open>
  C29: The schema is the closure of its roots. When \<^verbatim>\<open>BuildSchema\<close> returns, its structs are exactly the
  struct types reachable from the roots through tagged fields, embedded structs and the parts of
  field types, opaque structs being included but not entered; each is there once, in the order of package,
  name and key. No placeholder of the walk is left over.
\<close>

theorem BuildSchema_closure:
  assumes "BuildSchema env ps order roots = Some (s, issues)" and "lawful_seen order"
    and "\<forall>r\<in>set roots. is_struct env r" and "inj_on (keyOf env) (closure_of env ps roots)"
  shows "set (map (\<lambda>sd. ref_key (sd_Type sd)) (sc_Structs s)) = keyOf env ` closure_of env ps roots \<and>
     distinct (map (\<lambda>sd. ref_key (sd_Type sd)) (sc_Structs s)) \<and>
     sorted (map struct_order (sc_Structs s))"
proof -
  let ?key = "\<lambda>sd. ref_key (sd_Type sd)"
  obtain b where run: "run_queue env ps (fold (enqueue env) roots new_builder) = Some b"
    using BuildSchema_runs [OF assms(1)] by blast
  let ?xs = "map (the \<circ> snd) (order (bd_seen b))"
  have s: "sc_Structs s = map finish_struct (sortStructs ?xs)"
    using assms(1) BuildSchema_run [OF run assms(3,2)] by auto
  have "mset (map ?key ?xs) = mset (map (\<lambda>e. ?key (the (snd e))) (order (bd_seen b)))"
    by (simp only: list.map_comp comp_def)
  also have "\<dots> = image_mset (\<lambda>e. ?key (the (snd e))) (mset (order (bd_seen b)))" by (simp only: mset_map)
  also have "\<dots> = mset (map (\<lambda>e. ?key (the (snd e))) (bd_seen b))"
    using assms(2) by (simp only: lawful_seen_def mset_map)
  also have "\<dots> = mset (map fst (bd_seen b))" by (simp only: table_keys [OF run assms(3)])
  finally have m: "mset (map ?key ?xs) = mset (map fst (bd_seen b))" .
  have "mset (map ?key (sc_Structs s)) = mset (map ?key ?xs)"
    by (simp add: s sortStructs_def multiset.map_comp comp_def)
  then have mm: "mset (map ?key (sc_Structs s)) = mset (map fst (bd_seen b))" using m by simp
  have "distinct (map ?key (sc_Structs s))"
    using table_final(1) [OF run assms(3)] mset_eq_imp_distinct_iff [OF mm] by simp
  moreover have "set (map ?key (sc_Structs s)) = keyOf env ` closure_of env ps roots"
    using mset_eq_setD [OF mm] table_final(4) [OF run assms(3,4)] by simp
  moreover have "sorted (map struct_order (sc_Structs s))"
    by (simp add: s sortStructs_def comp_def)
  ultimately show ?thesis by blast
qed

section \<open>Iteration order\<close>

lemma sort_structs_perm:
  assumes "mset xs = mset ys" "distinct (map (\<lambda>sd. ref_key (sd_Type sd)) xs)"
  shows "sortStructs xs = sortStructs ys"
proof -
  have "inj_on struct_order (set xs)"
    using assms(2) by (auto simp: inj_on_def struct_order_def distinct_map)
  then have "sort_key struct_order xs = sort_key struct_order ys"
    by (intro sort_key_inj_key_eq) (simp_all add: assms(1))
  then show ?thesis by (simp add: sortStructs_def)
qed

lemma BuildSchema_order:
  assumes "lawful_seen a" "lawful_seen c" "\<forall>r\<in>set roots. is_struct env r"
  shows "BuildSchema env ps a roots = BuildSchema env ps c roots"
proof (cases "run_queue env ps (fold (enqueue env) roots new_builder)")
  case None
  then show ?thesis by (simp add: BuildSchema_def)
next
  case (Some b)
  let ?f = "the \<circ> snd"
  have "mset (map ?f (a (bd_seen b))) = mset (map ?f (c (bd_seen b)))"
    using assms(1,2) by (simp only: lawful_seen_def mset_map)
  moreover have "distinct (map (\<lambda>sd. ref_key (sd_Type sd)) (map ?f (a (bd_seen b))))"
  proof -
    have "mset (map (\<lambda>sd. ref_key (sd_Type sd)) (map ?f (a (bd_seen b)))) =
        mset (map (\<lambda>e. ref_key (sd_Type (the (snd e)))) (bd_seen b))"
      using assms(1) by (simp add: lawful_seen_def comp_def)
    then show ?thesis
      using table_keys [OF Some assms(3)] table_final(1) [OF Some assms(3)]
        mset_eq_imp_distinct_iff by metis
  qed
  ultimately have "sortStructs (map ?f (a (bd_seen b))) = sortStructs (map ?f (c (bd_seen b)))"
    by (rule sort_structs_perm)
  then show ?thesis
    using BuildSchema_run [OF Some assms(3,1)] BuildSchema_run [OF Some assms(3,2)] by simp
qed

lemma discover_spec_root:
  assumes "r \<in> set (snd (discover_spec env p dts))"
  shows "is_struct env r \<and> (\<exists>nm. pk_Lookup p nm = Some (TypeName (named_ty r)))"
proof -
  obtain doc ts where d: "dts = (doc, ts)" by (cases dts)
  obtain m e where m: "parseMarkers doc = (m, e)" by fastforce
  have e: "e = None" "mk_root m"
    using assms by (auto simp: discover_spec_def d m split: option.splits if_splits)
  then obtain t where t: "pk_Lookup p (ts_Name ts) = Some (TypeName t)"
    using assms by (auto simp: discover_spec_def d m split: option.splits scope_obj.splits)
  then obtain i as where "t = Named i as" "is_struct env (i, as)" "r = (i, as)"
    using assms e by (cases t) (auto simp: discover_spec_def d m split: if_splits)
  then show ?thesis using t by (auto simp: named_ty_def)
qed

lemma Discover_roots:
  assumes "r \<in> set (fst (Discover env ps))"
  shows "is_struct env r \<and> (\<exists>p\<in>set ps. pk_TopLevel p \<and> (\<exists>nm. pk_Lookup p nm = Some (TypeName (named_ty r))))"
proof -
  obtain p dts where "p \<in> set ps" "pk_TopLevel p" "r \<in> set (snd (discover_spec env p dts))"
    using assms by (auto simp: Discover_def Let_def split: if_splits)
  then show ?thesis using discover_spec_root by blast
qed

text \<open>
  C34: The analysis is deterministic although it collects its structs by iterating a Go map: schema,
  schema hint and issues are the same whatever order the iteration takes.
\<close>

theorem Analyze_order_independent:
  assumes "lawful_seen a" and "lawful_seen c"
  shows "Analyze env ps a sha256 = Analyze env ps c sha256"
  using BuildSchema_order [OF assms, of "fst (Discover env ps)" env ps] Discover_roots
  by (simp add: Analyze_def case_prod_unfold)

section \<open>Returning\<close>

text \<open>
  C30: The analysis gets done. On a program with finitely many named types, none with an infinite
  descent, every struct that enters the queue is flattened, the queue runs dry, validation
  returns, and there is a schema with its hint and its issues.
\<close>

theorem Analyze_returns:
  assumes "go_program env ps U" and "all_grounded env U" and "lawful_seen order"
  shows "\<exists>schema issues. Analyze env ps order sha256 = Some (schema, issues)"
proof -
  let ?roots = "fst (Discover env ps)"
  have st: "\<forall>r\<in>set ?roots. is_struct env r" using Discover_roots by blast
  have "set ?roots \<subseteq> U"
  proof
    fix r
    assume "r \<in> set ?roots"
    then obtain p nm where "p \<in> set ps" "pk_Lookup p nm = Some (TypeName (named_ty r))"
      using Discover_roots by blast
    then have "names_in (named_ty r) \<subseteq> U" using assms(1) by (auto simp: go_program_def)
    then show "r \<in> U" by (cases r) (simp add: named_ty_def)
  qed
  then obtain b where run: "run_queue env ps (fold (enqueue env) ?roots new_builder) = Some b"
    using run_queue_returns [OF assms(1,2) _ st closure_inv_start] by blast
  obtain s where s: "BuildSchema env ps order ?roots = Some s"
    using BuildSchema_run [OF run st assms(3)] by blast
  obtain v where "Validate (fst s) (map pk_Path ps) = Some v" using Validate_terminates by blast
  then show ?thesis using s by (simp add: Analyze_def case_prod_unfold)
qed

section \<open>A program of two structs\<close>

definition ex_items :: go_var where
  "ex_items = Var ''Items'' (Some ''p'') True False (Lit (TSlice (Named 1 []))) (Some ''1'')"

definition ex_id :: go_var where
  "ex_id = Var ''ID'' (Some ''p'') True False (Lit (TBasic KInt ''int'')) (Some ''1'')"

definition ex_env :: go_env where
  "ex_env =
     \<lparr>ge_Obj = (\<lambda>i. \<lparr>to_Name = if i = 0 then ''Root'' else ''Item'', to_Pkg = Some ''p'',
        to_Exported = True, to_TypeParams = []\<rparr>),
      ge_Underlying = (\<lambda>n. TStruct (if fst n = 0 then [ex_items] else [ex_id])),
      ge_String = (\<lambda>_. ''t'')\<rparr>"

definition ex_pkg :: go_package where
  "ex_pkg =
     \<lparr>pk_Path = ''p'',
      pk_Files = [[TypeDecl (Some [''//gsbm:root''])
        [Some \<lparr>ts_Name = ''Root'', ts_Doc = None, ts_Type = EStruct []\<rparr>]]],
      pk_Lookup = (\<lambda>nm. if nm = ''Root'' then Some (TypeName (Named 0 [])) else None),
      pk_TopLevel = True\<rparr>"

lemma ex_struct: "is_struct ex_env n"
  by (simp add: ex_env_def is_struct_lit)

lemma ex_program: "go_program ex_env [ex_pkg] {(0, []), (1, [])}"
  by (simp add: go_program_def ex_env_def ex_pkg_def ex_items_def ex_id_def named_ty_def)

lemma ex_program_bare: "go_program ex_env [] {(0, []), (1, [])}"
  using ex_program by (simp add: go_program_def)

lemma ex_grounded: "all_grounded ex_env {(0, []), (1, [])}"
  by (simp add: all_grounded_def grounded_struct ex_struct)

lemma lawful_id: "lawful_seen id"
  by (simp add: lawful_seen_def)

lemma ex_tag: "ParseFieldTag (Some ''1'') = Inr (no_tag\<lparr>ft_Set := True, ft_Tag := 1\<rparr>)"
proof -
  have "parse_uint32 ''1'' = Some 1"
    by (simp add: parse_uint32_def is_digit_def digits_value_def)
  then show ?thesis
    by (simp add: ParseFieldTag_def max_field_tag_def check_combination_def no_tag_def)
qed

lemma ex_refers: "struct_refers ex_env [] (0, []) (1, [])"
proof -
  have "walked (ex_env, [], (0, [])) [ex_items] (top_frame None) ex_items (top_frame None)"
    by (rule walked_here) (simp_all add: ex_items_def)
  moreover have "shaped_field ex_env (0, []) ex_items None"
    by (simp add: shaped_field_def ex_items_def ex_tag field_guard_def field_markers_def findFieldDoc_def
        parseMarkers_def no_markers_def no_tag_def)
  moreover have "mentions ex_env (field_core ex_env (Lit (TSlice (Named 1 [])))) (1, [])"
    by (simp add: field_core_def slice_alias_def mentions_eqs ex_struct)
  ultimately have "(1, []) \<in> field_targets (ex_env, [], (0, [])) [ex_items] (top_frame None)"
    unfolding field_targets_def
    by (intro CollectI exI [of _ ex_items] exI [of _ "top_frame None"]) (simp add: top_frame_def, simp add: ex_items_def)
  then show ?thesis
    by (simp add: struct_refers_def struct_doc_def findPackage_def parseMarkers_def no_markers_def
        struct_fields_def ex_env_def split: option.split)
qed

theorem Analyze_returns_witness:
  "\<exists>schema issues. Analyze ex_env [ex_pkg] id (\<lambda>_. replicate 32 0) = Some (schema, issues)"
  by (rule Analyze_returns [OF ex_program ex_grounded lawful_id])

theorem Analyze_order_independent_witness:
  "Analyze ex_env [ex_pkg] id (\<lambda>_. replicate 32 0) = Analyze ex_env [ex_pkg] rev (\<lambda>_. replicate 32 0)"
  by (rule Analyze_order_independent) (simp_all add: lawful_seen_def)

theorem BuildSchema_closure_witness:
  "\<exists>s issues. BuildSchema ex_env [] id [(0, [])] = Some (s, issues) \<and>
     {''p.Root'', ''p.Item''} \<subseteq> set (map (\<lambda>sd. ref_key (sd_Type sd)) (sc_Structs s))"
proof -
  have st: "\<forall>r\<in>set [(0, [])]. is_struct ex_env r" by (simp add: ex_struct)
  obtain b where "run_queue ex_env [] (fold (enqueue ex_env) [(0, [])] new_builder) = Some b"
    using run_queue_returns [OF ex_program_bare ex_grounded _ st closure_inv_start] by auto
  from BuildSchema_run [OF this st lawful_id] obtain s issues where
    s: "BuildSchema ex_env [] id [(0, [])] = Some (s, issues)" by blast
  have sub: "closure_of ex_env [] [(0, [])] \<subseteq> {(0, []), (1, [])}"
    by (rule closure_names [OF ex_program_bare]) simp
  have keys: "keyOf ex_env (0, []) = ''p.Root''" "keyOf ex_env (Suc 0, []) = ''p.Item''"
    by (simp_all add: keyOf_def refOf_def named_ty_def pkg_path_of_def Obj_def ex_env_def)
  have "inj_on (keyOf ex_env) (closure_of ex_env [] [(0, [])])"
    by (rule inj_on_subset [OF _ sub]) (use keys in simp)
  from BuildSchema_closure [OF s lawful_id st this] have
    "set (map (\<lambda>sd. ref_key (sd_Type sd)) (sc_Structs s)) = keyOf ex_env ` closure_of ex_env [] [(0, [])]"
    by blast
  moreover have "(0, []) \<in> closure_of ex_env [] [(0, [])]" by (rule closure_root) simp
  moreover from this have "(1, []) \<in> closure_of ex_env [] [(0, [])]" by (rule closure_step [OF _ ex_refers])
  ultimately show ?thesis using s keys by (metis One_nat_def image_eqI insert_subset empty_subsetI)
qed


end
