(* ===== verification/Reference_Cover.thy ===== *)
theory Reference_Cover
  imports Analyze_Spec
begin

text \<open>
  The two walks over the struct graph agree: a struct the closure walk enqueues for an accepted field is one
  the cycle check of \<^verbatim>\<open>validate.go\<close> finds in the field's shape string.
\<close>

section \<open>Structs in a shape\<close>

text \<open>No map key, at any depth, mentions a struct.\<close>

definition plain_keys :: "go_env \<Rightarrow> go_ty \<Rightarrow> bool" where
  "plain_keys env t \<longleftrightarrow>
     (\<forall>k e m. (part_of env)\<^sup>*\<^sup>* (Lit (TMap k e)) t \<longrightarrow> \<not> mentions env k m)"

lemma plain_keys_part: "plain_keys env t \<Longrightarrow> part_of env u t \<Longrightarrow> plain_keys env u"
  unfolding plain_keys_def by (meson rtranclp.rtrancl_into_rtrancl)

lemma plain_keys_map: "plain_keys env (Lit (TMap k e)) \<Longrightarrow> \<not> mentions env k m"
  unfolding plain_keys_def by blast

lemma plain_keys_struct: "is_struct env (i, as) \<Longrightarrow> plain_keys env (Named i as)"
  unfolding plain_keys_def by (auto simp: part_of_Named elim: rtranclp.cases)

lemma plain_keys_slice:
  assumes "plain_keys env e"
  shows "plain_keys env (Lit (TSlice e))"
  unfolding plain_keys_def
proof (intro allI impI)
  fix k v m
  assume "(part_of env)\<^sup>*\<^sup>* (Lit (TMap k v)) (Lit (TSlice e))"
  then obtain u where "(part_of env)\<^sup>*\<^sup>* (Lit (TMap k v)) u" "part_of env u (Lit (TSlice e))"
    by (cases rule: rtranclp.cases) auto
  then show "\<not> mentions env k m" using assms unfolding part_of_lits plain_keys_def by blast
qed

definition shows_structs :: "go_env \<Rightarrow> go_ty \<Rightarrow> bool" where
  "shows_structs env t \<longleftrightarrow>
     (\<forall>tr ns m. shaped env t tr ns \<longrightarrow> m \<in> set ns \<longrightarrow> keyOf env m \<in> set (idents tr))"

inductive_cases shaped_NamedE: "shaped env (Named i as) tr ns"
inductive_cases shaped_SliceE: "shaped env (Lit (TSlice e)) tr ns"
inductive_cases shaped_MapE: "shaped env (Lit (TMap k e)) tr ns"
inductive_cases shaped_PointerE: "shaped env (Lit (TPointer e)) tr ns"

lemma shows_no_structs: "(\<And>m. \<not> mentions env t m) \<Longrightarrow> shows_structs env t"
  using shaped_mentions by (fastforce simp: shows_structs_def)

lemma shows_slice: "shows_structs env e \<Longrightarrow> shows_structs env (Lit (TSlice e))"
  by (fastforce simp: shows_structs_def elim: shaped_SliceE)

lemma shows_pointer: "shows_structs env e \<Longrightarrow> shows_structs env (Lit (TPointer e))"
  by (fastforce simp: shows_structs_def elim: shaped_PointerE)

lemma shows_map: "shows_structs env e \<Longrightarrow> (\<And>m. \<not> mentions env k m) \<Longrightarrow> shows_structs env (Lit (TMap k e))"
  using shaped_mentions [of env k] by (fastforce simp: shows_structs_def elim: shaped_MapE)

lemma shows_struct: "is_struct env (i, as) \<Longrightarrow> shows_structs env (Named i as)"
  by (auto simp: shows_structs_def elim: shaped_NamedE)

lemma basic_mentions: "basic_supported l \<Longrightarrow> \<not> mentions env (Lit l) m"
  by (cases l) (simp_all add: mentions_eqs)

lemma shows_leaf: "leaf_type env t \<Longrightarrow> shows_structs env t"
proof (cases t)
  case (Named i as)
  assume "leaf_type env t"
  then consider "is_struct env (i, as)" | "\<not> is_struct env (i, as)" "basic_supported (ge_Underlying env (i, as))"
    using Named by auto
  then show ?thesis
    using Named shows_struct shows_no_structs basic_mentions mentions_eqs(2) by cases metis+
qed (use shows_no_structs basic_mentions in auto)

lemma shows_composite: "composite env m t \<Longrightarrow> plain_keys env t \<Longrightarrow> shows_structs env t"
proof (induction rule: composite.induct)
  case (comp_bytes e m)
  then show ?case by (intro shows_slice shows_no_structs byte_mentions)
next
  case (comp_pointers e m)
  then show ?case by (cases e) (auto intro!: shows_slice shows_pointer shows_struct)
next
  case (comp_map_leaf e m k)
  then show ?case using plain_keys_map by (blast intro: shows_map shows_leaf)
next
  case (comp_map m e k)
  then show ?case using plain_keys_map plain_keys_part part_value by (blast intro: shows_map)
next
  case (comp_slice m e)
  then show ?case using plain_keys_part part_slice by (blast intro: shows_slice)
qed (blast intro: shows_slice shows_leaf)

lemma shows_pointee:
  assumes "pointee env t" "plain_keys env t" "slice_alias env t = None"
  shows "shows_structs env t"
proof -
  consider "leaf_type env t" | "composite env MaxNestingDepth t"
    | i e where "t = Named i []" "ge_Underlying env (i, []) = TSlice e" "isBasicByte e"
    using assms(1) by (auto simp: pointee_def split: go_ty.splits go_lit.splits)
  then show ?thesis
  proof cases
    case 3
    then have "\<not> mentions env t m" for m
      using byte_mentions by (simp add: mentions_eqs is_struct_lit)
    then show ?thesis by (rule shows_no_structs)
  qed (use shows_leaf shows_composite assms(2) in auto)
qed

lemma pointee_no_alias: "pointee env t \<Longrightarrow> slice_alias env t = None"
  by (auto simp: pointee_def slice_alias_def is_struct_lit composite_other basic_supported_def
      split: go_ty.splits go_lit.splits)

lemma pointee_no_pointer: "\<not> pointee env (Lit (TPointer e))"
  by (simp add: pointee_def composite_other)

lemma shows_supported:
  assumes "supported env t" "plain_keys env (field_core env t)"
  shows "shows_structs env (field_core env t)"
proof -
  have point: "shows_structs env (field_core env t)" if "pointee env (strip_pointer t)"
    using shows_pointee [OF that] pointee_no_alias [OF that] assms(2) by (simp add: field_core_def)
  consider "pointee env t" | e where "t = Lit (TPointer e)" "pointee env e"
    | i as where "t = Named i as" "is_struct env (i, as)"
    | i e where "t = Named i []" "ge_Underlying env (i, []) = TSlice e"
        "composite env MaxNestingDepth (Lit (TSlice e))"
    using assms(1) by (auto simp: supported_def split: go_ty.splits go_lit.splits)
  then show ?thesis
  proof cases
    case 1
    then have "strip_pointer t = t"
      using pointee_no_pointer by (auto simp: strip_pointer_def split: go_ty.split go_lit.split)
    then show ?thesis using point 1 by simp
  next
    case (2 e)
    then show ?thesis using point by simp
  next
    case (3 i as)
    then show ?thesis
      by (auto simp: field_core_def slice_alias_def is_struct_lit intro!: shows_struct)
  next
    case (4 i e)
    show ?thesis
    proof (cases "isBasicByte e")
      case True
      then have "pointee env t" using 4 by (simp add: pointee_def)
      then show ?thesis using point 4 by simp
    next
      case False
      then have "field_core env t = Lit (TSlice e)" using 4 by (simp add: field_core_def slice_alias_def)
      then show ?thesis using shows_composite 4 assms(2) by metis
    qed
  qed
qed

section \<open>What a built field shows\<close>

lemma fold_enqueue_issues [simp]: "bd_issues (fold (enqueue env) ns b) = bd_issues b"
  by (induction ns arbitrary: b) (simp_all add: enqueue_def Let_def)

lemma top_parts_keeps [simp]:
  "fd_CycleBreak (top_parts env t tr fd) = fd_CycleBreak fd" "fd_Custom (top_parts env t tr fd) = fd_Custom fd"
  by (auto simp: top_parts_def split: go_ty.splits go_lit.splits shape_tree.splits)

lemma fillTypeShape_keeps:
  assumes "fillTypeShape env t (b, fd) = Some (b', fd')"
  shows "fd_CycleBreak fd' = fd_CycleBreak fd \<and> fd_Custom fd' = fd_Custom fd \<and> bd_issues b' = bd_issues b"
proof -
  note eq = fillTypeShape_core [of env t b fd]
  with assms obtain r where r: "shapeOf env (field_core env t) True (b, field_start env t fd) = Some r"
    by (auto simp: bind_eq_Some_conv)
  from shaped_exists [OF r] obtain tr ns where "shaped env (field_core env t) tr ns"
    and "r = (render tr, fold (enqueue env) ns b, top_parts env (field_core env t) tr (field_start env t fd))"
    by auto
  then show ?thesis using assms eq r by (auto simp: bind_eq_Some_conv)
qed

lemma read_markers_issues: "read_markers doc b = (m, b') \<Longrightarrow> \<exists>is. bd_issues b' = bd_issues b @ is"
  by (auto simp: read_markers_def add_issue_def split: prod.splits option.splits)

text \<open>A plain field that adds no issue has an accepted type, and its shape string is that of the type.\<close>

lemma buildFieldDecl_clean:
  assumes b: "buildFieldDecl env n f ast b = Some (b', Some fd)"
    and fd: "fd_Custom fd = []" "\<not> fd_CycleBreak fd" and clean: "bd_issues b' = bd_issues b"
  shows "supported env (var_Type f) \<and>
     (\<exists>tr ns. shaped env (field_core env (var_Type f)) tr ns \<and> fd_Type fd = render tr)"
proof -
  obtain ft where ft: "ParseFieldTag (var_BinTag f) = Inr ft"
    using b by (cases "ParseFieldTag (var_BinTag f)") (auto simp: buildFieldDecl_def)
  obtain fm b1 where m: "read_markers (case findFieldDoc ast (var_Name f) of Some d \<Rightarrow> d | None \<Rightarrow> None) b = (fm, b1)"
    by (cases "read_markers (case findFieldDoc ast (var_Name f) of Some d \<Rightarrow> d | None \<Rightarrow> None) b")
  let ?cb = "mk_cycleBreakViaID fm \<or> ft_CycleBreakViaID ft"
  let ?fd = "new_field (var_Name f) ft ?cb"
  let ?guard = "field_guard env (who_of env n f) (var_Type f) ft fm"
  have pass: "\<not> mk_trackPresence fm" "\<not> mk_borrowStrings fm" "ft_Set ft" "\<not> ft_Skip ft" "?guard = None"
    using b ft m by (auto simp: buildFieldDecl_def Let_def split: if_splits option.splits)
  show ?thesis
  proof (cases "ft_Custom ft = []")
    case False
    then have "custom_field env (who_of env n f) (var_Type f) ?fd b1 = (b', Some fd)"
      using b ft m pass by (simp add: buildFieldDecl_def Let_def)
    then have "fd_Custom fd = ft_Custom ft"
      by (auto simp: custom_field_def Let_def new_field_def split: if_splits go_ty.splits go_lit.splits)
    then show ?thesis using False fd by simp
  next
    case True
    then obtain b2 fd2 b3 where fill: "fillTypeShape env (var_Type f) (b1, ?fd) = Some (b2, fd2)"
      and id: "(if ?cb then resolveIDRefField env n f (b2, fd2) else Some (b2, fd2)) = Some (b3, fd)"
      and b': "b' = add_issues (checkSupportedType env (who_of env n f) (var_Type f) (var_Type f) 0 0) b3"
      using b ft m pass by (auto simp: buildFieldDecl_def Let_def bind_eq_Some_conv)
    note keep = fillTypeShape_keeps [OF fill]
    have "fd_CycleBreak fd = ?cb"
      using id keep resolveIDRefField_grown [of env n f b2 fd2 b3 fd] by (auto simp: new_field_def split: if_splits)
    then have 3: "b3 = b2" "fd2 = fd" using fd id by auto
    obtain "is" where "bd_issues b1 = bd_issues b @ is" using read_markers_issues [OF m] by blast
    then have "checkSupportedType env (who_of env n f) (var_Type f) (var_Type f) 0 0 = []"
      using clean b' 3 keep by (simp add: add_issues_def)
    then have "supported env (var_Type f)" by (simp add: checker_accepts)
    then show ?thesis using fillTypeShape_grown [OF fill] 3 by blast
  qed
qed

text \<open>
  C33: The cycle check sees every edge of the closure. For a field the builder accepts without an issue
  and that is neither an \<^verbatim>\<open>id_ref\<close> nor has a custom codec, each struct its type mentions, which the closure
  walk enqueues, is among the keys \<^verbatim>\<open>referencedKeys\<close> reads off the field's shape string, provided no map
  key mentions a struct and the names of the program have matching brackets.
\<close>

theorem closure_edges_referenced:
  assumes "buildFieldDecl env n f ast b = Some (b', Some fd)" and "bd_issues b' = bd_issues b"
    and "fd_Custom fd = []" and "\<not> fd_CycleBreak fd"
    and "plain_keys env (field_core env (var_Type f))"
    and "\<And>tr ns. shaped env (field_core env (var_Type f)) tr ns \<Longrightarrow> tree_ok tr"
    and "mentions env (field_core env (var_Type f)) m" and "isKey (keyOf env m)"
  shows "keyOf env m \<in> set (referencedKeys isKey fd)"
proof -
  obtain tr ns where sup: "supported env (var_Type f)"
    and sh: "shaped env (field_core env (var_Type f)) tr ns" and ty: "fd_Type fd = render tr"
    using buildFieldDecl_clean [OF assms(1,3,4,2)] by blast
  have "m \<in> set ns" using shaped_mentions [OF sh] assms(7) by simp
  then have "keyOf env m \<in> set (idents tr)"
    using shows_supported [OF sup assms(5)] sh unfolding shows_structs_def by blast
  then have "keyOf env m \<in> set (collectRefs isKey (fd_Type fd))"
    using collectRefs_tree [OF assms(6) [OF sh]] assms(8) by (simp add: ty)
  then show ?thesis by (simp add: referencedKeys_def)
qed

lemma ex_items_supported: "checkSupportedType ex_env who (Lit (TSlice (Named 1 []))) (Lit (TSlice (Named 1 []))) 0 0 = []"
  by (simp add: checker_accepts supported_def pointee_def composite_slice_iff MaxNestingDepth_def ex_struct)

lemma ex_items_field:
  "\<exists>b' fd. buildFieldDecl ex_env (0, []) ex_items None new_builder = Some (b', Some fd) \<and>
     bd_issues b' = bd_issues new_builder \<and> fd_Custom fd = [] \<and> \<not> fd_CycleBreak fd"
proof -
  have w: "wireFor ex_env (Lit (TSlice e)) = Some schema_WireLengthDelim" for e
    by (subst wireFor.simps) simp
  show ?thesis
    by (simp add: buildFieldDecl_def ex_items_def ex_tag Let_def read_markers_def findFieldDoc_def parseMarkers_def
        no_markers_def no_tag_def field_guard_def new_field_def fillTypeShape_def slice_alias_def w shapeOf_eqs
        ex_struct ex_items_supported [simplified] add_issues_def enqueue_def new_builder_def)
qed

theorem closure_edges_referenced_witness:
  "\<exists>b' fd. buildFieldDecl ex_env (0, []) ex_items None new_builder = Some (b', Some fd) \<and>
     ''p.Item'' \<in> set (referencedKeys (\<lambda>k. k = ''p.Item'') fd)"
proof -
  obtain b' fd where b: "buildFieldDecl ex_env (0, []) ex_items None new_builder = Some (b', Some fd)"
    and q: "bd_issues b' = bd_issues new_builder" "fd_Custom fd = []" "\<not> fd_CycleBreak fd"
    using ex_items_field by blast
  let ?core = "field_core ex_env (var_Type ex_items)"
  have core: "?core = Lit (TSlice (Named 1 []))"
    by (simp add: ex_items_def field_core_def slice_alias_def)
  have key: "keyOf ex_env (1, []) = ''p.Item''"
    by (simp add: keyOf_def refOf_def named_ty_def pkg_path_of_def Obj_def ex_env_def)
  have "plain_keys ex_env ?core"
    unfolding core by (intro plain_keys_slice plain_keys_struct ex_struct)
  moreover have "balanced ''p.Item''" by (simp add: balanced_plain balanced_Nil)
  then have "tree_ok tr" if "shaped ex_env ?core tr ns" for tr ns
    using that unfolding core
    by (auto simp: key [simplified] ex_struct ident_ok_def has_prefix_def elim!: shaped_SliceE shaped_NamedE)
  moreover have "mentions ex_env ?core (1, [])" unfolding core by (simp add: mentions_eqs ex_struct)
  ultimately have "keyOf ex_env (1, []) \<in> set (referencedKeys (\<lambda>k. k = ''p.Item'') fd)"
    by (rule closure_edges_referenced [OF b q]) (assumption | rule key)+
  then show ?thesis using b key by auto
qed

end
