(* ===== verification/Collisions.thy ===== *)
theory Collisions
  imports Build_Schema
begin

text \<open>
  \<^verbatim>\<open>checkFlattenedTagCollisions\<close>: what is left of the collected fields. Promoted fields never share a tag
  with another field, and no direct field is lost.
\<close>

definition scan_upto :: "string \<Rightarrow> field_decl list \<Rightarrow> nat \<Rightarrow> collision_state" where
  "scan_upto owner fs k = fold (collide owner fs) [0..<k] \<lparr>cs_First = Map.empty, cs_Drop = [], cs_Issues = []\<rparr>"

lemma scan_upto_Suc: "scan_upto owner fs (Suc k) = collide owner fs k (scan_upto owner fs k)"
  by (simp add: scan_upto_def)

definition scan_ok :: "field_decl list \<Rightarrow> nat \<Rightarrow> collision_state \<Rightarrow> bool" where
  "scan_ok fs k s \<longleftrightarrow>
     (\<forall>t j. cs_First s t = Some j \<longrightarrow> j < k \<and> fd_Tag (fs ! j) = t) \<and>
     (\<forall>i<k. fd_Tag (fs ! i) \<noteq> 0 \<longrightarrow> (\<exists>j. cs_First s (fd_Tag (fs ! i)) = Some j \<and>
        (i \<noteq> j \<longrightarrow> (flattened (fs ! i) \<longrightarrow> i \<in> set (cs_Drop s)) \<and>
          (flattened (fs ! j) \<and> \<not> flattened (fs ! i) \<longrightarrow> j \<in> set (cs_Drop s))))) \<and>
     (\<forall>i\<in>set (cs_Drop s). i < k \<and> flattened (fs ! i)) \<and>
     (cs_Drop s = [] \<longleftrightarrow> cs_Issues s = [])"

lemma scan_ok_step:
  assumes "scan_ok fs k s"
  shows "scan_ok fs (Suc k) (collide owner fs k s)"
proof (cases "fd_Tag (fs ! k) = 0")
  case True
  then show ?thesis using assms by (auto simp: scan_ok_def collide_def less_Suc_eq)
next
  case tag: False
  show ?thesis
  proof (cases "cs_First s (fd_Tag (fs ! k))")
    case None
    have s': "collide owner fs k s = s\<lparr>cs_First := (cs_First s)(fd_Tag (fs ! k) \<mapsto> k)\<rparr>"
      using tag None by (simp add: collide_def Let_def)
    have fresh: "fd_Tag (fs ! i) \<noteq> fd_Tag (fs ! k)" if "i < k" for i
      using assms that None tag unfolding scan_ok_def by fastforce
    show ?thesis
      using assms fresh unfolding scan_ok_def s' by (auto simp: less_Suc_eq)
  next
    case (Some j)
    then have j: "j < k" using assms by (simp add: scan_ok_def)
    show ?thesis
    proof (cases "\<not> flattened (fs ! j) \<and> \<not> flattened (fs ! k)")
      case True
      then have "collide owner fs k s = s" using tag Some by (simp add: collide_def Let_def)
      then show ?thesis using assms True Some j by (auto simp: scan_ok_def less_Suc_eq)
    next
      case False
      let ?d = "if flattened (fs ! k) then k else j"
      let ?s = "collide owner fs k s"
      have s': "cs_First ?s = cs_First s" "cs_Drop ?s = ?d # cs_Drop s" "cs_Issues ?s \<noteq> []"
        using tag Some False by (auto simp: collide_def Let_def)
      have d: "?d < Suc k" "flattened (fs ! ?d)" using j False by auto
      show ?thesis
        unfolding scan_ok_def
      proof (intro conjI)
        show "\<forall>i<Suc k. fd_Tag (fs ! i) \<noteq> 0 \<longrightarrow> (\<exists>j. cs_First ?s (fd_Tag (fs ! i)) = Some j \<and>
            (i \<noteq> j \<longrightarrow> (flattened (fs ! i) \<longrightarrow> i \<in> set (cs_Drop ?s)) \<and>
              (flattened (fs ! j) \<and> \<not> flattened (fs ! i) \<longrightarrow> j \<in> set (cs_Drop ?s))))"
        proof (intro allI impI)
          fix i
          assume i: "i < Suc k" "fd_Tag (fs ! i) \<noteq> 0"
          show "\<exists>j. cs_First ?s (fd_Tag (fs ! i)) = Some j \<and>
            (i \<noteq> j \<longrightarrow> (flattened (fs ! i) \<longrightarrow> i \<in> set (cs_Drop ?s)) \<and>
              (flattened (fs ! j) \<and> \<not> flattened (fs ! i) \<longrightarrow> j \<in> set (cs_Drop ?s)))"
          proof (cases "i = k")
            case True
            then show ?thesis using Some by (simp add: s')
          next
            case False
            then show ?thesis using assms i unfolding scan_ok_def s' by (fastforce simp: less_Suc_eq)
          qed
        qed
      qed (use assms d in \<open>auto simp: scan_ok_def s' intro: less_SucI\<close>)
    qed
  qed
qed

lemma scan_ok_all: "scan_ok fs k (scan_upto owner fs k)"
proof (induction k)
  case 0
  show ?case by (simp add: scan_ok_def scan_upto_def)
qed (simp add: scan_upto_Suc scan_ok_step)

lemma filter_map_nth: "filter P (map ((!) xs) is) = map ((!) xs) (filter (\<lambda>i. P (xs ! i)) is)"
  by (induction "is") auto

text \<open>
  C35: After the collision check, two fields of a struct that still share a tag are both direct
  fields, which validation reports; no direct field has been dropped; and a field is dropped exactly when
  a collision is reported.
\<close>

theorem collisions_resolved:
  "case checkFlattenedTagCollisions owner fs of (left, issues) \<Rightarrow>
     (\<forall>i j. i < j \<and> j < length left \<and> fd_Tag (left ! i) = fd_Tag (left ! j) \<and> fd_Tag (left ! i) \<noteq> 0 \<longrightarrow>
        fd_FlattenedFrom (left ! i) = [] \<and> fd_FlattenedFrom (left ! j) = []) \<and>
     filter (\<lambda>fd. fd_FlattenedFrom fd = []) left = filter (\<lambda>fd. fd_FlattenedFrom fd = []) fs \<and>
     (issues = [] \<longleftrightarrow> left = fs)"
proof -
  let ?n = "length fs"
  let ?s = "scan_upto owner fs ?n"
  let ?keep = "filter (\<lambda>i. i \<notin> set (cs_Drop ?s)) [0..<?n]"
  let ?left = "map ((!) fs) ?keep"
  have ok: "scan_ok fs ?n ?s" by (rule scan_ok_all)
  have eq: "checkFlattenedTagCollisions owner fs = (?left, cs_Issues ?s)"
    by (simp add: checkFlattenedTagCollisions_def scan_collisions_def scan_upto_def Let_def)
  have drop: "i \<in> set (cs_Drop ?s) \<Longrightarrow> i < ?n \<and> flattened (fs ! i)" for i
    using ok by (simp add: scan_ok_def)
  have pair: "\<not> flattened (fs ! a) \<and> \<not> flattened (fs ! b)"
    if "a < ?n" "b < ?n" "a \<noteq> b" "a \<notin> set (cs_Drop ?s)" "b \<notin> set (cs_Drop ?s)"
      "fd_Tag (fs ! a) = fd_Tag (fs ! b)" "fd_Tag (fs ! a) \<noteq> 0" for a b
  proof -
    have first: "\<exists>j. cs_First ?s (fd_Tag (fs ! i)) = Some j \<and>
        (i \<noteq> j \<longrightarrow> (flattened (fs ! i) \<longrightarrow> i \<in> set (cs_Drop ?s)) \<and>
          (flattened (fs ! j) \<and> \<not> flattened (fs ! i) \<longrightarrow> j \<in> set (cs_Drop ?s)))"
      if "i < ?n" "fd_Tag (fs ! i) \<noteq> 0" for i
      using ok that unfolding scan_ok_def by blast
    from first [OF that(1,7)] first [OF that(2)] that show ?thesis by (cases "flattened (fs ! a)") auto
  qed
  have pos: "?left ! i = fs ! (?keep ! i) \<and> ?keep ! i < ?n \<and> ?keep ! i \<notin> set (cs_Drop ?s)"
    if "i < length ?left" for i
    using that nth_mem [of i ?keep] by auto
  have "distinct ?keep" by simp
  then have ne: "?keep ! i \<noteq> ?keep ! j" if "i < j" "j < length ?left" for i j
    using that by (simp add: nth_eq_iff_index_eq)
  have "\<forall>i j. i < j \<and> j < length ?left \<and> fd_Tag (?left ! i) = fd_Tag (?left ! j) \<and> fd_Tag (?left ! i) \<noteq> 0 \<longrightarrow>
      fd_FlattenedFrom (?left ! i) = [] \<and> fd_FlattenedFrom (?left ! j) = []"
  proof (intro allI impI, elim conjE)
    fix i j
    assume h: "i < j" "j < length ?left" "fd_Tag (?left ! i) = fd_Tag (?left ! j)" "fd_Tag (?left ! i) \<noteq> 0"
    note pi = pos [of i] pos [of j]
    have "\<not> flattened (fs ! (?keep ! i)) \<and> \<not> flattened (fs ! (?keep ! j))"
      using pair [of "?keep ! i" "?keep ! j"] pi h ne [OF h(1,2)] by simp
    then show "fd_FlattenedFrom (?left ! i) = [] \<and> fd_FlattenedFrom (?left ! j) = []"
      using pi h by (simp add: flattened_def)
  qed
  moreover have "filter (\<lambda>fd. fd_FlattenedFrom fd = []) ?left = filter (\<lambda>fd. fd_FlattenedFrom fd = []) fs"
  proof -
    have "filter (\<lambda>i. i \<notin> set (cs_Drop ?s) \<and> fd_FlattenedFrom (fs ! i) = []) [0..<?n] =
        filter (\<lambda>i. fd_FlattenedFrom (fs ! i) = []) [0..<?n]"
      using drop by (intro filter_cong) (auto simp: flattened_def)
    then have "filter (\<lambda>fd. fd_FlattenedFrom fd = []) ?left =
        filter (\<lambda>fd. fd_FlattenedFrom fd = []) (map ((!) fs) [0..<?n])"
      by (simp add: filter_map_nth)
    then show ?thesis by (simp only: map_nth)
  qed
  moreover have "cs_Issues ?s = [] \<longleftrightarrow> ?left = fs"
  proof
    assume "cs_Issues ?s = []"
    then have "cs_Drop ?s = []" using ok by (simp add: scan_ok_def)
    then show "?left = fs" by (simp add: map_nth)
  next
    assume "?left = fs"
    then have "length ?keep = ?n" by (metis length_map)
    then have "\<forall>i\<in>set [0..<?n]. i \<notin> set (cs_Drop ?s)"
      by (metis (no_types, lifting) diff_zero filter_True length_filter_less length_upt less_irrefl)
    then have "cs_Drop ?s = []" using drop by (cases "cs_Drop ?s") auto
    then show "cs_Issues ?s = []" using ok by (simp add: scan_ok_def)
  qed
  ultimately show ?thesis unfolding eq by simp
qed

definition ex_direct :: field_decl where
  "ex_direct = new_field ''A'' (no_tag\<lparr>ft_Tag := 1\<rparr>) False"

theorem collisions_resolved_witness:
  "\<exists>left issues. checkFlattenedTagCollisions ''T'' [ex_direct, ex_direct\<lparr>fd_FlattenedFrom := ''B''\<rparr>] = (left, issues) \<and>
     issues \<noteq> [] \<and> filter (\<lambda>fd. fd_FlattenedFrom fd = []) left = [ex_direct]"
proof -
  let ?fs = "[ex_direct, ex_direct\<lparr>fd_FlattenedFrom := ''B''\<rparr>]"
  obtain left issues where c: "checkFlattenedTagCollisions ''T'' ?fs = (left, issues)" by fastforce
  have direct: "fd_FlattenedFrom ex_direct = []" "fd_Tag ex_direct = 1"
    by (simp_all add: ex_direct_def new_field_def)
  note r = collisions_resolved [where owner = "''T''" and fs = ?fs, unfolded c prod.case]
  have pairs: "\<forall>i j. i < j \<and> j < length left \<and> fd_Tag (left ! i) = fd_Tag (left ! j) \<and> fd_Tag (left ! i) \<noteq> 0 \<longrightarrow>
      fd_FlattenedFrom (left ! i) = [] \<and> fd_FlattenedFrom (left ! j) = []"
    using r by blast
  have "left \<noteq> ?fs"
  proof
    assume "left = ?fs"
    then show False using pairs [rule_format, of 0 1] direct by simp
  qed
  then have "issues \<noteq> []" using r by blast
  moreover have "filter (\<lambda>fd. fd_FlattenedFrom fd = []) left = [ex_direct]" using r direct by simp
  ultimately show ?thesis using c by blast
qed


end
