(* ===== verification/Snapshot.thy ===== *)
theory Snapshot
  imports Schema_Hash Markers
begin

text \<open>
  \<^verbatim>\<open>tools/gsbmschema/snapshot.go\<close>: the YAML snapshot. \<^verbatim>\<open>encoding/json\<close> quotes a string byte by byte here,
  which is what it does on ASCII; the JSON snapshot itself is that library's encoding of the schema.
\<close>

section \<open>Scalars\<close>

definition yaml_special :: "char set" where
  "yaml_special = set '':,[]{}#&*!|>%@`'' \<union> {CHR 0x27, CHR 0x22, CHR 0x0A, CHR 0x09}"

definition needsQuote :: "string \<Rightarrow> bool" where
  "needsQuote s \<longleftrightarrow> s \<noteq> trim_space s \<or> list_ex (\<lambda>c. c \<in> yaml_special) s"

text \<open>\<^verbatim>\<open>json.Marshal\<close> of a string: short escapes, and \<^verbatim>\<open>\u00XX\<close> for other control bytes and for \<^verbatim>\<open><\<close>, \<^verbatim>\<open>>\<close> and \<^verbatim>\<open>&\<close>.\<close>

definition hex_digit :: "nat \<Rightarrow> char" where
  "hex_digit d = (if d < 10 then char_of (48 + d) else char_of (87 + d))"

definition json_short :: "(char \<times> char) list" where
  "json_short =
     [(CHR 0x22, CHR 0x22), (CHR 0x5C, CHR 0x5C), (CHR 0x08, CHR ''b''), (CHR 0x0C, CHR ''f''),
      (CHR 0x0A, CHR ''n''), (CHR 0x0D, CHR ''r''), (CHR 0x09, CHR ''t'')]"

definition json_char :: "char \<Rightarrow> string" where
  "json_char c =
     (case map_of json_short c of
        Some e \<Rightarrow> [CHR 0x5C, e]
      | None \<Rightarrow>
          if of_char c < (32::nat) \<or> c \<in> {CHR ''<'', CHR ''>'', CHR ''&''}
          then [CHR 0x5C, CHR ''u'', CHR ''0'', CHR ''0'', hex_digit (of_char c div 16), hex_digit (of_char c mod 16)]
          else [c])"

definition json_string :: "string \<Rightarrow> string" where
  "json_string s = [CHR 0x22] @ concat (map json_char s) @ [CHR 0x22]"

definition yamlString :: "string \<Rightarrow> string" where
  "yamlString s =
     (if s = [] then [CHR 0x22, CHR 0x22] else if needsQuote s then json_string s else s)"

definition yamlTypeRef :: "type_ref \<Rightarrow> string" where
  "yamlTypeRef r = yamlString (type_ref_string r)"

definition yamlAliasType :: "type_ref \<Rightarrow> string" where
  "yamlAliasType r =
     (let base = type_ref_string r in
      case tr_under r of
        None \<Rightarrow> yamlString base
      | Some u \<Rightarrow> yamlString (base @ ''('' @ type_ref_string u @ '')''))"

section \<open>The document\<close>

definition yaml_opt :: "bool \<Rightarrow> string \<Rightarrow> string" where
  "yaml_opt b s = (if b then s else [])"

definition yaml_field :: "field_decl \<Rightarrow> string" where
  "yaml_field fd =
     ''      - { tag: '' @ dec_u32 (fd_Tag fd) @ '', name: '' @ fd_Name fd @ '', type: '' @
     yamlString (fd_Type fd) @ '', wire: '' @ fd_Wire fd @
     yaml_opt (fd_Optional fd) '', optional: true'' @
     yaml_opt (fd_Deprecated fd) '', deprecated: true'' @
     yaml_opt (fd_CompatWrite fd) '', compatWrite: true'' @
     yaml_opt (fd_CycleBreak fd) '', cycleBreak: true'' @
     (if fd_MapKey fd \<noteq> [] then
        '', mapKey: '' @ yamlString (fd_MapKey fd) @ '', mapValue: '' @ yamlString (fd_MapValue fd) @
        yaml_opt (fd_MapKeyUnderlying fd \<noteq> []) ('', mapKeyUnderlying: '' @ yamlString (fd_MapKeyUnderlying fd))
      else yaml_opt (fd_Elem fd \<noteq> []) ('', elem: '' @ yamlString (fd_Elem fd))) @
     yaml_opt (fd_Custom fd \<noteq> []) ('', custom: '' @ yamlString (fd_Custom fd)) @
     yaml_opt (fd_WireOverride fd \<noteq> []) ('', wireOverride: '' @ yamlString (fd_WireOverride fd)) @
     (case fd_AliasType fd of None \<Rightarrow> [] | Some r \<Rightarrow> '', aliasType: '' @ yamlAliasType r) @
     yaml_opt (fd_FlattenedFrom fd \<noteq> [])
       ('', flattenedFrom: '' @ yamlString (fd_FlattenedFrom fd) @
        yaml_opt (fd_FlattenedFromPointer fd) '', flattenedFromPointer: true'') @
     '' }'' @ [nl]"

definition yaml_struct :: "struct_decl \<Rightarrow> string" where
  "yaml_struct sd =
     ''  - type: '' @ yamlTypeRef (sd_Type sd) @ [nl] @
     yaml_opt (sd_Opaque sd) (''    opaque: true'' @ [nl]) @
     yaml_opt (sd_AllowBreaking sd \<noteq> []) (''    allowBreaking: '' @ yamlString (sd_AllowBreaking sd) @ [nl]) @
     yaml_opt (sd_BorrowStrings sd) (''    borrowStrings: true'' @ [nl]) @
     yaml_opt (sd_TrackPresence sd) (''    trackPresence: true'' @ [nl]) @
     yaml_opt (sd_Generic sd \<noteq> []) (''    generic: ['' @ join_with '', '' (sd_Generic sd) @ '']'' @ [nl]) @
     yaml_opt (sd_Reserved sd \<noteq> [])
       (''    reserved: ['' @ join_with '', '' (map dec_u32 (sd_Reserved sd)) @ '']'' @ [nl]) @
     (if sd_Fields sd = [] then []
      else ''    fields:'' @ [nl] @ concat (map yaml_field (sd_Fields sd)))"

definition MarshalYAML :: "schema \<Rightarrow> string" where
  "MarshalYAML s =
     ''fmtVer: '' @ dec (sc_FmtVer s) @ [nl] @
     ''schemaHint: '' @ dec (unat (sc_SchemaHint s)) @ [nl] @
     ''roots:'' @ [nl] @
     concat (map (\<lambda>r. ''  - '' @ yamlTypeRef r @ [nl]) (sc_Roots s)) @
     ''structs:'' @ [nl] @
     concat (map yaml_struct (sc_Structs s))"

section \<open>Reading a scalar back\<close>

definition hex_value :: "char \<Rightarrow> nat option" where
  "hex_value c =
     (let n = of_char c in
      if 48 \<le> n \<and> n \<le> 57 then Some (n - 48) else if 97 \<le> n \<and> n \<le> (102::nat) then Some (n - 87) else None)"

text \<open>A double-quoted scalar up to its closing quote, which must end the text.\<close>

fun json_read :: "string \<Rightarrow> string option" where
  "json_read [] = None"
| "json_read (c # s) =
     (if c = CHR 0x22 then (if s = [] then Some [] else None)
      else if c = CHR 0x5C then
        (case s of
           [] \<Rightarrow> None
         | e # s1 \<Rightarrow>
             if e = CHR ''u'' then
               (case s1 of
                  z1 # z2 # a # b # s2 \<Rightarrow>
                    (case (hex_value a, hex_value b) of
                       (Some x, Some y) \<Rightarrow> map_option ((#) (char_of (16 * x + y))) (json_read s2)
                     | _ \<Rightarrow> None)
                | _ \<Rightarrow> None)
             else (case map_of (map (\<lambda>(a, b). (b, a)) json_short) e of
                 Some a \<Rightarrow> map_option ((#) a) (json_read s1)
               | None \<Rightarrow> None))
      else map_option ((#) c) (json_read s))"

definition yaml_read :: "string \<Rightarrow> string option" where
  "yaml_read s =
     (case s of [] \<Rightarrow> None | c # r \<Rightarrow> if c = CHR 0x22 then json_read r else Some s)"

lemma hex_value_digit: "d < 16 \<Longrightarrow> hex_value (hex_digit d) = Some d"
  by (auto simp: hex_value_def hex_digit_def Let_def)

lemma of_char_div: "of_char c div 16 < (16::nat)"
proof -
  have "(of_char c :: nat) < 256" using mod_less_divisor [of 256 "of_char c :: nat"] by simp
  then show ?thesis by (simp add: less_mult_imp_div_less)
qed

lemma hex_value_nl: "hex_value nl = None"
  by (simp add: hex_value_def nl_def)

lemma json_read_char: "json_read (json_char c @ s) = map_option ((#) c) (json_read s)"
proof (cases "map_of json_short c")
  case (Some e)
  then have "(c, e) \<in> set json_short" by (rule map_of_SomeD)
  then show ?thesis using Some by (auto simp: json_short_def json_char_def)
next
  case None
  then have c: "c \<noteq> CHR 0x22" "c \<noteq> CHR 0x5C" by (auto simp: json_short_def split: if_splits)
  have "of_char c div 16 < (16::nat)" by (rule of_char_div)
  then show ?thesis
    using None c by (simp add: json_char_def hex_value_digit)
qed

lemma json_read_chars: "json_read (concat (map json_char s) @ [CHR 0x22]) = Some s"
  by (induction s) (simp_all add: json_read_char)

lemma hex_digit_plain: "d < 16 \<Longrightarrow> hex_digit d \<noteq> nl"
  by (metis hex_value_digit hex_value_nl option.distinct(1))

lemma json_char_no_nl: "nl \<notin> set (json_char c)"
proof (cases "map_of json_short c")
  case (Some e)
  then have "(c, e) \<in> set json_short" by (rule map_of_SomeD)
  then show ?thesis using Some by (auto simp: json_short_def json_char_def nl_def)
next
  case None
  then have "c \<noteq> nl" by (auto simp: json_short_def nl_def split: if_splits)
  have "of_char c div 16 < (16::nat)" by (rule of_char_div)
  then have "hex_digit (of_char c div 16) \<noteq> nl" "hex_digit (of_char c mod 16) \<noteq> nl"
    by (simp_all add: hex_digit_plain)
  then show ?thesis using None \<open>c \<noteq> nl\<close> by (auto simp: json_char_def nl_def)
qed

lemma yamlString_unquoted: "s \<noteq> [] \<Longrightarrow> \<not> needsQuote s \<Longrightarrow> hd s \<noteq> CHR 0x22 \<and> nl \<notin> set s"
  by (cases s) (auto simp: needsQuote_def yaml_special_def list_ex_iff nl_def)


end
