(* ===== verification/Codec_Registry.thy ===== *)
theory Codec_Registry
  imports Schema_Types
begin

text \<open>
  \<^verbatim>\<open>tools/gsbmcodegen/codecs/registry.go\<close>: the table of custom codecs a generator run is given. A
  codec has one of three shapes; \<^verbatim>\<open>Register\<close> is the only way in. The mutex makes each call atomic.
\<close>

record codec_decl =
  cd_Name :: string
  cd_GoType :: string
  cd_WireType :: string
  cd_EncodeFn :: string
  cd_DecodeFn :: string
  cd_SizeFn :: string
  cd_EmitFn :: string
  cd_StreamFn :: string
  cd_PkgImport :: string

datatype codec_kind = CodecKindAnalytic | CodecKindMaterializing | CodecKindStreaming

text \<open>\<open>None\<close> is the zero value.\<close>

definition Kind :: "codec_decl \<Rightarrow> codec_kind option" where
  "Kind c =
     (if cd_EmitFn c \<noteq> [] \<and> cd_SizeFn c = [] \<and> cd_EncodeFn c = [] \<and> cd_StreamFn c = []
      then Some CodecKindMaterializing
      else if cd_StreamFn c \<noteq> [] \<and> cd_SizeFn c = [] \<and> cd_EncodeFn c = [] \<and> cd_EmitFn c = []
      then Some CodecKindStreaming
      else if cd_EmitFn c = [] \<and> cd_StreamFn c = [] \<and> cd_SizeFn c \<noteq> [] \<and> cd_EncodeFn c \<noteq> []
      then Some CodecKindAnalytic
      else None)"

definition isKnownWireType :: "string \<Rightarrow> bool" where
  "isKnownWireType wt \<longleftrightarrow>
     wt \<in> {schema_WireVarint, schema_WireFixed64, schema_WireFixed32, schema_WireLengthDelim}"

definition WireIdent :: "string \<Rightarrow> string" where
  "WireIdent wt =
     (if wt = schema_WireVarint then ''WireVarint''
      else if wt = schema_WireFixed64 then ''WireFixed64''
      else if wt = schema_WireFixed32 then ''WireFixed32''
      else if wt = schema_WireLengthDelim then ''WireLengthDelim''
      else [])"

datatype register_error =
    EmptyName | NoDecodeFn string | StreamConflict string | EmitConflict string
  | NoShape string | NoSizeFn string | UnknownWireType string string
  | ErrDuplicateCodec string codec_decl

text \<open>The Go map as its entries, newest first.\<close>

type_synonym registry = "(string \<times> codec_decl) list"

definition NewRegistry :: registry where "NewRegistry = []"

definition Lookup :: "string \<Rightarrow> registry \<Rightarrow> codec_decl option" where
  "Lookup name r = map_of r name"

definition Register :: "codec_decl \<Rightarrow> registry \<Rightarrow> register_error + registry" where
  "Register c r =
     (if cd_Name c = [] then Inl EmptyName
      else if cd_DecodeFn c = [] then Inl (NoDecodeFn (cd_Name c))
      else
        let hasAnalytic = cd_SizeFn c \<noteq> [] \<or> cd_EncodeFn c \<noteq> [];
            hasEmit = cd_EmitFn c \<noteq> [];
            hasStream = cd_StreamFn c \<noteq> [] in
        if hasStream \<and> (hasEmit \<or> hasAnalytic) then Inl (StreamConflict (cd_Name c))
        else if hasEmit \<and> hasAnalytic then Inl (EmitConflict (cd_Name c))
        else if \<not> (hasEmit \<or> hasStream) \<and> cd_EncodeFn c = [] then Inl (NoShape (cd_Name c))
        else if \<not> (hasEmit \<or> hasStream) \<and> cd_SizeFn c = [] then Inl (NoSizeFn (cd_Name c))
        else if \<not> isKnownWireType (cd_WireType c)
        then Inl (UnknownWireType (cd_Name c) (cd_WireType c))
        else
          (case Lookup (cd_Name c) r of
             Some existing \<Rightarrow>
               if existing = c then Inr r else Inl (ErrDuplicateCodec (cd_Name c) existing)
           | None \<Rightarrow> Inr ((cd_Name c, c) # r)))"

definition Names :: "registry \<Rightarrow> string list" where
  "Names r = sort (map fst r)"

text \<open>The operands of the diagnostic \<^verbatim>\<open>codec/unregistered\<close>.\<close>

definition UnregisteredError :: "string \<Rightarrow> string list \<Rightarrow> string \<times> string \<times> string list" where
  "UnregisteredError name registered = (''codec/unregistered'', name, registered)"

section \<open>What a registry guarantees\<close>

inductive registered :: "registry \<Rightarrow> bool" where
  registered_new: "registered NewRegistry"
| registered_add: "registered r \<Longrightarrow> Register c r = Inr r' \<Longrightarrow> registered r'"

definition codec_ok :: "codec_decl \<Rightarrow> bool" where
  "codec_ok c \<longleftrightarrow>
     cd_Name c \<noteq> [] \<and> cd_DecodeFn c \<noteq> [] \<and> Kind c \<noteq> None \<and> WireIdent (cd_WireType c) \<noteq> []"

lemma known_ident: "isKnownWireType wt \<longleftrightarrow> WireIdent wt \<noteq> []"
  by (simp add: isKnownWireType_def WireIdent_def)

lemma Register_ok:
  "Register c r = Inr r' \<longleftrightarrow>
     codec_ok c \<and>
     (Lookup (cd_Name c) r = None \<and> r' = (cd_Name c, c) # r \<or> Lookup (cd_Name c) r = Some c \<and> r' = r)"
  by (auto simp: Register_def codec_ok_def Kind_def known_ident Let_def split: option.splits)

lemma registered_entries:
  assumes "registered r"
  shows "distinct (map fst r) \<and> (\<forall>(n, c)\<in>set r. n = cd_Name c \<and> codec_ok c)"
  using assms
proof induction
  case registered_new
  then show ?case by (simp add: NewRegistry_def)
next
  case (registered_add r c r')
  then show ?case by (auto simp: Register_ok Lookup_def map_of_eq_None_iff)
qed

text \<open>
  The registry is sound. Whatever was registered and in whatever order, every codec a lookup finds
  carries the name it is found under, has a decode function and exactly one of the three shapes (so
  \<^verbatim>\<open>Kind\<close> is never its zero value there) and a wire type with a Go identifier; the list of names is
  sorted, has no duplicate and is exactly the names that can be looked up. A codec is accepted if and
  only if it is of that form and no different codec has its name; an accepted one is found from then
  on and nothing else changes.
\<close>

theorem registry_sound:
  assumes "registered r"
  shows "(Lookup n r = Some d \<longrightarrow> cd_Name d = n \<and> codec_ok d) \<and>
    sorted (Names r) \<and> distinct (Names r) \<and> (n \<in> set (Names r) \<longleftrightarrow> Lookup n r \<noteq> None) \<and>
    ((\<exists>r'. Register c r = Inr r') \<longleftrightarrow> codec_ok c \<and> Lookup (cd_Name c) r \<in> {None, Some c}) \<and>
    (Register c r = Inr r' \<longrightarrow> Lookup n r' = (if n = cd_Name c then Some c else Lookup n r))"
proof -
  note entries = registered_entries [OF assms]
  have "cd_Name d = n \<and> codec_ok d" if "Lookup n r = Some d"
    using that entries by (auto simp: Lookup_def dest: map_of_SomeD)
  moreover have "sorted (Names r) \<and> distinct (Names r) \<and> (n \<in> set (Names r) \<longleftrightarrow> Lookup n r \<noteq> None)"
    using entries by (auto simp: Names_def Lookup_def map_of_eq_None_iff)
  moreover have "(\<exists>r'. Register c r = Inr r') \<longleftrightarrow> codec_ok c \<and> Lookup (cd_Name c) r \<in> {None, Some c}"
    by (auto simp: Register_ok)
  moreover have "Lookup n r' = (if n = cd_Name c then Some c else Lookup n r)" if "Register c r = Inr r'"
    using that by (auto simp: Register_ok Lookup_def)
  ultimately show ?thesis by blast
qed

definition json_decl :: codec_decl where
  "json_decl = \<lparr>cd_Name = ''J'', cd_GoType = ''p.T'', cd_WireType = ''length-delim'', cd_EncodeFn = [],
     cd_DecodeFn = ''DecodeJ'', cd_SizeFn = [], cd_EmitFn = [], cd_StreamFn = ''StreamJ'', cd_PkgImport = ''p''\<rparr>"

theorem registry_sound_witness:
  "let r = [(''J'', json_decl)] in
   Names r = [''J''] \<and> Kind json_decl = Some CodecKindStreaming \<and>
   Register json_decl r = Inr r \<and> (\<nexists>r'. Register (json_decl\<lparr>cd_GoType := ''p.U''\<rparr>) r = Inr r') \<and>
   cd_Name (the (Lookup ''J'' r)) = ''J'' \<and> Lookup ''K'' r = None"
proof -
  let ?r = "[(''J'', json_decl)]"
  have ok: "codec_ok json_decl"
    by (simp add: codec_ok_def json_decl_def Kind_def WireIdent_def schema_WireVarint_def
        schema_WireFixed64_def schema_WireFixed32_def schema_WireLengthDelim_def)
  have name: "cd_Name json_decl = ''J''" by (simp add: json_decl_def)
  have first: "Register json_decl NewRegistry = Inr ?r"
    using ok name by (simp add: Register_ok NewRegistry_def Lookup_def)
  have r: "registered ?r" by (rule registered_add [OF registered_new first])
  have found: "Lookup ''J'' ?r = Some json_decl" by (simp add: Lookup_def)
  have "Lookup ''K'' ?r = None"
    using registry_sound [OF registered_new, of "''K''"] first name by (simp add: Lookup_def NewRegistry_def)
  moreover have "Names ?r = [''J'']" by (simp add: Names_def)
  moreover have "\<nexists>r'. Register (json_decl\<lparr>cd_GoType := ''p.U''\<rparr>) ?r = Inr r'"
    using registry_sound [OF r, of _ _ "json_decl\<lparr>cd_GoType := ''p.U''\<rparr>"] found
    by (simp add: json_decl_def)
  moreover have "Register json_decl ?r = Inr ?r" using ok found name by (simp add: Register_ok)
  moreover have "cd_Name (the (Lookup ''J'' ?r)) = ''J''" using registry_sound [OF r] found by simp
  moreover have "Kind json_decl = Some CodecKindStreaming" by (simp add: Kind_def json_decl_def)
  ultimately show ?thesis by (simp only: Let_def simp_thms)
qed

end
