(* ===== verification/Builtin_Codecs.thy ===== *)
theory Builtin_Codecs
  imports Roundtrip Sizing Codec_Registry
begin

text \<open>
  \<^verbatim>\<open>tools/gsbmcodegen/codecs/builtins/builtins.go\<close>: the codecs shipped with the generator. They are
  written against the Writer and the Reader alone; the user's decimal type is its accessors, the
  user's parsing code and \<^verbatim>\<open>encoding/json\<close> are parameters.
\<close>

section \<open>Time\<close>

text \<open>
  An instant as \<^verbatim>\<open>Unix()\<close> and \<^verbatim>\<open>Nanosecond()\<close> report it; the location is not part of it.
  \<^verbatim>\<open>time.Unix\<close> normalises the nanoseconds.
\<close>

record go_time =
  tm_Unix :: i64
  tm_Nanosecond :: int

definition time_Unix :: "i64 \<Rightarrow> int \<Rightarrow> go_time" where
  "time_Unix sec nsec =
     \<lparr>tm_Unix = sec + word_of_int (nsec div 1000000000), tm_Nanosecond = nsec mod 1000000000\<rparr>"

definition errInvalidNanos :: gerr where
  "errInvalidNanos = ErrForeign ''codec/Time: nanoseconds out of range [0, 999999999]''"

definition codecsPkgImport :: string where
  "codecsPkgImport = ''go.flaticols.dev/gsbm/tools/gsbmcodegen/codecs/builtins''"

definition TimeDecl :: codec_decl where
  "TimeDecl = \<lparr>cd_Name = ''Time'', cd_GoType = ''time.Time'', cd_WireType = schema_WireLengthDelim,
     cd_EncodeFn = ''EncodeTime'', cd_DecodeFn = ''DecodeTime'', cd_SizeFn = ''SizeTime'',
     cd_EmitFn = [], cd_StreamFn = [], cd_PkgImport = codecsPkgImport\<rparr>"

text \<open>Encoders return their error beside the Writer.\<close>

definition EncodeTime :: "go_time \<Rightarrow> writer \<Rightarrow> gerr option \<times> writer" where
  "EncodeTime t w =
     (None, wr_WriteUvarint (go_uint64 (tm_Nanosecond t)) (wr_WriteVarint (tm_Unix t) w))"

definition SizeTime :: "go_time \<Rightarrow> int" where
  "SizeTime t = SizeVarint (tm_Unix t) + SizeUvarint (go_uint64 (tm_Nanosecond t))"

definition DecodeTime :: "('al, go_time) reading" where
  "DecodeTime =
     rd_bind rd_ReadVarint (\<lambda>s. rd_bind rd_ReadUvarint (\<lambda>n r.
       if 999999999 < n then (Fail errInvalidNanos, r)
       else (Ret (time_Unix s (go_int n)), r)))"

section \<open>Decimals as text\<close>

text \<open>\<open>str v\<close> is \<^verbatim>\<open>v.String()\<close>, \<open>app v\<close> is \<^verbatim>\<open>v.AppendText\<close>, over the state outside the Writer.\<close>

definition EmitDecimalString ::
  "('v \<Rightarrow> 'g \<Rightarrow> gostring \<times> 'g) \<Rightarrow> 'v \<Rightarrow> u64 \<Rightarrow> writer \<times> 'g \<Rightarrow> gerr option \<times> writer \<times> 'g" where
  "EmitDecimalString str v callsite wg =
     (case wr_WriteCachedString callsite (str v) wg of (w, g) \<Rightarrow> (w_err w, w, g))"

definition EncodeDecimalString ::
  "('v \<Rightarrow> 'g \<Rightarrow> gostring \<times> 'g) \<Rightarrow> 'v \<Rightarrow> writer \<times> 'g \<Rightarrow> gerr option \<times> writer \<times> 'g" where
  "EncodeDecimalString str v wg =
     (case wg of (w, g) \<Rightarrow> case str v g of (s, g') \<Rightarrow> (None, wr_WriteString s w, g'))"

definition SizeDecimalString :: "('v \<Rightarrow> 'g \<Rightarrow> gostring \<times> 'g) \<Rightarrow> 'v \<Rightarrow> 'g \<Rightarrow> int \<times> 'g" where
  "SizeDecimalString str v g = (case str v g of (s, g') \<Rightarrow> (SizeString s, g'))"

definition DecodeDecimalString ::
  "'al acquire \<Rightarrow> (gostring \<Rightarrow> gerr + 'v) \<Rightarrow> ('al, 'v) reading" where
  "DecodeDecimalString acq parse =
     rd_bind (rd_ReadString acq) (\<lambda>s r.
       case parse s of Inl e \<Rightarrow> (Fail e, r) | Inr v \<Rightarrow> (Ret v, r))"

definition NewDecimalStringDecl :: "string \<Rightarrow> string \<Rightarrow> string \<Rightarrow> string \<Rightarrow> string \<Rightarrow> codec_decl" where
  "NewDecimalStringDecl name goType emitFn decFn pkgImport =
     \<lparr>cd_Name = name, cd_GoType = goType, cd_WireType = schema_WireLengthDelim, cd_EncodeFn = [],
      cd_DecodeFn = decFn, cd_SizeFn = [], cd_EmitFn = emitFn, cd_StreamFn = [], cd_PkgImport = pkgImport\<rparr>"

definition EmitDecimalAppend ::
  "('v \<Rightarrow> 'g \<Rightarrow> (gerr + byte list) \<times> 'g) \<Rightarrow> 'v \<Rightarrow> u64 \<Rightarrow> writer \<times> 'g \<Rightarrow>
     gerr option \<times> writer \<times> 'g" where
  "EmitDecimalAppend app v callsite wg =
     (case wr_WriteCachedAppendBytes callsite (app v) wg of (w, g) \<Rightarrow> (w_err w, w, g))"

definition NewDecimalAppendDecl :: "string \<Rightarrow> string \<Rightarrow> string \<Rightarrow> string \<Rightarrow> string \<Rightarrow> codec_decl" where
  "NewDecimalAppendDecl name goType emitFn decFn pkgImport =
     \<lparr>cd_Name = name, cd_GoType = goType, cd_WireType = schema_WireLengthDelim, cd_EncodeFn = [],
      cd_DecodeFn = decFn, cd_SizeFn = [], cd_EmitFn = emitFn, cd_StreamFn = [], cd_PkgImport = pkgImport\<rparr>"

section \<open>Decimals as two varints\<close>

record 'v binary_decimal =
  bd_Coef :: "'v \<Rightarrow> u64"
  bd_Scale :: "'v \<Rightarrow> int"
  bd_IsNeg :: "'v \<Rightarrow> bool"

definition maxBinaryDecimalScale :: int where "maxBinaryDecimalScale = 2 ^ 30"

definition errScaleOutOfRange :: gerr where
  "errScaleOutOfRange = ErrForeign ''codec/DecimalBinary: scale out of range [0, 2^30)''"

text \<open>\<^verbatim>\<open>packed := uint64(scale) << 1; if v.IsNeg() { packed |= 1 }\<close>\<close>

definition pack_scale :: "int \<Rightarrow> bool \<Rightarrow> u64" where
  "pack_scale scale neg =
     (let packed = push_bit 1 (go_uint64 scale) in if neg then packed OR 1 else packed)"

definition EncodeDecimalBinary :: "'v binary_decimal \<Rightarrow> 'v \<Rightarrow> writer \<Rightarrow> gerr option \<times> writer" where
  "EncodeDecimalBinary d v w =
     (let scale = bd_Scale d v in
      if scale < 0 \<or> maxBinaryDecimalScale \<le> scale then (Some errScaleOutOfRange, w)
      else let w = wr_WriteUvarint (pack_scale scale (bd_IsNeg d v)) (wr_WriteUvarint (bd_Coef d v) w) in
           (w_err w, w))"

definition SizeDecimalBinary :: "'v binary_decimal \<Rightarrow> 'v \<Rightarrow> int" where
  "SizeDecimalBinary d v =
     SizeUvarint (bd_Coef d v) + SizeUvarint (pack_scale (bd_Scale d v) (bd_IsNeg d v))"

definition DecodeDecimalBinary ::
  "(u64 \<Rightarrow> int \<Rightarrow> bool \<Rightarrow> gerr + 'v) \<Rightarrow> ('al, 'v) reading" where
  "DecodeDecimalBinary reconstruct =
     rd_bind rd_ReadUvarint (\<lambda>coef. rd_bind rd_ReadUvarint (\<lambda>packed r.
       let scale = drop_bit 1 packed in
       if maxBinaryDecimalScale \<le> uint scale then (Fail errScaleOutOfRange, r)
       else case reconstruct coef (go_int scale) (packed AND 1 = 1) of
         Inl e \<Rightarrow> (Fail e, r)
       | Inr out \<Rightarrow> (Ret out, r)))"

definition NewDecimalBinaryDecl ::
  "string \<Rightarrow> string \<Rightarrow> string \<Rightarrow> string \<Rightarrow> string \<Rightarrow> string \<Rightarrow> codec_decl" where
  "NewDecimalBinaryDecl name goType encFn decFn sizeFn pkgImport =
     \<lparr>cd_Name = name, cd_GoType = goType, cd_WireType = schema_WireLengthDelim, cd_EncodeFn = encFn,
      cd_DecodeFn = decFn, cd_SizeFn = sizeFn, cd_EmitFn = [], cd_StreamFn = [], cd_PkgImport = pkgImport\<rparr>"

section \<open>JSON\<close>

definition StreamJSONBytes ::
  "('v \<Rightarrow> gerr + byte list) \<Rightarrow> 'v \<Rightarrow> writer \<Rightarrow> gerr option \<times> writer" where
  "StreamJSONBytes json_marshal v w =
     (case json_marshal v of Inl e \<Rightarrow> (Some e, w) | Inr b \<Rightarrow> (None, wr_WriteBytes b w))"

text \<open>\<^verbatim>\<open>json.Unmarshal\<close> may have written to the receiver before it fails.\<close>

definition DecodeJSONBytes ::
  "(byte list \<Rightarrow> 'v \<Rightarrow> gerr option \<times> 'v) \<Rightarrow> 'v \<Rightarrow> 'al reader \<Rightarrow>
     (unit outcome \<times> 'v) \<times> 'al reader" where
  "DecodeJSONBytes json_unmarshal v r =
     (case rd_ReadBytes r of
        (Ret b, r') \<Rightarrow>
          (case json_unmarshal b v of
             (Some e, v') \<Rightarrow> ((Fail e, v'), r')
           | (None, v') \<Rightarrow> ((Ret (), v'), r'))
      | (Fail e, r') \<Rightarrow> ((Fail e, v), r')
      | (Panic, r') \<Rightarrow> ((Panic, v), r'))"

definition NewStreamingJSONDecl :: "string \<Rightarrow> string \<Rightarrow> string \<Rightarrow> string \<Rightarrow> string \<Rightarrow> codec_decl" where
  "NewStreamingJSONDecl name goType streamFn decFn pkgImport =
     \<lparr>cd_Name = name, cd_GoType = goType, cd_WireType = schema_WireLengthDelim, cd_EncodeFn = [],
      cd_DecodeFn = decFn, cd_SizeFn = [], cd_EmitFn = [], cd_StreamFn = streamFn, cd_PkgImport = pkgImport\<rparr>"

text \<open>A failing registration panics: \<open>None\<close>.\<close>

definition NewBuiltinRegistry :: "registry option" where
  "NewBuiltinRegistry =
     (case Register TimeDecl NewRegistry of Inl _ \<Rightarrow> None | Inr r \<Rightarrow> Some r)"

section \<open>What they guarantee\<close>

definition time_ok :: "go_time \<Rightarrow> bool" where
  "time_ok t \<longleftrightarrow> 0 \<le> tm_Nanosecond t \<and> tm_Nanosecond t < 1000000000"

lemma uint_go_uint64: "0 \<le> n \<Longrightarrow> n < 2 ^ 64 \<Longrightarrow> uint (go_uint64 n) = n"
  by (simp add: go_uint64_def uint_u64_of_int)

text \<open>Two varints in a row, written in either mode and read back.\<close>

lemma WriteVarint_zigzag: "wr_WriteVarint v w = wr_WriteUvarint (zigzag_encode64 v) w"
  by (simp add: wr_WriteVarint_def wr_WriteUvarint_def)

lemma two_uvarints:
  shows "rl_ok w \<Longrightarrow>
      wr_WriteUvarint v (wr_WriteUvarint u w) = w\<lparr>w_buf := w_buf w @ uvarint u @ uvarint v\<rparr>"
    and "sz_ok w \<Longrightarrow> w_size_acc (wr_WriteUvarint v (wr_WriteUvarint u w)) =
      w_size_acc w + len (uvarint u) + len (uvarint v)"
  by (simp_all add: rl_ok_def sz_ok_def wr_WriteUvarint_def wr_after_write_def append_uvarint_eq
      length_uvarint)

lemma reads_uvarint:
  assumes "rd_wf r" and "rd_err r = None" and "rd_rest r = uvarint v @ rest"
  shows "reads rd_ReadUvarint r v rest" and "reads rd_ReadVarint r (zigzag_decode64 v) rest"
  using reads_refines [OF rd_ReadUvarint_refines assms(1,2)] reads_refines [OF rd_ReadVarint_refines assms(1,2)]
    assms(3) by (simp_all add: p_bind_Ret p_return_def)

lemma reads_two:
  fixes r :: "'al reader"
  assumes r: "rd_wf r" "rd_err r = None" "rd_rest r = uvarint u @ uvarint v @ rest"
  shows "(\<And>s. h u v s = (Ret x, s)) \<Longrightarrow>
      reads (rd_bind rd_ReadUvarint (\<lambda>a. rd_bind rd_ReadUvarint (h a))) r x rest"
    and "(\<And>s. h' (zigzag_decode64 u) v s = (Ret x, s)) \<Longrightarrow>
      reads (rd_bind rd_ReadVarint (\<lambda>a. rd_bind rd_ReadUvarint (h' a))) r x rest"
proof -
  have last: "reads (rd_bind rd_ReadUvarint k) s x rest"
    if "\<And>s. k v s = (Ret x, s)" "rd_wf s" "rd_err s = None" "rd_rest s = uvarint v @ rest"
    for k and s :: "'al reader"
  proof (rule reads_bind [OF reads_uvarint(1) [OF that(2-4)] that(2)])
    fix s' :: "'al reader" assume "rd_wf s'" "rd_err s' = None" "rd_rest s' = rest"
    then show "reads (k v) s' x rest" using that(1) by (simp add: reads_def)
  qed
  show "reads (rd_bind rd_ReadUvarint (\<lambda>a. rd_bind rd_ReadUvarint (h a))) r x rest"
    if "\<And>s. h u v s = (Ret x, s)"
    by (rule reads_bind [OF reads_uvarint(1) [OF r] r(1)]) (rule last [where k = "h u", OF that])
  show "reads (rd_bind rd_ReadVarint (\<lambda>a. rd_bind rd_ReadUvarint (h' a))) r x rest"
    if "\<And>s. h' (zigzag_decode64 u) v s = (Ret x, s)"
    by (rule reads_bind [OF reads_uvarint(2) [OF r] r(1)])
      (rule last [where k = "h' (zigzag_decode64 u)", OF that])
qed

text \<open>
  C38: The time codec keeps every instant. For each 64-bit count of seconds and each nanosecond part
  from 0 to 999999999, the encoder appends two varints of exactly the size \<^verbatim>\<open>SizeTime\<close> announced,
  counts that size in the size pass, and the decoder gives back the instant from those bytes,
  whatever follows them. Nothing it accepts has a nanosecond part outside that range.
\<close>

theorem time_codec_roundtrip:
  assumes "time_ok t"
  shows "(rl_ok w \<longrightarrow> (\<exists>b. EncodeTime t w = (None, w\<lparr>w_buf := w_buf w @ b\<rparr>) \<and> len b = SizeTime t \<and>
      (\<forall>(r :: 'al reader) rest. rd_wf r \<and> rd_err r = None \<and> rd_rest r = b @ rest \<longrightarrow>
         reads DecodeTime r t rest))) \<and>
    (sz_ok w \<longrightarrow> w_size_acc (snd (EncodeTime t w)) = w_size_acc w + SizeTime t) \<and>
    (DecodeTime r = (Ret t', r') \<longrightarrow> time_ok t')"
proof -
  let ?s = "uvarint (zigzag_encode64 (tm_Unix t))" and ?n = "uvarint (go_uint64 (tm_Nanosecond t))"
  note two = two_uvarints [of w "go_uint64 (tm_Nanosecond t)" "zigzag_encode64 (tm_Unix t)"]
  have size: "SizeTime t = len ?s + len ?n"
    by (simp add: SizeTime_def SizeVarint_def SizeUvarint_def length_uvarint)
  have n: "uint (go_uint64 (tm_Nanosecond t)) = tm_Nanosecond t"
    using assms by (simp add: uint_go_uint64 time_ok_def)
  have decoded: "\<not> 999999999 < go_uint64 (tm_Nanosecond t)"
    "time_Unix (tm_Unix t) (go_int (go_uint64 (tm_Nanosecond t))) = t"
    using assms n by (simp_all add: word_less_def time_ok_def go_int_small time_Unix_def)
  have "reads DecodeTime r t rest"
    if "rd_wf r" "rd_err r = None" "rd_rest r = (?s @ ?n) @ rest" for r :: "'al reader" and rest
    unfolding DecodeTime_def using that
    by (intro reads_two(2) [where u = "zigzag_encode64 (tm_Unix t)"
          and v = "go_uint64 (tm_Nanosecond t)"])
      (simp_all only: zigzag_decode_encode decoded if_False append_assoc)
  then have "\<exists>b. EncodeTime t w = (None, w\<lparr>w_buf := w_buf w @ b\<rparr>) \<and> len b = SizeTime t \<and>
      (\<forall>(r :: 'al reader) rest. rd_wf r \<and> rd_err r = None \<and> rd_rest r = b @ rest \<longrightarrow>
         reads DecodeTime r t rest)" if "rl_ok w"
    using two(1) [OF that] size by (intro exI [of _ "?s @ ?n"]) (auto simp: EncodeTime_def WriteVarint_zigzag)
  moreover have "w_size_acc (snd (EncodeTime t w)) = w_size_acc w + SizeTime t" if "sz_ok w"
    using two(2) [OF that] size by (simp add: EncodeTime_def WriteVarint_zigzag)
  moreover have "time_ok t'" if "DecodeTime r = (Ret t', r')"
    using that by (auto simp: DecodeTime_def rd_bind_def time_ok_def time_Unix_def
        split: prod.splits outcome.splits if_splits)
  ultimately show ?thesis by blast
qed

theorem time_codec_roundtrip_witness:
  "let t = \<lparr>tm_Unix = - 62135596800, tm_Nanosecond = 999999999\<rparr> in
   \<exists>b. EncodeTime t (new_writer []) = (None, (new_writer [])\<lparr>w_buf := b\<rparr>) \<and> len b = SizeTime t \<and>
     reads DecodeTime (new_reader (b @ [7]) :: unit reader) t [7]"
proof -
  let ?t = "\<lparr>tm_Unix = - 62135596800, tm_Nanosecond = 999999999\<rparr>"
  have ok: "time_ok ?t" by (simp add: time_ok_def)
  have "rl_ok (new_writer [])" by (simp add: rl_ok_def new_writer_def zero_writer_def)
  from time_codec_roundtrip [OF ok, where ?'al = unit, THEN conjunct1, rule_format, OF this] obtain b where
    b: "EncodeTime ?t (new_writer []) = (None, (new_writer [])\<lparr>w_buf := w_buf (new_writer []) @ b\<rparr>)"
      "len b = SizeTime ?t"
      "\<And>(r :: unit reader) rest. rd_wf r \<and> rd_err r = None \<and> rd_rest r = b @ rest \<Longrightarrow>
         reads DecodeTime r ?t rest" by blast
  have "len b \<le> 20"
    using b(2) varint_len_bounds [of "zigzag_encode64 (- 62135596800)"] varint_len_bounds [of "go_uint64 999999999"]
    by (simp add: SizeTime_def SizeVarint_def SizeUvarint_def)
  then have "reads DecodeTime (new_reader (b @ [7]) :: unit reader) ?t [7]"
    by (intro b(3)) (simp add: new_reader_wf)
  moreover have "w_buf (new_writer []) = []" by (simp add: new_writer_def zero_writer_def)
  ultimately show ?thesis using b(1,2) by (auto simp: Let_def)
qed

lemma unpack_scale:
  assumes "0 \<le> s" and "s < maxBinaryDecimalScale"
  shows "drop_bit 1 (pack_scale s neg) = go_uint64 s" and "pack_scale s neg AND 1 = 1 \<longleftrightarrow> neg"
proof -
  let ?x = "go_uint64 s"
  have "uint ?x < 2 ^ 30" using assms by (simp add: uint_go_uint64 maxBinaryDecimalScale_def)
  then have "take_bit 30 ?x = ?x"
    by (simp add: word_uint_eq_iff unsigned_take_bit_eq take_bit_int_eq_self_iff)
  then have small: "\<not> bit ?x n" if "30 \<le> n" for n
    using that by (metis bit_take_bit_iff linorder_not_less)
  have inner: "n < 63" if "bit ?x n" for n using small [of n] that by linarith
  have bits: "bit (pack_scale s neg) n \<longleftrightarrow> (if n = 0 then neg else n < 64 \<and> bit ?x (n - 1))" for n
    unfolding pack_scale_def Let_def
    by (cases neg) (simp_all only: if_True if_False bit_or_iff bit_push_bit_iff bit_1_iff, auto)
  show "drop_bit 1 (pack_scale s neg) = ?x"
    by (rule bit_word_eqI) (use inner in \<open>auto simp: bit_drop_bit_eq bits\<close>)
  have "odd (pack_scale s neg) \<longleftrightarrow> neg" using bits [of 0] by (simp add: bit_0)
  then show "pack_scale s neg AND 1 = 1 \<longleftrightarrow> neg"
    by (auto simp: and_one_eq odd_iff_mod_2_eq_one)
qed

text \<open>
  C39: The binary decimal codec keeps coefficient, scale and sign. A decimal whose scale is in
  \<open>[0, 2^30)\<close> is appended in exactly the size announced (in the size pass: counted), and the decoder hands the
  user's constructor exactly its three parts; any other scale is refused with nothing written. The
  decoder never calls the constructor with a scale outside that range, and returns its error unchanged.
\<close>

theorem decimal_codec_roundtrip:
  fixes v :: 'v and r0 :: "'al reader"
  shows "(rl_ok w \<and> 0 \<le> bd_Scale d v \<and> bd_Scale d v < maxBinaryDecimalScale \<longrightarrow>
      (\<exists>b. EncodeDecimalBinary d v w = (None, w\<lparr>w_buf := w_buf w @ b\<rparr>) \<and> len b = SizeDecimalBinary d v \<and>
        (\<forall>(r :: 'al reader) rest reconstruct out. rd_wf r \<and> rd_err r = None \<and> rd_rest r = b @ rest \<and>
           reconstruct (bd_Coef d v) (bd_Scale d v) (bd_IsNeg d v) = Inr out \<longrightarrow>
           reads (DecodeDecimalBinary reconstruct) r (out :: 'v) rest))) \<and>
    (sz_ok w \<and> 0 \<le> bd_Scale d v \<and> bd_Scale d v < maxBinaryDecimalScale \<longrightarrow>
      w_size_acc (snd (EncodeDecimalBinary d v w)) = w_size_acc w + SizeDecimalBinary d v) \<and>
    (bd_Scale d v < 0 \<or> maxBinaryDecimalScale \<le> bd_Scale d v \<longrightarrow>
      EncodeDecimalBinary d v w = (Some errScaleOutOfRange, w)) \<and>
    (DecodeDecimalBinary reconstruct r0 = (Ret (out :: 'v), r') \<longrightarrow>
      (\<exists>c s neg. 0 \<le> s \<and> s < maxBinaryDecimalScale \<and> reconstruct c s neg = Inr out))"
proof -
  let ?p = "pack_scale (bd_Scale d v) (bd_IsNeg d v)"
  note two = two_uvarints [of w ?p "bd_Coef d v"]
  have size: "SizeDecimalBinary d v = len (uvarint (bd_Coef d v)) + len (uvarint ?p)"
    by (simp add: SizeDecimalBinary_def SizeUvarint_def length_uvarint)
  have dec: "reads (DecodeDecimalBinary reconstruct) r out rest"
    if "0 \<le> bd_Scale d v" "bd_Scale d v < maxBinaryDecimalScale" "rd_wf r" "rd_err r = None"
      "rd_rest r = uvarint (bd_Coef d v) @ uvarint ?p @ rest"
      "reconstruct (bd_Coef d v) (bd_Scale d v) (bd_IsNeg d v) = Inr out"
    for r :: "'al reader" and rest reconstruct and out :: 'v
  proof -
    have u: "uint (go_uint64 (bd_Scale d v)) = bd_Scale d v"
      using that(1,2) by (simp add: uint_go_uint64 maxBinaryDecimalScale_def)
    then have g: "go_int (go_uint64 (bd_Scale d v)) = bd_Scale d v"
      using that(2) by (simp add: go_int_small maxBinaryDecimalScale_def)
    show ?thesis
      unfolding DecodeDecimalBinary_def
      by (rule reads_two(1) [OF that(3-5)])
        (use that(2,6) u g unpack_scale [OF that(1,2)] in \<open>simp add: Let_def\<close>)
  qed
  have "\<exists>b. EncodeDecimalBinary d v w = (None, w\<lparr>w_buf := w_buf w @ b\<rparr>) \<and> len b = SizeDecimalBinary d v \<and>
        (\<forall>(r :: 'al reader) rest reconstruct out. rd_wf r \<and> rd_err r = None \<and> rd_rest r = b @ rest \<and>
           reconstruct (bd_Coef d v) (bd_Scale d v) (bd_IsNeg d v) = Inr out \<longrightarrow>
           reads (DecodeDecimalBinary reconstruct) r (out :: 'v) rest)"
    if "rl_ok w" "0 \<le> bd_Scale d v" "bd_Scale d v < maxBinaryDecimalScale"
    using two(1) [OF that(1)] that dec size
    by (intro exI [of _ "uvarint (bd_Coef d v) @ uvarint ?p"])
      (auto simp: EncodeDecimalBinary_def Let_def rl_ok_def)
  moreover have "w_size_acc (snd (EncodeDecimalBinary d v w)) = w_size_acc w + SizeDecimalBinary d v"
    if "sz_ok w" "0 \<le> bd_Scale d v" "bd_Scale d v < maxBinaryDecimalScale"
    using two(2) [OF that(1)] that size by (simp add: EncodeDecimalBinary_def Let_def)
  moreover have "EncodeDecimalBinary d v w = (Some errScaleOutOfRange, w)"
    if "bd_Scale d v < 0 \<or> maxBinaryDecimalScale \<le> bd_Scale d v"
    using that by (simp add: EncodeDecimalBinary_def Let_def)
  moreover have "\<exists>c s neg. 0 \<le> s \<and> s < maxBinaryDecimalScale \<and> reconstruct c s neg = Inr out"
    if ret: "DecodeDecimalBinary reconstruct r0 = (Ret (out :: 'v), r')"
  proof -
    obtain coef packed where c: "\<not> maxBinaryDecimalScale \<le> uint (drop_bit 1 packed :: u64)"
      "reconstruct coef (go_int (drop_bit 1 packed)) (packed AND 1 = 1) = Inr out"
      using ret by (auto simp: DecodeDecimalBinary_def rd_bind_def Let_def
          split: prod.splits outcome.splits if_splits sum.splits)
    then have "go_int (drop_bit 1 packed) = uint (drop_bit 1 packed)"
      by (intro go_int_small) (simp add: maxBinaryDecimalScale_def)
    then show ?thesis using c by (metis not_le uint_ge_0)
  qed
  ultimately show ?thesis by blast
qed

text \<open>A decimal type that is its three parts.\<close>

definition parts :: "(u64 \<times> int \<times> bool) binary_decimal" where
  "parts = \<lparr>bd_Coef = fst, bd_Scale = fst \<circ> snd, bd_IsNeg = snd \<circ> snd\<rparr>"

theorem decimal_codec_roundtrip_witness:
  "let v = (9999999999999999999 :: u64, 19 :: int, True) in
   (\<exists>b. EncodeDecimalBinary parts v (new_writer []) = (None, (new_writer [])\<lparr>w_buf := b\<rparr>) \<and>
      reads (DecodeDecimalBinary (\<lambda>c s n. Inr (c, s, n))) (new_reader (b @ [7]) :: unit reader) v [7]) \<and>
   EncodeDecimalBinary parts (1, 2 ^ 30, False) (new_writer []) =
     (Some errScaleOutOfRange, new_writer [])"
proof -
  let ?v = "(9999999999999999999 :: u64, 19 :: int, True)"
  have p: "bd_Coef parts ?v = 9999999999999999999" "bd_Scale parts ?v = 19" "bd_IsNeg parts ?v"
    "bd_Scale parts (1, 2 ^ 30, False) = 2 ^ 30" by (simp_all add: parts_def)
  have w: "rl_ok (new_writer [])" "w_buf (new_writer []) = []"
    by (simp_all add: rl_ok_def new_writer_def zero_writer_def)
  obtain b where b: "EncodeDecimalBinary parts ?v (new_writer []) =
        (None, (new_writer [])\<lparr>w_buf := w_buf (new_writer []) @ b\<rparr>)" "len b = SizeDecimalBinary parts ?v"
      "\<And>(r :: unit reader) rest reconstruct out. rd_wf r \<and> rd_err r = None \<and> rd_rest r = b @ rest \<and>
         reconstruct (bd_Coef parts ?v) (bd_Scale parts ?v) (bd_IsNeg parts ?v) = Inr out \<Longrightarrow>
         reads (DecodeDecimalBinary reconstruct) r (out :: u64 \<times> int \<times> bool) rest"
    using decimal_codec_roundtrip [of "new_writer []" parts ?v, where ?'al = unit, THEN conjunct1] w(1) p
    by (auto simp: maxBinaryDecimalScale_def)
  have "len b \<le> 20"
    using b(2) varint_len_bounds [of "bd_Coef parts ?v"] varint_len_bounds [of "pack_scale 19 True"] p
    by (simp add: SizeDecimalBinary_def SizeUvarint_def)
  then have "reads (DecodeDecimalBinary (\<lambda>c s n. Inr (c, s, n))) (new_reader (b @ [7]) :: unit reader) ?v [7]"
    by (intro b(3)) (simp add: new_reader_wf p)
  moreover have "EncodeDecimalBinary parts (1, 2 ^ 30, False) (new_writer []) =
      (Some errScaleOutOfRange, new_writer [])"
    using decimal_codec_roundtrip [of "new_writer []" parts "(1, 2 ^ 30, False)", THEN conjunct2,
        THEN conjunct2, THEN conjunct1] by (simp add: parts_def maxBinaryDecimalScale_def)
  ultimately show ?thesis using b(1) w(2) by (auto simp: Let_def)
qed

text \<open>The built-in registry exists and holds the time codec.\<close>

lemma builtin_registry: "NewBuiltinRegistry = Some [(''Time'', TimeDecl)]"
proof -
  have "codec_ok TimeDecl"
    by (simp add: codec_ok_def TimeDecl_def Kind_def WireIdent_def schema_WireVarint_def
        schema_WireFixed64_def schema_WireFixed32_def schema_WireLengthDelim_def)
  then have "Register TimeDecl NewRegistry = Inr [(''Time'', TimeDecl)]"
    by (simp add: Register_ok NewRegistry_def Lookup_def) (simp add: TimeDecl_def)
  then show ?thesis by (simp add: NewBuiltinRegistry_def)
qed

end
