(* ===== verification/Gen_Names.thy ===== *)
theory Gen_Names
  imports Go_Types Codec_Registry "HOL-Library.AList"
begin

text \<open>
  \<^verbatim>\<open>tools/gsbmcodegen/codegen.go\<close>: the state of a generator run for one file, and the names it chooses:
  import aliases, callsite constants, type expressions, and the locals of \<^verbatim>\<open>emit.go\<close>.

  A package scope is the list of its names; \<^verbatim>\<open>obj.Pkg().Name()\<close>, which only seeds an alias, is the field
  \<open>et_PkgName\<close> of the path; the Go maps are association lists, newest entry first.
\<close>

record emitter =
  et_PkgPath :: string
  et_PkgName :: "string \<Rightarrow> string"
  et_Scope :: "string list"
  et_imports :: "(string \<times> string) list"
  et_nameToPath :: "(string \<times> string) list"
  et_reg :: "registry option"
  et_callsites :: "(string \<times> u64) list"
  et_callsiteIdx :: "(string \<times> nat) list"
  et_structFQN :: string
  et_runtimeAlias :: string
  et_borrowStrings :: bool
  et_structIndex :: "(string \<times> struct_decl) list"
  et_materializeCache :: "(named \<times> bool) list"

section \<open>Identifiers\<close>

definition is_lower :: "char \<Rightarrow> bool" where
  "is_lower c \<longleftrightarrow> 97 \<le> (of_char c :: nat) \<and> (of_char c :: nat) \<le> 122"

definition is_upper :: "char \<Rightarrow> bool" where
  "is_upper c \<longleftrightarrow> 65 \<le> (of_char c :: nat) \<and> (of_char c :: nat) \<le> 90"

definition ident_start :: "char \<Rightarrow> bool" where
  "ident_start c \<longleftrightarrow> c = CHR ''_'' \<or> is_lower c \<or> is_upper c"

definition isValidGoIdent :: "string \<Rightarrow> bool" where
  "isValidGoIdent s =
     (case s of [] \<Rightarrow> False
      | c # cs \<Rightarrow> ident_start c \<and> list_all (\<lambda>r. ident_start r \<or> is_digit r) cs)"

definition lastPathSegment :: "string \<Rightarrow> string" where
  "lastPathSegment path =
     (case last_index_byte (CHR ''/'') path of Some i \<Rightarrow> drop (i + 1) path | None \<Rightarrow> path)"

definition pathToIdent :: "string \<Rightarrow> string" where
  "pathToIdent s =
     (if s = [] then []
      else
        let out = filter (\<lambda>r. ident_start r \<or> is_digit r) s in
        if out = [] then ''pkg''
        else if is_digit (hd out) then ''pkg'' @ out
        else out)"

definition reservedAliases :: "string list" where
  "reservedAliases =
     [''break'', ''case'', ''chan'', ''const'', ''continue'', ''default'', ''defer'',
      ''else'', ''fallthrough'', ''for'', ''func'', ''go'', ''goto'', ''if'', ''import'',
      ''interface'', ''map'', ''package'', ''range'', ''return'', ''select'', ''struct'',
      ''switch'', ''type'', ''var'',
      ''bool'', ''byte'', ''complex64'', ''complex128'', ''error'', ''float32'',
      ''float64'', ''int'', ''int8'', ''int16'', ''int32'', ''int64'', ''rune'', ''string'',
      ''uint'', ''uint8'', ''uint16'', ''uint32'', ''uint64'', ''uintptr'', ''any'',
      ''comparable'',
      ''true'', ''false'', ''iota'', ''nil'',
      ''append'', ''cap'', ''clear'', ''close'', ''complex'', ''copy'', ''delete'',
      ''imag'', ''len'', ''make'', ''max'', ''min'', ''new'', ''panic'', ''print'',
      ''println'', ''real'', ''recover'',
      ''m'', ''saved'', ''n'', ''k'', ''vv'', ''inner'', ''state'', ''keys'', ''i'', ''x'',
      ''u'', ''err'', ''r'', ''w'', ''v'', ''present'', ''tag'', ''wt'',
      ''idx'', ''bit'', ''cp'', ''tmp'', ''z'', ''cw'', ''b'', ''raw'']"

section \<open>Import aliases\<close>

definition aliasUnavailable :: "emitter \<Rightarrow> string \<Rightarrow> string \<Rightarrow> bool" where
  "aliasUnavailable e candidate path \<longleftrightarrow>
     candidate \<in> set reservedAliases \<or>
     (case map_of (et_nameToPath e) candidate of Some other \<Rightarrow> other \<noteq> path | None \<Rightarrow> False) \<or>
     candidate \<in> set (et_Scope e)"

text \<open>The numeric suffixes: only finitely many names are taken, so the loop ends.\<close>

definition taken_suffixes :: "emitter \<Rightarrow> string \<Rightarrow> string \<Rightarrow> nat \<Rightarrow> nat set" where
  "taken_suffixes e candidate path n = {m. n \<le> m \<and> aliasUnavailable e (candidate @ dec m) path}"

lemma inj_dec: "inj dec"
  by (metis digits_value_dec injI)

lemma finite_taken [simp]: "finite (taken_suffixes e candidate path n)"
proof -
  let ?names = "set reservedAliases \<union> set (map fst (et_nameToPath e)) \<union> set (et_Scope e)"
  have "(\<lambda>m. candidate @ dec m) ` taken_suffixes e candidate path n \<subseteq> ?names"
    by (auto simp: taken_suffixes_def aliasUnavailable_def dom_map_of_conv_image_fst [symmetric]
        split: option.splits)
  moreover have "inj_on (\<lambda>m. candidate @ dec m) (taken_suffixes e candidate path n)"
    using inj_dec by (auto simp: inj_on_def)
  ultimately show ?thesis
    by (meson List.finite_set finite_UnI finite_imageD finite_subset)
qed

function suffix_alias :: "emitter \<Rightarrow> string \<Rightarrow> string \<Rightarrow> nat \<Rightarrow> string" where
  "suffix_alias e candidate path n =
     (if aliasUnavailable e (candidate @ dec n) path then suffix_alias e candidate path (n + 1)
      else candidate @ dec n)"
  by pat_completeness auto
termination
proof (relation "measure (\<lambda>(e, candidate, path, n). card (taken_suffixes e candidate path n))", simp)
  fix e :: emitter and candidate path :: string and n :: nat
  assume "aliasUnavailable e (candidate @ dec n) path"
  then have "n \<in> taken_suffixes e candidate path n - taken_suffixes e candidate path (n + 1)"
    by (simp add: taken_suffixes_def)
  moreover have "taken_suffixes e candidate path (n + 1) \<subseteq> taken_suffixes e candidate path n"
    by (auto simp: taken_suffixes_def)
  ultimately have "taken_suffixes e candidate path (n + 1) \<subset> taken_suffixes e candidate path n"
    by blast
  then show "((e, candidate, path, n + 1), e, candidate, path, n)
      \<in> measure (\<lambda>(e, candidate, path, n). card (taken_suffixes e candidate path n))"
    by (simp add: psubset_card_mono)
qed

declare suffix_alias.simps [simp del]

definition disambiguateAlias :: "emitter \<Rightarrow> string \<Rightarrow> string \<Rightarrow> string" where
  "disambiguateAlias e candidate path =
     (let segs = map pathToIdent (rev (butlast (split_on (CHR ''/'') path))) in
      case find (\<lambda>seg. seg \<noteq> [] \<and> isValidGoIdent (seg @ candidate) \<and>
          \<not> aliasUnavailable e (seg @ candidate) path) segs of
        Some seg \<Rightarrow> seg @ candidate
      | None \<Rightarrow> suffix_alias e candidate path 2)"

definition import_candidate :: "string \<Rightarrow> string \<Rightarrow> string" where
  "import_candidate path name =
     (if name = [] \<or> \<not> isValidGoIdent name then pathToIdent (lastPathSegment path) else name)"

definition addImport :: "string \<Rightarrow> string \<Rightarrow> emitter \<Rightarrow> string \<times> emitter" where
  "addImport path name e =
     (if path = et_PkgPath e then ([], e)
      else (case map_of (et_imports e) path of
          Some alias \<Rightarrow> (alias, e)
        | None \<Rightarrow>
            let candidate = import_candidate path name;
                candidate = (if aliasUnavailable e candidate path
                  then disambiguateAlias e candidate path else candidate) in
            (candidate, e\<lparr>et_imports := (path, candidate) # et_imports e,
               et_nameToPath := AList.update candidate path (et_nameToPath e)\<rparr>)))"

section \<open>Type expressions\<close>

definition isByteType :: "go_ty \<Rightarrow> bool" where
  "isByteType t = (case t of Lit (TBasic k _) \<Rightarrow> k = KUint8 | _ \<Rightarrow> False)"

lemma isByteType_basic [simp]: "isByteType t = isBasicByte t"
  by (simp add: isByteType_def isBasicByte_def)

fun typeExpr :: "go_env \<Rightarrow> go_ty \<Rightarrow> emitter \<Rightarrow> string \<times> emitter" where
  "typeExpr env (Named i as) e =
     (case to_Pkg (Obj env (i, as)) of
        None \<Rightarrow> (to_Name (Obj env (i, as)), e)
      | Some p \<Rightarrow>
          if p = et_PkgPath e then (to_Name (Obj env (i, as)), e)
          else (case addImport p (et_PkgName e p) e of
              (alias, e) \<Rightarrow> (alias @ ''.'' @ to_Name (Obj env (i, as)), e)))"
| "typeExpr env (Alias s l) e = (ge_String env (Alias s l), e)"
| "typeExpr env (Lit (TBasic k nm)) e = (nm, e)"
| "typeExpr env (Lit (TPointer t)) e =
     (case typeExpr env t e of (s, e) \<Rightarrow> (''*'' @ s, e))"
| "typeExpr env (Lit (TSlice t)) e =
     (if isByteType t then (''[]byte'', e)
      else case typeExpr env t e of (s, e) \<Rightarrow> (''[]'' @ s, e))"
| "typeExpr env (Lit (TArray n t)) e =
     (case typeExpr env t e of (s, e) \<Rightarrow> (''['' @ dec n @ '']'' @ s, e))"
| "typeExpr env (Lit (TMap k t)) e =
     (case typeExpr env k e of (sk, e) \<Rightarrow>
        (case typeExpr env t e of (s, e) \<Rightarrow> (''map['' @ sk @ '']'' @ s, e)))"
| "typeExpr env (Lit l) e = (ge_String env (Lit l), e)"

section \<open>Callsite constants\<close>

definition structFQN :: "go_env \<Rightarrow> named \<Rightarrow> string" where
  "structFQN env n =
     (case to_Pkg (Obj env n) of
        None \<Rightarrow> to_Name (Obj env n) | Some p \<Rightarrow> p @ ''.'' @ to_Name (Obj env n))"

definition fnv_step :: "u64 \<Rightarrow> char \<Rightarrow> u64" where
  "fnv_step h c = (h XOR word_of_nat (of_char c)) * 1099511628211"

definition callsite_hash :: "string \<Rightarrow> u64" where
  "callsite_hash key = foldl fnv_step 1469598103934665603 key"

definition short_name :: "string \<Rightarrow> string" where
  "short_name fqn =
     (case last_index_byte (CHR ''.'') fqn of Some i \<Rightarrow> drop (i + 1) fqn | None \<Rightarrow> fqn)"

definition callsiteFor :: "u32 \<Rightarrow> emitter \<Rightarrow> string \<times> emitter" where
  "callsiteFor tag e =
     (if et_structFQN e = [] then (''csUnknown_'' @ dec_u32 tag, e)
      else
        let name = ''cs'' @ short_name (et_structFQN e) @ ''_'' @ dec_u32 tag in
        if map_of (et_callsiteIdx e) name \<noteq> None then (name, e)
        else (name, e\<lparr>et_callsiteIdx := (name, length (et_callsites e)) # et_callsiteIdx e,
               et_callsites := et_callsites e @
                 [(name, callsite_hash (et_structFQN e @ ''.'' @ dec_u32 tag))]\<rparr>))"

section \<open>Locals of the generated bodies\<close>

text \<open>The identifier a type expression starts with: itself, or the package in front of the dot.\<close>

definition expr_prefix :: "string \<Rightarrow> string" where
  "expr_prefix te =
     (case index_byte (CHR ''.'') te of Some dot \<Rightarrow> if 0 < dot then take dot te else te | None \<Rightarrow> te)"

definition pickByteSliceLocal :: "string \<Rightarrow> string" where
  "pickByteSliceLocal te = (if expr_prefix te = ''raw'' then ''raw_'' else ''raw'')"

definition pickConvertLocal :: "string \<Rightarrow> string \<Rightarrow> string" where
  "pickConvertLocal preferred te = (if expr_prefix te = preferred then preferred @ ''_'' else preferred)"

definition pick_pair :: "string \<Rightarrow> string \<Rightarrow> string list \<Rightarrow> string \<times> string" where
  "pick_pair a b tes =
     (let prefixes = map expr_prefix (filter (\<lambda>te. te \<noteq> []) tes) in
      (if a \<in> set prefixes then a @ ''_'' else a, if b \<in> set prefixes then b @ ''_'' else b))"

definition pickPresenceLocals :: "string list \<Rightarrow> string \<times> string" where
  "pickPresenceLocals tes = pick_pair ''saved'' ''state'' tes"

definition pickInnerLocal :: "string \<Rightarrow> string \<Rightarrow> string \<Rightarrow> string" where
  "pickInnerLocal savedLocal stateLocal te =
     (if ''inner'' = savedLocal \<or> ''inner'' = stateLocal \<or> expr_prefix te = ''inner''
      then ''inner_'' else ''inner'')"

definition pickPointerSliceLocals :: "string list \<Rightarrow> string \<times> string" where
  "pickPointerSliceLocals tes = pick_pair ''inner'' ''state'' tes"

definition nm_local :: "string \<Rightarrow> nat \<Rightarrow> string" where
  "nm_local base depth = (if depth = 0 then base else base @ ''_'' @ dec depth)"

end
