(* ===== verification/Gen_Imports.thy ===== *)
theory Gen_Imports
  imports Gen_Names
begin

text \<open>
  The names a generated file binds: import aliases never clash with each other, with Go's own names or
  with the package they are generated into, and a callsite constant stands for one field.
\<close>

section \<open>Identifiers\<close>

lemma ident_start_not_digit: "ident_start c \<Longrightarrow> \<not> is_digit c"
  by (auto simp: ident_start_def is_lower_def is_upper_def is_digit_def)

lemma isValidGoIdent_append:
  "isValidGoIdent a \<Longrightarrow> list_all (\<lambda>c. ident_start c \<or> is_digit c) b \<Longrightarrow> isValidGoIdent (a @ b)"
  by (auto simp: isValidGoIdent_def split: list.splits)

lemma pathToIdent_valid: "s \<noteq> [] \<Longrightarrow> isValidGoIdent (pathToIdent s)"
proof -
  let ?out = "filter (\<lambda>r. ident_start r \<or> is_digit r) s"
  assume "s \<noteq> []"
  have all: "list_all (\<lambda>c. ident_start c \<or> is_digit c) ?out" by (simp add: list_all_iff)
  have pkg: "isValidGoIdent ''pkg''" by code_simp
  show ?thesis
  proof (cases ?out)
    case Nil
    then show ?thesis using \<open>s \<noteq> []\<close> pkg by (simp add: pathToIdent_def)
  next
    case (Cons c cs)
    then have "isValidGoIdent ?out" if "\<not> is_digit c" using all that by (simp add: isValidGoIdent_def)
    then show ?thesis
      using Cons \<open>s \<noteq> []\<close> isValidGoIdent_append [OF pkg all] by (simp add: pathToIdent_def Let_def)
  qed
qed

lemma dec_ident_chars: "list_all (\<lambda>c. ident_start c \<or> is_digit c) (dec n)"
  using dec_digits [of n] by (auto simp: list_all_iff)

section \<open>One request\<close>

lemma suffix_alias_free: "\<not> aliasUnavailable e (suffix_alias e c p n) p"
proof (induction e c p n rule: suffix_alias.induct)
  case (1 e c p n)
  then show ?case by (subst suffix_alias.simps) auto
qed

lemma suffix_alias_form: "\<exists>m. suffix_alias e c p n = c @ dec m"
proof (induction e c p n rule: suffix_alias.induct)
  case (1 e c p n)
  then show ?case by (subst suffix_alias.simps) auto
qed

lemma disambiguateAlias_free: "\<not> aliasUnavailable e (disambiguateAlias e c p) p"
  by (auto simp: disambiguateAlias_def Let_def suffix_alias_free find_Some_iff split: option.splits)

lemma disambiguateAlias_valid:
  assumes "isValidGoIdent c"
  shows "isValidGoIdent (disambiguateAlias e c p)"
proof -
  obtain m where "suffix_alias e c p 2 = c @ dec m" using suffix_alias_form by blast
  then show ?thesis
    using isValidGoIdent_append [OF assms dec_ident_chars]
    by (auto simp: disambiguateAlias_def Let_def find_Some_iff split: option.splits)
qed

lemma import_candidate_valid: "lastPathSegment p \<noteq> [] \<Longrightarrow> isValidGoIdent (import_candidate p name)"
  by (auto simp: import_candidate_def pathToIdent_valid)

text \<open>The alias a new path gets.\<close>

definition chosen_alias :: "emitter \<Rightarrow> string \<Rightarrow> string \<Rightarrow> string" where
  "chosen_alias e p name =
     (let c = import_candidate p name in if aliasUnavailable e c p then disambiguateAlias e c p else c)"

lemma chosen_alias_free: "\<not> aliasUnavailable e (chosen_alias e p name) p"
  by (simp add: chosen_alias_def Let_def disambiguateAlias_free)

lemma chosen_alias_valid: "lastPathSegment p \<noteq> [] \<Longrightarrow> isValidGoIdent (chosen_alias e p name)"
  by (simp add: chosen_alias_def Let_def disambiguateAlias_valid import_candidate_valid)

lemma addImport_new:
  "p \<noteq> et_PkgPath e \<Longrightarrow> map_of (et_imports e) p = None \<Longrightarrow>
   addImport p name e = (chosen_alias e p name,
     e\<lparr>et_imports := (p, chosen_alias e p name) # et_imports e,
       et_nameToPath := AList.update (chosen_alias e p name) p (et_nameToPath e)\<rparr>)"
  by (simp add: addImport_def chosen_alias_def Let_def)

lemma addImport_known:
  "p \<noteq> et_PkgPath e \<Longrightarrow> map_of (et_imports e) p = Some a \<Longrightarrow> addImport p name e = (a, e)"
  by (simp add: addImport_def)

section \<open>The invariant\<close>

text \<open>The two tables are each other's inverse, and what they bind is free to use.\<close>

definition imports_ok :: "emitter \<Rightarrow> bool" where
  "imports_ok e \<longleftrightarrow>
     distinct (map fst (et_imports e)) \<and>
     (\<forall>a p. map_of (et_nameToPath e) a = Some p \<longleftrightarrow> map_of (et_imports e) p = Some a) \<and>
     (\<forall>(p, a)\<in>set (et_imports e). a \<notin> set reservedAliases \<and> a \<notin> set (et_Scope e) \<and>
        p \<noteq> et_PkgPath e \<and> (lastPathSegment p \<noteq> [] \<longrightarrow> isValidGoIdent a))"

lemma addImport_ok:
  assumes "imports_ok e"
  shows "imports_ok (snd (addImport p name e))"
proof (cases "p = et_PkgPath e \<or> map_of (et_imports e) p \<noteq> None")
  case True
  then show ?thesis using assms by (auto simp: addImport_def)
next
  case False
  let ?a = "chosen_alias e p name"
  have free: "\<not> aliasUnavailable e ?a p" by (rule chosen_alias_free)
  have inv: "map_of (et_nameToPath e) a = Some q \<longleftrightarrow> map_of (et_imports e) q = Some a" for a q
    using assms by (simp add: imports_ok_def)
  have unbound: "map_of (et_nameToPath e) ?a = None"
    using free inv [of ?a p] False by (auto simp: aliasUnavailable_def split: option.splits)
  have tables: "map_of ((p, ?a) # et_imports e) q = Some b \<longleftrightarrow>
      map_of (AList.update ?a p (et_nameToPath e)) b = Some q" for q b
    using inv [of b q] inv [of ?a q] inv [of b p] unbound False by (auto simp: update_conv')
  show ?thesis
    using assms False tables free chosen_alias_valid [of p e name]
    by (auto simp: addImport_new imports_ok_def aliasUnavailable_def map_of_eq_None_iff)
qed

text \<open>The requests of one file, in any order.\<close>

inductive import_run :: "emitter \<Rightarrow> bool" where
  import_start: "et_imports e = [] \<Longrightarrow> et_nameToPath e = [] \<Longrightarrow> import_run e"
| import_step: "import_run e \<Longrightarrow> import_run (snd (addImport p name e))"

lemma import_run_ok: "import_run e \<Longrightarrow> imports_ok e"
proof (induction rule: import_run.induct)
  case (import_start e)
  then show ?case by (simp add: imports_ok_def)
qed (rule addImport_ok)

text \<open>
  C1: Import aliases are sound. Whatever paths a generated file asks for and in whatever order, no two
  paths share an alias, no alias is a Go keyword, a predeclared name, a reserved local or a name the
  package declares, and every alias of a path with a last segment is a valid identifier. A request
  returns the alias it binds, for ever after the same, and changes no other.
\<close>

theorem import_aliases_sound:
  assumes "import_run e" and "addImport p name e = (a, e')" and "p \<noteq> et_PkgPath e"
  shows "map_of (et_imports e') p = Some a \<and> addImport p name' e' = (a, e') \<and>
    a \<notin> set reservedAliases \<and> a \<notin> set (et_Scope e) \<and>
    (lastPathSegment p \<noteq> [] \<longrightarrow> isValidGoIdent a) \<and>
    (\<forall>q. q \<noteq> p \<longrightarrow>
      map_of (et_imports e') q = map_of (et_imports e) q \<and> map_of (et_imports e') q \<noteq> Some a)"
proof -
  have ok: "imports_ok e'" using addImport_ok [OF import_run_ok [OF assms(1)], of p name] assms(2) by simp
  have bound: "map_of (et_imports e') p = Some a" and keep: "et_PkgPath e' = et_PkgPath e"
    and scope: "et_Scope e' = et_Scope e"
    and rest: "\<forall>q. q \<noteq> p \<longrightarrow> map_of (et_imports e') q = map_of (et_imports e) q"
    using assms(2,3) by (auto simp: addImport_def Let_def split: option.splits)
  have "map_of (et_imports e') q \<noteq> Some a" if "q \<noteq> p" for q
    using ok bound that unfolding imports_ok_def by (metis option.inject)
  then show ?thesis
    using ok bound rest scope map_of_SomeD [OF bound] keep assms(3)
    by (auto simp: imports_ok_def addImport_known)
qed

definition fresh_emitter :: "string \<Rightarrow> string list \<Rightarrow> registry option \<Rightarrow> (string \<times> struct_decl) list \<Rightarrow> emitter" where
  "fresh_emitter pkg scope reg idx =
     \<lparr>et_PkgPath = pkg, et_PkgName = lastPathSegment, et_Scope = scope, et_imports = [], et_nameToPath = [], et_reg = reg,
      et_callsites = [], et_callsiteIdx = [], et_structFQN = [], et_runtimeAlias = [],
      et_borrowStrings = False, et_structIndex = idx, et_materializeCache = []\<rparr>"

lemma import_aliases_sound_witness:
  "let e = fresh_emitter ''app/model'' [''common''] None [] in
   fst (addImport ''x/common'' ''common'' e) = ''xcommon'' \<and> ''xcommon'' \<notin> set reservedAliases"
proof -
  let ?e = "fresh_emitter ''app/model'' [''common''] None []"
  have run: "import_run ?e" by (rule import_start) (simp_all add: fresh_emitter_def)
  have f: "fst (addImport ''x/common'' ''common'' ?e) = ''xcommon''" by code_simp
  have r: "addImport ''x/common'' ''common'' ?e = (''xcommon'', snd (addImport ''x/common'' ''common'' ?e))"
    using f by (metis prod.collapse)
  have "''x/common'' \<noteq> et_PkgPath ?e" by (simp add: fresh_emitter_def)
  from import_aliases_sound [OF run r this] show ?thesis unfolding Let_def f by blast
qed

section \<open>Callsites\<close>

text \<open>The constants of one struct: keyed by tag, one for each tag asked for.\<close>

definition callsites_ok :: "emitter \<Rightarrow> bool" where
  "callsites_ok e \<longleftrightarrow>
     distinct (map fst (et_callsites e)) \<and>
     (\<forall>n. map_of (et_callsiteIdx e) n = None \<longleftrightarrow> n \<notin> fst ` set (et_callsites e))"

definition callsite_name :: "emitter \<Rightarrow> u32 \<Rightarrow> string" where
  "callsite_name e tag = ''cs'' @ short_name (et_structFQN e) @ ''_'' @ dec_u32 tag"

lemma callsite_name_upd [simp]:
  "callsite_name (e\<lparr>et_callsites := cs\<rparr>) tag = callsite_name e tag"
  "callsite_name (e\<lparr>et_callsiteIdx := ix\<rparr>) tag = callsite_name e tag"
  by (simp_all add: callsite_name_def)

lemma callsiteFor_eq:
  "et_structFQN e \<noteq> [] \<Longrightarrow> callsiteFor tag e =
    (if map_of (et_callsiteIdx e) (callsite_name e tag) \<noteq> None then (callsite_name e tag, e)
     else (callsite_name e tag,
       e\<lparr>et_callsiteIdx := (callsite_name e tag, length (et_callsites e)) # et_callsiteIdx e,
         et_callsites := et_callsites e @
           [(callsite_name e tag, callsite_hash (et_structFQN e @ ''.'' @ dec_u32 tag))]\<rparr>))"
  by (simp add: callsiteFor_def callsite_name_def Let_def)

lemma callsiteFor_ok:
  assumes "callsites_ok e" and fqn: "et_structFQN e \<noteq> []" and "callsiteFor tag e = (name, e')"
  shows "callsites_ok e' \<and> callsiteFor tag e' = (name, e')"
proof (cases "map_of (et_callsiteIdx e) (callsite_name e tag)")
  case None
  then show ?thesis
    using assms callsiteFor_eq [OF fqn, of tag] callsiteFor_eq [of e' tag]
    by (auto simp: callsites_ok_def split: if_splits) (metis fst_conv image_eqI option.distinct(1))
qed (use assms callsiteFor_eq [OF fqn, of tag] in auto)

lemma tag_text_inj: "dec_u32 a = dec_u32 b \<Longrightarrow> a = b"
  using inj_dec by (simp add: dec_u32_def inj_def word_unat_eq_iff)

lemma callsite_tags_apart:
  assumes "callsiteFor t1 e = (n, e1)" and "callsiteFor t2 e2 = (n, e3)" and "et_structFQN e2 = et_structFQN e"
  shows "t1 = t2"
  using assms by (auto simp: callsiteFor_def Let_def tag_text_inj split: if_splits)

end
