(* ===== verification/Go_Code.thy ===== *)
theory Go_Code
  imports Sizing Wire_Override "HOL-Library.Product_Lexorder"
begin

text \<open>
  The Go the generator writes (\<^verbatim>\<open>tools/gsbmcodegen/emit.go\<close>), as syntax trees, and what it does when it runs.
  \<^verbatim>\<open>format.Source\<close> prints the final file from its syntax tree, so the layout of the emitted lines is not
  kept; each constructor says which lines it stands for. A call into the runtime package is written
  without the package's alias.

  A body runs on the values of its variables, innermost first, and yields the items its Writer calls denote;
  a failing call ends it with its error.
\<close>

section \<open>Run-time values\<close>

text \<open>
  Of a \<^verbatim>\<open>[]byte\<close> and of a slice the elements are kept, of a map its entries in the order of one iteration. A
  struct carries its type, which selects its methods.
\<close>

datatype gval =
    VBool bool
  | VInt int
  | VF32 u32
  | VF64 u64
  | VStr "byte list"
  | VBytes "byte list"
  | VSlice "gval list"
  | VMap "(gval \<times> gval) list"
  | VNil
  | VPtr gval
  | VStruct "nat" "(string \<times> gval) list"

type_synonym genv = "(string \<times> gval) list"

text \<open>The range of an integer kind on a 64-bit platform, and the conversion to it.\<close>

definition int_range :: "basic_kind \<Rightarrow> (int \<times> int) option" where
  "int_range k =
     map_option (\<lambda>(bits, sgnd). if sgnd then (- (2 ^ (bits - 1)), 2 ^ (bits - 1) - 1) else (0, 2 ^ bits - 1))
       (basicIntShape k)"

definition int_kinds :: "basic_kind list" where
  "int_kinds = [KInt, KInt8, KInt16, KInt32, KInt64, KUint, KUint8, KUint16, KUint32, KUint64, KUintptr]"

definition wrap_int :: "int \<times> int \<Rightarrow> int \<Rightarrow> int" where
  "wrap_int r i = (case r of (lo, hi) \<Rightarrow> (i - lo) mod (hi - lo + 1) + lo)"

definition convert :: "string \<Rightarrow> gval \<Rightarrow> gval" where
  "convert T v =
     (case v of
        VInt i \<Rightarrow>
          (case find (\<lambda>k. kind_name k = T) int_kinds of
             Some k \<Rightarrow> VInt (wrap_int (the (int_range k)) i)
           | None \<Rightarrow> v)
      | _ \<Rightarrow> v)"

section \<open>Expressions\<close>

text \<open>\<^verbatim>\<open>x\<close>, \<^verbatim>\<open>x.f\<close>, \<^verbatim>\<open>x[i]\<close>, \<^verbatim>\<open>*x\<close> and \<^verbatim>\<open>(T)(x)\<close>.\<close>

datatype gx =
    XVar string
  | XSel gx string
  | XIdx gx gx
  | XDeref gx
  | XConv string gx

fun field_of :: "gval \<Rightarrow> string \<Rightarrow> gval option" where
  "field_of (VStruct n fs) f = map_of fs f"
| "field_of (VPtr (VStruct n fs)) f = map_of fs f"
| "field_of _ f = None"

fun index_of :: "gval \<Rightarrow> gval \<Rightarrow> gval option" where
  "index_of (VSlice vs) (VInt i) = go_index vs i"
| "index_of (VMap es) k = map_of es k"
| "index_of _ _ = None"

text \<open>\<open>None\<close> is a run-time panic.\<close>

fun eval :: "genv \<Rightarrow> gx \<Rightarrow> gval option" where
  "eval \<rho> (XVar x) = map_of \<rho> x"
| "eval \<rho> (XSel x f) = Option.bind (eval \<rho> x) (\<lambda>v. field_of v f)"
| "eval \<rho> (XIdx x i) = Option.bind (eval \<rho> x) (\<lambda>v. Option.bind (eval \<rho> i) (index_of v))"
| "eval \<rho> (XDeref x) = Option.bind (eval \<rho> x) (\<lambda>v. case v of VPtr w \<Rightarrow> Some w | _ \<Rightarrow> None)"
| "eval \<rho> (XConv T x) = map_option (convert T) (eval \<rho> x)"

fun len_of :: "gval \<Rightarrow> int option" where
  "len_of (VBytes b) = Some (len b)"
| "len_of (VSlice vs) = Some (len vs)"
| "len_of (VMap es) = Some (len es)"
| "len_of _ = None"

text \<open>\<^verbatim>\<open>int64(x)\<close> and \<^verbatim>\<open>uint64(x)\<close>.\<close>

definition eval_word :: "genv \<Rightarrow> gx \<Rightarrow> u64 option" where
  "eval_word \<rho> x = Option.bind (eval \<rho> x) (\<lambda>v. case v of VInt i \<Rightarrow> Some (word_of_int i) | _ \<Rightarrow> None)"

text \<open>The receiver of a method: a struct, or what a pointer points to.\<close>

definition eval_recv :: "genv \<Rightarrow> gx \<Rightarrow> gval option" where
  "eval_recv \<rho> x = Option.bind (eval \<rho> x) (\<lambda>v.
     case v of VPtr w \<Rightarrow> Some w | VStruct _ _ \<Rightarrow> Some v | _ \<Rightarrow> None)"

section \<open>What the body calls\<close>

text \<open>
  The methods of a struct, and the functions of a codec under the name the generated file calls them by.
\<close>

record methods =
  me_Marshal :: "gval \<Rightarrow> item list outcome"
  me_Size :: "gval \<Rightarrow> int"
  me_Codec :: "string \<Rightarrow> gval \<Rightarrow> item list outcome"
  me_CodecSize :: "string \<Rightarrow> gval \<Rightarrow> int"

section \<open>Sizes\<close>

datatype gz =
    ZNum int              \<comment> \<open>a literal\<close>
  | ZVar string           \<comment> \<open>a local\<close>
  | ZPlus gz gz
  | ZSizeOf gx            \<comment> \<open>\<^verbatim>\<open>x.SizeGSBM()\<close>\<close>
  | ZTag u32 string       \<comment> \<open>\<^verbatim>\<open>SizeTag(tag, wt)\<close>\<close>
  | ZBool
  | ZString gx
  | ZBytes gx
  | ZFixed32
  | ZFixed64
  | ZVarint gx            \<comment> \<open>\<^verbatim>\<open>SizeVarint(int64(x))\<close>\<close>
  | ZUvarint gx           \<comment> \<open>\<^verbatim>\<open>SizeUvarint(uint64(x))\<close>\<close>
  | ZCount gx             \<comment> \<open>\<^verbatim>\<open>SizeUvarint(uint64(len(x)))\<close>\<close>
  | ZDelim gz             \<comment> \<open>\<^verbatim>\<open>SizeLengthDelim(z)\<close>\<close>
  | ZCodec string gx      \<comment> \<open>\<^verbatim>\<open>f(x)\<close>\<close>

definition wire_const :: "string \<Rightarrow> wire_type" where
  "wire_const w =
     (if w = ''WireVarint'' then WireVarint else if w = ''WireFixed64'' then WireFixed64
      else if w = ''WireFixed32'' then WireFixed32 else WireLengthDelim)"

fun eval_size :: "methods \<Rightarrow> genv \<Rightarrow> gz \<Rightarrow> int option" where
  "eval_size M \<rho> (ZNum i) = Some i"
| "eval_size M \<rho> (ZVar x) =
     Option.bind (map_of \<rho> x) (\<lambda>v. case v of VInt i \<Rightarrow> Some i | _ \<Rightarrow> None)"
| "eval_size M \<rho> (ZPlus a b) =
     Option.bind (eval_size M \<rho> a) (\<lambda>i. map_option ((+) i) (eval_size M \<rho> b))"
| "eval_size M \<rho> (ZSizeOf x) = map_option (me_Size M) (eval_recv \<rho> x)"
| "eval_size M \<rho> (ZTag tag wt) = Some (SizeTag tag (wire_const wt))"
| "eval_size M \<rho> ZBool = Some SizeBool"
| "eval_size M \<rho> (ZString x) =
     Option.bind (eval \<rho> x) (\<lambda>v. case v of VStr s \<Rightarrow> Some (SizeString s) | _ \<Rightarrow> None)"
| "eval_size M \<rho> (ZBytes x) =
     Option.bind (eval \<rho> x) (\<lambda>v. case v of VBytes s \<Rightarrow> Some (SizeBytes s) | _ \<Rightarrow> None)"
| "eval_size M \<rho> ZFixed32 = Some SizeFixed32"
| "eval_size M \<rho> ZFixed64 = Some SizeFixed64"
| "eval_size M \<rho> (ZVarint x) = map_option SizeVarint (eval_word \<rho> x)"
| "eval_size M \<rho> (ZUvarint x) = map_option SizeUvarint (eval_word \<rho> x)"
| "eval_size M \<rho> (ZCount x) =
     Option.bind (eval \<rho> x) (\<lambda>v. map_option (SizeUvarint \<circ> go_uint64) (len_of v))"
| "eval_size M \<rho> (ZDelim z) = map_option SizeLengthDelim (eval_size M \<rho> z)"
| "eval_size M \<rho> (ZCodec f x) = map_option (me_CodecSize M f) (eval \<rho> x)"

section \<open>Writer calls\<close>

datatype wcall =
    WTag u32 string       \<comment> \<open>\<^verbatim>\<open>w.WriteTag(tag, wt)\<close>\<close>
  | WBool gx
  | WString gx
  | WBytes gx
  | WFloat32 gx
  | WFloat64 gx
  | WVarint gx            \<comment> \<open>\<^verbatim>\<open>w.WriteVarint(int64(x))\<close>\<close>
  | WUvarint gx           \<comment> \<open>\<^verbatim>\<open>w.WriteUvarint(uint64(x))\<close>\<close>
  | WCount gx             \<comment> \<open>\<^verbatim>\<open>w.WriteUvarint(uint64(len(x)))\<close>\<close>
  | WCodecLen string gx   \<comment> \<open>\<^verbatim>\<open>w.WriteUvarint(uint64(f(x)))\<close>\<close>
  | WLength gz            \<comment> \<open>\<^verbatim>\<open>w.WriteLength(z)\<close>\<close>
  | WNil                  \<comment> \<open>\<^verbatim>\<open>w.WritePresenceNil()\<close>\<close>
  | WZero
  | WNonZero

fun call_prim :: "methods \<Rightarrow> genv \<Rightarrow> wcall \<Rightarrow> prim option" where
  "call_prim M \<rho> (WTag tag wt) = Some (PTag tag (wire_const wt))"
| "call_prim M \<rho> (WBool x) =
     Option.bind (eval \<rho> x) (\<lambda>v. case v of VBool b \<Rightarrow> Some (PBool b) | _ \<Rightarrow> None)"
| "call_prim M \<rho> (WString x) =
     Option.bind (eval \<rho> x) (\<lambda>v. case v of VStr s \<Rightarrow> Some (PString s) | _ \<Rightarrow> None)"
| "call_prim M \<rho> (WBytes x) =
     Option.bind (eval \<rho> x) (\<lambda>v. case v of VBytes s \<Rightarrow> Some (PBytes s) | _ \<Rightarrow> None)"
| "call_prim M \<rho> (WFloat32 x) =
     Option.bind (eval \<rho> x) (\<lambda>v. case v of VF32 f \<Rightarrow> Some (PFixed32 f) | _ \<Rightarrow> None)"
| "call_prim M \<rho> (WFloat64 x) =
     Option.bind (eval \<rho> x) (\<lambda>v. case v of VF64 f \<Rightarrow> Some (PFixed64 f) | _ \<Rightarrow> None)"
| "call_prim M \<rho> (WVarint x) = map_option PVarint (eval_word \<rho> x)"
| "call_prim M \<rho> (WUvarint x) = map_option PUvarint (eval_word \<rho> x)"
| "call_prim M \<rho> (WCount x) =
     Option.bind (eval \<rho> x) (\<lambda>v. map_option (PUvarint \<circ> go_uint64) (len_of v))"
| "call_prim M \<rho> (WCodecLen f x) = map_option (PUvarint \<circ> go_uint64 \<circ> me_CodecSize M f) (eval \<rho> x)"
| "call_prim M \<rho> (WLength z) = map_option (PLength \<circ> go_uint64) (eval_size M \<rho> z)"
| "call_prim M \<rho> WNil = Some PPresenceNil"
| "call_prim M \<rho> WZero = Some PPresenceZero"
| "call_prim M \<rho> WNonZero = Some PPresenceNonZero"

section \<open>Statements\<close>

text \<open>The second case of a \<^verbatim>\<open>switch\<close> on an optional: \<^verbatim>\<open>len(*x) == 0\<close>, or \<^verbatim>\<open>*x == z\<close> for a literal.\<close>

datatype zero_test = LenZero | EqZero string

datatype key_sort = SortStrings | SortLess | SortBool bool

datatype gs =
    SComment string
  | SWrite wcall
  | SBlock "gs list"
  | SRegion string "gs list"
      \<comment> \<open>\<^verbatim>\<open>m := w.BeginLengthDelim()\<close>, the body, \<^verbatim>\<open>w.EndLengthDelim(m)\<close>\<close>
  | SMarshal gx
      \<comment> \<open>\<^verbatim>\<open>if err := x.MarshalGSBM(w); err != nil { return err }\<close>\<close>
  | SCodec string gx "string option"
      \<comment> \<open>\<^verbatim>\<open>if err := f(w, x, cs); err != nil { return err }\<close>, the callsite where there is one\<close>
  | SRange bool nat gx
      \<comment> \<open>\<^verbatim>\<open>if int64(x) < math.MinIntN || int64(x) > math.MaxIntN { return ErrIntegerOverflow }\<close>\<close>
  | SGuard "gx list" "gs list"
      \<comment> \<open>\<^verbatim>\<open>if a != nil && b != nil { ... }\<close>\<close>
  | SIfNil gx "gs list" "gs list"
      \<comment> \<open>\<^verbatim>\<open>if x == nil { ... } else { ... }\<close>\<close>
  | SSwitch gx zero_test "gs list" "gs list" "gs list"
      \<comment> \<open>\<^verbatim>\<open>switch { case x == nil: ... case zero: ... default: ... }\<close>\<close>
  | SFor string gx "gs list"
      \<comment> \<open>\<^verbatim>\<open>for i := range x { ... }\<close>\<close>
  | SForMap string string gx "gs list"
      \<comment> \<open>\<^verbatim>\<open>for k, vv := range x { ... }\<close>\<close>
  | SForSorted string string key_sort string string gx "gs list"
      \<comment> \<open>\<^verbatim>\<open>keys := make([]K, 0, len(x))\<close>, the loop that fills it, the sort call, and
        \<^verbatim>\<open>for _, k := range keys { vv := x[k]; ... }\<close>\<close>
  | SDefine string gz
      \<comment> \<open>\<^verbatim>\<open>y := z\<close>\<close>
  | SAdd string gz
      \<comment> \<open>\<^verbatim>\<open>y += z\<close>\<close>
  | SAddCounted string string gx "string option"
      \<comment> \<open>\<^verbatim>\<open>cw := NewCountingWriter(); _ = f(cw, x, cs); y += cw.Size()\<close>\<close>

type_synonym run = "(genv \<times> item list) outcome"

text \<open>One run after another.\<close>

definition then_run :: "run \<Rightarrow> (genv \<Rightarrow> run) \<Rightarrow> run" where
  "then_run r f =
     (case r of
        Ret (\<rho>, xs) \<Rightarrow> map_outcome (\<lambda>(\<rho>', ys). (\<rho>', xs @ ys)) (f \<rho>)
      | Fail e \<Rightarrow> Fail e
      | Panic \<Rightarrow> Panic)"

text \<open>The end of a block: its own variables, the newest ones, are gone.\<close>

definition leave :: "nat \<Rightarrow> run \<Rightarrow> run" where
  "leave n r = map_outcome (\<lambda>(\<rho>, xs). (drop (length \<rho> - n) \<rho>, xs)) r"

fun assign :: "string \<Rightarrow> gval \<Rightarrow> genv \<Rightarrow> genv" where
  "assign y v [] = []"
| "assign y v ((x, w) # \<rho>) = (if x = y then (x, v) # \<rho> else (x, w) # assign y v \<rho>)"

definition emits :: "genv \<Rightarrow> item list outcome option \<Rightarrow> run" where
  "emits \<rho> r = (case r of None \<Rightarrow> Panic | Some r \<Rightarrow> map_outcome (Pair \<rho>) r)"

definition add_to :: "string \<Rightarrow> int option \<Rightarrow> genv \<Rightarrow> run" where
  "add_to y z \<rho> =
     (case (map_of \<rho> y, z) of
        (Some (VInt i), Some j) \<Rightarrow> Ret (assign y (VInt (i + j)) \<rho>, [])
      | _ \<Rightarrow> Panic)"

definition in_range :: "bool \<Rightarrow> nat \<Rightarrow> u64 \<Rightarrow> bool" where
  "in_range sgnd bits w \<longleftrightarrow>
     (if sgnd then - (2 ^ (bits - 1)) \<le> sint w \<and> sint w \<le> 2 ^ (bits - 1) - 1 else uint w \<le> 2 ^ bits - 1)"

text \<open>A loop: each round has its variables in front of those of the loop's block.\<close>

fun rounds :: "(genv \<Rightarrow> run) \<Rightarrow> genv list \<Rightarrow> genv \<Rightarrow> run" where
  "rounds body [] \<rho> = Ret (\<rho>, [])"
| "rounds body (vs # vss) \<rho> = then_run (leave (length \<rho>) (body (vs @ \<rho>))) (rounds body vss)"

definition key_rank :: "gval \<Rightarrow> int \<times> byte list" where
  "key_rank v =
     (case v of VBool b \<Rightarrow> (if b then 1 else 0, []) | VInt i \<Rightarrow> (i, []) | VStr s \<Rightarrow> (0, s) | _ \<Rightarrow> (0, []))"

definition sorted_entries :: "(gval \<times> gval) list \<Rightarrow> (gval \<times> gval) list" where
  "sorted_entries es = sort_key (key_rank \<circ> fst) es"

definition is_zero :: "zero_test \<Rightarrow> gval \<Rightarrow> bool" where
  "is_zero z v =
     (case v of
        VBytes b \<Rightarrow> z = LenZero \<and> b = []
      | VStr s \<Rightarrow> s = []
      | VBool b \<Rightarrow> \<not> b
      | VInt i \<Rightarrow> i = 0
      | VF32 f \<Rightarrow> float32_eq_0 f
      | VF64 f \<Rightarrow> float64_eq_0 f
      | _ \<Rightarrow> False)"

text \<open>\<^verbatim>\<open>NewCountingWriter\<close> runs the codec; the error is dropped, the bytes written before it are not kept here.\<close>

definition counted :: "item list outcome \<Rightarrow> int" where
  "counted r = (case r of Ret xs \<Rightarrow> len (enc_items xs) | _ \<Rightarrow> 0)"

fun exec :: "methods \<Rightarrow> gs \<Rightarrow> genv \<Rightarrow> run" and execs :: "methods \<Rightarrow> gs list \<Rightarrow> genv \<Rightarrow> run" where
  "exec M (SComment c) \<rho> = Ret (\<rho>, [])"
| "exec M (SWrite c) \<rho> =
     (case call_prim M \<rho> c of
        None \<Rightarrow> Panic
      | Some p \<Rightarrow> (case prim_err p of None \<Rightarrow> Ret (\<rho>, [Item p]) | Some e \<Rightarrow> Fail e))"
| "exec M (SBlock b) \<rho> = leave (length \<rho>) (execs M b \<rho>)"
| "exec M (SRegion m b) \<rho> = map_outcome (\<lambda>(\<rho>', xs). (\<rho>', [Group xs])) (execs M b \<rho>)"
| "exec M (SMarshal x) \<rho> = emits \<rho> (map_option (me_Marshal M) (eval_recv \<rho> x))"
| "exec M (SCodec f x cs) \<rho> = emits \<rho> (map_option (me_Codec M f) (eval \<rho> x))"
| "exec M (SRange sgnd bits x) \<rho> =
     (case eval_word \<rho> x of
        None \<Rightarrow> Panic
      | Some w \<Rightarrow> if in_range sgnd bits w then Ret (\<rho>, []) else Fail ErrIntegerOverflow)"
| "exec M (SGuard xs b) \<rho> =
     (case those (map (eval \<rho>) (takeWhile (\<lambda>x. eval \<rho> x \<noteq> Some VNil) xs)) of
        None \<Rightarrow> Panic
      | Some _ \<Rightarrow>
          if \<exists>x\<in>set xs. eval \<rho> x = Some VNil then Ret (\<rho>, []) else leave (length \<rho>) (execs M b \<rho>))"
| "exec M (SIfNil x a b) \<rho> =
     (case eval \<rho> x of
        None \<Rightarrow> Panic
      | Some v \<Rightarrow> leave (length \<rho>) (if v = VNil then execs M a \<rho> else execs M b \<rho>))"
| "exec M (SSwitch x z a b c) \<rho> =
     (case eval \<rho> x of
        None \<Rightarrow> Panic
      | Some VNil \<Rightarrow> leave (length \<rho>) (execs M a \<rho>)
      | Some (VPtr v) \<Rightarrow> leave (length \<rho>) (if is_zero z v then execs M b \<rho> else execs M c \<rho>)
      | _ \<Rightarrow> Panic)"
| "exec M (SFor i x b) \<rho> =
     (case eval \<rho> x of
        Some (VSlice vs) \<Rightarrow>
          rounds (\<lambda>\<rho>. execs M b \<rho>) (map (\<lambda>k. [(i, VInt (int k))]) [0..<length vs]) \<rho>
      | _ \<Rightarrow> Panic)"
| "exec M (SForMap k vv x b) \<rho> =
     (case eval \<rho> x of
        Some (VMap es) \<Rightarrow> rounds (\<lambda>\<rho>. execs M b \<rho>) (map (\<lambda>(a, v). [(vv, v), (k, a)]) es) \<rho>
      | _ \<Rightarrow> Panic)"
| "exec M (SForSorted keys K srt k vv x b) \<rho> =
     (case eval \<rho> x of
        Some (VMap es) \<Rightarrow>
          (let \<rho>' = (keys, VSlice (map fst (sorted_entries es))) # \<rho> in
           rounds (\<lambda>\<rho>. execs M b \<rho>) (map (\<lambda>(a, v). [(vv, v), (k, a)]) (sorted_entries es)) \<rho>')
      | _ \<Rightarrow> Panic)"
| "exec M (SDefine y z) \<rho> =
     (case eval_size M \<rho> z of None \<Rightarrow> Panic | Some i \<Rightarrow> Ret ((y, VInt i) # \<rho>, []))"
| "exec M (SAdd y z) \<rho> = add_to y (eval_size M \<rho> z) \<rho>"
| "exec M (SAddCounted y f x cs) \<rho> =
     add_to y (map_option (counted \<circ> me_Codec M f) (eval \<rho> x)) \<rho>"
| "execs M [] \<rho> = Ret (\<rho>, [])"
| "execs M (s # ss) \<rho> = then_run (exec M s \<rho>) (execs M ss)"

end
