(* ===== verification/Gen_Fields.thy ===== *)
theory Gen_Fields
  imports Gen_Imports Go_Code Discover
begin

text \<open>
  \<^verbatim>\<open>tools/gsbmcodegen/emit.go\<close>: the fields of a struct as the generator sees them, their wire types and
  codecs, and \<^verbatim>\<open>typeContainsMaterializingCodec\<close>.

  A generator step maps the emitter to its result and the emitter afterwards. It may fail with an error
  whose operands are kept; \<open>None\<close> is a call that never returns or dereferences nil.
\<close>

datatype gen_error =
    UnsupportedType string go_ty
  | NotBasicType string go_ty
  | UnsupportedKind basic_kind
  | BadWidth basic_kind string
  | BadMapKey
  | NotBasicKey
  | UnsortableKey basic_kind
  | BadIDRef idref_error
  | UnregisteredCodec "string \<times> string \<times> string list"
  | BadCodecWire string string
  | CodecTypeMismatch string string string
  | NoCodecKind string
  | NoPresenceField string nat
  | BadPresenceType string nat string
  | PresenceTooSmall string nat nat
  | IndirectGeneric string string string
  | GenericStruct string string
  | GenericRoot string string
  | NotStruct string
  | InField string string gen_error
  | InStruct string gen_error

type_synonym 'a gen = "emitter \<Rightarrow> (gen_error + 'a \<times> emitter) option"

definition g_ret :: "'a \<Rightarrow> 'a gen" where "g_ret x = (\<lambda>e. Some (Inr (x, e)))"
definition g_fail :: "gen_error \<Rightarrow> 'a gen" where "g_fail err = (\<lambda>e. Some (Inl err))"

definition g_bind :: "'a gen \<Rightarrow> ('a \<Rightarrow> 'b gen) \<Rightarrow> 'b gen" where
  "g_bind m f = (\<lambda>e.
     case m e of None \<Rightarrow> None | Some (Inl err) \<Rightarrow> Some (Inl err) | Some (Inr (x, e')) \<Rightarrow> f x e')"

text \<open>A step that only changes the emitter, and reading a field of it.\<close>

definition g_step :: "(emitter \<Rightarrow> 'a \<times> emitter) \<Rightarrow> 'a gen" where
  "g_step f = (\<lambda>e. Some (Inr (f e)))"

definition g_get :: "(emitter \<Rightarrow> 'a) \<Rightarrow> 'a gen" where "g_get f = (\<lambda>e. Some (Inr (f e, e)))"

lemma g_bind_ok [simp]:
  "g_bind m f e = Some (Inr r) \<longleftrightarrow> (\<exists>x e'. m e = Some (Inr (x, e')) \<and> f x e' = Some (Inr r))"
  by (auto simp: g_bind_def split: option.split sum.split prod.split)

lemma g_ok [simp]:
  "g_ret x e = Some (Inr r) \<longleftrightarrow> r = (x, e)" "g_fail err e \<noteq> Some (Inr r)"
  "g_step f e = Some (Inr r) \<longleftrightarrow> r = f e" "g_get h e = Some (Inr r) \<longleftrightarrow> r = (h e, e)"
  by (auto simp: g_ret_def g_fail_def g_step_def g_get_def)

section \<open>Embedded fields\<close>

record embed_segment =
  sg_name :: string
  sg_typeExpr :: string
  sg_isPointer :: bool

record field_entry =
  fe_decl :: field_decl
  fe_gov :: go_var
  fe_accessPath :: gx
  fe_segments :: "embed_segment list"

text \<open>The anonymous field of a hop: the first whose type, or what it points to, is a named type of that name.\<close>

definition embed_target :: "go_ty \<Rightarrow> named option" where
  "embed_target t = (case strip_pointer t of Named i as \<Rightarrow> Some (i, as) | _ \<Rightarrow> None)"

definition is_pointer :: "go_ty \<Rightarrow> bool" where
  "is_pointer t = (case t of Lit (TPointer _) \<Rightarrow> True | _ \<Rightarrow> False)"

definition find_embed :: "go_env \<Rightarrow> go_var list \<Rightarrow> string \<Rightarrow> (go_var \<times> named) option" where
  "find_embed env fs want =
     (case find (\<lambda>f. var_Anonymous f \<and>
         (case embed_target (var_Type f) of Some n \<Rightarrow> to_Name (Obj env n) = want | None \<Rightarrow> False)) fs of
        Some f \<Rightarrow> Some (f, the (embed_target (var_Type f)))
      | None \<Rightarrow> None)"

fun embed_hops ::
  "go_env \<Rightarrow> go_var list \<Rightarrow> string list \<Rightarrow> emitter \<Rightarrow> (embed_segment list \<times> go_var list) option \<times> emitter"
where
  "embed_hops env fs [] e = (Some ([], fs), e)"
| "embed_hops env fs (want # parts) e =
     (case find_embed env fs want of
        None \<Rightarrow> (None, e)
      | Some (f, n) \<Rightarrow>
          (case struct_fields (ge_Underlying env n) of
             None \<Rightarrow> (None, e)
           | Some inner \<Rightarrow>
               (case typeExpr env (named_ty n) e of
                  (te, e) \<Rightarrow>
                    (case embed_hops env inner parts e of
                       (Some (sgs, cur), e) \<Rightarrow>
                         (Some (\<lparr>sg_name = var_Name f, sg_typeExpr = te,
                            sg_isPointer = is_pointer (var_Type f)\<rparr> # sgs, cur), e)
                     | (None, e) \<Rightarrow> (None, e)))))"

definition resolveEmbedChain ::
  "go_env \<Rightarrow> go_var list \<Rightarrow> string \<Rightarrow> string \<Rightarrow> emitter \<Rightarrow> (go_var \<times> embed_segment list) option \<times> emitter"
where
  "resolveEmbedChain env str chain leaf e =
     (case embed_hops env str (split_on (CHR ''.'') chain) e of
        (None, e) \<Rightarrow> (None, e)
      | (Some (sgs, cur), e) \<Rightarrow> (map_option (\<lambda>f. (f, sgs)) (find (\<lambda>f. var_Name f = leaf) cur), e))"

text \<open>\<^verbatim>\<open>v.<Embed>.<Field>\<close>.\<close>

definition access_path :: "embed_segment list \<Rightarrow> string \<Rightarrow> gx" where
  "access_path sgs name = XSel (foldl (\<lambda>x s. XSel x (sg_name s)) (XVar ''v'') sgs) name"

definition field_entry_of :: "go_env \<Rightarrow> go_var list \<Rightarrow> field_decl \<Rightarrow> emitter \<Rightarrow> field_entry list \<times> emitter" where
  "field_entry_of env str fd e =
     (if fd_FlattenedFrom fd \<noteq> [] then
        (case resolveEmbedChain env str (fd_FlattenedFrom fd) (fd_Name fd) e of
           (Some (gov, sgs), e) \<Rightarrow>
             ([\<lparr>fe_decl = fd, fe_gov = gov, fe_accessPath = access_path sgs (fd_Name fd), fe_segments = sgs\<rparr>], e)
         | (None, e) \<Rightarrow> ([], e))
      else
        (case map_of (rev (map (\<lambda>f. (var_Name f, f)) str)) (fd_Name fd) of
           Some gov \<Rightarrow>
             ([\<lparr>fe_decl = fd, fe_gov = gov, fe_accessPath = access_path [] (fd_Name fd), fe_segments = []\<rparr>], e)
         | None \<Rightarrow> ([], e)))"

fun field_entries :: "go_env \<Rightarrow> go_var list \<Rightarrow> field_decl list \<Rightarrow> emitter \<Rightarrow> field_entry list \<times> emitter" where
  "field_entries env str [] e = ([], e)"
| "field_entries env str (fd # fds) e =
     (case field_entry_of env str fd e of
        (entry, e) \<Rightarrow> (case field_entries env str fds e of (es, e) \<Rightarrow> (entry @ es, e)))"

definition writableFields :: "go_env \<Rightarrow> go_var list \<Rightarrow> struct_decl \<Rightarrow> emitter \<Rightarrow> field_entry list \<times> emitter" where
  "writableFields env str sd e =
     (case field_entries env str (sd_Fields sd) e of
        (es, e) \<Rightarrow> (sort_key (\<lambda>f. fd_Tag (fe_decl f)) es, e))"

text \<open>The paths a pointer hop has to be checked or allocated at.\<close>

fun pointer_hops :: "gx \<Rightarrow> embed_segment list \<Rightarrow> (gx \<times> string) list" where
  "pointer_hops x [] = []"
| "pointer_hops x (s # sgs) =
     (if sg_isPointer s then (XSel x (sg_name s), sg_typeExpr s) # pointer_hops (XSel x (sg_name s)) sgs
      else pointer_hops (XSel x (sg_name s)) sgs)"

definition pointerEmbedGuard :: "embed_segment list \<Rightarrow> gx list" where
  "pointerEmbedGuard sgs = map fst (pointer_hops (XVar ''v'') sgs)"

section \<open>Codecs\<close>

definition lookupCodec :: "string \<Rightarrow> emitter \<Rightarrow> codec_decl option" where
  "lookupCodec name e = Option.bind (et_reg e) (Lookup name)"

definition codecNames :: "emitter \<Rightarrow> string list" where
  "codecNames e = (case et_reg e of None \<Rightarrow> [] | Some r \<Rightarrow> Names r)"

text \<open>\<^verbatim>\<open>types.Unalias(elem).String()\<close>.\<close>

definition unaliased :: "go_env \<Rightarrow> go_ty \<Rightarrow> string" where
  "unaliased env t = (case t of Alias _ l \<Rightarrow> ge_String env (Lit l) | _ \<Rightarrow> ge_String env t)"

definition resolveCodec :: "go_env \<Rightarrow> string \<Rightarrow> go_ty \<Rightarrow> codec_decl gen" where
  "resolveCodec env name t = (\<lambda>e.
     case lookupCodec name e of
       None \<Rightarrow> g_fail (UnregisteredCodec (UnregisteredError name (codecNames e))) e
     | Some decl \<Rightarrow>
         let got = unaliased env (strip_pointer t) in
         if cd_GoType decl \<noteq> [] \<and> got \<noteq> cd_GoType decl
         then g_fail (CodecTypeMismatch name (cd_GoType decl) got) e
         else g_ret decl e)"

definition codecCallExpr :: "codec_decl \<Rightarrow> string \<Rightarrow> string gen" where
  "codecCallExpr decl fn = (\<lambda>e.
     if cd_PkgImport decl = [] \<or> cd_PkgImport decl = et_PkgPath e then g_ret fn e
     else g_step (\<lambda>e. case addImport (cd_PkgImport decl) [] e of (a, e) \<Rightarrow> (a @ ''.'' @ fn, e)) e)"

section \<open>Wire types\<close>

definition wire_ident_of_basic :: "basic_kind \<Rightarrow> string" where
  "wire_ident_of_basic k =
     (if k = KNonInt ''float32'' then ''WireFixed32''
      else if k = KNonInt ''float64'' then ''WireFixed64''
      else if k = KNonInt ''string'' then ''WireLengthDelim''
      else ''WireVarint'')"

definition wire_ident_of_lit :: "go_lit \<Rightarrow> string" where
  "wire_ident_of_lit l = (case l of TBasic k _ \<Rightarrow> wire_ident_of_basic k | _ \<Rightarrow> ''WireLengthDelim'')"

definition wireTypeForValue :: "go_env \<Rightarrow> go_ty \<Rightarrow> string" where
  "wireTypeForValue env t =
     (case t of
        Named i as \<Rightarrow>
          if is_struct env (i, as) then ''WireLengthDelim'' else wire_ident_of_lit (ge_Underlying env (i, as))
      | Alias _ _ \<Rightarrow> ''WireLengthDelim''
      | Lit l \<Rightarrow> wire_ident_of_lit l)"

text \<open>What \<^verbatim>\<open>idRefTargetField\<close> returns; the type assertion in front of it leaves a nil pointer otherwise.\<close>

definition idRefTargetField :: "go_env \<Rightarrow> go_ty \<Rightarrow> (idref_error + string \<times> go_ty \<times> string) option" where
  "idRefTargetField env t =
     (case t of
        Lit (TPointer p) \<Rightarrow>
          Some (case LookupIDRefField env p of
             Inl err \<Rightarrow> Inl err
           | Inr (f, override) \<Rightarrow> Inr (var_Name f, var_Type f, override))
      | _ \<Rightarrow> None)"

definition wireType :: "go_env \<Rightarrow> field_entry \<Rightarrow> string gen" where
  "wireType env f =
     (let t = var_Type (fe_gov f); fd = fe_decl f in
      if fd_CycleBreak fd then
        (\<lambda>e. case idRefTargetField env t of
           None \<Rightarrow> None
         | Some (Inl _) \<Rightarrow> g_ret ''WireLengthDelim'' e
         | Some (Inr (_, idType, _)) \<Rightarrow> g_ret (wireTypeForValue env idType) e)
      else if is_pointer t then g_ret ''WireLengthDelim''
      else if fd_Custom fd \<noteq> [] then
        (\<lambda>e. case lookupCodec (fd_Custom fd) e of
           None \<Rightarrow> g_fail (UnregisteredCodec (UnregisteredError (fd_Custom fd) (codecNames e))) e
         | Some decl \<Rightarrow>
             if WireIdent (cd_WireType decl) = [] then g_fail (BadCodecWire (cd_Name decl) (cd_WireType decl)) e
             else g_ret (WireIdent (cd_WireType decl)) e)
      else g_ret (wireTypeForValue env t))"

section \<open>Materializing codecs\<close>

text \<open>A field loop's work: a type to look into, or a field that settles it.\<close>

datatype mat_work = MType go_ty | MFound

definition encoded :: "field_decl \<Rightarrow> bool" where
  "encoded fd \<longleftrightarrow> \<not> fd_Deprecated fd \<or> fd_CompatWrite fd"

definition field_work :: "emitter \<Rightarrow> field_entry \<Rightarrow> mat_work list" where
  "field_work e f =
     (let fd = fe_decl f in
      if \<not> encoded fd then []
      else if fd_Custom fd \<noteq> [] then
        (case lookupCodec (fd_Custom fd) e of
           Some decl \<Rightarrow> if Kind decl = Some CodecKindMaterializing then [MFound] else []
         | None \<Rightarrow> [])
      else if fd_CycleBreak fd then []
      else [MType (var_Type (fe_gov f))])"

definition index_struct :: "go_env \<Rightarrow> emitter \<Rightarrow> named \<Rightarrow> struct_decl option" where
  "index_struct env e n =
     (case to_Pkg (Obj env n) of
        None \<Rightarrow> None | Some p \<Rightarrow> map_of (et_structIndex e) (p @ ''.'' @ to_Name (Obj env n)))"

text \<open>\<^verbatim>\<open>namedContainsMaterializingCodec\<close> and \<^verbatim>\<open>structContainsMaterializingCodec\<close>: what is left to look into.\<close>

definition named_work :: "go_env \<Rightarrow> named \<Rightarrow> emitter \<Rightarrow> mat_work list \<times> emitter" where
  "named_work env n e =
     (case struct_fields (ge_Underlying env n) of
        None \<Rightarrow> ([MType (Lit (ge_Underlying env n))], e)
      | Some str \<Rightarrow>
          (case index_struct env e n of
             Some sd \<Rightarrow>
               if sd_Opaque sd then ([MFound], e)
               else (case writableFields env str sd e of (fs, e) \<Rightarrow> (concat (map (field_work e) fs), e))
           | None \<Rightarrow> (map (MType \<circ> var_Type) str, e)))"

partial_function (option) contains_materializing ::
  "go_env \<Rightarrow> mat_work list \<Rightarrow> named list \<times> emitter \<Rightarrow> (bool \<times> named list \<times> emitter) option"
where
  "contains_materializing env work s =
     (case work of
        [] \<Rightarrow> Some (False, s)
      | MFound # _ \<Rightarrow> Some (True, s)
      | MType t # rest \<Rightarrow>
          (case t of
             Named i as \<Rightarrow>
               (case s of (visited, e) \<Rightarrow>
                  if (i, as) \<in> set visited then contains_materializing env rest s
                  else (case map_of (et_materializeCache e) (i, as) of
                      Some cached \<Rightarrow> if cached then Some (True, s) else contains_materializing env rest s
                    | None \<Rightarrow>
                        (case named_work env (i, as) e of
                           (inner, e) \<Rightarrow>
                             Option.bind (contains_materializing env inner ((i, as) # visited, e))
                               (\<lambda>(result, visited, e).
                                 let s = (visited,
                                   e\<lparr>et_materializeCache := ((i, as), result) # et_materializeCache e\<rparr>) in
                                 if result then Some (True, s) else contains_materializing env rest s))))
           | Alias _ _ \<Rightarrow> contains_materializing env rest s
           | Lit l \<Rightarrow>
               (case l of
                  TPointer u \<Rightarrow> contains_materializing env (MType u # rest) s
                | TSlice u \<Rightarrow> contains_materializing env (MType u # rest) s
                | TArray _ u \<Rightarrow> contains_materializing env (MType u # rest) s
                | TMap _ u \<Rightarrow> contains_materializing env (MType u # rest) s
                | TStruct fs \<Rightarrow> contains_materializing env (map (MType \<circ> var_Type) fs @ rest) s
                | _ \<Rightarrow> contains_materializing env rest s)))"

definition typeContainsMaterializingCodec :: "go_env \<Rightarrow> go_ty \<Rightarrow> bool gen" where
  "typeContainsMaterializingCodec env t = (\<lambda>e.
     map_option (\<lambda>(b, _, e). Inr (b, e)) (contains_materializing env [MType t] ([], e)))"

end
