(* ===== verification/Gen_Wire.thy ===== *)
theory Gen_Wire
  imports Gen_Fields
begin

text \<open>
  The two tools agree on the wire: the wire type \<^verbatim>\<open>emit.go\<close> puts into the key of a field is the one
  \<^verbatim>\<open>discover.go\<close> recorded for it in the schema.
\<close>

lemma WireIdent_values [simp]:
  "WireIdent schema_WireVarint = ''WireVarint''" "WireIdent schema_WireFixed64 = ''WireFixed64''"
  "WireIdent schema_WireFixed32 = ''WireFixed32''" "WireIdent schema_WireLengthDelim = ''WireLengthDelim''"
  by (simp_all add: WireIdent_def schema_WireVarint_def schema_WireFixed64_def schema_WireFixed32_def
      schema_WireLengthDelim_def)

lemma wireFor_lit:
  "(\<nexists>u. l = TPointer u) \<Longrightarrow> wireFor env (Lit l) = Some w \<Longrightarrow> WireIdent w = wire_ident_of_lit l"
  by (subst (asm) wireFor.simps)
    (auto simp: wire_ident_of_lit_def wire_ident_of_basic_def split: go_lit.splits if_splits)

lemma wireFor_alias: "wireFor env (Alias a l) = Some w \<Longrightarrow> WireIdent w = ''WireLengthDelim''"
  by (subst (asm) wireFor.simps) auto

text \<open>A named type over a pointer is the one type the two disagree on; the checker rejects it.\<close>

definition named_pointer :: "go_env \<Rightarrow> go_ty \<Rightarrow> bool" where
  "named_pointer env t =
     (case t of Named i as \<Rightarrow> (case ge_Underlying env (i, as) of TPointer _ \<Rightarrow> True | _ \<Rightarrow> False) | _ \<Rightarrow> False)"

lemma named_pointer_rejected: "named_pointer env t \<Longrightarrow> checkSupportedType env who t t 0 0 \<noteq> []"
  by (subst checkSupportedType.simps)
    (auto simp: named_pointer_def Let_def is_struct_def struct_fields_def basic_supported_def
      split: go_ty.splits go_lit.splits)

lemma wireFor_value:
  assumes "wireFor env t = Some w" and "\<not> is_pointer t" and "\<not> named_pointer env t"
  shows "WireIdent w = wireTypeForValue env t"
proof (cases t)
  case (Named i as)
  then show ?thesis
    using assms wireFor_lit [of "ge_Underlying env (i, as)" env w]
    by (cases "is_struct env (i, as)")
      (auto simp: wireFor_eqs wireTypeForValue_def named_pointer_def split: go_lit.splits)
next
  case (Alias a l)
  then show ?thesis using assms(1) wireFor_alias by (simp add: wireTypeForValue_def)
next
  case (Lit l)
  then show ?thesis
    using assms wireFor_lit [of l env w] by (auto simp: wireTypeForValue_def is_pointer_def split: go_lit.splits)
qed

lemma not_pointer_strip: "\<not> is_pointer t \<Longrightarrow> strip_pointer t = t"
  by (auto simp: is_pointer_def strip_pointer_def split: go_ty.splits go_lit.splits)

lemma wireFor_core:
  assumes "wireFor env (field_core env t) = Some w" and "\<not> is_pointer t" and "\<not> named_pointer env t"
  shows "WireIdent w = wireTypeForValue env t"
proof (cases "slice_alias env t")
  case None
  then show ?thesis using assms wireFor_value by (simp add: field_core_def not_pointer_strip)
next
  case (Some ne)
  obtain n e where ne: "ne = (n, e)" by (cases ne)
  have core: "field_core env t = Lit (TSlice e)"
    using Some assms(2) ne by (simp add: field_core_def not_pointer_strip)
  have "WireIdent w = ''WireLengthDelim''"
    using wireFor_lit [of "TSlice e" env w] assms(1) by (simp add: core wire_ident_of_lit_def)
  moreover have "wireTypeForValue env t = ''WireLengthDelim''"
    using Some by (auto simp: slice_alias_def wireTypeForValue_def is_struct_def struct_fields_def
        wire_ident_of_lit_def split: go_ty.splits go_lit.splits if_splits)
  ultimately show ?thesis by simp
qed

section \<open>What a declaration records\<close>

definition mark_optional :: "go_ty \<Rightarrow> field_decl \<Rightarrow> bool" where
  "mark_optional t fd \<longleftrightarrow> is_pointer t \<or> fd_Optional fd"

lemma field_start_optional: "fd_Optional (field_start env t fd) \<longleftrightarrow> is_pointer t \<or> fd_Optional fd"
  by (auto simp: field_start_def is_pointer_def Let_def split: go_ty.split go_lit.split option.split)

lemma top_parts_static [simp]:
  "fd_Optional (top_parts env t tr fd) = fd_Optional fd" "fd_CycleBreak (top_parts env t tr fd) = fd_CycleBreak fd"
  "fd_Custom (top_parts env t tr fd) = fd_Custom fd" "fd_WireOverride (top_parts env t tr fd) = fd_WireOverride fd"
  "fd_Wire (top_parts env t tr fd) = fd_Wire fd"
  by (auto simp: top_parts_def split: go_ty.split go_lit.split shape_tree.split)

lemma bd_issues_enqueue [simp]: "bd_issues (fold (enqueue env) ns b) = bd_issues b"
  by (induction ns arbitrary: b) (auto simp: enqueue_def Let_def)

lemma shapeOf_issues:
  assumes "shapeOf env t isTop (b, fd) = Some (s, b', fd')"
  shows "bd_issues b' = bd_issues b" and "fd_Optional fd' = fd_Optional fd"
    and "fd_CycleBreak fd' = fd_CycleBreak fd" and "fd_Custom fd' = fd_Custom fd"
    and "fd_Wire fd' = fd_Wire fd"
proof -
  obtain tr ns where "(s, b', fd') = (render tr, fold (enqueue env) ns b, if isTop then top_parts env t tr fd else fd)"
    using shaped_exists [OF assms] by blast
  then show "bd_issues b' = bd_issues b" "fd_Optional fd' = fd_Optional fd"
    "fd_CycleBreak fd' = fd_CycleBreak fd" "fd_Custom fd' = fd_Custom fd" "fd_Wire fd' = fd_Wire fd"
    by simp_all
qed

lemma fillTypeShape_records:
  assumes "fillTypeShape env t (b, fd) = Some (b', fd')"
  shows "bd_issues b' = bd_issues b" and "fd_Optional fd' \<longleftrightarrow> is_pointer t \<or> fd_Optional fd"
    and "fd_CycleBreak fd' = fd_CycleBreak fd" and "fd_Custom fd' = fd_Custom fd"
    and "wireFor env (field_core env t) = Some (fd_Wire fd')"
proof -
  obtain sh b2 fd2 where sh: "shapeOf env (field_core env t) True (b, field_start env t fd) = Some (sh, b2, fd2)"
    and rest: "Option.bind (wireFor env (field_core env t)) (\<lambda>wire. Some (b2, fd2\<lparr>fd_Type := sh, fd_Wire := wire\<rparr>)) =
      Some (b', fd')"
    using assms unfolding fillTypeShape_core by (auto simp only: bind_eq_Some_conv prod.case)
  obtain w where w: "wireFor env (field_core env t) = Some w" "b' = b2" "fd' = fd2\<lparr>fd_Type := sh, fd_Wire := w\<rparr>"
    using rest by (auto simp only: bind_eq_Some_conv option.inject prod.inject)
  note core = shapeOf_issues [OF sh]
  show "bd_issues b' = bd_issues b" "fd_CycleBreak fd' = fd_CycleBreak fd" "fd_Custom fd' = fd_Custom fd"
    "fd_Optional fd' \<longleftrightarrow> is_pointer t \<or> fd_Optional fd"
    "wireFor env (field_core env t) = Some (fd_Wire fd')"
    using core w by (simp_all add: field_start_optional)
qed

definition same_kept :: "field_decl \<Rightarrow> field_decl \<Rightarrow> bool" where
  "same_kept a b \<longleftrightarrow>
     fd_Optional a = fd_Optional b \<and> fd_CycleBreak a = fd_CycleBreak b \<and> fd_Custom a = fd_Custom b \<and>
     fd_Wire a = fd_Wire b"

lemma adopt_cases:
  assumes "adopt_id_type env who idType ov (b, fd) = Some (b', fd')"
  obtains w sh b2 fd2 where "wireFor env idType = Some w"
    and "shapeOf env idType False (b, fd\<lparr>fd_Wire := w\<rparr>) = Some (sh, b2, fd2)"
    and "b' = b2 \<and> same_kept fd' fd2 \<or>
      b' = add_issue (issue_of ''tag/type-width-mismatch'' [who, ov]) b2"
proof -
  obtain w where w: "wireFor env idType = Some w"
    using assms by (cases "wireFor env idType") (simp_all add: adopt_id_type_def)
  obtain sh b2 fd2 where sh: "shapeOf env idType False (b, fd\<lparr>fd_Wire := w\<rparr>) = Some (sh, b2, fd2)"
    using assms by (cases "shapeOf env idType False (b, fd\<lparr>fd_Wire := w\<rparr>)") (auto simp: adopt_id_type_def w)
  have "b' = b2 \<and> same_kept fd' fd2 \<or>
      b' = add_issue (issue_of ''tag/type-width-mismatch'' [who, ov]) b2"
    using assms
    by (cases "ov = []") (auto simp: adopt_id_type_def w sh Let_def same_kept_def split: sum.splits)
  then show thesis using that w sh by blast
qed

lemma adopt_records:
  assumes "adopt_id_type env who idType ov (b, fd) = Some (b', fd')" and "bd_issues b' = bd_issues b"
  shows "fd_Optional fd' = fd_Optional fd" and "fd_CycleBreak fd' = fd_CycleBreak fd"
    and "fd_Custom fd' = fd_Custom fd" and "wireFor env idType = Some (fd_Wire fd')"
proof -
  obtain w sh b2 fd2 where w: "wireFor env idType = Some w"
    and sh: "shapeOf env idType False (b, fd\<lparr>fd_Wire := w\<rparr>) = Some (sh, b2, fd2)"
    and alt: "b' = b2 \<and> same_kept fd' fd2 \<or>
      b' = add_issue (issue_of ''tag/type-width-mismatch'' [who, ov]) b2"
    by (rule adopt_cases [OF assms(1)])
  note core = shapeOf_issues [OF sh]
  have "same_kept fd' fd2" using alt assms(2) core by (auto simp: add_issue_def)
  then show "fd_Optional fd' = fd_Optional fd" "fd_CycleBreak fd' = fd_CycleBreak fd"
    "fd_Custom fd' = fd_Custom fd" "wireFor env idType = Some (fd_Wire fd')"
    using core w by (simp_all add: same_kept_def)
qed

lemma adopt_issues:
  assumes "adopt_id_type env who idType ov (b, fd) = Some (b', fd')"
  shows "bd_issues b' = bd_issues b \<or> length (bd_issues b) < length (bd_issues b')"
  by (rule adopt_cases [OF assms]) (auto simp: add_issue_def dest: shapeOf_issues(1))

lemma id_field_has_id_type:
  "find_id_field env nm fs perr = Inr (f, ov) \<Longrightarrow> isIDRefFieldType env (var_Type f)"
  by (auto simp: find_id_field_passes split: option.splits if_splits)

lemma id_type_plain:
  assumes "isIDRefFieldType env t"
  shows "\<not> is_pointer t \<and> \<not> named_pointer env t"
  using assms by (auto simp: isIDRefFieldType_def id_lit_ok_def is_pointer_def named_pointer_def
      split: go_ty.splits go_lit.splits)

lemma id_target_type: "LookupIDRefField env p = Inr (f, ov) \<Longrightarrow> isIDRefFieldType env (var_Type f)"
  by (auto simp: LookupIDRefField_def id_field_has_id_type split: go_ty.splits option.splits)

lemma resolve_records:
  assumes "resolveIDRefField env n f (b, fd) = Some (b', fd')" and "bd_issues b' = bd_issues b"
    and "is_pointer (var_Type f)"
  shows "\<exists>g ov. LookupIDRefField env (strip_pointer (var_Type f)) = Inr (g, ov) \<and>
      WireIdent (fd_Wire fd') = wireTypeForValue env (var_Type g)"
    and "fd_Optional fd' = fd_Optional fd" and "fd_CycleBreak fd' = fd_CycleBreak fd"
    and "fd_Custom fd' = fd_Custom fd"
proof -
  obtain p where p: "var_Type f = Lit (TPointer p)"
    using assms(3) by (auto simp: is_pointer_def split: go_ty.splits go_lit.splits)
  obtain g ov where g: "LookupIDRefField env p = Inr (g, ov)"
    and r: "adopt_id_type env (who_of env n f) (var_Type g) ov (b, fd) = Some (b', fd')"
    using assms(1,2) p by (auto simp: resolveIDRefField_def add_issue_def Let_def split: sum.splits if_splits)
  note records = adopt_records [OF r assms(2)]
  show "fd_Optional fd' = fd_Optional fd" "fd_CycleBreak fd' = fd_CycleBreak fd" "fd_Custom fd' = fd_Custom fd"
    using records by simp_all
  have "WireIdent (fd_Wire fd') = wireTypeForValue env (var_Type g)"
    using wireFor_value [OF records(4)] id_type_plain [OF id_target_type [OF g]] by blast
  then show "\<exists>g ov. LookupIDRefField env (strip_pointer (var_Type f)) = Inr (g, ov) \<and>
      WireIdent (fd_Wire fd') = wireTypeForValue env (var_Type g)"
    using g p by (auto simp: strip_pointer_def)
qed

lemma resolve_issues:
  assumes "resolveIDRefField env n f (b, fd) = Some (b', fd')"
  shows "bd_issues b' = bd_issues b \<or> length (bd_issues b) < length (bd_issues b')"
  using assms
  by (auto simp: resolveIDRefField_def add_issue_def Let_def dest: adopt_issues
      split: go_ty.splits go_lit.splits sum.splits if_splits)

text \<open>The steps of \<^const>\<open>buildFieldDecl\<close> for an accepted field.\<close>

lemma read_markers_grow: "read_markers doc b = (m, b') \<Longrightarrow> length (bd_issues b) \<le> length (bd_issues b')"
  by (auto simp: read_markers_def add_issue_def split: prod.splits option.splits)

lemma new_field_values [simp]:
  "fd_Optional (new_field nm ft c) = False" "fd_CycleBreak (new_field nm ft c) = c"
  "fd_Custom (new_field nm ft c) = ft_Custom ft"
  by (simp_all add: new_field_def)

lemma custom_field_custom:
  "custom_field env who t fd b = (b', Some fd') \<Longrightarrow> fd_Custom fd' = fd_Custom fd"
  by (auto simp: custom_field_def Let_def split: if_splits go_ty.splits go_lit.splits)

text \<open>The steps of \<^const>\<open>buildFieldDecl\<close> for an accepted field without a codec.\<close>

lemma buildFieldDecl_steps:
  assumes "buildFieldDecl env n f ast b = Some (b', Some fd)" and "fd_Custom fd = []"
  obtains ft fm b0 b1 b2 fd1 where
    "length (bd_issues b) \<le> length (bd_issues b0)"
    and "field_guard env (who_of env n f) (var_Type f) ft fm = None"
    and "fillTypeShape env (var_Type f)
      (b0, new_field (var_Name f) ft (mk_cycleBreakViaID fm \<or> ft_CycleBreakViaID ft)) = Some (b1, fd1)"
    and "(if mk_cycleBreakViaID fm \<or> ft_CycleBreakViaID ft then resolveIDRefField env n f (b1, fd1)
      else Some (b1, fd1)) = Some (b2, fd)"
    and "b' = add_issues (checkSupportedType env (who_of env n f) (var_Type f) (var_Type f) 0 0) b2"
    and "ft_Custom ft = []"
proof -
  obtain ft where ft: "ParseFieldTag (var_BinTag f) = Inr ft"
    using assms(1) by (cases "ParseFieldTag (var_BinTag f)") (simp_all add: buildFieldDecl_def Let_def)
  obtain fm b0 where m: "read_markers (case findFieldDoc ast (var_Name f) of Some d \<Rightarrow> d | None \<Rightarrow> None) b = (fm, b0)"
    by fastforce
  let ?cb = "mk_cycleBreakViaID fm \<or> ft_CycleBreakViaID ft"
  let ?fd = "new_field (var_Name f) ft ?cb"
  have guard: "field_guard env (who_of env n f) (var_Type f) ft fm = None"
    and rest: "(if ft_Custom ft \<noteq> [] then Some (custom_field env (who_of env n f) (var_Type f) ?fd b0)
      else Option.bind (fillTypeShape env (var_Type f) (b0, ?fd)) (\<lambda>s.
        Option.bind (if ?cb then resolveIDRefField env n f s else Some s) (\<lambda>(b, fd).
          Some (add_issues (checkSupportedType env (who_of env n f) (var_Type f) (var_Type f) 0 0) b, Some fd)))) =
      Some (b', Some fd)"
    using assms(1) by (auto simp: buildFieldDecl_def ft m Let_def split: if_splits option.splits)
  have custom: "ft_Custom ft = []"
    using rest assms(2) custom_field_custom [of env "who_of env n f" "var_Type f" ?fd b0 b' fd]
    by (auto split: if_splits)
  obtain b1 fd1 where f: "fillTypeShape env (var_Type f) (b0, ?fd) = Some (b1, fd1)"
    using rest custom by (auto simp only: bind_eq_Some_conv if_False simp_thms)
  obtain b2 fd2 where r: "(if ?cb then resolveIDRefField env n f (b1, fd1) else Some (b1, fd1)) = Some (b2, fd2)"
    and e: "Some (add_issues (checkSupportedType env (who_of env n f) (var_Type f) (var_Type f) 0 0) b2, Some fd2) =
      Some (b', Some fd)"
    using rest custom f by (auto simp only: bind_eq_Some_conv if_False simp_thms bind.bind_lunit)
  show thesis
    using that [of b0 ft fm b1 fd1 b2] read_markers_grow [OF m] guard f r e custom by simp
qed

lemma strip_pointer_only: "is_pointer t \<Longrightarrow> t = Lit (TPointer (strip_pointer t))"
  by (auto simp: is_pointer_def strip_pointer_def split: go_ty.splits go_lit.splits)


definition wire_env :: go_env where
  "wire_env = \<lparr>ge_Obj = (\<lambda>_. \<lparr>to_Name = ''Order'', to_Pkg = Some ''app'', to_Exported = True, to_TypeParams = []\<rparr>),
     ge_Underlying = (\<lambda>_. TStruct []), ge_String = (\<lambda>_. ''T'')\<rparr>"

definition wire_field :: go_var where
  "wire_field = Var ''Note'' (Some ''app'') True False (Lit (TPointer (Lit (TBasic KInt64 ''int64'')))) (Some ''3'')"

lemma wire_tag: "ParseFieldTag (Some ''3'') = Inr (no_tag\<lparr>ft_Set := True, ft_Tag := 3\<rparr>)"
proof -
  have "parse_uint32 ''3'' = Some 3" by (simp add: parse_uint32_def is_digit_def digits_value_def)
  then show ?thesis by (simp add: ParseFieldTag_def max_field_tag_def check_combination_def no_tag_def)
qed

definition wire_decl :: field_decl where
  "wire_decl = (new_field ''Note'' (no_tag\<lparr>ft_Set := True, ft_Tag := 3\<rparr>) False)
     \<lparr>fd_Optional := True, fd_Type := ''int64'', fd_Wire := schema_WireVarint\<rparr>"

lemma wire_build:
  "buildFieldDecl wire_env (0, []) wire_field None new_builder = Some (new_builder, Some wire_decl)"
proof -
  have "wireFor wire_env (Lit (TBasic KInt64 ''int64'')) = Some schema_WireVarint"
    by (subst wireFor.simps) simp
  then have "fillTypeShape wire_env (Lit (TPointer (Lit (TBasic KInt64 ''int64'')))) (b, fd) =
      Some (b, fd\<lparr>fd_Optional := True, fd_Type := ''int64'', fd_Wire := schema_WireVarint\<rparr>)" for b fd
    by (simp add: fillTypeShape_def strip_pointer_def slice_alias_def shapeOf_eqs)
  moreover have "checkSupportedType wire_env who ft (Lit (TPointer (Lit (TBasic KInt64 ''int64'')))) 0 0 = []" for who ft
    by (subst checkSupportedType.simps, simp, subst checkSupportedType.simps) (simp add: isSupportedBasicKind_def)
  ultimately show ?thesis
    by (simp add: buildFieldDecl_def wire_field_def wire_tag findFieldDoc_def read_markers_def parseMarkers_def
        no_markers_def no_tag_def field_guard_def wire_decl_def new_field_def add_issues_def new_builder_def)
qed


end
