(* ===== verification/Gen_Materialize.thy ===== *)
theory Gen_Materialize
  imports Gen_Fields
begin

text \<open>
  \<^verbatim>\<open>typeContainsMaterializingCodec\<close> decides whether an envelope has to record its length. Its memo table is
  shared by all queries of a file. On types that do not contain themselves through encoded fields the
  answer is reachability, whatever was asked before.
\<close>

section \<open>What a query leaves alone\<close>

definition same_tables :: "emitter \<Rightarrow> emitter \<Rightarrow> bool" where
  "same_tables e e' \<longleftrightarrow>
     et_reg e' = et_reg e \<and> et_structIndex e' = et_structIndex e \<and> et_materializeCache e' = et_materializeCache e"

lemma same_tables_refl [simp]: "same_tables e e" by (simp add: same_tables_def)

lemma same_tables_trans: "same_tables a b \<Longrightarrow> same_tables b c \<Longrightarrow> same_tables a c"
  by (simp add: same_tables_def)

lemma addImport_tables: "addImport p name e = (a, e') \<Longrightarrow> same_tables e e'"
  by (auto simp: addImport_def same_tables_def Let_def split: if_splits option.splits)

lemma typeExpr_tables: "typeExpr env t e = (s, e') \<Longrightarrow> same_tables e e'"
  by (induction env t e arbitrary: s e' rule: typeExpr.induct)
    (auto split: option.splits if_splits prod.splits dest: addImport_tables intro: same_tables_trans)

lemma embed_hops_tables: "embed_hops env fs parts e = (r, e') \<Longrightarrow> same_tables e e'"
proof (induction env fs parts e arbitrary: r e' rule: embed_hops.induct)
  case (2 env fs want parts e)
  then show ?case
    by (auto split: option.splits prod.splits dest: typeExpr_tables intro: same_tables_trans)
qed simp

lemma resolveEmbedChain_tables: "resolveEmbedChain env str chain leaf e = (r, e') \<Longrightarrow> same_tables e e'"
  by (auto simp: resolveEmbedChain_def split: prod.splits option.splits dest: embed_hops_tables)

lemma field_entry_of_tables: "field_entry_of env str fd e = (es, e') \<Longrightarrow> same_tables e e'"
  by (auto simp: field_entry_of_def split: prod.splits option.splits if_splits dest: resolveEmbedChain_tables)

lemma field_entries_tables: "field_entries env str fds e = (es, e') \<Longrightarrow> same_tables e e'"
proof (induction fds arbitrary: e es e')
  case (Cons fd fds)
  then show ?case
    by (auto split: prod.splits dest!: field_entry_of_tables intro: same_tables_trans)
qed simp

lemma writableFields_tables: "writableFields env str sd e = (es, e') \<Longrightarrow> same_tables e e'"
  by (auto simp: writableFields_def split: prod.splits dest: field_entries_tables)

lemma named_work_tables: "named_work env n e = (ws, e') \<Longrightarrow> same_tables e e'"
  by (auto simp: named_work_def split: prod.splits option.splits if_splits dest: writableFields_tables)

section \<open>The fields do not depend on the imports\<close>

fun embed_fields :: "go_env \<Rightarrow> go_var list \<Rightarrow> string list \<Rightarrow> go_var list option" where
  "embed_fields env fs [] = Some fs"
| "embed_fields env fs (want # parts) =
     (case find_embed env fs want of
        None \<Rightarrow> None
      | Some (f, n) \<Rightarrow> Option.bind (struct_fields (ge_Underlying env n)) (\<lambda>inner. embed_fields env inner parts))"

lemma embed_hops_fields: "embed_hops env fs parts e = (r, e') \<Longrightarrow> map_option snd r = embed_fields env fs parts"
proof (induction env fs parts e arbitrary: r e' rule: embed_hops.induct)
  case (2 env fs want parts e)
  show ?case
  proof (cases "find_embed env fs want")
    case (Some fn)
    obtain f n where fn: "fn = (f, n)" by (cases fn)
    show ?thesis
    proof (cases "struct_fields (ge_Underlying env n)")
      case (Some inner)
      obtain te e1 where te: "typeExpr env (named_ty n) e = (te, e1)" by fastforce
      obtain r2 e2 where r2: "embed_hops env inner parts e1 = (r2, e2)" by fastforce
      have "map_option snd r2 = embed_fields env inner parts"
        using 2 \<open>find_embed env fs want = Some fn\<close> fn Some te r2 by auto
      then show ?thesis
        using 2(2) \<open>find_embed env fs want = Some fn\<close> fn Some te r2 by (cases r2) auto
    qed (use 2 Some fn in auto)
  qed (use 2 in auto)
qed simp

definition entry_var :: "go_env \<Rightarrow> go_var list \<Rightarrow> field_decl \<Rightarrow> go_var option" where
  "entry_var env str fd =
     (if fd_FlattenedFrom fd \<noteq> []
      then Option.bind (embed_fields env str (split_on (CHR ''.'') (fd_FlattenedFrom fd)))
        (find (\<lambda>f. var_Name f = fd_Name fd))
      else map_of (rev (map (\<lambda>f. (var_Name f, f)) str)) (fd_Name fd))"

lemma resolveEmbedChain_var:
  assumes "resolveEmbedChain env str chain leaf e = (r, e')"
  shows "map_option fst r =
     Option.bind (embed_fields env str (split_on (CHR ''.'') chain)) (find (\<lambda>f. var_Name f = leaf))"
proof -
  obtain r2 e2 where r2: "embed_hops env str (split_on (CHR ''.'') chain) e = (r2, e2)" by fastforce
  show ?thesis
    using assms embed_hops_fields [OF r2, symmetric] r2
    by (cases r2) (auto simp: resolveEmbedChain_def option.map_comp comp_def option.map_ident)
qed

definition entry_view :: "field_entry \<Rightarrow> field_decl \<times> go_var" where
  "entry_view f = (fe_decl f, fe_gov f)"

definition pure_entries :: "go_env \<Rightarrow> go_var list \<Rightarrow> field_decl list \<Rightarrow> (field_decl \<times> go_var) list" where
  "pure_entries env str fds = List.map_filter (\<lambda>fd. map_option (Pair fd) (entry_var env str fd)) fds"

lemma field_entry_of_view:
  assumes "field_entry_of env str fd e = (es, e')"
  shows "map entry_view es = (case entry_var env str fd of None \<Rightarrow> [] | Some gov \<Rightarrow> [(fd, gov)])"
proof (cases "fd_FlattenedFrom fd = []")
  case True
  then show ?thesis
    using assms by (auto simp: field_entry_of_def entry_var_def entry_view_def split: option.splits)
next
  case False
  obtain r e2 where r: "resolveEmbedChain env str (fd_FlattenedFrom fd) (fd_Name fd) e = (r, e2)" by fastforce
  show ?thesis
    using assms False r resolveEmbedChain_var [OF r, symmetric]
    by (cases r) (auto simp: field_entry_of_def entry_var_def entry_view_def)
qed

lemma field_entries_view: "field_entries env str fds e = (es, e') \<Longrightarrow> map entry_view es = pure_entries env str fds"
proof (induction fds arbitrary: e es e')
  case (Cons fd fds)
  then show ?case
    by (auto simp: pure_entries_def map_filter_simps split: prod.splits option.splits
        dest!: field_entry_of_view)
qed (simp add: pure_entries_def map_filter_simps)

lemma map_insort_key: "map h (insort_key (\<lambda>x. g (h x)) x xs) = insort_key g (h x) (map h xs)"
  by (induction xs) auto

lemma map_sort_key: "map h (sort_key (\<lambda>x. g (h x)) xs) = sort_key g (map h xs)"
  by (induction xs) (simp_all add: map_insort_key)

lemma writableFields_view:
  assumes "writableFields env str sd e = (es, e')"
  shows "map entry_view es = sort_key (fd_Tag \<circ> fst) (pure_entries env str (sd_Fields sd))"
proof -
  obtain fs e2 where fs: "field_entries env str (sd_Fields sd) e = (fs, e2)" by fastforce
  have "map entry_view (sort_key (\<lambda>f. fd_Tag (fe_decl f)) fs) = sort_key (fd_Tag \<circ> fst) (map entry_view fs)"
    using map_sort_key [of entry_view "fd_Tag \<circ> fst" fs] by (simp add: entry_view_def comp_def)
  then show ?thesis using assms fs by (simp add: writableFields_def field_entries_view [OF fs])
qed

lemma field_work_view:
  "entry_view f = entry_view g \<Longrightarrow> et_reg e = et_reg e' \<Longrightarrow> field_work e f = field_work e' g"
  by (simp add: field_work_def entry_view_def lookupCodec_def Let_def)

lemma map_view_work:
  "map entry_view fs = map entry_view gs \<Longrightarrow> et_reg e = et_reg e' \<Longrightarrow>
     map (field_work e) fs = map (field_work e') gs"
proof (induction fs arbitrary: gs)
  case (Cons f fs)
  then show ?case by (cases gs) (auto intro: field_work_view)
qed simp

definition same_static :: "emitter \<Rightarrow> emitter \<Rightarrow> bool" where
  "same_static e e' \<longleftrightarrow> et_reg e' = et_reg e \<and> et_structIndex e' = et_structIndex e"

lemma index_struct_same: "same_static e e' \<Longrightarrow> index_struct env e n = index_struct env e' n"
  by (simp add: same_static_def index_struct_def split: option.split)

lemma named_work_same:
  assumes "same_static e e'"
  shows "fst (named_work env n e) = fst (named_work env n e')"
proof -
  have "map (field_work e2) fs = map (field_work e2') fs'"
    if "writableFields env str sd e = (fs, e2)" "writableFields env str sd e' = (fs', e2')" for str sd fs fs' e2 e2'
    using writableFields_view [OF that(1)] writableFields_view [OF that(2)] assms
      writableFields_tables [OF that(1)] writableFields_tables [OF that(2)]
    by (intro map_view_work) (simp_all add: same_tables_def same_static_def)
  then show ?thesis
    using index_struct_same [OF assms, of env n]
    by (fastforce simp: named_work_def split: option.split prod.split)
qed

section \<open>Reachability\<close>

definition work_children :: "go_env \<Rightarrow> emitter \<Rightarrow> mat_work \<Rightarrow> mat_work list" where
  "work_children env e w =
     (case w of
        MFound \<Rightarrow> []
      | MType t \<Rightarrow>
          (case t of
             Named i as \<Rightarrow> fst (named_work env (i, as) e)
           | Alias _ _ \<Rightarrow> []
           | Lit l \<Rightarrow>
               (case l of
                  TPointer u \<Rightarrow> [MType u] | TSlice u \<Rightarrow> [MType u] | TArray _ u \<Rightarrow> [MType u]
                | TMap _ u \<Rightarrow> [MType u] | TStruct fs \<Rightarrow> map (MType \<circ> var_Type) fs | _ \<Rightarrow> [])))"

text \<open>The encoding of a value of type \<open>t\<close> may run a materializing codec or an opaque method.\<close>

inductive carries :: "go_env \<Rightarrow> emitter \<Rightarrow> mat_work \<Rightarrow> bool" for env e where
  carries_found: "carries env e MFound"
| carries_child: "c \<in> set (work_children env e w) \<Longrightarrow> carries env e c \<Longrightarrow> carries env e w"

abbreviation child_of :: "go_env \<Rightarrow> emitter \<Rightarrow> mat_work \<Rightarrow> mat_work \<Rightarrow> bool" where
  "child_of env e \<equiv> \<lambda>c w. c \<in> set (work_children env e w)"

text \<open>A type that does not contain itself, however deep one looks.\<close>

abbreviation noncyclic :: "go_env \<Rightarrow> emitter \<Rightarrow> mat_work \<Rightarrow> bool" where
  "noncyclic env e \<equiv> Wellfounded.accp (child_of env e)"

lemma work_children_same: "same_static e e' \<Longrightarrow> work_children env e = work_children env e'"
  using named_work_same by (auto simp: work_children_def fun_eq_iff split: mat_work.split go_ty.split go_lit.split)

lemma carries_same: "work_children env e = work_children env e' \<Longrightarrow> carries env e w \<Longrightarrow> carries env e' w"
  by (rotate_tac, induction rule: carries.induct) (auto intro: carries.intros)

lemma carries_iff: "carries env e w \<longleftrightarrow> w = MFound \<or> (\<exists>c\<in>set (work_children env e w). carries env e c)"
  by (subst carries.simps) auto

text \<open>What may be assumed of the memo table, and of the types visited in this query.\<close>

definition cache_sound :: "go_env \<Rightarrow> emitter \<Rightarrow> emitter \<Rightarrow> bool" where
  "cache_sound env e0 e \<longleftrightarrow>
     et_reg e = et_reg e0 \<and> et_structIndex e = et_structIndex e0 \<and>
     (\<forall>n b. map_of (et_materializeCache e) n = Some b \<longrightarrow> b = carries env e0 (MType (named_ty n)))"

definition harmless :: "go_env \<Rightarrow> emitter \<Rightarrow> named list \<Rightarrow> mat_work \<Rightarrow> bool" where
  "harmless env e visited w \<longleftrightarrow>
     (\<forall>n\<in>set visited. carries env e (MType (named_ty n)) \<longrightarrow> \<not> (child_of env e)\<^sup>*\<^sup>* (MType (named_ty n)) w)"


lemma contains_eqs:
  "contains_materializing env [] s = Some (False, s)"
  "contains_materializing env (MFound # rest) s = Some (True, s)"
  "n \<in> set visited \<Longrightarrow> contains_materializing env (MType (named_ty n) # rest) (visited, e) =
     contains_materializing env rest (visited, e)"
  "n \<notin> set visited \<Longrightarrow> map_of (et_materializeCache e) n = Some cached \<Longrightarrow>
     contains_materializing env (MType (named_ty n) # rest) (visited, e) =
       (if cached then Some (True, (visited, e)) else contains_materializing env rest (visited, e))"
  "n \<notin> set visited \<Longrightarrow> map_of (et_materializeCache e) n = None \<Longrightarrow>
     contains_materializing env (MType (named_ty n) # rest) (visited, e) =
       (case named_work env n e of (inner, e') \<Rightarrow>
          Option.bind (contains_materializing env inner (n # visited, e')) (\<lambda>(result, visited, e).
            let s = (visited, e\<lparr>et_materializeCache := (n, result) # et_materializeCache e\<rparr>) in
            if result then Some (True, s) else contains_materializing env rest s))"
  "contains_materializing env (MType (Alias a l) # rest) s = contains_materializing env rest s"
  "contains_materializing env (MType (Lit l) # rest) s =
     contains_materializing env (work_children env e (MType (Lit l)) @ rest) s"
        apply (subst contains_materializing.simps, simp)
       apply (subst contains_materializing.simps, simp)
      apply (subst contains_materializing.simps, simp add: named_ty_def)
     apply (subst contains_materializing.simps, simp add: named_ty_def)
    apply (subst contains_materializing.simps, simp add: named_ty_def)
   apply (subst contains_materializing.simps, simp)
  apply (subst contains_materializing.simps, simp add: work_children_def split: go_lit.split)
  done

section \<open>The answer\<close>

text \<open>
  What the walk does with the items in front of the rest: it ends with a yes, or goes on with the rest. In
  either case the table stays sound; in the second what was newly visited carries nothing.
\<close>

definition settled ::
  "go_env \<Rightarrow> emitter \<Rightarrow> mat_work list \<Rightarrow> mat_work list \<Rightarrow> named list \<times> emitter \<Rightarrow> named list \<times> emitter \<Rightarrow> bool"
where
  "settled env e0 ws rest s s' \<longleftrightarrow>
     cache_sound env e0 (snd s') \<and>
     contains_materializing env (ws @ rest) s =
       (if \<exists>w\<in>set ws. carries env e0 w then Some (True, s') else contains_materializing env rest s') \<and>
     ((\<exists>w\<in>set ws. carries env e0 w) \<or>
      (\<forall>n\<in>set (fst s'). n \<in> set (fst s) \<or> \<not> carries env e0 (MType (named_ty n))))"

definition settles :: "go_env \<Rightarrow> emitter \<Rightarrow> mat_work list \<Rightarrow> bool" where
  "settles env e0 ws \<longleftrightarrow>
     (\<forall>rest s. cache_sound env e0 (snd s) \<longrightarrow> (\<forall>w\<in>set ws. harmless env e0 (fst s) w) \<longrightarrow>
        (\<exists>s'. settled env e0 ws rest s s'))"

lemma settlesD:
  assumes "settles env e0 ws" and "cache_sound env e0 (snd s)" and "\<forall>w\<in>set ws. harmless env e0 (fst s) w"
  obtains s' where "settled env e0 ws rest s s'"
  using assms unfolding settles_def by blast

lemma harmless_mono:
  assumes "harmless env e0 visited w"
    and "\<forall>n\<in>set visited'. n \<in> set visited \<or> \<not> carries env e0 (MType (named_ty n))"
  shows "harmless env e0 visited' w"
  using assms by (auto simp: harmless_def)

lemma harmless_child:
  "harmless env e0 visited w \<Longrightarrow> c \<in> set (work_children env e0 w) \<Longrightarrow> harmless env e0 visited c"
  unfolding harmless_def by (meson rtranclp.rtrancl_into_rtrancl)

lemma settles_list: "\<forall>w\<in>set ws. settles env e0 [w] \<Longrightarrow> settles env e0 ws"
proof (induction ws)
  case Nil
  then show ?case by (auto simp: settles_def settled_def)
next
  case (Cons w ws)
  show ?case
    unfolding settles_def
  proof (intro allI impI)
    fix rest and s :: "named list \<times> emitter"
    assume ok: "cache_sound env e0 (snd s)" and h: "\<forall>w\<in>set (w # ws). harmless env e0 (fst s) w"
    obtain s1 where s1: "settled env e0 [w] (ws @ rest) s s1"
      using settlesD [of env e0 "[w]" s "ws @ rest"] Cons.prems ok h by auto
    show "\<exists>s'. settled env e0 (w # ws) rest s s'"
    proof (cases "carries env e0 w")
      case True
      then show ?thesis using s1 by (intro exI [of _ s1]) (simp add: settled_def)
    next
      case False
      then have "\<forall>w\<in>set ws. harmless env e0 (fst s1) w"
        using s1 h by (auto simp: settled_def intro: harmless_mono)
      moreover have "cache_sound env e0 (snd s1)" "settles env e0 ws"
        using s1 Cons by (simp_all add: settled_def)
      ultimately obtain s2 where s2: "settled env e0 ws rest s1 s2" using settlesD by blast
      show ?thesis using s1 s2 False by (intro exI [of _ s2]) (auto simp: settled_def)
    qed
  qed
qed

lemma no_cycle:
  assumes "noncyclic env e w" and "(child_of env e)\<^sup>*\<^sup>* w c"
  shows "c \<notin> set (work_children env e w)"
  using assms
proof (induction w arbitrary: c rule: accp_induct_rule)
  case (1 w)
  show ?case
  proof
    assume c: "c \<in> set (work_children env e w)"
    obtain d where "c = w \<or> (child_of env e)\<^sup>*\<^sup>* w d \<and> d \<in> set (work_children env e c)"
      using 1(3) by (metis rtranclp.cases)
    then show False
    proof
      assume "c = w"
      then show False using 1(2) [OF c] c by simp
    next
      assume d: "(child_of env e)\<^sup>*\<^sup>* w d \<and> d \<in> set (work_children env e c)"
      have "(child_of env e)\<^sup>*\<^sup>* c d" using c d by (meson converse_rtranclp_into_rtranclp)
      then show False using 1(2) [OF c] d by blast
    qed
  qed
qed

lemma settles_single:
  assumes "noncyclic env e0 w"
  shows "settles env e0 [w]"
  using assms
proof (induction rule: accp_induct_rule)
  case (1 w)
  have acc: "noncyclic env e0 w" by (rule 1(1))
  have inner: "settles env e0 (work_children env e0 w)" by (rule settles_list) (use 1(2) in blast)
  show ?case
    unfolding settles_def
  proof (intro allI impI)
    fix rest and s :: "named list \<times> emitter"
    assume ok: "cache_sound env e0 (snd s)" and "\<forall>w\<in>set [w]. harmless env e0 (fst s) w"
    then have h: "harmless env e0 (fst s) w" by simp
    obtain visited e where s: "s = (visited, e)" by (cases s)
    consider "w = MFound" | a l where "w = MType (Alias a l)" | l where "w = MType (Lit l)"
      | n where "w = MType (named_ty n)"
      by (metis go_ty.exhaust mat_work.exhaust named_ty_def fst_conv snd_conv)
    then show "\<exists>s'. settled env e0 [w] rest s s'"
    proof cases
      case 1
      then show ?thesis using ok by (intro exI [of _ s]) (simp add: settled_def contains_eqs carries_found)
    next
      case 2
      then show ?thesis
        using ok carries_iff [of env e0 w]
        by (intro exI [of _ s]) (simp add: settled_def contains_eqs work_children_def)
    next
      case 3
      have "\<forall>c\<in>set (work_children env e0 w). harmless env e0 (fst s) c" using h harmless_child by blast
      then obtain s' where s': "settled env e0 (work_children env e0 w) rest s s'"
        using settlesD [OF inner ok] by blast
      then show ?thesis
        using 3 carries_iff [of env e0 w]
        by (intro exI [of _ s']) (simp add: settled_def contains_eqs(7) [of env _ rest s e0])
    next
      case 4
      have n: "carries env e0 w \<longleftrightarrow> (\<exists>c\<in>set (work_children env e0 w). carries env e0 c)"
        using carries_iff [of env e0 w] 4 by simp
      consider "n \<in> set visited" | b where "n \<notin> set visited" "map_of (et_materializeCache e) n = Some b"
        | "n \<notin> set visited" "map_of (et_materializeCache e) n = None" by blast
      then show ?thesis
      proof cases
        case 1
        then have "\<not> carries env e0 w" using h 4 s by (auto simp: harmless_def)
        then show ?thesis
          using 1 4 ok s by (intro exI [of _ s]) (simp add: settled_def contains_eqs)
      next
        case 2
        then have "b = carries env e0 w" using ok 2 4 s by (cases n) (auto simp: cache_sound_def)
        then show ?thesis
          using 2 4 ok s by (intro exI [of _ s]) (simp add: settled_def contains_eqs)
      next
        case 3
        obtain ws e1 where ws: "named_work env n e = (ws, e1)" by fastforce
        have static: "same_static e0 e" using ok s by (simp add: cache_sound_def same_static_def)
        have children: "work_children env e0 w = ws"
          using ws named_work_same [OF static, of env n] 4 by (simp add: work_children_def named_ty_def)
        have ok1: "cache_sound env e0 (snd (n # visited, e1))"
          using ok s named_work_tables [OF ws] by (auto simp: cache_sound_def same_tables_def)
        have "harmless env e0 (n # visited) c" if "c \<in> set ws" for c
          using harmless_child [OF h, of c] no_cycle [OF acc, of c] that children s 4 by (auto simp: harmless_def)
        then have "\<forall>c\<in>set (work_children env e0 w). harmless env e0 (fst (n # visited, e1)) c"
          by (simp add: children)
        then obtain s1 where s1: "settled env e0 ws [] (n # visited, e1) s1"
          using settlesD [OF inner ok1] children by blast
        obtain v2 e2 where s2: "s1 = (v2, e2)" by (cases s1)
        let ?s' = "(v2, e2\<lparr>et_materializeCache := (n, carries env e0 w) # et_materializeCache e2\<rparr>)"
        show ?thesis
          using 3 4 s s1 s2 ws n children
          by (intro exI [of _ ?s']) (auto simp: settled_def contains_eqs Let_def cache_sound_def)
      qed
    qed
  qed
qed

lemma contains_single:
  assumes "noncyclic env e0 w" and "cache_sound env e0 e"
  shows "\<exists>visited e'. contains_materializing env [w] ([], e) = Some (carries env e0 w, visited, e') \<and>
    cache_sound env e0 e'"
proof -
  obtain s' where "settled env e0 [w] [] ([], e) s'"
    using settlesD [OF settles_single [OF assms(1)], of "([], e)" "[]"] assms(2) by (auto simp: harmless_def)
  then show ?thesis by (cases s') (auto simp: settled_def contains_eqs)
qed

text \<open>The queries of one file, in any order: each starts from the table the one before it left.\<close>

inductive query_run :: "go_env \<Rightarrow> emitter \<Rightarrow> emitter \<Rightarrow> bool" for env e0 where
  query_start: "et_materializeCache e0 = [] \<Longrightarrow> query_run env e0 e0"
| query_step: "query_run env e0 e \<Longrightarrow> noncyclic env e0 (MType t) \<Longrightarrow>
    typeContainsMaterializingCodec env t e = Some (Inr (b, e')) \<Longrightarrow> query_run env e0 e'"
| query_import: "query_run env e0 e \<Longrightarrow> query_run env e0 (snd (addImport p name e))"

lemma query_run_sound: "query_run env e0 e \<Longrightarrow> cache_sound env e0 e"
proof (induction rule: query_run.induct)
  case query_start
  then show ?case by (simp add: cache_sound_def)
next
  case (query_step e t b e')
  then show ?case
    using contains_single [of env e0 "MType t" e] by (auto simp: typeContainsMaterializingCodec_def)
next
  case (query_import e p name)
  then show ?case
    using addImport_tables [of p name e] by (cases "addImport p name e") (auto simp: cache_sound_def same_tables_def)
qed


definition mat_env :: go_env where
  "mat_env = \<lparr>ge_Obj = (\<lambda>i. \<lparr>to_Name = (if i = 0 then ''Order'' else ''Item''), to_Pkg = Some ''app'',
       to_Exported = True, to_TypeParams = []\<rparr>),
     ge_Underlying = (\<lambda>i. if fst i = 0 then TStruct [Var ''Items'' (Some ''app'') True False
       (Lit (TSlice (Named 2 []))) (Some ''1'')] else TStruct []),
     ge_String = (\<lambda>_. [])\<rparr>"

definition mat_emitter :: emitter where
  "mat_emitter = fresh_emitter ''app'' [] None
     [(''app.Item'', \<lparr>sd_Type = TypeRef ''app'' ''Item'' [] None, sd_Fields = [], sd_Reserved = [], sd_Opaque = True,
        sd_Generic = [], sd_AllowBreaking = [], sd_TrackPresence = False, sd_BorrowStrings = False\<rparr>)]"

lemma mat_children:
  "work_children mat_env mat_emitter (MType (Named 0 [])) = [MType (Lit (TSlice (Named 2 [])))]"
  "work_children mat_env mat_emitter (MType (Lit (TSlice (Named 2 [])))) = [MType (Named 2 [])]"
  "work_children mat_env mat_emitter (MType (Named 2 [])) = [MFound]"
  "work_children mat_env mat_emitter MFound = []"
  by (simp_all add: work_children_def named_work_def struct_fields_def mat_env_def index_struct_def Obj_def
      mat_emitter_def fresh_emitter_def)

lemma mat_noncyclic: "noncyclic mat_env mat_emitter (MType (Named 0 []))"
proof -
  have "noncyclic mat_env mat_emitter MFound" by (rule accp.accI) (simp add: mat_children)
  then have "noncyclic mat_env mat_emitter (MType (Named 2 []))"
    by (intro accp.accI [of _ "MType (Named 2 [])"]) (simp add: mat_children)
  then have "noncyclic mat_env mat_emitter (MType (Lit (TSlice (Named 2 []))))"
    by (intro accp.accI [of _ "MType (Lit (TSlice (Named 2 [])))"]) (simp add: mat_children)
  then show ?thesis by (intro accp.accI [of _ "MType (Named 0 [])"]) (simp add: mat_children)
qed


end
