(* ===== verification/Gen_Encode.thy ===== *)
theory Gen_Encode
  imports Gen_Fields
begin

text \<open>
  \<^verbatim>\<open>tools/gsbmcodegen/emit.go\<close>: the bodies of \<^verbatim>\<open>SizeGSBM\<close> and \<^verbatim>\<open>MarshalGSBM\<close>. The emitters of values call
  each other along the field's type, through named types without a bound; \<open>fuel\<close> bounds the depth, and
  \<open>None\<close> is a call that needs more of it than there is.
\<close>

definition g_bind_list :: "gs list gen \<Rightarrow> (gs list \<Rightarrow> gs list) \<Rightarrow> gs list gen" where
  "g_bind_list m f = g_bind m (\<lambda>b. g_ret (f b))"

lemma g_bind_list_ok [simp]:
  "g_bind_list m f e = Some (Inr (b, e')) \<longleftrightarrow> (\<exists>a. m e = Some (Inr (a, e')) \<and> b = f a)"
  by (auto simp: g_bind_list_def)

section \<open>Kinds\<close>

definition goKindBits :: "basic_kind \<Rightarrow> nat" where
  "goKindBits k =
     (case k of
        KInt8 \<Rightarrow> 8 | KUint8 \<Rightarrow> 8 | KInt16 \<Rightarrow> 16 | KUint16 \<Rightarrow> 16 | KInt32 \<Rightarrow> 32 | KUint32 \<Rightarrow> 32
      | KInt64 \<Rightarrow> 64 | KUint64 \<Rightarrow> 64 | KInt \<Rightarrow> 64 | KUint \<Rightarrow> 64 | KUintptr \<Rightarrow> 64 | KNonInt _ \<Rightarrow> 0)"

definition is_int_kind :: "basic_kind \<Rightarrow> bool" where
  "is_int_kind k \<longleftrightarrow> (case k of KNonInt _ \<Rightarrow> False | _ \<Rightarrow> True)"

definition isBuiltinPrimitive :: "go_ty \<Rightarrow> bool" where
  "isBuiltinPrimitive t =
     (case t of
        Lit (TBasic k _) \<Rightarrow>
          is_int_kind k \<or> k \<in> {KNonInt ''bool'', KNonInt ''string'', KNonInt ''float32'', KNonInt ''float64''}
      | Lit (TSlice u) \<Rightarrow> isByteType u
      | _ \<Rightarrow> False)"

definition isPrimitiveKey :: "go_env \<Rightarrow> go_ty \<Rightarrow> bool" where
  "isPrimitiveKey env t =
     (case t of
        Alias _ _ \<Rightarrow> False
      | _ \<Rightarrow> (case Underlying env t of
          TBasic k _ \<Rightarrow> is_int_kind k \<or> k = KNonInt ''bool'' \<or> k = KNonInt ''string'' | _ \<Rightarrow> False))"

definition elemTypeOfSlice :: "go_ty \<Rightarrow> go_ty option" where
  "elemTypeOfSlice t = (case t of Lit (TSlice u) \<Rightarrow> Some u | _ \<Rightarrow> None)"

definition zeroValue :: "go_ty \<Rightarrow> string" where
  "zeroValue t =
     (if (case elemTypeOfSlice t of Some u \<Rightarrow> isByteType u | None \<Rightarrow> False) then ''nil''
      else (case t of
          Lit (TBasic k _) \<Rightarrow>
            if k = KNonInt ''string'' then [CHR 0x22, CHR 0x22] else if k = KNonInt ''bool'' then ''false'' else ''0''
        | _ \<Rightarrow> ''nil''))"

definition named_struct :: "go_env \<Rightarrow> go_ty \<Rightarrow> bool" where
  "named_struct env t = (case t of Named i as \<Rightarrow> is_struct env (i, as) | _ \<Rightarrow> False)"

definition pointer_struct :: "go_env \<Rightarrow> go_ty \<Rightarrow> bool" where
  "pointer_struct env t = (case t of Lit (TPointer u) \<Rightarrow> named_struct env u | _ \<Rightarrow> False)"

definition is_named :: "go_ty \<Rightarrow> bool" where
  "is_named t = (case t of Named _ _ \<Rightarrow> True | _ \<Rightarrow> False)"

text \<open>The underlying type of a named one; any other type itself.\<close>

definition unnamed :: "go_env \<Rightarrow> go_ty \<Rightarrow> go_ty" where
  "unnamed env t = (case t of Named i as \<Rightarrow> Lit (ge_Underlying env (i, as)) | _ \<Rightarrow> t)"

definition is_bool_type :: "go_ty \<Rightarrow> bool" where
  "is_bool_type t = (case t of Lit (TBasic k _) \<Rightarrow> k = KNonInt ''bool'' | _ \<Rightarrow> False)"

text \<open>An expression of a named type, converted to the underlying one.\<close>

definition under_expr :: "go_env \<Rightarrow> go_ty \<Rightarrow> gx \<Rightarrow> gx gen" where
  "under_expr env t x =
     (if is_named t then g_bind (g_step (typeExpr env (unnamed env t))) (\<lambda>te. g_ret (XConv te x)) else g_ret x)"

section \<open>Sizes of values\<close>

definition emitIntSize :: "string \<Rightarrow> gx \<Rightarrow> basic_kind \<Rightarrow> string \<Rightarrow> gs list gen" where
  "emitIntSize acc x kind override =
     (case WireOverrideCompat (Some (kind_name kind, Some kind)) override of
        Inl _ \<Rightarrow> g_fail (BadWidth kind override)
      | Inr (_, sgnd) \<Rightarrow> g_ret [SAdd acc (if sgnd then ZVarint x else ZUvarint x)])"

definition emitPrimitiveSize :: "string \<Rightarrow> gx \<Rightarrow> go_ty \<Rightarrow> string \<Rightarrow> gs list gen" where
  "emitPrimitiveSize acc x t override =
     (case t of
        Lit (TBasic k _) \<Rightarrow>
          if k = KNonInt ''bool'' then g_ret [SAdd acc ZBool]
          else if k = KNonInt ''string'' then g_ret [SAdd acc (ZString x)]
          else if is_int_kind k then emitIntSize acc x k override
          else if k = KNonInt ''float32'' then g_ret [SAdd acc ZFixed32]
          else if k = KNonInt ''float64'' then g_ret [SAdd acc ZFixed64]
          else g_fail (UnsupportedKind k)
      | _ \<Rightarrow> g_fail (NotBasicType ''emitPrimitiveSize'' t))"

text \<open>A step of the recursion is given the emitter for the parts, as a function of accumulator, value, type, depth.\<close>

type_synonym size_emitter = "string \<Rightarrow> gx \<Rightarrow> go_ty \<Rightarrow> nat \<Rightarrow> gs list gen"

definition emitSliceSize :: "go_env \<Rightarrow> size_emitter \<Rightarrow> string \<Rightarrow> gx \<Rightarrow> go_ty \<Rightarrow> nat \<Rightarrow> gs list gen" where
  "emitSliceSize env emitValue acc x elemT depth =
     (let bodyVar = nm_local ''body'' (depth + 1);
          idx = nm_local ''i'' depth;
          elem = XIdx x (XVar idx);
          block = (\<lambda>inner. [SBlock [SDefine bodyVar (ZCount x), SFor idx x inner, SAdd acc (ZDelim (ZVar bodyVar))]])
      in
      if pointer_struct env elemT then
        let ebVar = nm_local ''eb'' (depth + 1) in
        g_ret (block [SDefine ebVar (ZNum 1), SGuard [elem] [SAdd ebVar (ZSizeOf elem)],
          SAdd bodyVar (ZDelim (ZVar ebVar))])
      else if named_struct env elemT then g_ret (block [SAdd bodyVar (ZDelim (ZSizeOf elem))])
      else g_bind_list (emitValue bodyVar elem elemT (depth + 1)) block)"

definition emitMapSize :: "go_env \<Rightarrow> size_emitter \<Rightarrow> string \<Rightarrow> gx \<Rightarrow> go_ty \<Rightarrow> go_ty \<Rightarrow> nat \<Rightarrow> gs list gen" where
  "emitMapSize env emitValue acc x keyT elemT depth =
     (if \<not> isPrimitiveKey env keyT then g_fail BadMapKey
      else
        let bodyVar = nm_local ''body'' (depth + 1);
            kVar = nm_local ''k'' depth;
            vvVar = nm_local ''vv'' depth;
            keyUnder = unnamed env keyT;
            loopKey = (if is_bool_type keyUnder then ''_'' else kVar) in
        g_bind (under_expr env keyT (XVar kVar)) (\<lambda>keyExpr.
          g_bind (emitPrimitiveSize bodyVar keyExpr keyUnder []) (\<lambda>keyCode.
            g_bind_list (emitValue bodyVar (XVar vvVar) elemT (depth + 1)) (\<lambda>valCode.
              [SBlock [SDefine bodyVar (ZCount x), SForMap loopKey vvVar x (keyCode @ valCode),
                 SAdd acc (ZDelim (ZVar bodyVar))]]))))"

primrec emitValueSize :: "nat \<Rightarrow> go_env \<Rightarrow> size_emitter" where
  "emitValueSize 0 env = (\<lambda>acc x t depth e. None)"
| "emitValueSize (Suc fuel) env = (\<lambda>acc x t depth.
     case t of
       Named i as \<Rightarrow>
         if is_struct env (i, as) then g_ret [SAdd acc (ZDelim (ZSizeOf x))]
         else (case slice_alias env t of
             Some (_, elemT) \<Rightarrow> emitSliceSize env (emitValueSize fuel env) acc x elemT depth
           | None \<Rightarrow>
               g_bind (under_expr env t x) (\<lambda>y. emitValueSize fuel env acc y (unnamed env t) depth))
     | Alias _ _ \<Rightarrow> g_fail (UnsupportedType ''size'' t)
     | Lit l \<Rightarrow>
         (case l of
            TBasic _ _ \<Rightarrow> emitPrimitiveSize acc x t []
          | TSlice u \<Rightarrow>
              if isByteType u then g_ret [SAdd acc (ZBytes x)]
              else emitSliceSize env (emitValueSize fuel env) acc x u depth
          | TMap k u \<Rightarrow> emitMapSize env (emitValueSize fuel env) acc x k u depth
          | _ \<Rightarrow> g_fail (UnsupportedType ''size'' t)))"

section \<open>Encoding values\<close>

definition emitIntEncode :: "gx \<Rightarrow> basic_kind \<Rightarrow> string \<Rightarrow> gs list gen" where
  "emitIntEncode x kind override =
     (case WireOverrideCompat (Some (kind_name kind, Some kind)) override of
        Inl _ \<Rightarrow> g_fail (BadWidth kind override)
      | Inr (bits, sgnd) \<Rightarrow>
          let write = SWrite (if sgnd then WVarint x else WUvarint x) in
          if bits < goKindBits kind
          then g_bind (g_step (addImport ''math'' [])) (\<lambda>_. g_ret [SRange sgnd bits x, write])
          else g_ret [write])"

definition emitPrimitiveEncode :: "gx \<Rightarrow> go_ty \<Rightarrow> string \<Rightarrow> gs list gen" where
  "emitPrimitiveEncode x t override =
     (case t of
        Lit (TBasic k _) \<Rightarrow>
          if k = KNonInt ''bool'' then g_ret [SWrite (WBool x)]
          else if k = KNonInt ''string'' then g_ret [SWrite (WString x)]
          else if is_int_kind k then emitIntEncode x k override
          else if k = KNonInt ''float32'' then g_ret [SWrite (WFloat32 x)]
          else if k = KNonInt ''float64'' then g_ret [SWrite (WFloat64 x)]
          else g_fail (UnsupportedKind k)
      | _ \<Rightarrow> g_fail (NotBasicType ''emitPrimitiveEncode'' t))"

definition emitSliceEncodeValueFallback :: "gx \<Rightarrow> string \<Rightarrow> gx \<Rightarrow> nat \<Rightarrow> gs list" where
  "emitSliceEncodeValueFallback x idx elem depth =
     [SBlock [SRegion (nm_local ''mOuter'' depth)
       [SWrite (WCount x), SFor idx x [SRegion (nm_local ''mElem'' depth) [SMarshal elem]]]]]"

definition emitSliceEncodePtrFallback :: "gx \<Rightarrow> string \<Rightarrow> gx \<Rightarrow> nat \<Rightarrow> gs list" where
  "emitSliceEncodePtrFallback x idx elem depth =
     [SBlock [SRegion (nm_local ''mOuter'' depth)
       [SWrite (WCount x), SFor idx x [SRegion (nm_local ''mElem'' depth)
         [SIfNil elem [SWrite WNil] [SWrite WNonZero, SMarshal elem]]]]]]"

type_synonym value_emitter = "gx \<Rightarrow> go_ty \<Rightarrow> nat \<Rightarrow> gs list gen"

definition emitSliceEncodeCompositeFallback ::
  "value_emitter \<Rightarrow> gx \<Rightarrow> string \<Rightarrow> gx \<Rightarrow> go_ty \<Rightarrow> nat \<Rightarrow> gs list gen"
where
  "emitSliceEncodeCompositeFallback emitValue x idx elem elemT depth =
     g_bind_list (emitValue elem elemT (depth + 1)) (\<lambda>inner.
       [SBlock [SRegion (nm_local ''mOuter'' depth) [SWrite (WCount x), SFor idx x inner]]])"

text \<open>The analytic forms: a size pass over the elements, the length, a write pass.\<close>

definition analytic_slice :: "string \<Rightarrow> string \<Rightarrow> gx \<Rightarrow> gs list \<Rightarrow> gs list \<Rightarrow> gs list" where
  "analytic_slice bodyVar idx x sizeCode writeCode =
     [SBlock [SDefine bodyVar (ZCount x), SFor idx x sizeCode,
        SWrite (WLength (ZVar bodyVar)), SWrite (WCount x), SFor idx x writeCode]]"

definition emitSliceEncode ::
  "go_env \<Rightarrow> size_emitter \<Rightarrow> value_emitter \<Rightarrow> gx \<Rightarrow> go_ty \<Rightarrow> nat \<Rightarrow> gs list gen"
where
  "emitSliceEncode env emitSizeOf emitValue x elemT depth =
     (let bodyVar = nm_local ''body'' (depth + 1);
          idx = nm_local ''i'' depth;
          elem = XIdx x (XVar idx);
          ebVar = nm_local ''eb'' (depth + 1);
          composite = g_bind (typeContainsMaterializingCodec env elemT) (\<lambda>b.
            if b then emitSliceEncodeCompositeFallback emitValue x idx elem elemT depth
            else if pointer_struct env elemT then
              g_ret (analytic_slice bodyVar idx x
                [SDefine ebVar (ZNum 1), SGuard [elem] [SAdd ebVar (ZSizeOf elem)], SAdd bodyVar (ZDelim (ZVar ebVar))]
                [SIfNil elem
                   [SWrite (WLength (ZNum 1)), SWrite WNil]
                   [SWrite (WLength (ZPlus (ZNum 1) (ZSizeOf elem))), SWrite WNonZero, SMarshal elem]])
            else if named_struct env elemT then
              g_ret (analytic_slice bodyVar idx x [SAdd bodyVar (ZDelim (ZSizeOf elem))]
                [SWrite (WLength (ZSizeOf elem)), SMarshal elem])
            else
              g_bind (emitSizeOf bodyVar elem elemT (depth + 1)) (\<lambda>sizeCode.
                g_bind_list (emitValue elem elemT (depth + 1)) (analytic_slice bodyVar idx x sizeCode)))
      in
      if pointer_struct env elemT then
        g_bind (typeContainsMaterializingCodec env (strip_pointer elemT)) (\<lambda>b.
          if b then g_ret (emitSliceEncodePtrFallback x idx elem depth) else composite)
      else if named_struct env elemT then
        g_bind (typeContainsMaterializingCodec env elemT) (\<lambda>b.
          if b then g_ret (emitSliceEncodeValueFallback x idx elem depth) else composite)
      else composite)"

definition basicForKey :: "go_env \<Rightarrow> go_ty \<Rightarrow> (basic_kind \<times> bool) option" where
  "basicForKey env t = (case unnamed env t of Lit (TBasic k _) \<Rightarrow> Some (k, is_named t) | _ \<Rightarrow> None)"

definition emitKeySort :: "go_env \<Rightarrow> go_ty \<Rightarrow> key_sort gen" where
  "emitKeySort env t =
     (case basicForKey env t of
        None \<Rightarrow> g_fail NotBasicKey
      | Some (k, named) \<Rightarrow>
          if k = KNonInt ''bool'' then g_ret (SortBool named)
          else if k = KNonInt ''string'' then g_ret (if named then SortLess else SortStrings)
          else if is_int_kind k then g_ret SortLess
          else g_fail (UnsortableKey k))"

text \<open>The sorted loop that both forms of a map end with.\<close>

definition emit_sorted_loop ::
  "go_env \<Rightarrow> value_emitter \<Rightarrow> string \<Rightarrow> gx \<Rightarrow> go_ty \<Rightarrow> go_ty \<Rightarrow> nat \<Rightarrow> gs gen"
where
  "emit_sorted_loop env emitValue keyExpr x keyT elemT depth =
     (let keysVar = nm_local ''keys'' depth; kVar = nm_local ''k'' depth; vvVar = nm_local ''vv'' depth in
      g_bind (g_step (addImport ''sort'' [])) (\<lambda>_.
        g_bind (emitKeySort env keyT) (\<lambda>srt.
          g_bind (under_expr env keyT (XVar kVar)) (\<lambda>encKey.
            g_bind (emitPrimitiveEncode encKey (unnamed env keyT) []) (\<lambda>keyCode.
              g_bind (emitValue (XVar vvVar) elemT (depth + 1)) (\<lambda>valCode.
                g_ret (SForSorted keysVar keyExpr srt kVar vvVar x (keyCode @ valCode))))))))"

definition emitMapEncodeFallback ::
  "go_env \<Rightarrow> value_emitter \<Rightarrow> gx \<Rightarrow> go_ty \<Rightarrow> go_ty \<Rightarrow> nat \<Rightarrow> gs list gen"
where
  "emitMapEncodeFallback env emitValue x keyT elemT depth =
     g_bind (g_step (typeExpr env keyT)) (\<lambda>keyExpr.
       g_bind (emit_sorted_loop env emitValue keyExpr x keyT elemT depth) (\<lambda>loop.
         g_ret [SBlock [SRegion (nm_local ''mOuter'' depth) [SWrite (WCount x), loop]]]))"

definition emitMapEncode ::
  "go_env \<Rightarrow> size_emitter \<Rightarrow> value_emitter \<Rightarrow> gx \<Rightarrow> go_ty \<Rightarrow> go_ty \<Rightarrow> nat \<Rightarrow> gs list gen"
where
  "emitMapEncode env emitSizeOf emitValue x keyT elemT depth =
     (if \<not> isPrimitiveKey env keyT then g_fail BadMapKey
      else g_bind (g_step (typeExpr env keyT)) (\<lambda>keyExpr.
        g_bind (typeContainsMaterializingCodec env elemT) (\<lambda>b.
          if b then emitMapEncodeFallback env emitValue x keyT elemT depth
          else
            let bodyVar = nm_local ''body'' (depth + 1);
                kVar = nm_local ''k'' depth;
                vvVar = nm_local ''vv'' depth;
                keyUnder = unnamed env keyT;
                sizeLoopKey = (if is_bool_type keyUnder then ''_'' else kVar) in
            g_bind (under_expr env keyT (XVar kVar)) (\<lambda>sizeKey.
              g_bind (emitPrimitiveSize bodyVar sizeKey keyUnder []) (\<lambda>keySize.
                g_bind (emitSizeOf bodyVar (XVar vvVar) elemT (depth + 1)) (\<lambda>valSize.
                  g_bind (emit_sorted_loop env emitValue keyExpr x keyT elemT depth) (\<lambda>loop.
                    g_ret [SBlock [SDefine bodyVar (ZCount x), SForMap sizeLoopKey vvVar x (keySize @ valSize),
                      SWrite (WLength (ZVar bodyVar)), SWrite (WCount x), loop]])))))))"

primrec emitValueEncode :: "nat \<Rightarrow> go_env \<Rightarrow> value_emitter" where
  "emitValueEncode 0 env = (\<lambda>x t depth e. None)"
| "emitValueEncode (Suc fuel) env = (\<lambda>x t depth.
     case t of
       Named i as \<Rightarrow>
         if is_struct env (i, as) then
           g_bind (typeContainsMaterializingCodec env t) (\<lambda>b.
             g_ret (if b then [SBlock [SRegion ''m'' [SMarshal x]]]
               else [SWrite (WLength (ZSizeOf x)), SMarshal x]))
         else (case slice_alias env t of
             Some (_, elemT) \<Rightarrow>
               emitSliceEncode env (emitValueSize fuel env) (emitValueEncode fuel env) x elemT depth
           | None \<Rightarrow>
               g_bind (under_expr env t x) (\<lambda>y. emitValueEncode fuel env y (unnamed env t) depth))
     | Alias _ _ \<Rightarrow> g_fail (UnsupportedType ''encode'' t)
     | Lit l \<Rightarrow>
         (case l of
            TBasic _ _ \<Rightarrow> emitPrimitiveEncode x t []
          | TSlice u \<Rightarrow>
              if isByteType u then g_ret [SWrite (WBytes x)]
              else emitSliceEncode env (emitValueSize fuel env) (emitValueEncode fuel env) x u depth
          | TMap k u \<Rightarrow> emitMapEncode env (emitValueSize fuel env) (emitValueEncode fuel env) x k u depth
          | _ \<Rightarrow> g_fail (UnsupportedType ''encode'' t)))"

end
