(* ===== verification/Gen_Ref.thy ===== *)
theory Gen_Ref
  imports Gen_Encode
begin

text \<open>
  What the generated methods should do, by recursion on the value: the items a value of a type is encoded
  as, each composite in one group, and the number of bytes they take.
\<close>

section \<open>Values of a type\<close>

definition kind_ok :: "basic_kind \<Rightarrow> gval \<Rightarrow> bool" where
  "kind_ok k v =
     (case v of
        VBool b \<Rightarrow> k = KNonInt ''bool''
      | VStr s \<Rightarrow> k = KNonInt ''string''
      | VF32 f \<Rightarrow> k = KNonInt ''float32''
      | VF64 f \<Rightarrow> k = KNonInt ''float64''
      | VInt i \<Rightarrow> (case int_range k of Some (lo, hi) \<Rightarrow> lo \<le> i \<and> i \<le> hi | None \<Rightarrow> False)
      | _ \<Rightarrow> False)"

definition is_struct_value :: "gval \<Rightarrow> bool" where
  "is_struct_value v = (case v of VStruct _ _ \<Rightarrow> True | _ \<Rightarrow> False)"

fun has_ty :: "go_env \<Rightarrow> go_ty \<Rightarrow> gval \<Rightarrow> bool" where
  "has_ty env t v =
     (if named_struct env t then is_struct_value v
      else (case Underlying env t of
          TBasic k _ \<Rightarrow> kind_ok k v
        | TPointer u \<Rightarrow> (case v of VNil \<Rightarrow> True | VPtr w \<Rightarrow> has_ty env u w | _ \<Rightarrow> False)
        | TSlice u \<Rightarrow>
            if isBasicByte u then (case v of VBytes _ \<Rightarrow> True | _ \<Rightarrow> False)
            else (case v of VSlice vs \<Rightarrow> \<forall>w\<in>set vs. has_ty env u w | _ \<Rightarrow> False)
        | TMap k u \<Rightarrow>
            (case v of
               VMap es \<Rightarrow> \<forall>e\<in>set es. has_ty env k (fst e) \<and> has_ty env u (snd e)
             | _ \<Rightarrow> False)
        | _ \<Rightarrow> False))"

declare has_ty.simps [simp del]

section \<open>Reference encoding\<close>

fun all_outcome :: "'a outcome list \<Rightarrow> 'a list outcome" where
  "all_outcome [] = Ret []"
| "all_outcome (r # rs) =
     (case r of Ret x \<Rightarrow> map_outcome ((#) x) (all_outcome rs) | Fail e \<Rightarrow> Fail e | Panic \<Rightarrow> Panic)"

definition pair_outcome :: "'a list outcome \<Rightarrow> 'a list outcome \<Rightarrow> 'a list outcome" where
  "pair_outcome a b = map_outcome concat (all_outcome [a, b])"

text \<open>The width contract decides how an integer is written and what it may hold.\<close>

definition ref_basic :: "basic_kind \<Rightarrow> string \<Rightarrow> gval \<Rightarrow> item list outcome" where
  "ref_basic k override v =
     (case v of
        VBool b \<Rightarrow> Ret [Item (PBool b)]
      | VStr s \<Rightarrow> Ret [Item (PString s)]
      | VF32 f \<Rightarrow> Ret [Item (PFixed32 f)]
      | VF64 f \<Rightarrow> Ret [Item (PFixed64 f)]
      | VInt i \<Rightarrow>
          (case WireOverrideCompat (Some (kind_name k, Some k)) override of
             Inl _ \<Rightarrow> Panic
           | Inr (bits, sgnd) \<Rightarrow>
               if sgnd
               then if - (2 ^ (bits - 1)) \<le> i \<and> i \<le> 2 ^ (bits - 1) - 1 then Ret [Item (PVarint (word_of_int i))]
                 else Fail ErrIntegerOverflow
               else if i \<le> 2 ^ bits - 1 then Ret [Item (PUvarint (word_of_int i))]
                 else Fail ErrIntegerOverflow)
      | _ \<Rightarrow> Panic)"

definition count_item :: "'a list \<Rightarrow> item" where
  "count_item xs = Item (PUvarint (go_uint64 (len xs)))"

text \<open>A pointer to a struct, as a slice element: presence byte and body in one group.\<close>

definition ref_pointer :: "methods \<Rightarrow> gval \<Rightarrow> item list outcome" where
  "ref_pointer M v =
     (case v of
        VNil \<Rightarrow> Ret [Group [Item PPresenceNil]]
      | VPtr w \<Rightarrow> map_outcome (\<lambda>xs. [Group (Item PPresenceNonZero # xs)]) (me_Marshal M w)
      | _ \<Rightarrow> Panic)"

lemma set_sorted_entries [simp]: "set (sorted_entries es) = set es"
  by (simp add: sorted_entries_def)

lemma mset_sorted_entries [simp]: "mset (sorted_entries es) = mset es"
  by (simp add: sorted_entries_def)

lemma entry_smaller: "e \<in> set es \<Longrightarrow> size (fst e) < Suc (size_list (size_prod size size) es)"
    "e \<in> set es \<Longrightarrow> size (snd e) < Suc (size_list (size_prod size size) es)"
  by (induction es) auto

function ref_value :: "go_env \<Rightarrow> methods \<Rightarrow> go_ty \<Rightarrow> gval \<Rightarrow> item list outcome" where
  "ref_value env M t v =
     (if named_struct env t then map_outcome (\<lambda>xs. [Group xs]) (me_Marshal M v)
      else (case Underlying env t of
          TBasic k _ \<Rightarrow> ref_basic k [] v
        | TSlice u \<Rightarrow>
            (case v of
               VBytes b \<Rightarrow> Ret [Item (PBytes b)]
             | VSlice vs \<Rightarrow>
                 map_outcome (\<lambda>xss. [Group (count_item vs # concat xss)])
                   (all_outcome (map (\<lambda>w. if pointer_struct env u then ref_pointer M w else ref_value env M u w) vs))
             | _ \<Rightarrow> Panic)
        | TMap k u \<Rightarrow>
            (case v of
               VMap es \<Rightarrow>
                 map_outcome (\<lambda>xss. [Group (count_item es # concat xss)])
                   (all_outcome (map (\<lambda>e. pair_outcome (ref_value env M k (fst e)) (ref_value env M u (snd e)))
                      (sorted_entries es)))
             | _ \<Rightarrow> Panic)
        | _ \<Rightarrow> Panic))"
  by pat_completeness auto
termination
  by (relation "measure (\<lambda>(env, M, t, v). size v)") (auto dest: entry_smaller size_list_estimation' [of _ _ "size _" size])

declare ref_value.simps [simp del]

section \<open>Reference sizes\<close>

definition ref_basic_size :: "basic_kind \<Rightarrow> string \<Rightarrow> gval \<Rightarrow> int" where
  "ref_basic_size k override v =
     (case v of
        VBool _ \<Rightarrow> SizeBool
      | VStr s \<Rightarrow> SizeString s
      | VF32 _ \<Rightarrow> SizeFixed32
      | VF64 _ \<Rightarrow> SizeFixed64
      | VInt i \<Rightarrow>
          (case WireOverrideCompat (Some (kind_name k, Some k)) override of
             Inl _ \<Rightarrow> 0
           | Inr (_, sgnd) \<Rightarrow> if sgnd then SizeVarint (word_of_int i) else SizeUvarint (word_of_int i))
      | _ \<Rightarrow> 0)"

definition count_size :: "'a list \<Rightarrow> int" where
  "count_size xs = SizeUvarint (go_uint64 (len xs))"

definition ref_pointer_size :: "methods \<Rightarrow> gval \<Rightarrow> int" where
  "ref_pointer_size M v = SizeLengthDelim (1 + (case v of VPtr w \<Rightarrow> me_Size M w | _ \<Rightarrow> 0))"

function ref_size :: "go_env \<Rightarrow> methods \<Rightarrow> go_ty \<Rightarrow> gval \<Rightarrow> int" where
  "ref_size env M t v =
     (if named_struct env t then SizeLengthDelim (me_Size M v)
      else (case Underlying env t of
          TBasic k _ \<Rightarrow> ref_basic_size k [] v
        | TSlice u \<Rightarrow>
            (case v of
               VBytes b \<Rightarrow> SizeBytes b
             | VSlice vs \<Rightarrow>
                 SizeLengthDelim (count_size vs +
                   sum_list (map (\<lambda>w. if pointer_struct env u then ref_pointer_size M w else ref_size env M u w) vs))
             | _ \<Rightarrow> 0)
        | TMap k u \<Rightarrow>
            (case v of
               VMap es \<Rightarrow>
                 SizeLengthDelim (count_size es +
                   sum_list (map (\<lambda>e. ref_size env M k (fst e) + ref_size env M u (snd e)) es))
             | _ \<Rightarrow> 0)
        | _ \<Rightarrow> 0))"
  by pat_completeness auto
termination
  by (relation "measure (\<lambda>(env, M, t, v). size v)") (auto dest: entry_smaller size_list_estimation' [of _ _ "size _" size])

declare ref_size.simps [simp del]

text \<open>The contract of a struct: its \<^verbatim>\<open>SizeGSBM\<close> is the length of what its \<^verbatim>\<open>MarshalGSBM\<close> writes.\<close>

definition sized_methods :: "methods \<Rightarrow> bool" where
  "sized_methods M \<longleftrightarrow> (\<forall>v xs. me_Marshal M v = Ret xs \<longrightarrow> me_Size M v = len (enc_items xs))"

lemma all_outcome_Ret [simp]: "all_outcome rs = Ret xss \<longleftrightarrow> rs = map Ret xss"
proof (induction rs arbitrary: xss)
  case (Cons r rs)
  then show ?case by (cases r) (auto simp: Cons_eq_map_conv)
qed auto

lemma pair_outcome_Ret: "pair_outcome a b = Ret zs \<longleftrightarrow> (\<exists>xs ys. a = Ret xs \<and> b = Ret ys \<and> zs = xs @ ys)"
  by (cases a; cases b) (auto simp: pair_outcome_def)

declare enc_items_append [simp]

lemma enc_items_concat: "enc_items (concat xss) = concat (map enc_items xss)"
  by (induction xss) auto

lemma group_size: "n = len (enc_items xs) \<Longrightarrow> SizeLengthDelim n = len (enc_items [Group xs])"
  by (simp add: SizeLengthDelim_enc del: enc_item.simps)

lemma count_size_item: "count_size xs = len (enc_item (count_item xs))"
  by (simp add: count_size_def count_item_def SizeUvarint_def length_uvarint)

lemma counted_group_size:
  assumes "n = len (concat (map enc_items xss))"
  shows "SizeLengthDelim (count_size ys + n) = len (enc_items [Group (count_item ys # concat xss)])"
  by (rule group_size) (simp add: assms count_size_item enc_items_concat)

lemma ref_basic_sized: "ref_basic k ov v = Ret xs \<Longrightarrow> ref_basic_size k ov v = len (enc_items xs)"
  by (auto simp: ref_basic_def ref_basic_size_def prim_sizes length_uvarint
      split: gval.splits sum.splits prod.splits if_splits)

lemma ref_pointer_sized:
  "sized_methods M \<Longrightarrow> ref_pointer M v = Ret xs \<Longrightarrow> ref_pointer_size M v = len (enc_items xs)"
  by (auto simp: ref_pointer_def ref_pointer_size_def sized_methods_def
      intro!: group_size split: gval.splits)

lemma sum_sizes:
  "(\<And>a xs. a \<in> set as \<Longrightarrow> r a = Ret xs \<Longrightarrow> n a = len (enc_items xs)) \<Longrightarrow> map r as = map Ret xss \<Longrightarrow>
   sum_list (map n as) = len (concat (map enc_items xss))"
  by (induction as arbitrary: xss) (auto simp: Cons_eq_map_conv)

lemma ref_value_sized:
  assumes "sized_methods M" and "ref_value env M t v = Ret xs"
  shows "ref_size env M t v = len (enc_items xs)"
  using assms
proof (induction env M t v arbitrary: xs rule: ref_value.induct)
  case (1 env M t v)
  show ?case
  proof (cases "named_struct env t")
    case True
    then show ?thesis
      using "1.prems" unfolding ref_value.simps [of env M t v] ref_size.simps [of env M t v]
      by (auto simp: sized_methods_def intro!: group_size)
  next
    case ns: False
    show ?thesis
    proof (cases "Underlying env t")
      case (TBasic k n)
      then show ?thesis
        using "1.prems" ns unfolding ref_value.simps [of env M t v] ref_size.simps [of env M t v]
        by (simp add: ref_basic_sized)
    next
      case (TSlice u)
      show ?thesis
      proof (cases v)
        case (VSlice vs)
        obtain xss where xss: "xs = [Group (count_item vs # concat xss)]"
          "map (\<lambda>w. if pointer_struct env u then ref_pointer M w else ref_value env M u w) vs = map Ret xss"
          using "1.prems" ns TSlice VSlice unfolding ref_value.simps [of env M t v] by auto
        have eq: "ref_size env M t v = SizeLengthDelim (count_size vs +
            sum_list (map (\<lambda>w. if pointer_struct env u then ref_pointer_size M w else ref_size env M u w) vs))"
          unfolding ref_size.simps [of env M t v] using ns TSlice VSlice by simp
        show ?thesis
          unfolding xss(1) eq
          by (rule counted_group_size, rule sum_sizes [OF _ xss(2)])
            (auto split: if_splits
              dest: "1.IH"(1) [OF ns TSlice VSlice _ _ "1.prems"(1)] ref_pointer_sized [OF "1.prems"(1)])
      qed (use "1.prems" ns TSlice in \<open>auto simp: ref_value.simps [of env M t] ref_size.simps [of env M t]
          SizeBytes_def length_uvarint\<close>)
    next
      case (TMap k u)
      show ?thesis
      proof (cases v)
        case (VMap es)
        obtain xss where xss: "xs = [Group (count_item es # concat xss)]"
          "map (\<lambda>e. pair_outcome (ref_value env M k (fst e)) (ref_value env M u (snd e))) (sorted_entries es)
             = map Ret xss"
          using "1.prems" ns TMap VMap unfolding ref_value.simps [of env M t v] by auto
        let ?n = "\<lambda>e. ref_size env M k (fst e) + ref_size env M u (snd e)"
        have "?n e = len (enc_items zs)"
          if "e \<in> set (sorted_entries es)" "pair_outcome (ref_value env M k (fst e)) (ref_value env M u (snd e)) = Ret zs"
          for e zs
        proof -
          obtain a b where "e = (a, b)" by (cases e)
          then show ?thesis
            using that "1.IH"(2,3) [OF ns TMap VMap _ "1.prems"(1)] by (auto simp: pair_outcome_Ret)
        qed
        then have "sum_list (map ?n (sorted_entries es)) = len (concat (map enc_items xss))"
          by (rule sum_sizes [OF _ xss(2)])
        moreover have "sum_list (map ?n (sorted_entries es)) = sum_list (map ?n es)"
          using sum_mset_sum_list [of "map ?n (sorted_entries es)"] sum_mset_sum_list [of "map ?n es"] by simp
        moreover have "ref_size env M t v = SizeLengthDelim (count_size es + sum_list (map ?n es))"
          unfolding ref_size.simps [of env M t v] using ns TMap VMap by simp
        ultimately show ?thesis
          unfolding xss(1) by (simp only: counted_group_size)
      qed (use "1.prems" ns TMap in \<open>auto simp: ref_value.simps [of env M t]\<close>)
    qed (use "1.prems" ns in \<open>auto simp: ref_value.simps [of env M t]\<close>)
  qed
qed

end
