(* ===== verification/Gen_Size.thy ===== *)
theory Gen_Size
  imports Gen_Ref
begin

text \<open>
  The size statements the generator emits add the reference size of a value to their accumulator and
  leave every other variable alone, at any depth of nesting.
\<close>

section \<open>Locals\<close>

lemma takeWhile_nm_local: "CHR ''_'' \<notin> set b \<Longrightarrow> takeWhile ((\<noteq>) (CHR ''_'')) (nm_local b k) = b"
  by (auto simp: nm_local_def takeWhile_append)

lemma nm_local_eq:
  assumes "CHR ''_'' \<notin> set b" and "CHR ''_'' \<notin> set c"
  shows "nm_local b k = nm_local c l \<longleftrightarrow> b = c \<and> k = l"
proof
  assume eq: "nm_local b k = nm_local c l"
  have "b = c" using takeWhile_nm_local [OF assms(1), of k] takeWhile_nm_local [OF assms(2), of l] eq by simp
  then show "b = c \<and> k = l" using eq by (auto simp: nm_local_def dec_inj split: if_splits)
qed simp

text \<open>The names code emitted at a depth may bind.\<close>

definition local_names :: "nat \<Rightarrow> string set" where
  "local_names d = {''_''} \<union> (\<Union>b\<in>{''i'', ''k'', ''vv'', ''keys''}. nm_local b ` {d..}) \<union>
     (\<Union>b\<in>{''body'', ''eb''}. nm_local b ` {d<..})"

lemma local_names_Suc: "local_names (Suc d) \<subseteq> local_names d"
  by (auto simp: local_names_def)

lemma nm_local_not_blank: "b \<noteq> [] \<Longrightarrow> CHR ''_'' \<notin> set b \<Longrightarrow> nm_local b k \<noteq> ''_''"
  using takeWhile_nm_local [of b k] by auto

lemma local_names_in:
  "nm_local ''i'' d \<in> local_names d" "nm_local ''k'' d \<in> local_names d" "nm_local ''vv'' d \<in> local_names d"
  "nm_local ''keys'' d \<in> local_names d" "nm_local ''body'' (Suc d) \<in> local_names d"
  "nm_local ''eb'' (Suc d) \<in> local_names d" "''_'' \<in> local_names d"
  by (auto simp: local_names_def)

lemma local_names_out:
  "nm_local ''i'' d \<notin> local_names (Suc d)" "nm_local ''k'' d \<notin> local_names (Suc d)"
  "nm_local ''vv'' d \<notin> local_names (Suc d)" "nm_local ''body'' (Suc d) \<notin> local_names (Suc d)"
  "nm_local ''eb'' (Suc d) \<notin> local_names (Suc d)"
  by (auto simp: local_names_def nm_local_eq nm_local_not_blank)

lemmas local_distinct [simp] =
  nm_local_eq nm_local_not_blank nm_local_not_blank [THEN not_sym]

section \<open>Evaluation\<close>

fun xvars :: "gx \<Rightarrow> string set" where
  "xvars (XVar x) = {x}"
| "xvars (XSel x _) = xvars x"
| "xvars (XIdx x i) = xvars x \<union> xvars i"
| "xvars (XDeref x) = xvars x"
| "xvars (XConv _ x) = xvars x"

lemma eval_agree: "(\<And>y. y \<in> xvars x \<Longrightarrow> map_of \<rho> y = map_of \<rho>' y) \<Longrightarrow> eval \<rho> x = eval \<rho>' x"
  by (induction x) auto

lemma eval_skip: "y \<notin> xvars x \<Longrightarrow> eval ((y, v) # \<rho>) x = eval \<rho> x"
  by (rule eval_agree) auto

lemma map_of_assign: "map_of (assign y v \<rho>) x = (if x = y then map_option (\<lambda>_. v) (map_of \<rho> x) else map_of \<rho> x)"
  by (induction \<rho>) (auto split: if_splits)

lemma length_assign [simp]: "length (assign y v \<rho>) = length \<rho>"
  by (induction \<rho>) (auto split: prod.splits)

lemma assign_assign [simp]: "assign y w (assign y v \<rho>) = assign y w \<rho>"
  by (induction \<rho>) (auto split: prod.splits)

lemma assign_same [simp]: "map_of \<rho> y = Some v \<Longrightarrow> assign y v \<rho> = \<rho>"
  by (induction \<rho>) (auto split: if_splits)

lemma eval_assign: "y \<notin> xvars x \<Longrightarrow> eval (assign y v \<rho>) x = eval \<rho> x"
  by (rule eval_agree) (auto simp: map_of_assign)

lemma then_run_Ret [simp]: "then_run (Ret (\<rho>, [])) f = f \<rho>"
  by (cases "f \<rho>") (auto simp: then_run_def split: prod.splits)

lemma then_run_assoc: "then_run (then_run r f) g = then_run r (\<lambda>\<rho>. then_run (f \<rho>) g)"
proof (cases r)
  case (Ret q)
  obtain \<rho> xs where q: "q = (\<rho>, xs)" by (cases q)
  show ?thesis
  proof (cases "f \<rho>")
    case f: (Ret q2)
    obtain \<rho>2 ys where "q2 = (\<rho>2, ys)" by (cases q2)
    then show ?thesis using Ret q f by (cases "g \<rho>2") (auto simp: then_run_def)
  qed (use Ret q in \<open>simp_all add: then_run_def\<close>)
qed (simp_all add: then_run_def)

lemma execs_append: "execs M (a @ b) \<rho> = then_run (execs M a \<rho>) (execs M b)"
proof (induction a arbitrary: \<rho>)
  case (Cons s a)
  then have "execs M (a @ b) = (\<lambda>\<rho>. then_run (execs M a \<rho>) (execs M b))" by auto
  then show ?case by (simp add: then_run_assoc)
qed simp

lemma leave_simps [simp]:
  "leave n (Ret (\<rho>, xs)) = Ret (drop (length \<rho> - n) \<rho>, xs)" "leave n (Fail err) = Fail err" "leave n Panic = Panic"
  by (simp_all add: leave_def)

section \<open>Adding up\<close>

definition adds :: "methods \<Rightarrow> gs list \<Rightarrow> genv \<Rightarrow> string \<Rightarrow> int \<Rightarrow> bool" where
  "adds M code \<rho> acc n \<longleftrightarrow>
     (\<forall>s. map_of \<rho> acc = Some (VInt s) \<longrightarrow> execs M code \<rho> = Ret (assign acc (VInt (s + n)) \<rho>, []))"

lemma adds_one: "eval_size M \<rho> z = Some n \<Longrightarrow> adds M [SAdd acc z] \<rho> acc n"
  by (simp add: adds_def add_to_def)

lemma adds_append:
  assumes "adds M a \<rho> acc n" and "\<And>s. adds M b (assign acc (VInt s) \<rho>) acc m"
  shows "adds M (a @ b) \<rho> acc (n + m)"
  unfolding adds_def
proof (intro allI impI)
  fix s assume s: "map_of \<rho> acc = Some (VInt s)"
  then have "execs M a \<rho> = Ret (assign acc (VInt (s + n)) \<rho>, [])" using assms(1) by (simp add: adds_def)
  moreover have "execs M b (assign acc (VInt (s + n)) \<rho>) =
      Ret (assign acc (VInt (s + n + m)) (assign acc (VInt (s + n)) \<rho>), [])"
    using assms(2) [of "s + n"] s unfolding adds_def by (simp add: map_of_assign)
  ultimately show "execs M (a @ b) \<rho> = Ret (assign acc (VInt (s + (n + m))) \<rho>, [])"
    by (simp add: execs_append add.assoc)
qed

text \<open>A loop whose rounds add to a variable that is the newest one.\<close>

lemma rounds_add:
  assumes "\<And>a s. a \<in> set as \<Longrightarrow>
      leave (Suc (length \<rho>)) (f (g a @ (y, VInt s) # \<rho>)) = Ret ((y, VInt (s + h a)) # \<rho>, [])"
  shows "rounds f (map g as) ((y, VInt s) # \<rho>) = Ret ((y, VInt (s + sum_list (map h as))) # \<rho>, [])"
  using assms by (induction as arbitrary: s) (simp_all add: add.assoc)

text \<open>A round whose body adds to that variable, behind the variables of the loop.\<close>

lemma round_adds:
  assumes "adds M code (vs @ (y, VInt s) # \<rho>) y n" and "y \<notin> fst ` set vs"
  shows "leave (Suc (length \<rho>)) (execs M code (vs @ (y, VInt s) # \<rho>)) = Ret ((y, VInt (s + n)) # \<rho>, [])"
proof -
  have "map_of (vs @ (y, VInt s) # \<rho>) y = Some (VInt s)"
    using assms(2) by (simp add: map_add_def map_of_eq_None_iff [THEN iffD2])
  moreover have "assign y w (vs @ (y, v) # \<rho>) = vs @ (y, w) # \<rho>" for v w
    using assms(2) by (induction vs) auto
  ultimately show ?thesis using assms(1) by (simp add: adds_def)
qed

text \<open>The block both composite emitters write: a body that starts at the count, a loop, the whole delimited.\<close>

lemma counted_block:
  assumes loop: "exec M loop ((y, VInt (count_size xs)) # \<rho>) = Ret ((y, VInt (count_size xs + n)) # \<rho>, [])"
    and x: "Option.bind (eval \<rho> x) len_of = Some (len xs)" and y: "y \<noteq> acc"
  shows "adds M [SBlock [SDefine y (ZCount x), loop, SAdd acc (ZDelim (ZVar y))]] \<rho> acc
    (SizeLengthDelim (count_size xs + n))"
proof -
  have count: "eval_size M \<rho> (ZCount x) = Some (count_size xs)"
    using x by (cases "eval \<rho> x") (auto simp: count_size_def)
  show ?thesis
    unfolding adds_def
  proof (intro allI impI)
    fix s assume "map_of \<rho> acc = Some (VInt s)"
    then show "execs M [SBlock [SDefine y (ZCount x), loop, SAdd acc (ZDelim (ZVar y))]] \<rho> =
        Ret (assign acc (VInt (s + SizeLengthDelim (count_size xs + n))) \<rho>, [])"
      using count loop y by (simp add: add_to_def)
  qed
qed

lemma slice_loop:
  assumes "eval \<rho> x = Some (VSlice vs)" and "y \<notin> xvars x"
    and rnd: "\<And>k s. k < length vs \<Longrightarrow>
      leave (Suc (length \<rho>)) (execs M inner ((idx, VInt (int k)) # (y, VInt s) # \<rho>)) =
      Ret ((y, VInt (s + h (vs ! k))) # \<rho>, [])"
  shows "exec M (SFor idx x inner) ((y, VInt s) # \<rho>) = Ret ((y, VInt (s + sum_list (map h vs))) # \<rho>, [])"
proof -
  have "exec M (SFor idx x inner) ((y, VInt s) # \<rho>) =
      Ret ((y, VInt (s + sum_list (map (\<lambda>k. h (vs ! k)) [0..<length vs]))) # \<rho>, [])"
    using assms(1,2) by (simp add: eval_skip, intro rounds_add) (simp add: rnd)
  moreover have "map (\<lambda>k. h (vs ! k)) [0..<length vs] = map h vs"
    by (rule nth_equalityI) simp_all
  ultimately show ?thesis by simp
qed

lemma map_loop:
  assumes "eval \<rho> x = Some (VMap es)" and "y \<notin> xvars x"
    and rnd: "\<And>e s. e \<in> set es \<Longrightarrow>
      leave (Suc (length \<rho>)) (execs M inner ((vv, snd e) # (k, fst e) # (y, VInt s) # \<rho>)) =
      Ret ((y, VInt (s + h e)) # \<rho>, [])"
  shows "exec M (SForMap k vv x inner) ((y, VInt s) # \<rho>) = Ret ((y, VInt (s + sum_list (map h es))) # \<rho>, [])"
  using assms(1,2) by (simp add: eval_skip, intro rounds_add) (auto simp: rnd [of "(a, b)" for a b, simplified])

section \<open>Primitive values\<close>

text \<open>The printed name of an underlying basic type names no other integer kind (it may be an alias such as \<^verbatim>\<open>byte\<close>).\<close>

definition kinds_named :: "go_env \<Rightarrow> bool" where
  "kinds_named env \<longleftrightarrow>
     (\<forall>n k name k'. ge_Underlying env n = TBasic k name \<longrightarrow> k' \<in> set int_kinds \<longrightarrow> kind_name k' = name \<longrightarrow> k' = k)"

lemma kind_ok_cases:
  assumes "kind_ok k v"
  obtains b where "k = KNonInt ''bool''" "v = VBool b"
  | b where "k = KNonInt ''string''" "v = VStr b"
  | b where "k = KNonInt ''float32''" "v = VF32 b"
  | b where "k = KNonInt ''float64''" "v = VF64 b"
  | i lo hi where "is_int_kind k" "v = VInt i" "int_range k = Some (lo, hi)" "lo \<le> i" "i \<le> hi"
  using assms
  by (cases v; cases k) (auto simp: kind_ok_def int_range_def basicIntShape_def is_int_kind_def split: option.splits)

lemma wrap_int_id: "lo \<le> i \<Longrightarrow> i \<le> hi \<Longrightarrow> wrap_int (lo, hi) i = i"
  by (simp add: wrap_int_def)

lemma convert_id:
  assumes "kinds_named env" and "ge_Underlying env n = TBasic k name" and "kind_ok k v"
  shows "convert name v = v"
  using assms(3)
proof (cases rule: kind_ok_cases)
  case (5 i lo hi)
  show ?thesis
  proof (cases "find (\<lambda>k. kind_name k = name) int_kinds")
    case (Some k')
    then have "k' \<in> set int_kinds" "kind_name k' = name" by (auto simp: find_Some_iff)
    then have "k' = k" using assms(1,2) unfolding kinds_named_def by blast
    then show ?thesis using Some 5 by (simp add: convert_def wrap_int_id)
  qed (simp add: convert_def 5)
qed (simp_all add: convert_def)

lemma has_ty_unnamed: "\<not> named_struct env t \<Longrightarrow> has_ty env t v \<longleftrightarrow> has_ty env (unnamed env t) v"
  by (cases t) (auto simp: has_ty.simps [of env _ v] unnamed_def Underlying_def named_struct_def)

lemma has_ty_basic: "has_ty env (Lit (TBasic k name)) v \<longleftrightarrow> kind_ok k v"
  by (simp add: has_ty.simps [of env _ v] Underlying_def named_struct_def)

lemma convert_typed:
  assumes "kinds_named env" and "has_ty env t v" and "\<not> named_struct env t" and "is_named t"
    and "typeExpr env (unnamed env t) e = (te, e')"
  shows "convert te v = v"
proof (cases "unnamed env t")
  case (Lit l)
  obtain n where n: "l = ge_Underlying env n" using assms(4) Lit by (auto simp: is_named_def unnamed_def split: go_ty.splits)
  show ?thesis
  proof (cases "\<exists>k name. l = TBasic k name")
    case True
    then obtain k name where l: "l = TBasic k name" by blast
    have "kind_ok k v" using assms(2,3) Lit l by (simp add: has_ty_unnamed has_ty_basic)
    moreover have "te = name" using assms(5) Lit l by simp
    ultimately show ?thesis using convert_id [OF assms(1), of n k name v] n l by simp
  next
    case False
    then have "\<nexists>i. v = VInt i"
      using assms(2,3) Lit
      by (auto simp: has_ty_unnamed has_ty.simps [of env "Lit l" v] Underlying_def named_struct_def
          split: go_lit.splits if_splits)
    then show ?thesis by (auto simp: convert_def split: gval.splits)
  qed
qed (use assms(4) in \<open>auto simp: is_named_def unnamed_def split: go_ty.splits\<close>)

lemma under_expr_eval:
  assumes "under_expr env t x e = Some (Inr (y, e'))" and "kinds_named env" and "has_ty env t v"
    and "\<not> named_struct env t" and "eval \<rho> x = Some v"
  shows "eval \<rho> y = Some v \<and> xvars y = xvars x"
  using assms convert_typed [OF assms(2-4)]
  by (auto simp: under_expr_def split: if_splits) (metis prod.collapse)

lemma basic_adds:
  assumes "emitPrimitiveSize acc x (Lit (TBasic k name)) ov e = Some (Inr (code, e'))" and "kind_ok k v"
    and "k \<noteq> KNonInt ''bool'' \<Longrightarrow> eval \<rho> x = Some v"
  shows "adds M code \<rho> acc (ref_basic_size k ov v)"
  using assms(2)
proof (cases rule: kind_ok_cases)
  case (5 i lo hi)
  then have "k \<noteq> KNonInt ''bool''" by (auto simp: is_int_kind_def)
  then have "eval \<rho> x = Some (VInt i)" using assms(3) 5 by simp
  then show ?thesis
    using assms(1) 5
    by (auto simp: emitPrimitiveSize_def emitIntSize_def is_int_kind_def ref_basic_size_def eval_word_def
        intro!: adds_one split: sum.splits if_splits)
qed (use assms(1,3) in \<open>auto simp: emitPrimitiveSize_def ref_basic_size_def is_int_kind_def intro!: adds_one\<close>)

section \<open>Values\<close>

text \<open>Where emitted code may run: the value and the accumulator are not among the names the code binds.\<close>

definition clear_at :: "nat \<Rightarrow> gx \<Rightarrow> string \<Rightarrow> bool" where
  "clear_at d x acc \<longleftrightarrow> xvars x \<inter> local_names d = {} \<and> acc \<notin> local_names d \<and> acc \<notin> xvars x"

lemma clear_value: "clear_at (Suc d) (XVar (nm_local ''vv'' d)) (nm_local ''body'' (Suc d))"
  using local_names_out [of d] by (simp add: clear_at_def)

definition size_step :: "go_env \<Rightarrow> size_emitter \<Rightarrow> bool" where
  "size_step env emit \<longleftrightarrow>
     (\<forall>M acc x t d e code e' \<rho> v. emit acc x t d e = Some (Inr (code, e')) \<longrightarrow> clear_at d x acc \<longrightarrow>
        eval \<rho> x = Some v \<longrightarrow> has_ty env t v \<longrightarrow> adds M code \<rho> acc (ref_size env M t v))"

lemma size_stepD:
  "size_step env emit \<Longrightarrow> emit acc x t d e = Some (Inr (code, e')) \<Longrightarrow> clear_at d x acc \<Longrightarrow>
   eval \<rho> x = Some v \<Longrightarrow> has_ty env t v \<Longrightarrow> adds M code \<rho> acc (ref_size env M t v)"
  unfolding size_step_def by blast

lemma has_ty_struct: "named_struct env t \<Longrightarrow> has_ty env t v \<longleftrightarrow> is_struct_value v"
  by (simp add: has_ty.simps [of env t v])

lemma has_ty_pointer:
  assumes "pointer_struct env t"
  shows "has_ty env t v \<longleftrightarrow> v = VNil \<or> (\<exists>w. v = VPtr w \<and> is_struct_value w)"
proof -
  obtain u where "t = Lit (TPointer u)" "named_struct env u"
    using assms by (auto simp: pointer_struct_def split: go_ty.splits go_lit.splits)
  moreover have "\<not> named_struct env (Lit (TPointer u))" for u by (simp add: named_struct_def)
  ultimately show ?thesis
    by (subst has_ty.simps) (simp add: Underlying_def has_ty_struct split: gval.split)
qed

lemma eval_recv_struct: "eval \<rho> x = Some v \<Longrightarrow> is_struct_value v \<Longrightarrow> eval_recv \<rho> x = Some v"
  by (cases v) (simp_all add: eval_recv_def is_struct_value_def)

lemma eval_elem:
  assumes "eval \<rho> x = Some (VSlice vs)" and "k < length vs" and "xvars x \<inter> {idx, y} = {}"
  shows "eval ((idx, VInt (int k)) # (y, s) # \<rho>) (XIdx x (XVar idx)) = Some (vs ! k)"
proof -
  have "eval ((idx, VInt (int k)) # (y, s) # \<rho>) x = Some (VSlice vs)"
    using assms(1,3) by (simp add: eval_skip)
  then show ?thesis using assms(2) by (simp add: go_index_def)
qed

text \<open>One element, in the three forms of the slice emitter.\<close>

lemma pointer_round:
  assumes v: "eval \<rho>' x = Some v" "v = VNil \<or> (\<exists>w. v = VPtr w \<and> is_struct_value w)"
    and \<rho>': "\<rho>' = (idx, i) # (y, VInt s) # \<rho>" and names: "b \<noteq> y" "idx \<noteq> y" "b \<notin> xvars x"
  shows "leave (Suc (length \<rho>))
      (execs M [SDefine b (ZNum 1), SGuard [x] [SAdd b (ZSizeOf x)], SAdd y (ZDelim (ZVar b))] \<rho>') =
    Ret ((y, VInt (s + ref_pointer_size M v)) # \<rho>, [])"
proof -
  have ev: "eval ((b, c) # \<rho>') x = Some v" for c using v(1) names(3) by (simp add: eval_skip)
  show ?thesis
  proof (cases "v = VNil")
    case True
    then show ?thesis using ev names \<rho>' by (simp add: add_to_def ref_pointer_size_def)
  next
    case False
    then obtain w where w: "v = VPtr w" using v(2) by blast
    then have "eval_recv ((b, c) # \<rho>') x = Some w" for c using ev by (simp add: eval_recv_def)
    then show ?thesis
      using ev names \<rho>' w by (simp add: add_to_def ref_pointer_size_def add.commute)
  qed
qed

definition elem_size :: "go_env \<Rightarrow> methods \<Rightarrow> go_ty \<Rightarrow> gval \<Rightarrow> int" where
  "elem_size env M u w = (if pointer_struct env u then ref_pointer_size M w else ref_size env M u w)"

text \<open>The size code of one element, where both the size emitter and the analytic form of the encoder put it.\<close>

definition slice_inner ::
  "go_env \<Rightarrow> size_emitter \<Rightarrow> nat \<Rightarrow> gx \<Rightarrow> go_ty \<Rightarrow> emitter \<Rightarrow> gs list \<Rightarrow> emitter \<Rightarrow> bool"
where
  "slice_inner env emit d x u e inner e' \<longleftrightarrow>
     (let y = nm_local ''body'' (Suc d); b = nm_local ''eb'' (Suc d); elem = XIdx x (XVar (nm_local ''i'' d)) in
      if pointer_struct env u then
        inner = [SDefine b (ZNum 1), SGuard [elem] [SAdd b (ZSizeOf elem)], SAdd y (ZDelim (ZVar b))]
      else if named_struct env u then inner = [SAdd y (ZDelim (ZSizeOf elem))]
      else emit y elem u (Suc d) e = Some (Inr (inner, e')))"

lemma slice_inner_round:
  assumes inner: "slice_inner env emit d x u e inner e'" and emit: "size_step env emit"
    and clear: "xvars x \<inter> local_names d = {}" and x: "eval \<rho> x = Some (VSlice vs)"
    and ty: "\<forall>w\<in>set vs. has_ty env u w" and k: "k < length vs"
  shows "leave (Suc (length \<rho>))
      (execs M inner ((nm_local ''i'' d, VInt (int k)) # (nm_local ''body'' (Suc d), VInt s) # \<rho>)) =
    Ret ((nm_local ''body'' (Suc d), VInt (s + elem_size env M u (vs ! k))) # \<rho>, [])"
proof -
  let ?y = "nm_local ''body'' (Suc d)" and ?i = "nm_local ''i'' d" and ?b = "nm_local ''eb'' (Suc d)"
  let ?elem = "XIdx x (XVar ?i)"
  have names: "?y \<notin> xvars x" "?i \<notin> xvars x" "?b \<notin> xvars x" "?i \<noteq> ?y" "?b \<noteq> ?y" "?b \<noteq> ?i"
    using clear local_names_in [of d] by auto
  have elem: "eval ((?i, VInt (int k)) # (?y, VInt s) # \<rho>) ?elem = Some (vs ! k)"
    by (rule eval_elem [OF x k]) (use names in auto)
  have typed: "has_ty env u (vs ! k)" using ty k by simp
  consider (ptr) "pointer_struct env u" | (str) "\<not> pointer_struct env u" "named_struct env u"
    | (other) "\<not> pointer_struct env u" "\<not> named_struct env u" by blast
  then show ?thesis
  proof cases
    case ptr
    then have "inner = [SDefine ?b (ZNum 1), SGuard [?elem] [SAdd ?b (ZSizeOf ?elem)], SAdd ?y (ZDelim (ZVar ?b))]"
      using inner by (simp add: slice_inner_def Let_def)
    then show ?thesis
      unfolding elem_size_def if_P [OF ptr]
      by (simp only:, intro pointer_round [OF elem _ refl])
        (use typed names in \<open>auto simp: has_ty_pointer [OF ptr]\<close>)
  next
    case str
    then have "inner = [SAdd ?y (ZDelim (ZSizeOf ?elem))]" using inner by (simp add: slice_inner_def Let_def)
    then show ?thesis
      using eval_recv_struct [OF elem] typed str names
      by (simp add: has_ty_struct add_to_def elem_size_def ref_size.simps [of env M u] del: eval.simps)
  next
    case other
    then have step: "emit ?y ?elem u (Suc d) e = Some (Inr (inner, e'))"
      using inner by (simp add: slice_inner_def Let_def)
    have "clear_at (Suc d) ?elem ?y"
      using clear local_names_Suc [of d] local_names_in [of d] local_names_out [of d] by (auto simp: clear_at_def)
    then have "adds M inner ([(?i, VInt (int k))] @ (?y, VInt s) # \<rho>) ?y (ref_size env M u (vs ! k))"
      using size_stepD [OF emit step] elem typed by (simp del: eval.simps)
    then show ?thesis
      using round_adds [of M inner "[(?i, VInt (int k))]" ?y s \<rho>] names other by (simp add: elem_size_def)
  qed
qed

lemma slice_size_adds:
  assumes "emitSliceSize env emit acc x u d e = Some (Inr (code, e'))" and emit: "size_step env emit"
    and clear: "clear_at d x acc" and x: "eval \<rho> x = Some (VSlice vs)" and ty: "\<forall>w\<in>set vs. has_ty env u w"
  shows "adds M code \<rho> acc (SizeLengthDelim (count_size vs + sum_list (map (elem_size env M u) vs)))"
proof -
  let ?y = "nm_local ''body'' (Suc d)" and ?i = "nm_local ''i'' d"
  have clear': "xvars x \<inter> local_names d = {}" and names: "?y \<noteq> acc" "?y \<notin> xvars x"
    using clear local_names_in [of d] by (auto simp: clear_at_def)
  obtain inner where inner: "slice_inner env emit d x u e inner e'"
    and code: "code = [SBlock [SDefine ?y (ZCount x), SFor ?i x inner, SAdd acc (ZDelim (ZVar ?y))]]"
    using assms(1) by (auto simp: emitSliceSize_def slice_inner_def Let_def split: if_splits)
  show ?thesis
    unfolding code
    by (rule counted_block [OF slice_loop [OF x names(2)]])
      (use slice_inner_round [OF inner emit clear' x ty] x names in simp_all)
qed

lemma primitive_key:
  assumes "isPrimitiveKey env t"
  obtains k name where "unnamed env t = Lit (TBasic k name)" "Underlying env t = TBasic k name" "\<not> named_struct env t"
  using assms
  by (cases t) (auto simp: isPrimitiveKey_def Underlying_def unnamed_def named_struct_def is_struct_def
      struct_fields_def split: go_lit.splits)

text \<open>The size code of one entry.\<close>

definition map_inner ::
  "go_env \<Rightarrow> size_emitter \<Rightarrow> nat \<Rightarrow> go_ty \<Rightarrow> go_ty \<Rightarrow> emitter \<Rightarrow> gs list \<Rightarrow> emitter \<Rightarrow> bool"
where
  "map_inner env emit d kt u e inner e' \<longleftrightarrow>
     (let y = nm_local ''body'' (Suc d) in
      \<exists>ke e1 kc e2 vc. under_expr env kt (XVar (nm_local ''k'' d)) e = Some (Inr (ke, e1)) \<and>
        emitPrimitiveSize y ke (unnamed env kt) [] e1 = Some (Inr (kc, e2)) \<and>
        emit y (XVar (nm_local ''vv'' d)) u (Suc d) e2 = Some (Inr (vc, e')) \<and> inner = kc @ vc)"

definition entry_size :: "go_env \<Rightarrow> methods \<Rightarrow> go_ty \<Rightarrow> go_ty \<Rightarrow> gval \<times> gval \<Rightarrow> int" where
  "entry_size env M kt u m = ref_size env M kt (fst m) + ref_size env M u (snd m)"

definition size_key :: "go_env \<Rightarrow> go_ty \<Rightarrow> nat \<Rightarrow> string" where
  "size_key env kt d = (if is_bool_type (unnamed env kt) then ''_'' else nm_local ''k'' d)"

lemma map_inner_round:
  assumes inner: "map_inner env emit d kt u e inner e'" and emit: "size_step env emit"
    and named: "kinds_named env" and key: "isPrimitiveKey env kt"
    and tk: "has_ty env kt (fst m)" and tu: "has_ty env u (snd m)"
  shows "leave (Suc (length \<rho>)) (execs M inner
      ((nm_local ''vv'' d, snd m) # (size_key env kt d, fst m) # (nm_local ''body'' (Suc d), VInt s) # \<rho>)) =
    Ret ((nm_local ''body'' (Suc d), VInt (s + entry_size env M kt u m)) # \<rho>, [])"
proof -
  let ?y = "nm_local ''body'' (Suc d)" and ?k = "nm_local ''k'' d" and ?v = "nm_local ''vv'' d"
  obtain k name where k: "unnamed env kt = Lit (TBasic k name)" "Underlying env kt = TBasic k name"
    "\<not> named_struct env kt" using key by (rule primitive_key)
  let ?lk = "size_key env kt d"
  obtain ke e1 kc e2 vc where parts: "under_expr env kt (XVar ?k) e = Some (Inr (ke, e1))"
    "emitPrimitiveSize ?y ke (Lit (TBasic k name)) [] e1 = Some (Inr (kc, e2))"
    "emit ?y (XVar ?v) u (Suc d) e2 = Some (Inr (vc, e'))" "inner = kc @ vc"
    using inner k(1) by (auto simp: map_inner_def Let_def)
  let ?vs = "[(?v, snd m), (?lk, fst m)]"
  have lk: "?lk \<noteq> ?v" "?lk \<noteq> ?y" by (simp_all add: size_key_def)
  have ok: "kind_ok k (fst m)" using tk k by (simp add: has_ty_unnamed has_ty_basic)
  have "eval (?vs @ (?y, VInt s) # \<rho>) ke = Some (fst m)" if "k \<noteq> KNonInt ''bool''"
    using under_expr_eval [OF parts(1) named tk k(3), of "?vs @ (?y, VInt s) # \<rho>"] that k(1)
    by (simp add: size_key_def is_bool_type_def)
  then have "adds M kc (?vs @ (?y, VInt s) # \<rho>) ?y (ref_basic_size k [] (fst m))"
    by (rule basic_adds [OF parts(2) ok])
  then have "adds M kc (?vs @ (?y, VInt s) # \<rho>) ?y (ref_size env M kt (fst m))"
    using k by (simp add: ref_size.simps [of env M kt])
  moreover have "adds M vc (assign ?y (VInt w) (?vs @ (?y, VInt s) # \<rho>)) ?y (ref_size env M u (snd m))" for w
    by (rule size_stepD [OF emit parts(3) clear_value _ tu]) simp
  ultimately have "adds M inner (?vs @ (?y, VInt s) # \<rho>) ?y (entry_size env M kt u m)"
    unfolding parts(4) entry_size_def by (rule adds_append)
  then show ?thesis using round_adds [of M inner ?vs ?y s \<rho>] lk by simp
qed

lemma map_size_adds:
  assumes "emitMapSize env emit acc x kt u d e = Some (Inr (code, e'))" and emit: "size_step env emit"
    and named: "kinds_named env" and clear: "clear_at d x acc" and x: "eval \<rho> x = Some (VMap es)"
    and ty: "\<forall>m\<in>set es. has_ty env kt (fst m) \<and> has_ty env u (snd m)"
  shows "adds M code \<rho> acc (SizeLengthDelim (count_size es + sum_list (map (entry_size env M kt u) es)))"
proof -
  let ?y = "nm_local ''body'' (Suc d)"
  have key: "isPrimitiveKey env kt" using assms(1) by (auto simp: emitMapSize_def split: if_splits)
  have names: "?y \<noteq> acc" "?y \<notin> xvars x"
    using clear local_names_in [of d] by (auto simp: clear_at_def)
  obtain inner where inner: "map_inner env emit d kt u e inner e'" and code: "code = [SBlock [SDefine ?y (ZCount x),
      SForMap (size_key env kt d) (nm_local ''vv'' d) x inner, SAdd acc (ZDelim (ZVar ?y))]]"
    using assms(1) key by (auto simp: emitMapSize_def map_inner_def size_key_def Let_def)
  show ?thesis
    unfolding code
    by (rule counted_block [OF map_loop [OF x names(2)]])
      (use map_inner_round [OF inner emit named key] ty x names in simp_all)
qed

lemma has_ty_slice:
  assumes "\<not> named_struct env t" and "Underlying env t = TSlice u" and "has_ty env t v"
  shows "if isBasicByte u then \<exists>b. v = VBytes b else \<exists>vs. v = VSlice vs \<and> (\<forall>w\<in>set vs. has_ty env u w)"
  using assms unfolding has_ty.simps [of env t v] by (auto split: gval.splits if_splits)

lemma has_ty_map:
  assumes "\<not> named_struct env t" and "Underlying env t = TMap k u" and "has_ty env t v"
  shows "\<exists>es. v = VMap es \<and> (\<forall>m\<in>set es. has_ty env k (fst m) \<and> has_ty env u (snd m))"
  using assms unfolding has_ty.simps [of env t v] by (auto split: gval.splits)

lemma ref_size_slice:
  "\<not> named_struct env t \<Longrightarrow> Underlying env t = TSlice u \<Longrightarrow>
   ref_size env M t (VSlice vs) = SizeLengthDelim (count_size vs + sum_list (map (elem_size env M u) vs))"
  "\<not> named_struct env t \<Longrightarrow> Underlying env t = TSlice u \<Longrightarrow> ref_size env M t (VBytes b) = SizeBytes b"
  by (simp_all add: ref_size.simps [of env M t] elem_size_def [abs_def])

lemma ref_size_map:
  "\<not> named_struct env t \<Longrightarrow> Underlying env t = TMap k u \<Longrightarrow> ref_size env M t (VMap es) =
   SizeLengthDelim (count_size es + sum_list (map (entry_size env M k u) es))"
  by (simp add: ref_size.simps [of env M t] entry_size_def [abs_def])

lemma ref_size_basic:
  "\<not> named_struct env t \<Longrightarrow> Underlying env t = TBasic k n \<Longrightarrow> ref_size env M t v = ref_basic_size k [] v"
  by (simp add: ref_size.simps [of env M t])

lemma ref_size_unnamed: "\<not> named_struct env t \<Longrightarrow> ref_size env M (unnamed env t) v = ref_size env M t v"
  by (cases t) (simp_all add: ref_size.simps [of env M _ v] unnamed_def Underlying_def named_struct_def)

lemma value_size_adds:
  assumes "kinds_named env"
  shows "size_step env (emitValueSize fuel env)"
proof (induction fuel)
  case (Suc fuel)
  show ?case
    unfolding size_step_def
  proof (intro allI impI)
    fix M acc x t d e code e' \<rho> v
    assume emit: "emitValueSize (Suc fuel) env acc x t d e = Some (Inr (code, e'))"
      and clear: "clear_at d x acc" and x: "eval \<rho> x = Some v" and ty: "has_ty env t v"
    show "adds M code \<rho> acc (ref_size env M t v)"
    proof (cases "named_struct env t")
      case True
      then have "code = [SAdd acc (ZDelim (ZSizeOf x))]"
        using emit by (auto simp: named_struct_def split: go_ty.splits)
      then show ?thesis
        using True ty eval_recv_struct [OF x] by (auto simp: has_ty_struct ref_size.simps [of env M t] intro!: adds_one)
    next
      case ns: False
      show ?thesis
      proof (cases t)
        case (Named i as)
        show ?thesis
        proof (cases "slice_alias env t")
          case None
          then obtain y e1 where y: "under_expr env t x e = Some (Inr (y, e1))"
            "emitValueSize fuel env acc y (unnamed env t) d e1 = Some (Inr (code, e'))"
            using emit ns Named by (auto simp: named_struct_def)
          have "eval \<rho> y = Some v" "xvars y = xvars x" using under_expr_eval [OF y(1) assms ty ns x] by auto
          then have "adds M code \<rho> acc (ref_size env M (unnamed env t) v)"
            using size_stepD [OF Suc y(2), of \<rho> v M] clear ty ns by (simp add: clear_at_def has_ty_unnamed)
          then show ?thesis by (simp add: ref_size_unnamed ns)
        next
          case (Some nu)
          then obtain u where u: "Underlying env t = TSlice u" "\<not> isBasicByte u" "snd nu = u"
            using Named by (auto simp: slice_alias_def Underlying_def split: go_lit.splits if_splits)
          then obtain vs where vs: "v = VSlice vs" "\<forall>w\<in>set vs. has_ty env u w"
            using has_ty_slice [OF ns u(1) ty] by auto
          have "emitSliceSize env (emitValueSize fuel env) acc x u d e = Some (Inr (code, e'))"
            using emit ns Named Some u(3) by (auto simp: named_struct_def split: prod.splits)
          then show ?thesis
            using slice_size_adds [OF _ Suc clear, of u e code e' \<rho> vs M] x vs ns u by (simp add: ref_size_slice)
        qed
      next
        case (Lit l)
        have under: "Underlying env t = l" using Lit by (simp add: Underlying_def)
        show ?thesis
        proof (cases l)
          case (TBasic k name)
          then show ?thesis
            using emit Lit ty x basic_adds [of acc x k name "[]" e code e' v \<rho> M] ref_size_basic [OF ns, of k name] under
            by (simp add: has_ty_basic)
        next
          case (TSlice u)
          then show ?thesis
            using emit Lit x ns under has_ty_slice [OF ns _ ty, of u] slice_size_adds [OF _ Suc clear, of u e code e' \<rho> _ M]
            by (auto simp: ref_size_slice intro!: adds_one split: if_splits)
        next
          case (TMap k u)
          then show ?thesis
            using emit Lit x ns under has_ty_map [OF ns _ ty, of k u]
              map_size_adds [OF _ Suc assms clear, of k u e code e' \<rho> _ M]
            by (auto simp: ref_size_map)
        qed (use emit Lit in auto)
      qed (use emit in auto)
    qed
  qed
qed (simp add: size_step_def)

end
