(* ===== verification/Gen_Write.thy ===== *)
theory Gen_Write
  imports Gen_Size
begin

text \<open>
  The write statements the generator emits for a value write the reference encoding of the value, in the
  analytic form with its size pass and in the form that records the length of a region alike.
\<close>

section \<open>Bytes written\<close>

text \<open>A run that ends in the given variables with the bytes of the given items, or with their failure.\<close>

definition wrote :: "genv \<Rightarrow> run \<Rightarrow> item list outcome \<Rightarrow> bool" where
  "wrote \<rho> r w \<longleftrightarrow>
     map_outcome (\<lambda>(\<rho>', ys). (\<rho>', enc_items ys)) r = map_outcome (\<lambda>xs. (\<rho>, enc_items xs)) w"

lemma wrote_Ret: "wrote \<rho> (Ret (\<rho>', ys)) (Ret xs) \<longleftrightarrow> \<rho>' = \<rho> \<and> enc_items ys = enc_items xs"
  by (auto simp: wrote_def)

lemma wrote_cases:
  assumes "wrote \<rho> r w"
  obtains ys xs where "r = Ret (\<rho>, ys)" "w = Ret xs" "enc_items ys = enc_items xs"
  | e where "r = Fail e" "w = Fail e"
  | "r = Panic" "w = Panic"
  using assms by (cases r; cases w) (auto simp: wrote_def)

lemma wrote_fail [simp]: "wrote \<rho> (Fail e) (Fail e)" "wrote \<rho> Panic Panic"
  by (simp_all add: wrote_def)

lemma pair_outcome_simps [simp]:
  "pair_outcome (Ret xs) w = map_outcome ((@) xs) w" "pair_outcome (Fail e) w = Fail e" "pair_outcome Panic w = Panic"
  by (cases w; simp add: pair_outcome_def)+

lemma wrote_then:
  assumes "wrote \<rho>1 r a" and "wrote \<rho>2 (f \<rho>1) b"
  shows "wrote \<rho>2 (then_run r f) (pair_outcome a b)"
  using assms(1)
proof (cases rule: wrote_cases)
  case (1 ys xs)
  show ?thesis using assms(2) by (cases rule: wrote_cases) (use 1 in \<open>auto simp: then_run_def wrote_def\<close>)
qed (simp_all add: then_run_def)

lemma wrote_append:
  "wrote \<rho>1 (execs M a \<rho>) v \<Longrightarrow> wrote \<rho>2 (execs M b \<rho>1) w \<Longrightarrow> wrote \<rho>2 (execs M (a @ b) \<rho>) (pair_outcome v w)"
  by (simp add: execs_append wrote_then)

lemma wrote_one: "wrote \<rho>' (execs M [s] \<rho>) w \<longleftrightarrow> wrote \<rho>' (exec M s \<rho>) w"
  by (cases "exec M s \<rho>") (auto simp: then_run_def wrote_def)

lemma wrote_prim:
  "call_prim M \<rho> c = Some p \<Longrightarrow> prim_err p = None \<Longrightarrow> wrote \<rho> (exec M (SWrite c) \<rho>) (Ret [Item p])"
  by (simp add: wrote_Ret)

lemma wrote_write:
  assumes "call_prim M \<rho> c = Some p" and "prim_err p = None" and "wrote \<rho>' (execs M code \<rho>) w"
  shows "wrote \<rho>' (execs M (SWrite c # code) \<rho>) (map_outcome ((#) (Item p)) w)"
  using assms(3) by (cases rule: wrote_cases) (use assms(1,2) in \<open>simp_all add: then_run_def wrote_Ret\<close>)

lemma wrote_leave:
  assumes "wrote (vs @ \<rho>) r w" and "n = length \<rho>"
  shows "wrote \<rho> (leave n r) w"
  using assms(1) by (cases rule: wrote_cases) (simp_all add: assms(2) wrote_Ret)

lemma wrote_block: "wrote (vs @ \<rho>) (execs M b \<rho>) w \<Longrightarrow> wrote \<rho> (execs M [SBlock b] \<rho>) w"
  by (simp only: wrote_one exec.simps) (rule wrote_leave, simp_all)

definition group :: "item list outcome \<Rightarrow> item list outcome" where
  "group w = map_outcome (\<lambda>xs. [Group xs]) w"

lemma wrote_region: "wrote \<rho>' (execs M b \<rho>) w \<Longrightarrow> wrote \<rho>' (exec M (SRegion m b) \<rho>) (group w)"
  by (erule wrote_cases) (simp_all add: group_def wrote_Ret)

text \<open>The length in front, computed instead of recorded.\<close>

lemma wrote_length:
  assumes "wrote \<rho>' (execs M code \<rho>) w" and "eval_size M \<rho> z = Some n"
    and "\<And>xs. w = Ret xs \<Longrightarrow> n = len (enc_items xs)"
  shows "wrote \<rho>' (execs M (SWrite (WLength z) # code) \<rho>) (group w)"
  using assms(1)
proof (cases rule: wrote_cases)
  case (1 ys xs)
  then show ?thesis using assms(2,3) by (simp add: prim_err_def then_run_def group_def wrote_def)
qed (use assms(2) in \<open>simp_all add: prim_err_def then_run_def group_def\<close>)

lemma rounds_wrote:
  "(\<And>a. a \<in> set as \<Longrightarrow> wrote \<rho> (leave (length \<rho>) (f (g a @ \<rho>))) (r a)) \<Longrightarrow>
   wrote \<rho> (rounds f (map g as) \<rho>) (map_outcome concat (all_outcome (map r as)))"
proof (induction as)
  case (Cons a as)
  have "map_outcome concat (case r a of Ret x \<Rightarrow> map_outcome ((#) x) q | Fail e \<Rightarrow> Fail e | Panic \<Rightarrow> Panic) =
      pair_outcome (r a) (map_outcome concat q)" for q
    by (cases "r a"; cases q) simp_all
  then have "map_outcome concat (all_outcome (map r (a # as))) =
      pair_outcome (r a) (map_outcome concat (all_outcome (map r as)))" by simp
  then show ?case using Cons by (auto intro: wrote_then)
qed (simp add: wrote_Ret)

section \<open>Primitive values\<close>

lemma compat_shape:
  "WireOverrideCompat (Some (n, Some k)) ov = Inr (bits, sgnd) \<Longrightarrow>
   basicIntShape k = Some (goKindBits k, sgnd) \<and> 8 \<le> bits \<and> bits \<le> 64 \<and> goKindBits k \<le> 64"
  by (cases k)
    (auto simp: WireOverrideCompat_def basicIntShape_def goKindBits_def parseOverrideWidth_def Let_def
      platform_sized_def split: if_splits option.splits)

lemma int_word:
  "- (2 ^ 63) \<le> i \<Longrightarrow> i < 2 ^ 63 \<Longrightarrow> sint (word_of_int i :: u64) = i"
  "0 \<le> i \<Longrightarrow> i < 2 ^ 64 \<Longrightarrow> uint (word_of_int i :: u64) = i"
  by (simp_all add: sint_sbintrunc' signed_take_bit_int_eq_self uint_word_of_int)

lemma kind_range:
  assumes "basicIntShape k = Some (b, sgnd)" and "int_range k = Some (lo, hi)" and "lo \<le> i" and "i \<le> hi"
    and "b \<le> 64" and "1 \<le> b"
  shows "if sgnd then - (2 ^ (b - 1)) \<le> i \<and> i \<le> 2 ^ (b - 1) - 1 \<and> sint (word_of_int i :: u64) = i
    else 0 \<le> i \<and> i \<le> 2 ^ b - 1 \<and> uint (word_of_int i :: u64) = i"
proof -
  have "(2::int) ^ (b - 1) \<le> 2 ^ 63" "(2::int) ^ b \<le> 2 ^ 64"
    using assms(5) by (intro power_increasing; simp)+
  then show ?thesis using assms(1-4) int_word [of i] by (auto simp: int_range_def)
qed

lemma int_wrote:
  assumes "emitIntEncode x k ov e = Some (Inr (code, e'))" and "eval \<rho> x = Some (VInt i)"
    and "int_range k = Some (lo, hi)" and "lo \<le> i" and "i \<le> hi"
  shows "wrote \<rho> (execs M code \<rho>) (ref_basic k ov (VInt i))"
proof -
  obtain bits sgnd where w: "WireOverrideCompat (Some (kind_name k, Some k)) ov = Inr (bits, sgnd)"
    using assms(1) by (auto simp: emitIntEncode_def split: sum.splits)
  note shape = compat_shape [OF w]
  have "1 \<le> goKindBits k" using shape by (auto simp: basicIntShape_def goKindBits_def split: basic_kind.splits)
  then have rng: "if sgnd then - (2 ^ (goKindBits k - 1)) \<le> i \<and> i \<le> 2 ^ (goKindBits k - 1) - 1 \<and>
        sint (word_of_int i :: u64) = i
      else 0 \<le> i \<and> i \<le> 2 ^ goKindBits k - 1 \<and> uint (word_of_int i :: u64) = i"
    using kind_range [OF _ assms(3-5)] shape by blast
  have word: "eval_word \<rho> x = Some (word_of_int i)" using assms(2) by (simp add: eval_word_def)
  let ?stmt = "SWrite (if sgnd then WVarint x else WUvarint x)"
  let ?ok = "if sgnd then - (2 ^ (bits - 1)) \<le> i \<and> i \<le> 2 ^ (bits - 1) - 1 else i \<le> 2 ^ bits - 1"
  have ref: "ref_basic k ov (VInt i) = (if ?ok
      then Ret [Item (if sgnd then PVarint (word_of_int i) else PUvarint (word_of_int i))] else Fail ErrIntegerOverflow)"
    using w by (simp add: ref_basic_def)
  have wr: "exec M ?stmt \<rho> = Ret (\<rho>, [Item (if sgnd then PVarint (word_of_int i) else PUvarint (word_of_int i))])"
    using word by (simp add: prim_err_def)
  have fin: "then_run (exec M ?stmt \<rho>) (execs M []) =
      Ret (\<rho>, [Item (if sgnd then PVarint (word_of_int i) else PUvarint (word_of_int i))])"
    unfolding wr by (simp add: then_run_def)
  have in_range: "in_range sgnd bits (word_of_int i) \<longleftrightarrow> ?ok" using rng by (auto simp: in_range_def)
  show ?thesis
  proof (cases "bits < goKindBits k")
    case True
    then have "code = [SRange sgnd bits x, ?stmt]"
      using assms(1) w by (auto simp: emitIntEncode_def Let_def)
    then have "execs M code \<rho> = (if ?ok then then_run (exec M ?stmt \<rho>) (execs M []) else Fail ErrIntegerOverflow)"
      unfolding in_range [symmetric] using word by (simp del: exec.simps(2)) (simp add: then_run_def)
    then show ?thesis unfolding fin ref by (simp add: wrote_Ret)
  next
    case False
    then have "(2::int) ^ goKindBits k \<le> 2 ^ bits" "(2::int) ^ (goKindBits k - 1) \<le> 2 ^ (bits - 1)"
      by (intro power_increasing; simp)+
    then have "?ok" using rng by (cases sgnd; simp only: if_True if_False; linarith)
    moreover have "code = [?stmt]" using False assms(1) w by (auto simp: emitIntEncode_def Let_def)
    ultimately show ?thesis using fin unfolding ref if_P [OF \<open>?ok\<close>] by (simp only: execs.simps wrote_Ret simp_thms)
  qed
qed

lemma basic_wrote:
  assumes "emitPrimitiveEncode x (Lit (TBasic k name)) ov e = Some (Inr (code, e'))" and "kind_ok k v"
    and "eval \<rho> x = Some v"
  shows "wrote \<rho> (execs M code \<rho>) (ref_basic k ov v)"
  using assms(2)
proof (cases rule: kind_ok_cases)
  case (5 i lo hi)
  then have "emitIntEncode x k ov e = Some (Inr (code, e'))"
    using assms(1) by (auto simp: emitPrimitiveEncode_def is_int_kind_def split: if_splits)
  then show ?thesis using int_wrote [OF _ _ 5(3-5)] assms(3) 5(2) by simp
qed (use assms(1,3) in \<open>auto simp: emitPrimitiveEncode_def ref_basic_def is_int_kind_def prim_err_def wrote_Ret then_run_def\<close>)

section \<open>Composite values\<close>

lemma map_outcome_twice: "map_outcome f (map_outcome g w) = map_outcome (\<lambda>x. f (g x)) w"
  by (cases w) simp_all

definition counted_ref :: "'a list \<Rightarrow> item list outcome list \<Rightarrow> item list outcome" where
  "counted_ref ys rs = map_outcome (\<lambda>xss. [Group (count_item ys # concat xss)]) (all_outcome rs)"

definition body_ref :: "'a list \<Rightarrow> item list outcome list \<Rightarrow> item list outcome" where
  "body_ref ys rs = map_outcome (\<lambda>xss. count_item ys # concat xss) (all_outcome rs)"

lemma group_body: "group (body_ref ys rs) = counted_ref ys rs"
  by (simp add: group_def body_ref_def counted_ref_def map_outcome_twice)

lemma count_wrote:
  assumes "Option.bind (eval \<rho> x) len_of = Some (len ys)"
    and "wrote \<rho>' (execs M code \<rho>) (map_outcome concat (all_outcome rs))"
  shows "wrote \<rho>' (execs M (SWrite (WCount x) # code) \<rho>) (body_ref ys rs)"
proof -
  have "call_prim M \<rho> (WCount x) = Some (PUvarint (go_uint64 (len ys)))"
    using assms(1) by (cases "eval \<rho> x") auto
  then have "wrote \<rho>' (execs M (SWrite (WCount x) # code) \<rho>)
      (map_outcome ((#) (count_item ys)) (map_outcome concat (all_outcome rs)))"
    unfolding count_item_def by (rule wrote_write [OF _ _ assms(2)]) (simp add: prim_err_def)
  then show ?thesis by (simp add: body_ref_def map_outcome_twice)
qed

text \<open>The two forms of a composite: the length recorded by a region, and the length added up before.\<close>

lemma recorded_form:
  assumes "Option.bind (eval \<rho> x) len_of = Some (len ys)"
    and "wrote (vs @ \<rho>) (exec M loop \<rho>) (map_outcome concat (all_outcome rs))"
  shows "wrote \<rho> (execs M [SBlock [SRegion m [SWrite (WCount x), loop]]] \<rho>) (counted_ref ys rs)"
  unfolding group_body [symmetric]
  by (rule wrote_block, unfold wrote_one, rule wrote_region, rule count_wrote [OF assms(1)])
    (use assms(2) in \<open>simp only: wrote_one\<close>)

lemma analytic_form:
  assumes x: "Option.bind (eval \<rho> x) len_of = Some (len ys)" and y: "y \<notin> xvars x"
    and sizes: "exec M sizeLoop ((y, VInt (count_size ys)) # \<rho>) = Ret ((y, VInt (count_size ys + n)) # \<rho>, [])"
    and writes: "\<And>s. wrote (vs @ (y, VInt s) # \<rho>) (exec M loop ((y, VInt s) # \<rho>)) (map_outcome concat (all_outcome rs))"
    and n: "\<And>xss. rs = map Ret xss \<Longrightarrow> n = len (concat (map enc_items xss))"
  shows "wrote \<rho> (execs M [SBlock [SDefine y (ZCount x), sizeLoop, SWrite (WLength (ZVar y)),
    SWrite (WCount x), loop]] \<rho>) (counted_ref ys rs)"
proof -
  let ?\<rho> = "(y, VInt (count_size ys + n)) # \<rho>"
  have count: "eval_size M \<rho> (ZCount x) = Some (count_size ys)"
    using x by (cases "eval \<rho> x") (auto simp: count_size_def)
  have "Option.bind (eval ?\<rho> x) len_of = Some (len ys)" using x y by (simp add: eval_skip)
  then have "wrote (vs @ ?\<rho>) (execs M [SWrite (WCount x), loop] ?\<rho>) (body_ref ys rs)"
    by (rule count_wrote) (use writes in \<open>simp only: wrote_one\<close>)
  then have "wrote (vs @ ?\<rho>) (execs M (SWrite (WLength (ZVar y)) # [SWrite (WCount x), loop]) ?\<rho>)
      (group (body_ref ys rs))"
  proof (rule wrote_length)
    show "eval_size M ?\<rho> (ZVar y) = Some (count_size ys + n)" by simp
    fix xs assume "body_ref ys rs = Ret xs"
    then obtain xss where "rs = map Ret xss" "xs = count_item ys # concat xss" by (auto simp: body_ref_def)
    then show "count_size ys + n = len (enc_items xs)" using n by (simp add: count_size_item enc_items_concat)
  qed
  then have "wrote ((vs @ [(y, VInt (count_size ys + n))]) @ \<rho>) (execs M [SDefine y (ZCount x), sizeLoop,
      SWrite (WLength (ZVar y)), SWrite (WCount x), loop] \<rho>) (counted_ref ys rs)"
    using count sizes by (simp add: group_body del: eval_size.simps exec.simps(2))
  then show ?thesis by (rule wrote_block)
qed

lemma slice_write_loop:
  assumes "eval \<rho> x = Some (VSlice vs)"
    and "\<And>k. k < length vs \<Longrightarrow>
      wrote ((idx, VInt (int k)) # \<rho>) (execs M inner ((idx, VInt (int k)) # \<rho>)) (r (vs ! k))"
  shows "wrote \<rho> (exec M (SFor idx x inner) \<rho>) (map_outcome concat (all_outcome (map r vs)))"
proof -
  have "wrote \<rho> (rounds (execs M inner) (map (\<lambda>k. [(idx, VInt (int k))]) [0..<length vs]) \<rho>)
      (map_outcome concat (all_outcome (map (\<lambda>k. r (vs ! k)) [0..<length vs])))"
    by (rule rounds_wrote, rule wrote_leave [where vs = "[(idx, VInt (int k))]" for k]) (use assms(2) in simp_all)
  moreover have "map (\<lambda>k. r (vs ! k)) [0..<length vs] = map r vs" by (rule nth_equalityI) simp_all
  ultimately show ?thesis using assms(1) by simp
qed

section \<open>Elements\<close>

definition encode_step :: "methods \<Rightarrow> go_env \<Rightarrow> value_emitter \<Rightarrow> bool" where
  "encode_step M env emit \<longleftrightarrow>
     (\<forall>x t d e code e' \<rho> v. emit x t d e = Some (Inr (code, e')) \<longrightarrow> \<not> pointer_struct env t \<and>
        (xvars x \<inter> local_names d = {} \<longrightarrow> eval \<rho> x = Some v \<longrightarrow> has_ty env t v \<longrightarrow>
          wrote \<rho> (execs M code \<rho>) (ref_value env M t v)))"

lemma encode_stepD:
  "encode_step M env emit \<Longrightarrow> emit x t d e = Some (Inr (code, e')) \<Longrightarrow> xvars x \<inter> local_names d = {} \<Longrightarrow>
   eval \<rho> x = Some v \<Longrightarrow> has_ty env t v \<Longrightarrow> wrote \<rho> (execs M code \<rho>) (ref_value env M t v)"
  unfolding encode_step_def by blast

lemma encode_step_pointer:
  "encode_step M env emit \<Longrightarrow> emit x t d e = Some (Inr (code, e')) \<Longrightarrow> \<not> pointer_struct env t"
  unfolding encode_step_def by blast

definition elem_ref :: "go_env \<Rightarrow> methods \<Rightarrow> go_ty \<Rightarrow> gval \<Rightarrow> item list outcome" where
  "elem_ref env M u w = (if pointer_struct env u then ref_pointer M w else ref_value env M u w)"

lemma elem_sized: "sized_methods M \<Longrightarrow> elem_ref env M u w = Ret xs \<Longrightarrow> elem_size env M u w = len (enc_items xs)"
  by (auto simp: elem_ref_def elem_size_def ref_pointer_sized ref_value_sized split: if_splits)

lemma marshal_wrote: "eval_recv \<rho> x = Some v \<Longrightarrow> wrote \<rho> (execs M [SMarshal x] \<rho>) (me_Marshal M v)"
  unfolding wrote_one by (cases "me_Marshal M v") (simp_all add: emits_def wrote_Ret)

lemma group_eq: "map_outcome (\<lambda>xs. [Group (f xs)]) w = group (map_outcome f w)"
  by (simp add: group_def map_outcome_twice)

text \<open>A struct in an envelope, and a pointer to one.\<close>

lemma struct_forms:
  assumes "eval_recv \<rho> x = Some v"
  shows "wrote \<rho> (execs M [SRegion m [SMarshal x]] \<rho>) (group (me_Marshal M v))"
    and "sized_methods M \<Longrightarrow> wrote \<rho> (execs M [SWrite (WLength (ZSizeOf x)), SMarshal x] \<rho>) (group (me_Marshal M v))"
proof -
  show "wrote \<rho> (execs M [SRegion m [SMarshal x]] \<rho>) (group (me_Marshal M v))"
    unfolding wrote_one by (rule wrote_region [OF marshal_wrote [OF assms]])
  assume "sized_methods M"
  then show "wrote \<rho> (execs M [SWrite (WLength (ZSizeOf x)), SMarshal x] \<rho>) (group (me_Marshal M v))"
    by (intro wrote_length [OF marshal_wrote [OF assms]]) (auto simp: assms sized_methods_def)
qed

lemma presence_wrote:
  assumes "eval_recv \<rho> x = Some v"
  shows "wrote \<rho> (execs M [SWrite WNonZero, SMarshal x] \<rho>) (map_outcome ((#) (Item PPresenceNonZero)) (me_Marshal M v))"
  by (rule wrote_write [OF _ _ marshal_wrote [OF assms]]) (simp_all add: prim_err_def)

lemma ifnil_wrote:
  assumes "eval \<rho> x = Some v" and "v = VNil \<Longrightarrow> wrote \<rho> (execs M a \<rho>) w"
    and "v \<noteq> VNil \<Longrightarrow> wrote \<rho> (execs M b \<rho>) w"
  shows "wrote \<rho> (execs M [SIfNil x a b] \<rho>) w"
proof (cases "v = VNil")
  case True
  then have "wrote \<rho> (leave (length \<rho>) (execs M a \<rho>)) w" using assms(2) by (intro wrote_leave [of "[]"]) simp_all
  then show ?thesis using assms(1) True by (simp add: wrote_one del: execs.simps)
next
  case False
  then have "wrote \<rho> (leave (length \<rho>) (execs M b \<rho>)) w" using assms(3) by (intro wrote_leave [of "[]"]) simp_all
  then show ?thesis using assms(1) False by (simp add: wrote_one del: execs.simps)
qed

lemma pointer_forms:
  assumes x: "eval \<rho> x = Some v" and v: "v = VNil \<or> (\<exists>w. v = VPtr w \<and> is_struct_value w)"
  shows "wrote \<rho> (execs M [SRegion m [SIfNil x [SWrite WNil] [SWrite WNonZero, SMarshal x]]] \<rho>) (ref_pointer M v)"
    and "sized_methods M \<Longrightarrow> wrote \<rho> (execs M [SIfNil x [SWrite (WLength (ZNum 1)), SWrite WNil]
      [SWrite (WLength (ZPlus (ZNum 1) (ZSizeOf x))), SWrite WNonZero, SMarshal x]] \<rho>) (ref_pointer M v)"
proof -
  let ?w = "if v = VNil then Ret [Item PPresenceNil]
    else map_outcome ((#) (Item PPresenceNonZero)) (me_Marshal M (case v of VPtr w \<Rightarrow> w | _ \<Rightarrow> v))"
  have ref: "ref_pointer M v = group ?w" using v by (auto simp: ref_pointer_def group_def map_outcome_twice)
  have nil: "wrote \<rho> (execs M [SWrite WNil] \<rho>) (Ret [Item PPresenceNil])"
    by (simp add: prim_err_def wrote_Ret wrote_one del: execs.simps)
  have recv: "eval_recv \<rho> x = Some (case v of VPtr w \<Rightarrow> w | _ \<Rightarrow> v)" if "v \<noteq> VNil"
    using x v that by (auto simp: eval_recv_def)
  have "wrote \<rho> (execs M [SIfNil x [SWrite WNil] [SWrite WNonZero, SMarshal x]] \<rho>) ?w"
    by (rule ifnil_wrote [OF x]) (use nil presence_wrote [OF recv] in \<open>simp_all del: execs.simps\<close>)
  then show "wrote \<rho> (execs M [SRegion m [SIfNil x [SWrite WNil] [SWrite WNonZero, SMarshal x]]] \<rho>) (ref_pointer M v)"
    unfolding wrote_one [of _ M "SRegion m b" for m b] ref by (rule wrote_region)
  assume sized: "sized_methods M"
  show "wrote \<rho> (execs M [SIfNil x [SWrite (WLength (ZNum 1)), SWrite WNil]
      [SWrite (WLength (ZPlus (ZNum 1) (ZSizeOf x))), SWrite WNonZero, SMarshal x]] \<rho>) (ref_pointer M v)"
    unfolding ref
  proof (rule ifnil_wrote [OF x])
    assume "v = VNil"
    then show "wrote \<rho> (execs M [SWrite (WLength (ZNum 1)), SWrite WNil] \<rho>) (group ?w)"
      by (simp only: if_True simp_thms) (rule wrote_length [OF nil], auto)
  next
    assume nn: "v \<noteq> VNil"
    show "wrote \<rho> (execs M [SWrite (WLength (ZPlus (ZNum 1) (ZSizeOf x))), SWrite WNonZero, SMarshal x] \<rho>) (group ?w)"
      unfolding if_not_P [OF nn]
      by (rule wrote_length [OF presence_wrote [OF recv [OF nn]]])
        (use sized recv [OF nn] in \<open>auto simp: sized_methods_def\<close>)
  qed
qed

section \<open>Slices\<close>

lemma ref_value_struct: "named_struct env t \<Longrightarrow> ref_value env M t v = group (me_Marshal M v)"
  by (simp add: ref_value.simps [of env M t] group_def)

text \<open>The write code of one element.\<close>

definition slice_write_inner ::
  "go_env \<Rightarrow> value_emitter \<Rightarrow> nat \<Rightarrow> gx \<Rightarrow> go_ty \<Rightarrow> emitter \<Rightarrow> gs list \<Rightarrow> emitter \<Rightarrow> bool"
where
  "slice_write_inner env emit d x u e inner e' \<longleftrightarrow>
     (let elem = XIdx x (XVar (nm_local ''i'' d)) in
      pointer_struct env u \<and>
        (inner = [SRegion (nm_local ''mElem'' d) [SIfNil elem [SWrite WNil] [SWrite WNonZero, SMarshal elem]]] \<or>
         inner = [SIfNil elem [SWrite (WLength (ZNum 1)), SWrite WNil]
           [SWrite (WLength (ZPlus (ZNum 1) (ZSizeOf elem))), SWrite WNonZero, SMarshal elem]]) \<or>
      \<not> pointer_struct env u \<and> named_struct env u \<and>
        (inner = [SRegion (nm_local ''mElem'' d) [SMarshal elem]] \<or>
         inner = [SWrite (WLength (ZSizeOf elem)), SMarshal elem]) \<or>
      emit elem u (Suc d) e = Some (Inr (inner, e')))"

lemma slice_write_inner_wrote:
  assumes "slice_write_inner env emit d x u e inner e'" and emit: "encode_step M env emit"
    and sized: "sized_methods M" and clear: "xvars x \<inter> local_names d = {}"
    and w: "eval \<rho> (XIdx x (XVar (nm_local ''i'' d))) = Some w" and ty: "has_ty env u w"
  shows "wrote \<rho> (execs M inner \<rho>) (elem_ref env M u w)"
proof -
  let ?elem = "XIdx x (XVar (nm_local ''i'' d))"
  consider (ptr) "pointer_struct env u"
      "inner = [SRegion (nm_local ''mElem'' d) [SIfNil ?elem [SWrite WNil] [SWrite WNonZero, SMarshal ?elem]]] \<or>
       inner = [SIfNil ?elem [SWrite (WLength (ZNum 1)), SWrite WNil]
         [SWrite (WLength (ZPlus (ZNum 1) (ZSizeOf ?elem))), SWrite WNonZero, SMarshal ?elem]]"
    | (str) "\<not> pointer_struct env u" "named_struct env u"
      "inner = [SRegion (nm_local ''mElem'' d) [SMarshal ?elem]] \<or>
       inner = [SWrite (WLength (ZSizeOf ?elem)), SMarshal ?elem]"
    | (other) "emit ?elem u (Suc d) e = Some (Inr (inner, e'))"
    using assms(1) unfolding slice_write_inner_def Let_def by blast
  then show ?thesis
  proof cases
    case ptr
    then show ?thesis
      using pointer_forms [OF w] ty sized by (auto simp: has_ty_pointer elem_ref_def simp del: execs.simps exec.simps)
  next
    case str
    then show ?thesis
      using struct_forms [OF eval_recv_struct [OF w]] ty sized
      by (auto simp: has_ty_struct elem_ref_def ref_value_struct simp del: execs.simps exec.simps)
  next
    case other
    have "xvars ?elem \<inter> local_names (Suc d) = {}"
      using clear local_names_Suc [of d] local_names_out [of d] by auto
    then show ?thesis
      using encode_stepD [OF emit other _ w ty] encode_step_pointer [OF emit other] by (simp add: elem_ref_def)
  qed
qed

lemma emitSliceEncode_forms:
  assumes "emitSliceEncode env emitSizeOf emit x u d e = Some (Inr (code, e'))"
  shows "(\<exists>e1 inner. slice_write_inner env emit d x u e1 inner e' \<and>
      code = [SBlock [SRegion (nm_local ''mOuter'' d) [SWrite (WCount x), SFor (nm_local ''i'' d) x inner]]]) \<or>
    (\<exists>e1 sz e2 inner. slice_inner env emitSizeOf d x u e1 sz e2 \<and> slice_write_inner env emit d x u e2 inner e' \<and>
      code = analytic_slice (nm_local ''body'' (Suc d)) (nm_local ''i'' d) x sz inner)"
proof -
  let ?elem = "XIdx x (XVar (nm_local ''i'' d))"
  let ?goal = "\<lambda>e. (\<exists>e1 inner. slice_write_inner env emit d x u e1 inner e' \<and>
      code = [SBlock [SRegion (nm_local ''mOuter'' d) [SWrite (WCount x), SFor (nm_local ''i'' d) x inner]]]) \<or>
    (\<exists>e1 sz e2 inner. slice_inner env emitSizeOf d x u e1 sz e2 \<and> slice_write_inner env emit d x u e2 inner e' \<and>
      code = analytic_slice (nm_local ''body'' (Suc d)) (nm_local ''i'' d) x sz inner)"
  consider (comp) e1 inner where "emit ?elem u (Suc d) e1 = Some (Inr (inner, e'))"
      "code = [SBlock [SRegion (nm_local ''mOuter'' d) [SWrite (WCount x), SFor (nm_local ''i'' d) x inner]]]"
    | (pf) "pointer_struct env u" "code = emitSliceEncodePtrFallback x (nm_local ''i'' d) ?elem d"
    | (vf) "\<not> pointer_struct env u" "named_struct env u" "code = emitSliceEncodeValueFallback x (nm_local ''i'' d) ?elem d"
    | (pa) "pointer_struct env u" "code = analytic_slice (nm_local ''body'' (Suc d)) (nm_local ''i'' d) x
         [SDefine (nm_local ''eb'' (Suc d)) (ZNum 1), SGuard [?elem] [SAdd (nm_local ''eb'' (Suc d)) (ZSizeOf ?elem)],
          SAdd (nm_local ''body'' (Suc d)) (ZDelim (ZVar (nm_local ''eb'' (Suc d))))]
         [SIfNil ?elem [SWrite (WLength (ZNum 1)), SWrite WNil]
           [SWrite (WLength (ZPlus (ZNum 1) (ZSizeOf ?elem))), SWrite WNonZero, SMarshal ?elem]]"
    | (va) "\<not> pointer_struct env u" "named_struct env u"
        "code = analytic_slice (nm_local ''body'' (Suc d)) (nm_local ''i'' d) x
         [SAdd (nm_local ''body'' (Suc d)) (ZDelim (ZSizeOf ?elem))] [SWrite (WLength (ZSizeOf ?elem)), SMarshal ?elem]"
    | (oa) e1 sz e2 inner where "\<not> pointer_struct env u" "\<not> named_struct env u"
        "emitSizeOf (nm_local ''body'' (Suc d)) ?elem u (Suc d) e1 = Some (Inr (sz, e2))"
        "emit ?elem u (Suc d) e2 = Some (Inr (inner, e'))"
        "code = analytic_slice (nm_local ''body'' (Suc d)) (nm_local ''i'' d) x sz inner"
    using assms
    by (auto simp: emitSliceEncode_def emitSliceEncodeCompositeFallback_def Let_def split: if_splits)
  then show ?thesis
  proof cases
    case comp then show ?thesis by (auto simp: slice_write_inner_def Let_def)
  next
    case pf then show ?thesis by (intro disjI1) (simp add: slice_write_inner_def emitSliceEncodePtrFallback_def Let_def)
  next
    case vf then show ?thesis by (intro disjI1) (simp add: slice_write_inner_def emitSliceEncodeValueFallback_def Let_def)
  next
    case pa
    then show ?thesis by (intro disjI2 exI conjI) (auto simp: slice_inner_def slice_write_inner_def Let_def)
  next
    case va
    then show ?thesis by (intro disjI2 exI conjI) (auto simp: slice_inner_def slice_write_inner_def Let_def)
  next
    case oa
    then show ?thesis by (intro disjI2 exI conjI) (auto simp: slice_inner_def slice_write_inner_def Let_def)
  qed
qed

lemma slice_encode_wrote:
  assumes emitted: "emitSliceEncode env emitSizeOf emit x u d e = Some (Inr (code, e'))"
    and size: "size_step env emitSizeOf" and emit: "encode_step M env emit" and sized: "sized_methods M"
    and clear: "xvars x \<inter> local_names d = {}" and x: "eval \<rho> x = Some (VSlice vs)"
    and ty: "\<forall>w\<in>set vs. has_ty env u w"
  shows "wrote \<rho> (execs M code \<rho>) (counted_ref vs (map (elem_ref env M u) vs))"
proof -
  let ?y = "nm_local ''body'' (Suc d)" and ?i = "nm_local ''i'' d"
  have names: "?y \<notin> xvars x" "?i \<notin> xvars x" using clear local_names_in [of d] by auto
  have len: "Option.bind (eval \<rho> x) len_of = Some (len vs)" using x by simp
  have writes: "wrote \<rho>' (exec M (SFor ?i x inner) \<rho>') (map_outcome concat (all_outcome (map (elem_ref env M u) vs)))"
    if inner: "slice_write_inner env emit d x u e1 inner e'" and x': "eval \<rho>' x = Some (VSlice vs)" for \<rho>' e1 inner
  proof (rule slice_write_loop [OF x'])
    fix k assume k: "k < length vs"
    have "eval ((?i, VInt (int k)) # \<rho>') (XIdx x (XVar ?i)) = Some (vs ! k)"
      using x' k names by (simp add: eval_skip go_index_def)
    then show "wrote ((?i, VInt (int k)) # \<rho>') (execs M inner ((?i, VInt (int k)) # \<rho>')) (elem_ref env M u (vs ! k))"
      by (rule slice_write_inner_wrote [OF inner emit sized clear]) (use ty k in simp)
  qed
  from emitSliceEncode_forms [OF emitted] show ?thesis
  proof (elim disjE exE conjE)
    fix e1 inner assume inner: "slice_write_inner env emit d x u e1 inner e'"
      and code: "code = [SBlock [SRegion (nm_local ''mOuter'' d) [SWrite (WCount x), SFor ?i x inner]]]"
    show ?thesis unfolding code by (rule recorded_form [where vs = "[]", OF len]) (use writes [OF inner x] in simp)
  next
    fix e1 sz e2 inner assume sz: "slice_inner env emitSizeOf d x u e1 sz e2"
      and inner: "slice_write_inner env emit d x u e2 inner e'" and code: "code = analytic_slice ?y ?i x sz inner"
    show ?thesis unfolding code analytic_slice_def
    proof (rule analytic_form [where vs = "[]", OF len names(1)])
      show "exec M (SFor ?i x sz) ((?y, VInt (count_size vs)) # \<rho>) =
          Ret ((?y, VInt (count_size vs + sum_list (map (elem_size env M u) vs))) # \<rho>, [])"
        by (rule slice_loop [OF x names(1)]) (rule slice_inner_round [OF sz size clear x ty])
      show "wrote ([] @ (?y, VInt s) # \<rho>) (exec M (SFor ?i x inner) ((?y, VInt s) # \<rho>))
          (map_outcome concat (all_outcome (map (elem_ref env M u) vs)))" for s
        using writes [OF inner, of "(?y, VInt s) # \<rho>"] x names(1) by (simp add: eval_skip)
      show "sum_list (map (elem_size env M u) vs) = len (concat (map enc_items xss))"
        if "map (elem_ref env M u) vs = map Ret xss" for xss
        by (rule sum_sizes [OF _ that]) (simp add: elem_sized [OF sized])
    qed
  qed
qed

section \<open>Maps\<close>

definition entry_ref :: "go_env \<Rightarrow> methods \<Rightarrow> go_ty \<Rightarrow> go_ty \<Rightarrow> gval \<times> gval \<Rightarrow> item list outcome" where
  "entry_ref env M kt u m = pair_outcome (ref_value env M kt (fst m)) (ref_value env M u (snd m))"

lemma entry_sized: "sized_methods M \<Longrightarrow> entry_ref env M kt u m = Ret xs \<Longrightarrow> entry_size env M kt u m = len (enc_items xs)"
  by (auto simp: entry_ref_def entry_size_def pair_outcome_Ret ref_value_sized)

lemma ref_value_basic:
  "\<not> named_struct env t \<Longrightarrow> Underlying env t = TBasic k n \<Longrightarrow> ref_value env M t v = ref_basic k [] v"
  by (simp add: ref_value.simps [of env M t])

lemma sorted_loop_wrote:
  assumes loop: "emit_sorted_loop env emit K x kt u d e = Some (Inr (loop, e'))" and emit: "encode_step M env emit"
    and named: "kinds_named env" and key: "isPrimitiveKey env kt" and x: "eval \<rho> x = Some (VMap es)"
    and ty: "\<forall>m\<in>set es. has_ty env kt (fst m) \<and> has_ty env u (snd m)"
  shows "wrote ([(nm_local ''keys'' d, VSlice (map fst (sorted_entries es)))] @ \<rho>) (exec M loop \<rho>)
    (map_outcome concat (all_outcome (map (entry_ref env M kt u) (sorted_entries es))))"
proof -
  let ?k = "nm_local ''k'' d" and ?v = "nm_local ''vv'' d" and ?keys = "nm_local ''keys'' d"
  let ?\<rho> = "(?keys, VSlice (map fst (sorted_entries es))) # \<rho>"
  obtain k name where k: "unnamed env kt = Lit (TBasic k name)" "Underlying env kt = TBasic k name"
    "\<not> named_struct env kt" using key by (rule primitive_key)
  obtain srt ke e1 e2 kc e3 e4 vc where parts: "under_expr env kt (XVar ?k) e1 = Some (Inr (ke, e2))"
    "emitPrimitiveEncode ke (Lit (TBasic k name)) [] e2 = Some (Inr (kc, e3))"
    "emit (XVar ?v) u (Suc d) e3 = Some (Inr (vc, e4))" "loop = SForSorted ?keys K srt ?k ?v x (kc @ vc)"
    using loop k(1) by (auto simp: emit_sorted_loop_def Let_def)
  have round: "wrote ?\<rho> (leave (length ?\<rho>) (execs M (kc @ vc) ([(?v, snd m), (?k, fst m)] @ ?\<rho>))) (entry_ref env M kt u m)"
    if m: "m \<in> set (sorted_entries es)" for m
  proof (rule wrote_leave [OF _ refl])
    let ?r = "[(?v, snd m), (?k, fst m)] @ ?\<rho>"
    have tk: "has_ty env kt (fst m)" and tu: "has_ty env u (snd m)" using ty m by auto
    have "eval ?r ke = Some (fst m)" using under_expr_eval [OF parts(1) named tk k(3), of ?r] by simp
    moreover have "kind_ok k (fst m)" using tk k by (simp add: has_ty_unnamed has_ty_basic)
    ultimately have "wrote ?r (execs M kc ?r) (ref_value env M kt (fst m))"
      using basic_wrote [OF parts(2)] ref_value_basic [OF k(3,2)] by simp
    moreover have "wrote ?r (execs M vc ?r) (ref_value env M u (snd m))"
      by (rule encode_stepD [OF emit parts(3) _ _ tu]) (use local_names_out [of d] in simp_all)
    ultimately show "wrote ?r (execs M (kc @ vc) ?r) (entry_ref env M kt u m)"
      unfolding entry_ref_def by (rule wrote_append)
  qed
  have "wrote ?\<rho> (rounds (execs M (kc @ vc)) (map (\<lambda>m. [(?v, snd m), (?k, fst m)]) (sorted_entries es)) ?\<rho>)
      (map_outcome concat (all_outcome (map (entry_ref env M kt u) (sorted_entries es))))"
    by (rule rounds_wrote) (rule round)
  then show ?thesis using x unfolding parts(4) by (simp add: Let_def split_def)
qed

lemma map_encode_wrote:
  assumes emitted: "emitMapEncode env emitSizeOf emit x kt u d e = Some (Inr (code, e'))"
    and size: "size_step env emitSizeOf" and emit: "encode_step M env emit" and sized: "sized_methods M"
    and named: "kinds_named env" and clear: "xvars x \<inter> local_names d = {}" and x: "eval \<rho> x = Some (VMap es)"
    and ty: "\<forall>m\<in>set es. has_ty env kt (fst m) \<and> has_ty env u (snd m)"
  shows "wrote \<rho> (execs M code \<rho>) (counted_ref es (map (entry_ref env M kt u) (sorted_entries es)))"
proof -
  let ?y = "nm_local ''body'' (Suc d)" and ?v = "nm_local ''vv'' d"
  have key: "isPrimitiveKey env kt" using emitted by (auto simp: emitMapEncode_def split: if_splits)
  have y: "?y \<notin> xvars x" using clear local_names_in [of d] by auto
  have len: "Option.bind (eval \<rho> x) len_of = Some (len es)" using x by simp
  consider (fb) K e1 loop where "emit_sorted_loop env emit K x kt u d e1 = Some (Inr (loop, e'))"
      "code = [SBlock [SRegion (nm_local ''mOuter'' d) [SWrite (WCount x), loop]]]"
    | (an) e1 inner e2 K loop where "map_inner env emitSizeOf d kt u e1 inner e2"
      "emit_sorted_loop env emit K x kt u d e2 = Some (Inr (loop, e'))"
      "code = [SBlock [SDefine ?y (ZCount x), SForMap (size_key env kt d) ?v x inner,
         SWrite (WLength (ZVar ?y)), SWrite (WCount x), loop]]"
    using emitted key
    by (auto simp: emitMapEncode_def emitMapEncodeFallback_def map_inner_def size_key_def Let_def split: if_splits)
      metis+
  then show ?thesis
  proof cases
    case fb
    show ?thesis unfolding fb(2) by (rule recorded_form [OF len sorted_loop_wrote [OF fb(1) emit named key x ty]])
  next
    case an
    show ?thesis
      unfolding an(3)
    proof (rule analytic_form [OF len y])
      show "exec M (SForMap (size_key env kt d) ?v x inner) ((?y, VInt (count_size es)) # \<rho>) =
          Ret ((?y, VInt (count_size es + sum_list (map (entry_size env M kt u) es))) # \<rho>, [])"
        by (rule map_loop [OF x y]) (use map_inner_round [OF an(1) size named key] ty in simp)
      show "wrote ([(nm_local ''keys'' d, VSlice (map fst (sorted_entries es)))] @ (?y, VInt s) # \<rho>)
          (exec M loop ((?y, VInt s) # \<rho>))
          (map_outcome concat (all_outcome (map (entry_ref env M kt u) (sorted_entries es))))" for s
        by (rule sorted_loop_wrote [OF an(2) emit named key _ ty]) (use x y in \<open>simp add: eval_skip\<close>)
      fix xss assume xss: "map (entry_ref env M kt u) (sorted_entries es) = map Ret xss"
      have "sum_list (map (entry_size env M kt u) (sorted_entries es)) = len (concat (map enc_items xss))"
        by (rule sum_sizes [OF _ xss]) (simp add: entry_sized [OF sized])
      moreover have "sum_list (map (entry_size env M kt u) (sorted_entries es)) = sum_list (map (entry_size env M kt u) es)"
        using sum_mset_sum_list [of "map (entry_size env M kt u) (sorted_entries es)"]
          sum_mset_sum_list [of "map (entry_size env M kt u) es"] by simp
      ultimately show "sum_list (map (entry_size env M kt u) es) = len (concat (map enc_items xss))" by simp
    qed
  qed
qed

section \<open>Values\<close>

lemma ref_value_slice:
  "\<not> named_struct env t \<Longrightarrow> Underlying env t = TSlice u \<Longrightarrow>
   ref_value env M t (VSlice vs) = counted_ref vs (map (elem_ref env M u) vs)"
  "\<not> named_struct env t \<Longrightarrow> Underlying env t = TSlice u \<Longrightarrow> ref_value env M t (VBytes b) = Ret [Item (PBytes b)]"
  by (simp_all add: ref_value.simps [of env M t] elem_ref_def [abs_def] counted_ref_def)

lemma ref_value_map:
  "\<not> named_struct env t \<Longrightarrow> Underlying env t = TMap k u \<Longrightarrow>
   ref_value env M t (VMap es) = counted_ref es (map (entry_ref env M k u) (sorted_entries es))"
  by (simp add: ref_value.simps [of env M t] entry_ref_def [abs_def] counted_ref_def)

lemma ref_value_unnamed: "\<not> named_struct env t \<Longrightarrow> ref_value env M (unnamed env t) v = ref_value env M t v"
  by (cases t) (simp_all add: ref_value.simps [of env M _ v] unnamed_def Underlying_def named_struct_def)

lemma unnamed_not_pointer_struct: "is_named t \<Longrightarrow> \<not> pointer_struct env t"
  by (cases t) (simp_all add: is_named_def pointer_struct_def)

lemma value_encode_wrote:
  assumes named: "kinds_named env" and sized: "sized_methods M"
  shows "encode_step M env (emitValueEncode fuel env)"
proof (induction fuel)
  case (Suc fuel)
  note size = value_size_adds [OF named, of fuel]
  show ?case
    unfolding encode_step_def
  proof (intro allI impI conjI)
    fix x t d e code e' and \<rho> :: genv and v :: gval
    assume emit: "emitValueEncode (Suc fuel) env x t d e = Some (Inr (code, e'))"
    then show "\<not> pointer_struct env t" by (auto simp: pointer_struct_def split: go_ty.splits go_lit.splits)
    assume clear: "xvars x \<inter> local_names d = {}" and x: "eval \<rho> x = Some v" and ty: "has_ty env t v"
    show "wrote \<rho> (execs M code \<rho>) (ref_value env M t v)"
    proof (cases "named_struct env t")
      case True
      then have "code = [SBlock [SRegion ''m'' [SMarshal x]]] \<or> code = [SWrite (WLength (ZSizeOf x)), SMarshal x]"
        using emit by (auto simp: named_struct_def split: go_ty.splits if_splits)
      moreover have "eval_recv \<rho> x = Some v" using True ty eval_recv_struct [OF x] by (simp add: has_ty_struct)
      ultimately show ?thesis
        using struct_forms [of \<rho> x v M] sized wrote_block [of "[]" \<rho> M] True
        by (auto simp: ref_value_struct simp del: execs.simps exec.simps)
    next
      case ns: False
      show ?thesis
      proof (cases t)
        case (Named i as)
        show ?thesis
        proof (cases "slice_alias env t")
          case None
          then obtain y e1 where y: "under_expr env t x e = Some (Inr (y, e1))"
            "emitValueEncode fuel env y (unnamed env t) d e1 = Some (Inr (code, e'))"
            using emit ns Named by (auto simp: named_struct_def)
          have "eval \<rho> y = Some v" "xvars y = xvars x" using under_expr_eval [OF y(1) named ty ns x] by auto
          then have "wrote \<rho> (execs M code \<rho>) (ref_value env M (unnamed env t) v)"
            using encode_stepD [OF Suc y(2), of \<rho> v] clear ty ns by (simp add: has_ty_unnamed)
          then show ?thesis by (simp add: ref_value_unnamed ns)
        next
          case (Some nu)
          then obtain u where u: "Underlying env t = TSlice u" "\<not> isBasicByte u" "snd nu = u"
            using Named by (auto simp: slice_alias_def Underlying_def split: go_lit.splits if_splits)
          then obtain vs where vs: "v = VSlice vs" "\<forall>w\<in>set vs. has_ty env u w"
            using has_ty_slice [OF ns u(1) ty] by auto
          have "emitSliceEncode env (emitValueSize fuel env) (emitValueEncode fuel env) x u d e = Some (Inr (code, e'))"
            using emit ns Named Some u(3) by (auto simp: named_struct_def split: prod.splits)
          then show ?thesis
            using slice_encode_wrote [OF _ size Suc sized clear, of u e code e' \<rho> vs] x vs ns u
            by (simp add: ref_value_slice)
        qed
      next
        case (Lit l)
        have under: "Underlying env t = l" using Lit by (simp add: Underlying_def)
        show ?thesis
        proof (cases l)
          case (TBasic k name)
          then show ?thesis
            using emit Lit ty x basic_wrote [of x k name "[]" e code e' v \<rho> M] ref_value_basic [OF ns, of k name] under
            by (simp add: has_ty_basic)
        next
          case (TSlice u)
          show ?thesis
          proof (cases "isBasicByte u")
            case True
            then obtain b where b: "v = VBytes b" using has_ty_slice [OF ns _ ty, of u] under TSlice by auto
            have "wrote \<rho> (exec M (SWrite (WBytes x)) \<rho>) (Ret [Item (PBytes b)])"
              using x b by (simp add: prim_err_def wrote_Ret)
            then have "wrote \<rho> (execs M [SWrite (WBytes x)] \<rho>) (Ret [Item (PBytes b)])" by (simp only: wrote_one)
            then show ?thesis using emit Lit TSlice True b ns under by (simp add: ref_value_slice del: exec.simps execs.simps)
          next
            case False
            then show ?thesis
              using emit Lit TSlice x ns under has_ty_slice [OF ns _ ty, of u]
                slice_encode_wrote [OF _ size Suc sized clear, of u e code e' \<rho>]
              by (auto simp: ref_value_slice)
          qed
        next
          case (TMap k u)
          then show ?thesis
            using emit Lit x ns under has_ty_map [OF ns _ ty, of k u]
              map_encode_wrote [OF _ size Suc sized named clear, of k u e code e' \<rho>]
            by (auto simp: ref_value_map)
        qed (use emit Lit in auto)
      qed (use emit in auto)
    qed
  qed
qed (simp add: encode_step_def)

end
