(* ===== verification/Gen_Methods.thy ===== *)
theory Gen_Methods
  imports Gen_Encode
begin

text \<open>
  \<^verbatim>\<open>tools/gsbmcodegen/emit.go\<close>: optional fields, codec fields and \<^verbatim>\<open>id_ref\<close> fields, and the two methods
  \<^verbatim>\<open>SizeGSBM\<close> and \<^verbatim>\<open>MarshalGSBM\<close> of a struct.
\<close>

section \<open>Optional fields\<close>

definition emitOptionalEncode :: "nat \<Rightarrow> go_env \<Rightarrow> u32 \<Rightarrow> string \<Rightarrow> gx \<Rightarrow> go_ty \<Rightarrow> gs list gen" where
  "emitOptionalEncode fuel env tag wt x elem =
     (let envelope = (\<lambda>body. [SWrite (WTag tag wt), SBlock [SRegion ''m'' body]]);
          otherwise = (\<lambda>code. envelope [SIfNil x [SWrite WNil] (SWrite WNonZero # code)]) in
      if (case elem of Lit (TSlice u) \<Rightarrow> isByteType u | _ \<Rightarrow> False) then
        g_ret (envelope [SSwitch x LenZero [SWrite WNil] [SWrite WZero] [SWrite WNonZero, SWrite (WBytes (XDeref x))]])
      else if isBuiltinPrimitive elem then
        g_bind_list (emitPrimitiveEncode (XDeref x) elem []) (\<lambda>code.
          envelope [SSwitch x (EqZero (zeroValue elem)) [SWrite WNil] [SWrite WZero] (SWrite WNonZero # code)])
      else if named_struct env elem then g_ret (otherwise [SMarshal x])
      else g_bind_list (emitValueEncode fuel env (XDeref x) elem 0) otherwise)"

definition emitOptionalSize :: "nat \<Rightarrow> go_env \<Rightarrow> u32 \<Rightarrow> string \<Rightarrow> gx \<Rightarrow> go_ty \<Rightarrow> gs list gen" where
  "emitOptionalSize fuel env tag wt x elem =
     (let envelope = (\<lambda>body. [SAdd ''n'' (ZTag tag wt),
            SBlock (SDefine ''body'' (ZNum 1) # body @ [SAdd ''n'' (ZDelim (ZVar ''body''))])]);
          otherwise = (\<lambda>code. envelope [SGuard [x] code]) in
      if (case elem of Lit (TSlice u) \<Rightarrow> isByteType u | _ \<Rightarrow> False) then
        g_ret (envelope [SSwitch x LenZero [] [] [SAdd ''body'' (ZBytes (XDeref x))]])
      else if isBuiltinPrimitive elem then
        g_bind_list (emitPrimitiveSize ''body'' (XDeref x) elem []) (\<lambda>code.
          envelope [SSwitch x (EqZero (zeroValue elem)) [] [] code])
      else if named_struct env elem then g_ret (otherwise [SAdd ''body'' (ZSizeOf x)])
      else g_bind_list (emitValueSize fuel env ''body'' (XDeref x) elem 0) otherwise)"

section \<open>Codec fields\<close>

text \<open>
  An optional codec field is the envelope around the call on the pointee; of the three kinds only an
  analytic codec with a length-delimited body needs its length written in front.
\<close>

definition optional_codec :: "u32 \<Rightarrow> string \<Rightarrow> gx \<Rightarrow> gs list \<Rightarrow> gs list" where
  "optional_codec tag wt x code =
     [SWrite (WTag tag wt), SBlock [SRegion ''m'' [SIfNil x [SWrite WNil] (SWrite WNonZero # code)]]]"

definition emitCustomCodecEncode :: "go_env \<Rightarrow> u32 \<Rightarrow> string \<Rightarrow> gx \<Rightarrow> go_ty \<Rightarrow> string \<Rightarrow> gs list gen" where
  "emitCustomCodecEncode env tag wt x t codecName =
     g_bind (resolveCodec env codecName t) (\<lambda>decl.
       let target = (if is_pointer t then XDeref x else x);
           finish = (\<lambda>code. if is_pointer t then optional_codec tag wt x code else SWrite (WTag tag wt) # code) in
       case Kind decl of
         Some CodecKindAnalytic \<Rightarrow>
           g_bind (codecCallExpr decl (cd_EncodeFn decl)) (\<lambda>call.
             if cd_WireType decl = schema_WireLengthDelim then
               g_bind (codecCallExpr decl (cd_SizeFn decl)) (\<lambda>sizeCall.
                 g_ret (finish [SWrite (WCodecLen sizeCall target), SCodec call target None]))
             else g_ret (finish [SCodec call target None]))
       | Some CodecKindMaterializing \<Rightarrow>
           g_bind (codecCallExpr decl (cd_EmitFn decl)) (\<lambda>call.
             g_bind (g_step (callsiteFor tag)) (\<lambda>cs. g_ret (finish [SCodec call target (Some cs)])))
       | Some CodecKindStreaming \<Rightarrow>
           g_bind (codecCallExpr decl (cd_StreamFn decl)) (\<lambda>call. g_ret (finish [SCodec call target None]))
       | None \<Rightarrow> g_fail (NoCodecKind codecName))"

definition emitCustomCodecSize :: "go_env \<Rightarrow> u32 \<Rightarrow> string \<Rightarrow> gx \<Rightarrow> go_ty \<Rightarrow> string \<Rightarrow> gs list gen" where
  "emitCustomCodecSize env tag wt x t codecName =
     g_bind (resolveCodec env codecName t) (\<lambda>decl.
       let target = (if is_pointer t then XDeref x else x);
           acc = (if is_pointer t then ''body'' else ''n'');
           finish = (\<lambda>code. SAdd ''n'' (ZTag tag wt) #
             (if is_pointer t
              then [SBlock [SDefine ''body'' (ZNum 1), SGuard [x] code, SAdd ''n'' (ZDelim (ZVar ''body''))]]
              else code));
           counted = (\<lambda>call cs. if is_pointer t then [SAddCounted acc call target cs]
             else [SBlock [SAddCounted acc call target cs]]) in
       case Kind decl of
         Some CodecKindAnalytic \<Rightarrow>
           g_bind (codecCallExpr decl (cd_SizeFn decl)) (\<lambda>sizeCall.
             g_ret (finish [SAdd acc (if cd_WireType decl = schema_WireLengthDelim
               then ZDelim (ZCodec sizeCall target) else ZCodec sizeCall target)]))
       | Some CodecKindMaterializing \<Rightarrow>
           g_bind (codecCallExpr decl (cd_EmitFn decl)) (\<lambda>call.
             g_bind (g_step (callsiteFor tag)) (\<lambda>cs. g_ret (finish (counted call (Some cs)))))
       | Some CodecKindStreaming \<Rightarrow>
           g_bind (codecCallExpr decl (cd_StreamFn decl)) (\<lambda>call. g_ret (finish (counted call None)))
       | None \<Rightarrow> g_fail (NoCodecKind codecName))"

section \<open>Fields\<close>

definition with_guard :: "gx list \<Rightarrow> gs list \<Rightarrow> gs list" where
  "with_guard guard code = (if guard = [] then code else [SGuard guard code])"

definition emitFieldEncode :: "nat \<Rightarrow> go_env \<Rightarrow> field_entry \<Rightarrow> gs list gen" where
  "emitFieldEncode fuel env f =
     (let fd = fe_decl f; x = fe_accessPath f; t = var_Type (fe_gov f); tag = fd_Tag fd in
      g_bind (wireType env f) (\<lambda>wt.
        g_bind_list
          (if fd_CycleBreak fd then
             (case idRefTargetField env t of
                None \<Rightarrow> (\<lambda>e. None)
              | Some (Inl err) \<Rightarrow> g_fail (BadIDRef err)
              | Some (Inr (idName, idType, idOverride)) \<Rightarrow>
                  g_bind_list
                    (if idOverride \<noteq> [] then emitPrimitiveEncode (XSel x idName) (unnamed env idType) idOverride
                     else emitValueEncode fuel env (XSel x idName) idType 0)
                    (\<lambda>code. [SGuard [x] (SWrite (WTag tag wt) # code)]))
           else if fd_Custom fd \<noteq> [] then emitCustomCodecEncode env tag wt x t (fd_Custom fd)
           else if is_pointer t then emitOptionalEncode fuel env tag wt x (strip_pointer t)
           else
             g_bind_list
               (if fd_WireOverride fd \<noteq> [] then emitPrimitiveEncode x (unnamed env t) (fd_WireOverride fd)
                else emitValueEncode fuel env x t 0)
               (\<lambda>code. SWrite (WTag tag wt) # code))
          (with_guard (pointerEmbedGuard (fe_segments f)))))"

definition emitFieldSize :: "nat \<Rightarrow> go_env \<Rightarrow> field_entry \<Rightarrow> gs list gen" where
  "emitFieldSize fuel env f =
     (let fd = fe_decl f; x = fe_accessPath f; t = var_Type (fe_gov f); tag = fd_Tag fd in
      g_bind (wireType env f) (\<lambda>wt.
        g_bind_list
          (if fd_CycleBreak fd then
             (case idRefTargetField env t of
                None \<Rightarrow> (\<lambda>e. None)
              | Some (Inl err) \<Rightarrow> g_fail (BadIDRef err)
              | Some (Inr (idName, idType, idOverride)) \<Rightarrow>
                  g_bind_list
                    (if idOverride \<noteq> [] then emitPrimitiveSize ''n'' (XSel x idName) (unnamed env idType) idOverride
                     else emitValueSize fuel env ''n'' (XSel x idName) idType 0)
                    (\<lambda>code. [SGuard [x] (SAdd ''n'' (ZTag tag wt) # code)]))
           else if fd_Custom fd \<noteq> [] then emitCustomCodecSize env tag wt x t (fd_Custom fd)
           else if is_pointer t then emitOptionalSize fuel env tag wt x (strip_pointer t)
           else
             g_bind_list
               (if fd_WireOverride fd \<noteq> [] then emitPrimitiveSize ''n'' x (unnamed env t) (fd_WireOverride fd)
                else emitValueSize fuel env ''n'' x t 0)
               (\<lambda>code. SAdd ''n'' (ZTag tag wt) # code))
          (with_guard (pointerEmbedGuard (fe_segments f)))))"

section \<open>Methods\<close>

definition field_comment :: "field_decl \<Rightarrow> gs" where
  "field_comment fd =
     SComment (''tag '' @ dec_u32 (fd_Tag fd) @ '' '' @ fd_Name fd @
       (if \<not> encoded fd then '': deprecated, not written''
        else if fd_CompatWrite fd then '': deprecated, compat_write (rollback window)'' else []))"

definition in_field :: "string \<Rightarrow> string \<Rightarrow> 'a gen \<Rightarrow> 'a gen" where
  "in_field name fld m = (\<lambda>e.
     case m e of Some (Inl err) \<Rightarrow> Some (Inl (InField name fld err)) | r \<Rightarrow> r)"

text \<open>The field loop both methods have.\<close>

fun emit_fields :: "string \<Rightarrow> (field_entry \<Rightarrow> gs list gen) \<Rightarrow> field_entry list \<Rightarrow> gs list gen" where
  "emit_fields name emit [] = g_ret []"
| "emit_fields name emit (f # fs) =
     g_bind (if encoded (fe_decl f) then in_field name (fd_Name (fe_decl f)) (emit f) else g_ret []) (\<lambda>code.
       g_bind_list (emit_fields name emit fs) (\<lambda>rest. field_comment (fe_decl f) # code @ rest))"

definition set_struct :: "string \<Rightarrow> emitter \<Rightarrow> unit \<times> emitter" where
  "set_struct fqn e = ((), e\<lparr>et_structFQN := fqn\<rparr>)"

definition emit_method ::
  "go_env \<Rightarrow> named \<Rightarrow> go_var list \<Rightarrow> struct_decl \<Rightarrow> (field_entry \<Rightarrow> gs list gen) \<Rightarrow> gs list gen"
where
  "emit_method env n str sd emit =
     g_bind (g_step (set_struct (structFQN env n))) (\<lambda>_.
       g_bind (g_step (writableFields env str sd)) (\<lambda>fs.
         g_bind (emit_fields (to_Name (Obj env n)) emit fs) (\<lambda>code.
           g_bind (g_step (set_struct [])) (\<lambda>_. g_ret code))))"

text \<open>\<^verbatim>\<open>return w.Err()\<close> ends the first body, \<^verbatim>\<open>return n\<close> the second.\<close>

definition emitMarshal :: "nat \<Rightarrow> go_env \<Rightarrow> named \<Rightarrow> go_var list \<Rightarrow> struct_decl \<Rightarrow> gs list gen" where
  "emitMarshal fuel env n str sd = emit_method env n str sd (emitFieldEncode fuel env)"

definition emitSize :: "nat \<Rightarrow> go_env \<Rightarrow> named \<Rightarrow> go_var list \<Rightarrow> struct_decl \<Rightarrow> gs list gen" where
  "emitSize fuel env n str sd =
     g_bind_list (emit_method env n str sd (emitFieldSize fuel env)) (\<lambda>code. SDefine ''n'' (ZNum 0) # code)"

end
