(* ===== verification/Gen_Calls.thy ===== *)
theory Gen_Calls
  imports Gen_Methods
begin

text \<open>
  A generator step only adds imports, so a codec function keeps the name one method of a file calls it by
  in the methods emitted after it.
\<close>

section \<open>Steps keep what is bound\<close>

definition later :: "emitter \<Rightarrow> emitter \<Rightarrow> bool" where
  "later e e' \<longleftrightarrow> et_reg e' = et_reg e \<and> et_PkgPath e' = et_PkgPath e \<and>
     map_of (et_imports e) \<subseteq>\<^sub>m map_of (et_imports e')"

lemma later_refl [simp, intro]: "later e e" by (simp add: later_def)

lemma later_trans [trans]: "later a b \<Longrightarrow> later b c \<Longrightarrow> later a c"
  by (auto simp: later_def intro: map_le_trans)

lemma addImport_later: "addImport p name e = (a, e') \<Longrightarrow> later e e'"
  by (auto simp: addImport_def later_def map_le_def dom_def Let_def split: if_splits option.splits)

lemma typeExpr_later: "typeExpr env t e = (s, e') \<Longrightarrow> later e e'"
  by (induction env t e arbitrary: s e' rule: typeExpr.induct)
    (auto split: option.splits if_splits prod.splits dest: addImport_later intro: later_trans)

lemma embed_hops_later: "embed_hops env fs parts e = (r, e') \<Longrightarrow> later e e'"
proof (induction env fs parts e arbitrary: r e' rule: embed_hops.induct)
  case (2 env fs want parts e)
  then show ?case
    by (auto split: option.splits prod.splits dest: typeExpr_later intro: later_trans)
qed simp

lemma resolveEmbedChain_later: "resolveEmbedChain env str chain leaf e = (r, e') \<Longrightarrow> later e e'"
  by (auto simp: resolveEmbedChain_def split: prod.splits option.splits dest: embed_hops_later)

lemma field_entry_of_later: "field_entry_of env str fd e = (es, e') \<Longrightarrow> later e e'"
  by (auto simp: field_entry_of_def split: prod.splits option.splits if_splits dest: resolveEmbedChain_later)

lemma field_entries_later: "field_entries env str fds e = (es, e') \<Longrightarrow> later e e'"
proof (induction fds arbitrary: e es e')
  case (Cons fd fds)
  then show ?case
    by (auto split: prod.splits dest!: field_entry_of_later intro: later_trans)
qed simp

lemma writableFields_later: "writableFields env str sd e = (es, e') \<Longrightarrow> later e e'"
  by (auto simp: writableFields_def split: prod.splits dest: field_entries_later)

lemma named_work_later: "named_work env n e = (ws, e') \<Longrightarrow> later e e'"
  by (auto simp: named_work_def split: prod.splits option.splits if_splits dest: writableFields_later)

lemma cache_later [simp]: "later e (e'\<lparr>et_materializeCache := c\<rparr>) \<longleftrightarrow> later e e'"
  by (simp add: later_def)

lemma contains_materializing_later:
  "contains_materializing env work s = Some r \<Longrightarrow> later (snd s) (snd (snd r))"
proof (induction rule: contains_materializing.raw_induct [rotated, consumes 1, case_names step])
  case (step f env work s r)
  show ?case
  proof (cases work)
    case (Cons w rest)
    show ?thesis
    proof (cases w)
      case (MType t)
      show ?thesis
      proof (cases t)
        case (Named i as)
        obtain visited e where s: "s = (visited, e)" by (cases s)
        obtain inner e1 where nw: "named_work env (i, as) e = (inner, e1)" by fastforce
        have first: "later e e1" by (rule named_work_later [OF nw])
        show ?thesis
        proof (cases "(i, as) \<in> set visited \<or> map_of (et_materializeCache e) (i, as) \<noteq> None")
          case True
          then show ?thesis
            using step(2) step(1) [of env rest s r] Cons MType Named s by (auto split: if_splits option.splits)
        next
          case False
          then obtain b v2 e2 where in_run: "f env inner ((i, as) # visited, e1) = Some (b, v2, e2)"
            "r = (True, v2, e2\<lparr>et_materializeCache := ((i, as), b) # et_materializeCache e2\<rparr>) \<or>
             f env rest (v2, e2\<lparr>et_materializeCache := ((i, as), b) # et_materializeCache e2\<rparr>) = Some r"
            using step(2) Cons MType Named s nw
            by (auto simp: bind_eq_Some_conv Let_def split: if_splits option.splits)
          have l2: "later e e2" using later_trans [OF first] step(1) [OF in_run(1)] by simp
          from in_run(2) show ?thesis
          proof
            assume "f env rest (v2, e2\<lparr>et_materializeCache := ((i, as), b) # et_materializeCache e2\<rparr>) = Some r"
            then have "later e2 (snd (snd r))" using step(1) by (fastforce simp: later_def)
            then show ?thesis using l2 s by (auto intro: later_trans)
          qed (use l2 s in simp)
        qed
      next
        case (Alias x l)
        then show ?thesis using step(2) step(1) [of env rest s r] Cons MType by simp
      next
        case (Lit l)
        show ?thesis
          using step(2) Cons MType Lit by (cases l) (simp_all add: step(1))
      qed
    qed (use step(2) Cons in auto)
  qed (use step(2) in auto)
qed

section \<open>Generator steps\<close>

definition steady :: "'a gen \<Rightarrow> bool" where
  "steady m \<longleftrightarrow> (\<forall>e x e'. m e = Some (Inr (x, e')) \<longrightarrow> later e e')"

lemma steadyD: "steady m \<Longrightarrow> m e = Some (Inr (x, e')) \<Longrightarrow> later e e'"
  by (auto simp: steady_def)

named_theorems steady_intros

lemma steady_ret [steady_intros]: "steady (g_ret x)" by (auto simp: steady_def)
lemma steady_fail [steady_intros]: "steady (g_fail err)" by (auto simp: steady_def)
lemma steady_none [steady_intros]: "steady (\<lambda>e. None)" by (auto simp: steady_def)

lemma steady_bind [steady_intros]: "steady m \<Longrightarrow> (\<And>x. steady (f x)) \<Longrightarrow> steady (g_bind m f)"
  by (fastforce simp: steady_def intro: later_trans)

lemma steady_bind_list [steady_intros]: "steady m \<Longrightarrow> steady (g_bind_list m f)"
  unfolding steady_def by auto

lemma steady_if [steady_intros]: "(b \<Longrightarrow> steady m) \<Longrightarrow> (\<not> b \<Longrightarrow> steady n) \<Longrightarrow> steady (if b then m else n)"
  by simp

lemma steady_step: "(\<And>e x e'. f e = (x, e') \<Longrightarrow> later e e') \<Longrightarrow> steady (g_step f)"
  unfolding steady_def by (metis g_ok(3))

lemma steady_import [steady_intros]: "steady (g_step (addImport p n))" by (rule steady_step) (rule addImport_later)
lemma steady_typeExpr [steady_intros]: "steady (g_step (typeExpr env t))" by (rule steady_step) (rule typeExpr_later)

lemma steady_fields [steady_intros]: "steady (g_step (writableFields env str sd))"
  by (rule steady_step) (rule writableFields_later)

lemma steady_struct [steady_intros]: "steady (g_step (set_struct n))"
  by (rule steady_step) (auto simp: set_struct_def later_def)

lemma steady_callsite [steady_intros]: "steady (g_step (callsiteFor tag))"
  by (rule steady_step) (auto simp: callsiteFor_def later_def Let_def split: if_splits)

lemma steady_materializing [steady_intros]: "steady (typeContainsMaterializingCodec env t)"
  by (auto simp: steady_def typeContainsMaterializingCodec_def dest: contains_materializing_later)

lemma steady_resolveCodec [steady_intros]: "steady (resolveCodec env n t)"
  by (auto simp: steady_def resolveCodec_def Let_def split: option.splits if_splits)

lemma steady_codecCallExpr [steady_intros]: "steady (codecCallExpr decl fn)"
  by (auto simp: steady_def codecCallExpr_def split: if_splits prod.splits dest: addImport_later)

lemma steady_wireType [steady_intros]: "steady (wireType env f)"
  by (auto simp: steady_def wireType_def Let_def split: option.splits sum.splits if_splits)

lemma steady_under_expr [steady_intros]: "steady (under_expr env t x)"
  by (auto simp: under_expr_def intro!: steady_intros)

lemma steady_primitives [steady_intros]:
  "steady (emitPrimitiveSize acc x t ov)" "steady (emitPrimitiveEncode x t ov)" "steady (emitKeySort env t)"
  unfolding emitPrimitiveSize_def emitIntSize_def emitPrimitiveEncode_def emitIntEncode_def emitKeySort_def Let_def
  by (auto intro!: steady_intros split: go_ty.split go_lit.split sum.split option.split)

lemma steady_slice_size:
  "(\<And>acc x t d. steady (emit acc x t d)) \<Longrightarrow> steady (emitSliceSize env emit acc x u d)"
  "(\<And>acc x t d. steady (emit acc x t d)) \<Longrightarrow> steady (emitMapSize env emit acc x kt u d)"
  unfolding emitSliceSize_def emitMapSize_def Let_def by (auto intro!: steady_intros)

lemma steady_value_size [steady_intros]: "steady (emitValueSize fuel env acc x t d)"
proof (induction fuel arbitrary: acc x t d)
  case 0
  show ?case by (simp add: steady_def)
next
  case (Suc fuel)
  show ?case
    by (auto intro!: steady_intros steady_slice_size Suc split: go_ty.split go_lit.split option.split)
qed

lemma steady_composites:
  assumes "\<And>acc x t d. steady (sz acc x t d)" and "\<And>x t d. steady (emit x t d)"
  shows "steady (emitSliceEncode env sz emit x u d)" and "steady (emitMapEncode env sz emit x kt u d)"
  using assms
  unfolding emitSliceEncode_def emitSliceEncodeCompositeFallback_def emitMapEncode_def emitMapEncodeFallback_def
    emit_sorted_loop_def Let_def
  by (auto intro!: steady_intros)

lemma steady_value_encode [steady_intros]: "steady (emitValueEncode fuel env x t d)"
proof (induction fuel arbitrary: x t d)
  case 0
  show ?case by (simp add: steady_def)
next
  case (Suc fuel)
  show ?case
    by (auto intro!: steady_intros steady_composites Suc split: go_ty.split go_lit.split option.split)
qed

lemma steady_optional [steady_intros]:
  "steady (emitOptionalEncode fuel env tag wt x t)" "steady (emitOptionalSize fuel env tag wt x t)"
  unfolding emitOptionalEncode_def emitOptionalSize_def Let_def by (auto intro!: steady_intros)

lemma steady_codecs [steady_intros]:
  "steady (emitCustomCodecEncode env tag wt x t n)" "steady (emitCustomCodecSize env tag wt x t n)"
  unfolding emitCustomCodecEncode_def emitCustomCodecSize_def Let_def
  by (auto intro!: steady_intros split: option.split codec_kind.split)

lemma steady_field:
  "steady (emitFieldEncode fuel env f)" "steady (emitFieldSize fuel env f)"
  unfolding emitFieldEncode_def emitFieldSize_def Let_def
  by (auto intro!: steady_intros split: option.split sum.split)

section \<open>The name of a codec function\<close>

text \<open>What a file whose import table is that of \<open>e\<close> calls a codec function.\<close>

definition call_name :: "emitter \<Rightarrow> codec_decl \<Rightarrow> string \<Rightarrow> string \<Rightarrow> bool" where
  "call_name e decl fn c \<longleftrightarrow>
     (if cd_PkgImport decl = [] \<or> cd_PkgImport decl = et_PkgPath e then c = fn
      else \<exists>a. map_of (et_imports e) (cd_PkgImport decl) = Some a \<and> c = a @ ''.'' @ fn)"

lemma call_name_later: "later e e' \<Longrightarrow> call_name e decl fn c \<Longrightarrow> call_name e' decl fn c"
  by (auto simp: later_def call_name_def map_le_def dom_def split: if_splits)

lemma codecCallExpr_name: "codecCallExpr decl fn e = Some (Inr (c, e')) \<Longrightarrow> call_name e' decl fn c"
  by (auto simp: codecCallExpr_def call_name_def addImport_def Let_def split: if_splits option.splits prod.splits)

lemma lookup_later: "later e e' \<Longrightarrow> lookupCodec n e = lookupCodec n e'"
  by (simp add: later_def lookupCodec_def)

end
