(* ===== verification/Spec2Isabelle.thy ===== *)
theory Spec2Isabelle
  imports Sizing Stream_Reader Decode_Into Presence_Track Classifier_Spec Reference_Cover Collisions Snapshot
    Builtin_Codecs Gen_Wire Gen_Materialize Gen_Write Gen_Calls
begin

text \<open>
  A verification development for \<^verbatim>\<open>gsbm\<close>: the tagged binary codec under \<^verbatim>\<open>storage/gsbm\<close> and the schema
  tools under \<^verbatim>\<open>tools/gsbmschema\<close> and \<^verbatim>\<open>tools/gsbmcodegen\<close> that decide which Go structs may use it.

  \<^bold>\<open>The codec.\<close> A blob is a 12- or 16-byte header and a body of tagged fields. Generated or
  handwritten \<^verbatim>\<open>MarshalGSBM\<close> methods drive a \<^verbatim>\<open>Writer\<close>; \<^verbatim>\<open>UnmarshalGSBM\<close> methods drive a \<^verbatim>\<open>Reader\<close>.
  \<^verbatim>\<open>Marshal\<close> runs the method twice: on a counting Writer for the body length, then on a buffered or
  streaming one; a cache handed from the first pass to the second keeps materialising codecs from
  running twice. A compressed body goes through a streaming encoder and is inflated by
  \<^verbatim>\<open>ReadHeader\<close>. A Reader takes its strings and slices from an \<^verbatim>\<open>Allocator\<close>: the heap, an interner
  or a bump arena.

  \<^bold>\<open>The schema tools.\<close> From the typechecked packages of a module, \<^verbatim>\<open>Discover\<close> finds the annotated root
  structs and \<^verbatim>\<open>BuildSchema\<close> walks the closure of the structs their fields mention, with a table of
  structs met and a queue of structs to flatten. \<^verbatim>\<open>Validate\<close> applies the rules and the cycle check to
  the schema; \<^verbatim>\<open>Analyze\<close> is the two together. \<^verbatim>\<open>Classify\<close> compares two schemas and the CI gate decides on the
  changes. \<^verbatim>\<open>SchemaHint\<close> hashes a schema, \<^verbatim>\<open>MarshalYAML\<close> writes its snapshot.

  \<^bold>\<open>Theories of the codec.\<close>
  \<^item> \<open>Gsbm_Prelude\<close>: machine types, the sentinel errors, outcomes with panic, slices,
    little-endian access.
  \<^item> \<open>Varint\<close> (\<^verbatim>\<open>varint.go\<close>), \<open>Wire\<close> (\<^verbatim>\<open>wire.go\<close>), \<open>Header\<close> (constants, flags and options of
    \<^verbatim>\<open>gsbm.go\<close>), \<open>Compress\<close> (decode side of \<^verbatim>\<open>compress.go\<close>).
  \<^item> \<open>Reader\<close> (\<^verbatim>\<open>reader.go\<close>, \<^verbatim>\<open>ReadPresenceByte\<close>): the struct as a record, one definition per
    method. \<open>Reader_Spec\<close>: each operation refines a list parser. \<open>Reader_Safety\<close>: the
    Reader with its nested regions as a step relation, its invariant, absence of panics, sticky
    errors. \<open>Reader_Header\<close>: \<^verbatim>\<open>ReadHeader\<close> against its specification. \<open>Stream_Reader\<close>: the
    constructors that drain an \<^verbatim>\<open>io.Reader\<close> under a byte limit.
  \<^item> \<open>Writer\<close> (\<^verbatim>\<open>writer.go\<close>, presence writers): one record for the three modes.
    \<open>Writer_Spec\<close>: programs of Writer calls, their meaning, and the locale \<open>writer_mode\<close>, the
    contract a mode has to meet for a program to mean the same in it. \<open>Writer_Modes\<close>: its
    interpretations for size, buffered and streaming mode. \<open>Writer_Cache\<close>: the materialisation
    cache across the two passes. \<open>Sizing\<close> (\<^verbatim>\<open>sizing.go\<close>): the size helpers agree with the writes.
  \<^item> \<open>Marshal\<close> (\<^verbatim>\<open>gsbm.go\<close>): the encode entry points. \<open>Marshal_Spec\<close>: what they return.
    \<open>Roundtrip\<close>: encode and decode are inverse end to end.
  \<^item> \<open>Allocator\<close> (\<^verbatim>\<open>allocator.go\<close>): the interface as a locale, the heap as its first instance.
    \<open>Interner\<close> (\<^verbatim>\<open>intern.go\<close>), \<open>Slice_Pool\<close> (the typed pools and the decoder's slice budget) and
    \<open>Arena\<close> (\<^verbatim>\<open>gsbmarena\<close>) are the others. \<open>Decode_Into\<close> (\<^verbatim>\<open>decode_into.go\<close>, \<^verbatim>\<open>DecodeInterned\<close>): a root
    decoded through each of them. \<open>Presence_Track\<close> (\<^verbatim>\<open>presence_track.go\<close>): the sidecar of decoded tags
    refines a set.

  \<^bold>\<open>Theories of the schema tools.\<close>
  \<^item> \<open>Schema_Types\<close> (\<^verbatim>\<open>types.go\<close>): the schema model. \<open>Field_Tag\<close>, \<open>Markers\<close> (\<^verbatim>\<open>parse.go\<close>): the \<^verbatim>\<open>bin\<close> tag and
    the \<^verbatim>\<open>//gsbm:\<close> directives. \<open>Wire_Override\<close> (\<^verbatim>\<open>wireoverride.go\<close>): the \<^verbatim>\<open>type=\<close> contract.
  \<^item> \<open>Shapes\<close>, \<open>Validate\<close>, \<open>Validate_Spec\<close> (\<^verbatim>\<open>validate.go\<close>): the references in a shape string, the
    rules, the cycle check, and what a schema without issues is. \<open>Classifier\<close>,
    \<open>Classifier_Spec\<close> (\<^verbatim>\<open>classifier.go\<close>): the diff and the gate. \<open>Schema_Hash\<close> (\<^verbatim>\<open>hash.go\<close>),
    \<open>Snapshot\<close> (\<^verbatim>\<open>snapshot.go\<close>).
  \<^item> \<open>Go_Types\<close> (\<^verbatim>\<open>packages.go\<close>, \<^verbatim>\<open>idref.go\<close>): what is read of a typechecked program. \<open>Supported_Types\<close>,
    \<open>Field_Shape\<close>, \<open>Discover\<close>, \<open>Build_Schema\<close> (\<^verbatim>\<open>discover.go\<close>, \<^verbatim>\<open>Analyze\<close> of \<^verbatim>\<open>runner.go\<close>): the checker of
    field types, the shape of a field, the declaration of a struct, the walk.
  \<^item> \<open>Discover_Spec\<close>, \<open>Closure\<close>, \<open>Discover_Returns\<close>, \<open>Analyze_Spec\<close>: the table the walk fills is the set
    of structs reachable from the roots; the analysis returns on every program of finitely many types
    with no infinite descent, and the order Go iterates the table in does not show. \<open>Reference_Cover\<close>:
    the walk's edges are among those the cycle check follows. \<open>Collisions\<close>: promoted fields never share
    a tag.
  \<^item> \<open>Codec_Registry\<close> (\<^verbatim>\<open>registry.go\<close>), \<open>Builtin_Codecs\<close> (\<^verbatim>\<open>builtins.go\<close>): the custom codecs a generator
    run knows and the ones it ships.

  \<^bold>\<open>Conventions.\<close> A Go \<^verbatim>\<open>int\<close> is an \<^typ>\<open>int\<close>; a \<^verbatim>\<open>uint64\<close> and the other sized integers keep their
  width as words, and the conversions \<open>go_uint64\<close>, \<open>go_int\<close> wrap as in Go on a 64-bit platform.
  Floats are their IEEE bits; in the codec strings are byte lists, in the tools lists of characters.
  A run-time panic is a value (\<open>Panic\<close>, or \<open>None\<close> for the two Writer operations that can panic), so
  its absence is a theorem. In the schema tools \<open>None\<close> is a call that never returns or dereferences
  nil, so that the analysis returns is a theorem too (\<open>Analyze_returns\<close>).

  \<^bold>\<open>Loops and bounds.\<close> Loops are total functions: \<open>readUvarint\<close> ends after ten rounds, the chunking
  loop consumes its argument, the type checker descends into its type. The cycle check runs on a depth of
  one more than the number of structs, which is enough because the structs on its stack are distinct.
  The walks that follow named types to their underlying types may run forever and are
  \<open>partial_function\<close>s; \<open>recursive_slice_diverges\<close> is a program on which the shape walk does.

  \<^bold>\<open>Parameters.\<close> Code outside the repository is an argument: the zstd and gzip decoders
  (\<open>codec_lib\<close>), encoders (\<open>enc_lib\<close>), an \<^verbatim>\<open>io.Writer\<close> (\<open>sink\<close>), an \<^verbatim>\<open>io.Reader\<close>'s pieces, SHA-256,
  the order of Go's map iteration, and what \<^verbatim>\<open>go/types\<close> computes (\<open>go_env\<close>: the underlying type of a named
  type, its object, the printed form of a type). What is assumed of them is named: \<open>codec_lib_ok\<close>,
  \<open>codec_laws\<close>, \<open>transparent\<close>, \<open>go_program\<close>; \<open>stored_lib\<close>, \<open>stored_enc\<close> and \<open>ex_env\<close> show that
  the assumptions can hold. A \<^verbatim>\<open>Marshaler\<close> is a tree of Writer calls (\<open>wop\<close>) with callbacks over an
  arbitrary outside state.

  \<^bold>\<open>Abstractions.\<close> Issues and changes keep their code and the operands of their message, not its
  wording, the source position, or the text of an error from \<^verbatim>\<open>strconv\<close>. A named type is the number of
  its declaration with its type arguments, so equal types are equal values and a type alias is kept
  apart. \<^verbatim>\<open>strings.ToLower\<close>, \<^verbatim>\<open>strings.TrimSpace\<close> and JSON quoting are those of ASCII text. A
  \<^verbatim>\<open>sync.Pool\<close>, mutex or atomic is modelled at the point where its operation takes effect.

  \<^bold>\<open>Not modelled.\<close> Loading and type-checking packages (\<^verbatim>\<open>loader.go\<close> drives \<^verbatim>\<open>golang.org/x/tools\<close>), the
  Go text the generator prints (\<^verbatim>\<open>emit.go\<close>, \<^verbatim>\<open>codegen.go\<close>, \<^verbatim>\<open>arena.go\<close>), flags and file access of the
  commands, \<^verbatim>\<open>MarshalJSON\<close> (it is \<^verbatim>\<open>encoding/json\<close>), the wording of issues and diffs, generated
  fixtures and the benchmarks.
\<close>

end
